(* ===== verification/Prelude.thy ===== *)
theory Prelude
  imports Main "HOL-Library.Word"
begin

text \<open>
  Shared vocabulary of the development: bytes and byte strings, fixed-width integers in
  little- and big-endian order (encoding/binary), slices, the text formatting verbs that
  error messages use, and the generic list and word lemmas that the component theories
  share.  A Go \<open>[]byte\<close> is a list of 8-bit words, a Go string a HOL \<open>string\<close>
  (both count bytes), a Go \<open>int\<close> holding a length a \<open>nat\<close> (the platform's
  \<open>int\<close> is taken to be 64 bits wide, so that a uint32 read into it is never negative).
\<close>

unbundle bit_operations_syntax

named_theorems byte_simps "facts that evaluate and measure byte encodings"

type_synonym byte = "8 word"
type_synonym bytes = "byte list"
type_synonym u16 = "16 word"
type_synonym u32 = "32 word"
type_synonym u64 = "64 word"

section \<open>Strings as bytes\<close>

definition str_bytes :: "string \<Rightarrow> bytes" where
  "str_bytes s = map (\<lambda>c. word_of_nat (of_char c)) s"

definition bytes_str :: "bytes \<Rightarrow> string" where
  "bytes_str bs = map (\<lambda>b. char_of (unat b)) bs"

lemma length_str_bytes [simp]: "length (str_bytes s) = length s"
  by (simp add: str_bytes_def)

lemma length_bytes_str [simp]: "length (bytes_str bs) = length bs"
  by (simp add: bytes_str_def)

lemma of_char_lt_256: "(of_char c :: nat) < 256"
  by (rule nat_of_char_less_256)

lemma bytes_str_str_bytes [simp]: "bytes_str (str_bytes s) = s"
  by (simp add: bytes_str_def str_bytes_def o_def unat_of_nat of_char_lt_256)

lemma str_bytes_bytes_str [simp]: "str_bytes (bytes_str bs) = bs"
proof -
  have "unat b mod 256 = unat b" for b :: byte
    using unsigned_less [of b, where 'a=nat] by simp
  then show ?thesis
    by (simp add: bytes_str_def str_bytes_def o_def)
qed

lemma str_bytes_inject [simp]: "str_bytes s = str_bytes t \<longleftrightarrow> s = t"
  by (metis bytes_str_str_bytes)

lemma str_bytes_append [simp]: "str_bytes (s @ t) = str_bytes s @ str_bytes t"
  by (simp add: str_bytes_def)

section \<open>Slices\<close>

text \<open>\<open>slice a b xs\<close> is Go's \<open>xs[a:b]\<close> for \<open>a \<le> b \<le> len(xs)\<close>; the
  callers establish the bounds, as the source does.\<close>

definition slice :: "nat \<Rightarrow> nat \<Rightarrow> 'a list \<Rightarrow> 'a list" where
  "slice a b xs = take (b - a) (drop a xs)"

lemma length_slice [simp]: "b \<le> length xs \<Longrightarrow> length (slice a b xs) = b - a"
  by (simp add: slice_def)

lemma slice_zero: "slice 0 b xs = take b xs"
  by (simp add: slice_def)

lemma drop_slice: "a \<le> b \<Longrightarrow> drop a xs = slice a b xs @ drop b xs"
  using append_take_drop_id [of "b - a" "drop a xs"] by (simp add: slice_def)

lemma slice_take_append:
  "b \<le> n \<Longrightarrow> n \<le> length xs \<Longrightarrow> slice a b (take n xs @ ys) = slice a b xs"
proof -
  assume a: "b \<le> n" "n \<le> length xs"
  have "slice a b zs = drop a (take b zs)" for zs :: "'a list"
    by (simp add: slice_def drop_take)
  with a show ?thesis by (simp add: min_def)
qed

lemma slice_append_right: "length xs \<le> a \<Longrightarrow> slice a b (xs @ ys) = slice (a - length xs) (b - length xs) ys"
  by (simp add: slice_def)

lemma slice_prefix: "length xs = a \<Longrightarrow> b = a + length ys \<Longrightarrow> slice a b (xs @ ys @ zs) = ys"
  by (simp add: slice_def)

section \<open>Little- and big-endian integers\<close>

primrec le_bytes :: "nat \<Rightarrow> nat \<Rightarrow> bytes" where
  "le_bytes 0 n = []"
| "le_bytes (Suc k) n = word_of_nat n # le_bytes k (n div 256)"

primrec le_nat :: "bytes \<Rightarrow> nat" where
  "le_nat [] = 0"
| "le_nat (b # bs) = unat b + 256 * le_nat bs"

definition be_bytes :: "nat \<Rightarrow> nat \<Rightarrow> bytes" where
  "be_bytes k n = rev (le_bytes k n)"

definition be_nat :: "bytes \<Rightarrow> nat" where
  "be_nat bs = le_nat (rev bs)"

lemma length_le_bytes [simp]: "length (le_bytes k n) = k"
  by (induction k arbitrary: n) simp_all

lemma length_be_bytes [simp]: "length (be_bytes k n) = k"
  by (simp add: be_bytes_def)

lemma le_bytes_neq_Nil [simp]: "0 < k \<Longrightarrow> le_bytes k n \<noteq> []"
  by (cases k) simp_all

lemma le_nat_le_bytes: "le_nat (le_bytes k n) = n mod 256 ^ k"
proof (induction k arbitrary: n)
  case 0
  then show ?case by simp
next
  case (Suc k)
  then show ?case
    by (simp add: unat_of_nat mod_mult2_eq)
qed

lemma le_nat_append: "le_nat (xs @ ys) = le_nat xs + 256 ^ length xs * le_nat ys"
  by (induction xs) (simp_all add: algebra_simps)

lemma unat_byte_lt [simp]: "unat (b :: byte) < 256"
  using unsigned_less [of b, where 'a=nat] by simp

lemma le_nat_bound: "le_nat bs < 256 ^ length bs"
proof (induction bs)
  case Nil
  then show ?case by simp
next
  case (Cons b bs)
  have "unat b + 256 * le_nat bs < 256 + 256 * le_nat bs" by simp
  also have "\<dots> = 256 * Suc (le_nat bs)" by simp
  also have "\<dots> \<le> 256 * 256 ^ length bs" using Cons by (simp only: Suc_le_eq mult_le_cancel1) simp
  finally show ?case by simp
qed

lemma le_bytes_le_nat: "le_bytes (length bs) (le_nat bs) = bs"
proof (induction bs)
  case Nil
  then show ?case by simp
next
  case (Cons b bs)
  have "unat (word_of_nat (unat b + 256 * le_nat bs) :: byte) = unat b"
    by (simp only: unat_of_nat) simp
  then have "(word_of_nat (unat b + 256 * le_nat bs) :: byte) = b"
    by (simp only: word_unat_eq_iff)
  with Cons show ?case by simp
qed

lemma be_nat_be_bytes: "be_nat (be_bytes k n) = n mod 256 ^ k"
  by (simp add: be_nat_def be_bytes_def le_nat_le_bytes)

lemma be_bytes_be_nat: "be_bytes (length bs) (be_nat bs) = bs"
  using le_bytes_le_nat [of "rev bs"] by (simp add: be_nat_def be_bytes_def)

lemma be_nat_bound: "be_nat bs < 256 ^ length bs"
  using le_nat_bound [of "rev bs"] by (simp add: be_nat_def)

text \<open>\<open>binary.LittleEndian.AppendUint32\<close> and its reader, and the 64-bit pair.\<close>

definition put32 :: "u32 \<Rightarrow> bytes" where
  "put32 v = le_bytes 4 (unat v)"

definition get32 :: "bytes \<Rightarrow> u32" where
  "get32 bs = word_of_nat (le_nat (take 4 bs))"

definition put64 :: "u64 \<Rightarrow> bytes" where
  "put64 v = le_bytes 8 (unat v)"

definition get64 :: "bytes \<Rightarrow> u64" where
  "get64 bs = word_of_nat (le_nat (take 8 bs))"

lemma length_put32 [simp]: "length (put32 v) = 4"
  by (simp add: put32_def)

lemma length_put64 [simp]: "length (put64 v) = 8"
  by (simp add: put64_def)

lemma unat_u32_lt: "unat (v :: u32) < 4294967296"
  using unsigned_less [of v, where 'a=nat] by simp

lemma unat_u64_lt: "unat (v :: u64) < 18446744073709551616"
  using unsigned_less [of v, where 'a=nat] by simp

lemma get32_put32 [simp]: "get32 (put32 v @ xs) = v"
  using unat_u32_lt [of v] by (simp add: get32_def put32_def le_nat_le_bytes)

lemma get32_put32' [simp]: "get32 (put32 v) = v"
  using get32_put32 [of v "[]"] by simp

lemma get64_put64 [simp]: "get64 (put64 v @ xs) = v"
  using unat_u64_lt [of v] by (simp add: get64_def put64_def le_nat_le_bytes)

lemma get64_put64' [simp]: "get64 (put64 v) = v"
  using get64_put64 [of v "[]"] by simp

lemma put32_get32: "length bs = 4 \<Longrightarrow> put32 (get32 bs) = bs"
  using le_bytes_le_nat [of bs] le_nat_bound [of bs]
  by (simp add: put32_def get32_def unat_of_nat)

lemma put64_get64: "length bs = 8 \<Longrightarrow> put64 (get64 bs) = bs"
  using le_bytes_le_nat [of bs] le_nat_bound [of bs]
  by (simp add: put64_def get64_def unat_of_nat)

lemma put32_inject [simp]: "put32 v = put32 w \<longleftrightarrow> v = w"
  by (metis get32_put32')

lemma unat_get32_lt: "unat (get32 bs) < 4294967296"
  by (rule unat_u32_lt)

lemma put32_word_of_nat: "n < 4294967296 \<Longrightarrow> unat (get32 (put32 (word_of_nat n) @ xs)) = n"
  by (simp add: unat_of_nat)

section \<open>Padding to a multiple of four\<close>

lemma mod4_cases:
  fixes n :: nat
  obtains "n mod 4 = 0" | "n mod 4 = 1" | "n mod 4 = 2" | "n mod 4 = 3"
proof -
  have "n mod 4 < 4" by simp
  then show ?thesis using that by linarith
qed

definition pad4 :: "nat \<Rightarrow> nat" where
  "pad4 n = (4 - n mod 4) mod 4"

lemma pad4_zero_iff [simp]: "pad4 n = 0 \<longleftrightarrow> n mod 4 = 0"
  by (cases n rule: mod4_cases) (simp_all add: pad4_def)

lemma pad4_Suc: "n mod 4 \<noteq> 0 \<Longrightarrow> pad4 n = Suc (pad4 (Suc n))"
  by (cases n rule: mod4_cases) (simp_all add: pad4_def mod_Suc)

lemma pad4_less: "n mod 4 \<noteq> 0 \<Longrightarrow> pad4 (Suc n) < pad4 n"
  by (simp add: pad4_Suc)

lemma add_pad4_mod [simp]: "(n + pad4 n) mod 4 = 0"
proof -
  have "(n mod 4 + pad4 n) mod 4 = 0"
    by (cases n rule: mod4_cases) (simp_all add: pad4_def)
  then show ?thesis by (simp only: mod_add_left_eq)
qed

lemma pad4_add_aligned: "m mod 4 = 0 \<Longrightarrow> pad4 (m + n) = pad4 n"
  using mod_add_left_eq [of m 4 n] by (simp add: pad4_def)

section \<open>Exclusive or of byte strings\<close>

definition xor_bytes :: "bytes \<Rightarrow> bytes \<Rightarrow> bytes" where
  "xor_bytes a b = map2 (XOR) a b"

lemma length_xor_bytes [simp]: "length (xor_bytes a b) = min (length a) (length b)"
  by (simp add: xor_bytes_def)

lemma xor_bytes_cancel: "length a \<le> length b \<Longrightarrow> xor_bytes (xor_bytes a b) b = a"
proof (induction a arbitrary: b)
  case Nil
  then show ?case by (simp add: xor_bytes_def)
next
  case (Cons x a)
  then obtain y b' where "b = y # b'" by (cases b) auto
  with Cons show ?case by (simp add: xor_bytes_def xor.assoc)
qed

section \<open>Blocks\<close>

lemma block_induct [consumes 2, case_names Nil Block]:
  assumes "0 < n" and "length xs mod n = 0" and "P []"
    and "\<And>b ys. length b = n \<Longrightarrow> length ys mod n = 0 \<Longrightarrow> P ys \<Longrightarrow> P (b @ ys)"
  shows "P (xs :: 'a list)"
  using assms(2)
proof (induction "length xs" arbitrary: xs rule: less_induct)
  case less
  show ?case
  proof (cases "xs = []")
    case True
    with assms(3) show ?thesis by simp
  next
    case False
    have le: "n \<le> length xs"
    proof (rule ccontr)
      assume "\<not> n \<le> length xs"
      then have "length xs mod n = length xs" by simp
      with less.prems False show False by simp
    qed
    then have m: "length (drop n xs) mod n = 0"
      using less.prems by (simp add: le_mod_geq)
    have "length (drop n xs) < length xs" using False assms(1) by simp
    from less.hyps [OF this m] assms(4) [of "take n xs" "drop n xs"] m le
    show ?thesis by simp
  qed
qed

lemma length_mod_append: "length b = n \<Longrightarrow> length (b @ ys) mod n = length ys mod n"
  by simp

section \<open>Formatting verbs\<close>

text \<open>\<open>%d\<close> of a natural number.\<close>

fun dec_nat :: "nat \<Rightarrow> string" where
  "dec_nat n = (if n < 10 then [char_of (48 + n)] else dec_nat (n div 10) @ [char_of (48 + n mod 10)])"

declare dec_nat.simps [simp del]

definition dec_int :: "int \<Rightarrow> string" where
  "dec_int i = (if i < 0 then ''-'' @ dec_nat (nat (- i)) else dec_nat (nat i))"

text \<open>\<open>strings.Join\<close>\<close>

fun join :: "string \<Rightarrow> string list \<Rightarrow> string" where
  "join sep [] = []"
| "join sep [s] = s"
| "join sep (s # t # rest) = s @ sep @ join sep (t # rest)"

text \<open>Lower-case hexadecimal: one digit, a byte (\<open>%02x\<close>), a byte string (\<open>%x\<close>) and a
  32-bit word (\<open>%08x\<close>).\<close>

definition hex_digit :: "nat \<Rightarrow> char" where
  "hex_digit n = ''0123456789abcdef'' ! n"

definition hex_byte :: "byte \<Rightarrow> string" where
  "hex_byte b = [hex_digit (unat b div 16), hex_digit (unat b mod 16)]"

fun hex_nat :: "nat \<Rightarrow> string" where
  "hex_nat n = (if n < 16 then [hex_digit n] else hex_nat (n div 16) @ [hex_digit (n mod 16)])"

declare hex_nat.simps [simp del]

definition hex_word32 :: "u32 \<Rightarrow> string" where
  "hex_word32 v = concat (map hex_byte (rev (put32 v)))"

lemma dec_nat_not_Nil [simp]: "dec_nat n \<noteq> []"
  by (subst dec_nat.simps) simp

section \<open>Lists\<close>

text \<open>\<open>strings.Contains\<close> and \<open>strings.HasPrefix\<close>.\<close>

fun has_prefix :: "'a list \<Rightarrow> 'a list \<Rightarrow> bool" where
  "has_prefix s [] = True"
| "has_prefix [] (p # ps) = False"
| "has_prefix (x # xs) (p # ps) = (x = p \<and> has_prefix xs ps)"

fun contains :: "'a list \<Rightarrow> 'a list \<Rightarrow> bool" where
  "contains [] p = (p = [])"
| "contains (x # xs) p = (has_prefix (x # xs) p \<or> contains xs p)"

lemma has_prefix_take: "has_prefix s p \<longleftrightarrow> take (length p) s = p"
  by (induction s p rule: has_prefix.induct) auto

lemma has_prefix_append [simp]: "has_prefix (p @ s) p"
  by (simp add: has_prefix_take)

lemma contains_append_left: "contains t p \<Longrightarrow> contains (s @ t) p"
  by (induction s) auto

lemma contains_has_prefix: "has_prefix s p \<Longrightarrow> contains s p"
  by (cases s) (auto elim: has_prefix.elims)

lemma contains_prefix_append: "has_prefix s p \<Longrightarrow> has_prefix (s @ t) p"
  by (induction s p rule: has_prefix.induct) auto

lemma contains_append_right: "contains s p \<Longrightarrow> contains (s @ t) p"
proof (induction s)
  case Nil
  then show ?case by (simp add: contains_has_prefix)
next
  case (Cons x xs)
  then show ?case using contains_prefix_append [of "x # xs" p t] by auto
qed

end
