(* ===== verification/Errors.thy ===== *)
theory Errors
  imports Prelude
begin

text \<open>
  Go errors and the failure taxonomy of \<open>internal/mtproto/probe.go\<close>.  A Go error value is a
  chain: \<open>fmt.Errorf("...%w")\<close>, \<open>*mtproto.Error\<close> and \<open>*webproxy.Error\<close> wrap an inner
  error, and \<open>errors.Is\<close> / \<open>errors.As\<close> search the chain.  The texts are kept because
  \<open>classify\<close> inspects them with \<open>strings.Contains\<close>.
\<close>

section \<open>Error values\<close>

datatype stage = StageDial | StageHandshake | StageProtocol

datatype kind =
    KindDialTimeout | KindDialRefused | KindDNS | KindUnreachable | KindSecretRejected
  | KindHandshake | KindTimeout | KindClosed | KindNoResPQ | KindSocksAuth
  | KindSocksRejected | KindCanceled | KindOther | KindEmpty

fun kind_text :: "kind \<Rightarrow> string" where
  "kind_text KindDialTimeout = ''dial_timeout''"
| "kind_text KindDialRefused = ''dial_refused''"
| "kind_text KindDNS = ''dns_failed''"
| "kind_text KindUnreachable = ''unreachable''"
| "kind_text KindSecretRejected = ''secret_rejected''"
| "kind_text KindHandshake = ''handshake_failed''"
| "kind_text KindTimeout = ''timeout''"
| "kind_text KindClosed = ''connection_closed''"
| "kind_text KindNoResPQ = ''no_respq''"
| "kind_text KindSocksAuth = ''socks_auth_failed''"
| "kind_text KindSocksRejected = ''socks_rejected''"
| "kind_text KindCanceled = ''canceled''"
| "kind_text KindOther = ''other''"
| "kind_text KindEmpty = []"

datatype web_stage = WebBridge | WebSession | WebStream

text \<open>
  \<open>ErrText\<close> is \<open>errors.New\<close> (or an \<open>Errorf\<close> that wraps nothing), \<open>ErrWrap p e\<close> an
  \<open>Errorf\<close> whose format ends in \<open>%w\<close>.  \<open>ErrNet timeout text cause\<close> is any value of the
  \<open>net.Error\<close> interface, \<open>ErrDNS\<close> a \<open>*net.DNSError\<close> (which also is a \<open>net.Error\<close>).
  \<open>ErrPanic\<close> marks a run-time panic of the source: no handler of the program recovers it.
\<close>

datatype goerr =
    ErrText string
  | ErrWrap string goerr
  | ErrCanceled
  | ErrDeadlineExceeded
  | ErrEOF
  | ErrUnexpectedEOF
  | ErrNet bool string "goerr option"
  | ErrDNS bool string
  | ErrProbe stage kind goerr
  | ErrRPC int string
  | ErrCarrier web_stage goerr
  | ErrPanic string

fun err_text :: "goerr \<Rightarrow> string" where
  "err_text (ErrText s) = s"
| "err_text (ErrWrap p e) = p @ err_text e"
| "err_text ErrCanceled = ''context canceled''"
| "err_text ErrDeadlineExceeded = ''context deadline exceeded''"
| "err_text ErrEOF = ''EOF''"
| "err_text ErrUnexpectedEOF = ''unexpected EOF''"
| "err_text (ErrNet t s c) = s"
| "err_text (ErrDNS t s) = s"
| "err_text (ErrProbe st k e) = err_text e"
| "err_text (ErrRPC c m) = ''rpc_error '' @ dec_int c @ '' '' @ m"
| "err_text (ErrCarrier st e) = err_text e"
| "err_text (ErrPanic s) = s"

text \<open>The chain that \<open>errors.Unwrap\<close> walks, outermost first.\<close>

fun err_chain :: "goerr \<Rightarrow> goerr list" where
  "err_chain (ErrWrap p e) = ErrWrap p e # err_chain e"
| "err_chain (ErrNet t s (Some e)) = ErrNet t s (Some e) # err_chain e"
| "err_chain (ErrProbe st k e) = ErrProbe st k e # err_chain e"
| "err_chain (ErrCarrier st e) = ErrCarrier st e # err_chain e"
| "err_chain e = [e]"

definition errors_is :: "goerr \<Rightarrow> goerr \<Rightarrow> bool" where
  "errors_is e target \<longleftrightarrow> target \<in> set (err_chain e)"

fun is_dns :: "goerr \<Rightarrow> bool" where
  "is_dns (ErrDNS t s) = True"
| "is_dns e = False"

definition as_dns :: "goerr \<Rightarrow> bool" where
  "as_dns e \<longleftrightarrow> list_ex is_dns (err_chain e)"

text \<open>The answer of \<open>Timeout()\<close> for the values that implement \<open>net.Error\<close>.\<close>

fun net_timeout :: "goerr \<Rightarrow> bool option" where
  "net_timeout (ErrNet t s c) = Some t"
| "net_timeout (ErrDNS t s) = Some t"
| "net_timeout ErrDeadlineExceeded = Some True"
| "net_timeout e = None"

fun first_some :: "('a \<Rightarrow> 'b option) \<Rightarrow> 'a list \<Rightarrow> 'b option" where
  "first_some f [] = None"
| "first_some f (x # xs) = (case f x of Some y \<Rightarrow> Some y | None \<Rightarrow> first_some f xs)"

definition as_net_timeout :: "goerr \<Rightarrow> bool" where
  "as_net_timeout e \<longleftrightarrow> first_some net_timeout (err_chain e) = Some True"

fun probe_parts :: "goerr \<Rightarrow> (stage \<times> kind) option" where
  "probe_parts (ErrProbe st k e) = Some (st, k)"
| "probe_parts e = None"

text \<open>\<open>errors.As(err, &probeErr)\<close> with \<open>probeErr\<close> a \<open>*mtproto.Error\<close>.\<close>

definition as_probe :: "goerr \<Rightarrow> (stage \<times> kind) option" where
  "as_probe e = first_some probe_parts (err_chain e)"

fun carrier_parts :: "goerr \<Rightarrow> (web_stage \<times> goerr) option" where
  "carrier_parts (ErrCarrier st e) = Some (st, ErrCarrier st e)"
| "carrier_parts e = None"

definition as_carrier :: "goerr \<Rightarrow> (web_stage \<times> goerr) option" where
  "as_carrier e = first_some carrier_parts (err_chain e)"

section \<open>Classification\<close>

definition classify :: "stage \<Rightarrow> goerr option \<Rightarrow> kind" where
  "classify st err =
     (case err of
        None \<Rightarrow> KindOther
      | Some e \<Rightarrow>
          if errors_is e ErrCanceled then KindCanceled
          else if as_dns e then KindDNS
          else if errors_is e ErrDeadlineExceeded \<or> as_net_timeout e
               then (if st = StageDial then KindDialTimeout else KindTimeout)
          else let text = err_text e in
               if contains text ''connection refused'' then KindDialRefused
               else if contains text ''no route to host'' \<or> contains text ''network is unreachable''
                    then KindUnreachable
               else if contains text ''HMAC mismatch'' then KindSecretRejected
               else if contains text ''EOF'' \<or> contains text ''connection reset'' then KindClosed
               else (case st of
                       StageDial \<Rightarrow> KindUnreachable
                     | StageHandshake \<Rightarrow> KindHandshake
                     | StageProtocol \<Rightarrow> KindNoResPQ))"

definition fail :: "stage \<Rightarrow> goerr \<Rightarrow> goerr" where
  "fail st e = ErrProbe st (classify st (Some e)) e"

definition failAs :: "stage \<Rightarrow> kind \<Rightarrow> goerr \<Rightarrow> goerr" where
  "failAs st k e = ErrProbe st k e"

definition KindOf :: "goerr option \<Rightarrow> kind" where
  "KindOf err =
     (case err of
        None \<Rightarrow> KindEmpty
      | Some e \<Rightarrow> (case as_probe e of
                    Some (st, k) \<Rightarrow> k
                  | None \<Rightarrow> classify StageProtocol (Some e)))"

section \<open>Facts about chains and classification\<close>

lemma as_probe_simps [simp]:
  "as_probe (ErrProbe st k e) = Some (st, k)"
  "as_probe (ErrText s) = None"
  "as_probe (ErrWrap p e) = as_probe e"
  "as_probe (fail st e) = Some (st, classify st (Some e))"
  "as_probe (failAs st k e) = Some (st, k)"
  by (simp_all add: as_probe_def fail_def failAs_def)

lemma KindOf_fail [simp]: "KindOf (Some (fail st e)) = classify st (Some e)"
  by (simp add: KindOf_def)

lemma KindOf_failAs [simp]: "KindOf (Some (failAs st k e)) = k"
  by (simp add: KindOf_def)

lemma KindOf_wrapped_probe: "KindOf (Some (ErrWrap p e)) = KindOf (Some e)" if "as_probe e \<noteq> None"
  using that by (auto simp: KindOf_def)

lemma err_text_fail [simp]: "err_text (fail st e) = err_text e"
  by (simp add: fail_def)

lemma err_text_failAs [simp]: "err_text (failAs st k e) = err_text e"
  by (simp add: failAs_def)

lemma classify_not_other: "classify st (Some e) \<noteq> KindOther"
  by (simp add: classify_def Let_def split: stage.splits)

lemma classify_range:
  "classify st (Some e) \<in> {KindCanceled, KindDNS, KindDialTimeout, KindTimeout, KindDialRefused,
     KindUnreachable, KindSecretRejected, KindClosed, KindHandshake, KindNoResPQ}"
  by (simp add: classify_def Let_def split: stage.splits)

lemma classify_dial_timeout_iff:
  "classify st (Some e) = KindDialTimeout \<longleftrightarrow>
     st = StageDial \<and> \<not> errors_is e ErrCanceled \<and> \<not> as_dns e
       \<and> (errors_is e ErrDeadlineExceeded \<or> as_net_timeout e)"
  by (simp add: classify_def Let_def split: stage.splits)

end
