(* ===== verification/Effects.thy ===== *)
theory Effects
  imports Errors
begin

text \<open>
  Fallible and effectful Go code as functions of an explicit world.  A computation takes a
  world and returns an error or a value, with the world it leaves behind (also when it
  fails: what was sent stays sent).  The environment every such computation shares is the
  system's random source (\<open>crypto/rand\<close>), the bytes it will deliver, the clock, the
  readings \<open>time.Now\<close> will give, and the process-wide cache of accepted primes (auth.go).
\<close>

named_theorems io_simps "equations that run computations"

type_synonym ('w, 'a) io = "'w \<Rightarrow> (goerr + 'a) \<times> 'w"

definition io_return :: "'a \<Rightarrow> ('w, 'a) io" where
  "io_return x = (\<lambda>w. (Inr x, w))"

definition io_fail :: "goerr \<Rightarrow> ('w, 'a) io" where
  "io_fail e = (\<lambda>w. (Inl e, w))"

definition io_lift :: "goerr + 'a \<Rightarrow> ('w, 'a) io" where
  "io_lift r = (\<lambda>w. (r, w))"

definition io_bind :: "('w, 'a) io \<Rightarrow> ('a \<Rightarrow> ('w, 'b) io) \<Rightarrow> ('w, 'b) io" where
  "io_bind m f = (\<lambda>w. case m w of (Inl e, w') \<Rightarrow> (Inl e, w') | (Inr x, w') \<Rightarrow> f x w')"

definition io_seq :: "('w, 'a) io \<Rightarrow> ('w, 'b) io \<Rightarrow> ('w, 'b) io" where
  "io_seq m n = io_bind m (\<lambda>_. n)"

text \<open>\<open>if err != nil { return f(err) }\<close>\<close>

definition io_map_err :: "(goerr \<Rightarrow> goerr) \<Rightarrow> ('w, 'a) io \<Rightarrow> ('w, 'a) io" where
  "io_map_err g m = (\<lambda>w. case m w of (Inl e, w') \<Rightarrow> (Inl (g e), w') | (Inr x, w') \<Rightarrow> (Inr x, w'))"

text \<open>A call whose error the caller inspects instead of returning it.\<close>

definition io_try :: "('w, 'a) io \<Rightarrow> ('w, goerr + 'a) io" where
  "io_try m = (\<lambda>w. case m w of (r, w') \<Rightarrow> (Inr r, w'))"

definition io_gets :: "('w \<Rightarrow> 'a) \<Rightarrow> ('w, 'a) io" where
  "io_gets f = (\<lambda>w. (Inr (f w), w))"

definition io_modify :: "('w \<Rightarrow> 'w) \<Rightarrow> ('w, unit) io" where
  "io_modify f = (\<lambda>w. (Inr (), f w))"

lemma io_return_app [io_simps, simp]: "io_return x w = (Inr x, w)"
  by (simp add: io_return_def)

lemma io_fail_app [io_simps, simp]: "io_fail e w = (Inl e, w)"
  by (simp add: io_fail_def)

lemma io_lift_app [io_simps, simp]: "io_lift r w = (r, w)"
  by (simp add: io_lift_def)

lemma io_gets_app [io_simps, simp]: "io_gets f w = (Inr (f w), w)"
  by (simp add: io_gets_def)

lemma io_modify_app [io_simps, simp]: "io_modify f w = (Inr (), f w)"
  by (simp add: io_modify_def)

lemma io_bind_Inr [io_simps]: "m w = (Inr x, w') \<Longrightarrow> io_bind m f w = f x w'"
  by (simp add: io_bind_def)

lemma io_bind_Inl [io_simps]: "m w = (Inl e, w') \<Longrightarrow> io_bind m f w = (Inl e, w')"
  by (simp add: io_bind_def)

lemma io_bind_return [simp]: "io_bind (io_return x) f = f x"
  by (simp add: io_bind_def fun_eq_iff)

lemma io_bind_fail [simp]: "io_bind (io_fail e) f = io_fail e"
  by (simp add: io_bind_def fun_eq_iff)

lemma io_bind_eq_Inr:
  "io_bind m f w = (Inr y, w2) \<longleftrightarrow> (\<exists>x w1. m w = (Inr x, w1) \<and> f x w1 = (Inr y, w2))"
  by (auto simp: io_bind_def split: prod.splits sum.splits)

lemma io_bind_eq_Inl:
  "io_bind m f w = (Inl e, w2) \<longleftrightarrow>
     m w = (Inl e, w2) \<or> (\<exists>x w1. m w = (Inr x, w1) \<and> f x w1 = (Inl e, w2))"
  by (auto simp: io_bind_def split: prod.splits sum.splits)

lemma io_map_err_eq_Inr [simp]: "io_map_err g m w = (Inr x, w') \<longleftrightarrow> m w = (Inr x, w')"
  by (auto simp: io_map_err_def split: prod.splits sum.splits)

lemma io_map_err_eq_Inl: "io_map_err g m w = (Inl e, w') \<longleftrightarrow> (\<exists>e0. m w = (Inl e0, w') \<and> e = g e0)"
  by (auto simp: io_map_err_def split: prod.splits sum.splits)

lemma io_try_eq [simp]: "io_try m w = (r, w') \<longleftrightarrow> (\<exists>q. m w = (q, w') \<and> r = Inr q)"
  by (auto simp: io_try_def split: prod.splits)

section \<open>Plain fallible results\<close>

definition res_bind :: "goerr + 'a \<Rightarrow> ('a \<Rightarrow> goerr + 'b) \<Rightarrow> goerr + 'b" where
  "res_bind r f = (case r of Inl e \<Rightarrow> Inl e | Inr x \<Rightarrow> f x)"

lemma res_bind_simps [simp]: "res_bind (Inl e) f = Inl e" "res_bind (Inr x) f = f x"
  by (simp_all add: res_bind_def)

lemma res_bind_eq_Inr: "res_bind r f = Inr y \<longleftrightarrow> (\<exists>x. r = Inr x \<and> f x = Inr y)"
  by (cases r) simp_all

lemma res_bind_eq_Inl: "res_bind r f = Inl e \<longleftrightarrow> r = Inl e \<or> (\<exists>x. r = Inr x \<and> f x = Inl e)"
  by (cases r) simp_all

section \<open>Randomness and time\<close>

record env =
  entropy :: bytes
  clk :: int
  ticks :: "int list"
  primeCache :: "bytes list"

text \<open>\<open>randomBytes\<close> of faketls.go: \<open>n\<close> bytes of the random source, or its failure.\<close>

definition randomBytes :: "nat \<Rightarrow> ('z env_scheme, bytes) io" where
  "randomBytes n = (\<lambda>w.
     if n \<le> length (entropy w)
     then (Inr (take n (entropy w)), w\<lparr>entropy := drop n (entropy w)\<rparr>)
     else (Inl (ErrText ''random source failed''), w\<lparr>entropy := []\<rparr>))"

text \<open>\<open>time.Now()\<close> in nanoseconds: the next reading; the clock stands still after the last.\<close>

definition time_now :: "('z env_scheme, int) io" where
  "time_now = (\<lambda>w. case ticks w of
       [] \<Rightarrow> (Inr (clk w), w)
     | t # ts \<Rightarrow> (Inr t, w\<lparr>clk := t, ticks := ts\<rparr>))"

lemma randomBytes_ok:
  "n \<le> length (entropy w) \<Longrightarrow>
     randomBytes n w = (Inr (take n (entropy w)), w\<lparr>entropy := drop n (entropy w)\<rparr>)"
  by (simp add: randomBytes_def)

lemma randomBytes_Inr:
  "randomBytes n w = (Inr bs, w') \<longleftrightarrow>
     n \<le> length (entropy w) \<and> bs = take n (entropy w) \<and> w' = w\<lparr>entropy := drop n (entropy w)\<rparr>"
  by (auto simp: randomBytes_def)

lemma randomBytes_length: "randomBytes n w = (Inr bs, w') \<Longrightarrow> length bs = n"
  by (auto simp: randomBytes_Inr)

lemma time_now_total: "\<exists>t w'. time_now w = (Inr t, w')"
  by (simp add: time_now_def split: list.splits)

lemma time_now_entropy [simp]: "time_now w = (r, w') \<Longrightarrow> entropy w' = entropy w"
  by (auto simp: time_now_def split: list.splits)

text \<open>
  \<open>rand.Int(rand.Reader, max)\<close>: whole bytes are drawn, the top byte is masked to the bit
  length of \<open>max - 1\<close>, and draws that are not below \<open>max\<close> are rejected.
\<close>

fun bit_len :: "nat \<Rightarrow> nat" where
  "bit_len n = (if n = 0 then 0 else Suc (bit_len (n div 2)))"

declare bit_len.simps [simp del]

lemma bit_len_bounds: "n < 2 ^ bit_len n \<and> (0 < n \<longrightarrow> 2 ^ (bit_len n - 1) \<le> n)"
proof (induction n rule: bit_len.induct)
  case (1 n)
  show ?case
  proof (cases "n = 0")
    case False
    then have IH: "n div 2 < 2 ^ bit_len (n div 2)" "0 < n div 2 \<Longrightarrow> 2 ^ (bit_len (n div 2) - 1) \<le> n div 2"
      using 1 by auto
    have l: "bit_len n = Suc (bit_len (n div 2))" using False by (simp add: bit_len.simps [of n])
    have "n < 2 * 2 ^ bit_len (n div 2)" using IH(1) by linarith
    moreover have "2 ^ bit_len (n div 2) \<le> n"
    proof (cases "n div 2 = 0")
      case True
      then show ?thesis using False by (simp add: bit_len.simps [of 0])
    next
      case n2: False
      then have "0 < bit_len (n div 2)" by (simp add: bit_len.simps [of "n div 2"])
      then have "2 ^ bit_len (n div 2) = 2 * (2::nat) ^ (bit_len (n div 2) - 1)"
        by (metis power_eq_if not_gr_zero)
      with IH(2) n2 show ?thesis by simp
    qed
    ultimately show ?thesis by (simp add: l)
  qed (simp add: bit_len.simps [of 0])
qed

lemma bit_len_lt: "bit_len n = k \<Longrightarrow> n < 2 ^ k"
  using bit_len_bounds [of n] by auto

definition mask_top :: "nat \<Rightarrow> bytes \<Rightarrow> bytes" where
  "mask_top b bs = (case bs of [] \<Rightarrow> [] | x # xs \<Rightarrow> (x AND mask b) # xs)"

function rand_int_from :: "nat \<Rightarrow> bytes \<Rightarrow> (nat \<times> bytes) option" where
  "rand_int_from mx ent =
     (let bl = bit_len (mx - 1); k = (bl + 7) div 8; b = (if bl mod 8 = 0 then 8 else bl mod 8) in
      if bl = 0 then Some (0, ent)
      else if length ent < k then None
      else let n = be_nat (mask_top b (take k ent)) in
           if n < mx then Some (n, drop k ent) else rand_int_from mx (drop k ent))"
  by pat_completeness auto
termination
proof (relation "measure (\<lambda>(mx, ent). length ent)", goal_cases)
  case 1
  show ?case by simp
next
  case (2 mx ent bl k b n)
  then have "0 < bl" "k \<le> length ent" "k = (bl + 7) div 8" by simp_all
  then have "0 < k" by presburger
  with \<open>k \<le> length ent\<close> show ?case by simp
qed

declare rand_int_from.simps [simp del]

definition rand_int :: "nat \<Rightarrow> ('z env_scheme, nat) io" where
  "rand_int mx = (\<lambda>w. case rand_int_from mx (entropy w) of
       Some (n, ent) \<Rightarrow> (Inr n, w\<lparr>entropy := ent\<rparr>)
     | None \<Rightarrow> (Inl (ErrText ''random source failed''), w\<lparr>entropy := []\<rparr>))"

lemma rand_int_from_lt: "0 < mx \<Longrightarrow> rand_int_from mx ent = Some (n, ent') \<Longrightarrow> n < mx"
proof (induction mx ent rule: rand_int_from.induct)
  case (1 mx ent)
  let ?bl = "bit_len (mx - 1)"
  let ?k = "(?bl + 7) div 8"
  let ?n = "be_nat (mask_top (if ?bl mod 8 = 0 then 8 else ?bl mod 8) (take ?k ent))"
  note unfolded = rand_int_from.simps [of mx ent, unfolded Let_def]
  consider "?bl = 0" | "?bl \<noteq> 0" "length ent < ?k" | "?bl \<noteq> 0" "\<not> length ent < ?k" "?n < mx"
    | "?bl \<noteq> 0" "\<not> length ent < ?k" "\<not> ?n < mx" by blast
  then show ?case
  proof cases
    case 4
    then have "rand_int_from mx ent = rand_int_from mx (drop ?k ent)"
      by (subst unfolded) (simp only: if_False)
    with "1.IH" [OF refl refl refl 4(1,2) refl 4(3)] "1.prems" show ?thesis by simp
  next
    case 3
    then have "rand_int_from mx ent = Some (?n, drop ?k ent)"
      by (subst unfolded) (simp only: if_False if_True)
    with 3 "1.prems" show ?thesis by simp
  qed (use "1.prems" in \<open>simp_all add: unfolded\<close>)
qed

lemma rand_int_lt: "0 < mx \<Longrightarrow> rand_int mx w = (Inr n, w') \<Longrightarrow> n < mx"
  by (auto simp: rand_int_def dest: rand_int_from_lt split: option.splits)

text \<open>What is drawn comes off the front of the random source.\<close>

lemma rand_int_from_prefix: "rand_int_from mx ent = Some (n, ent') \<Longrightarrow> \<exists>used. ent = used @ ent'"
proof (induction mx ent rule: rand_int_from.induct)
  case (1 mx ent)
  let ?bl = "bit_len (mx - 1)"
  let ?k = "(?bl + 7) div 8"
  let ?n = "be_nat (mask_top (if ?bl mod 8 = 0 then 8 else ?bl mod 8) (take ?k ent))"
  note unfolded = rand_int_from.simps [of mx ent, unfolded Let_def]
  consider "?bl = 0" | "?bl \<noteq> 0" "length ent < ?k" | "?bl \<noteq> 0" "\<not> length ent < ?k" "?n < mx"
    | "?bl \<noteq> 0" "\<not> length ent < ?k" "\<not> ?n < mx" by blast
  then show ?case
  proof cases
    case 4
    then have "rand_int_from mx ent = rand_int_from mx (drop ?k ent)"
      by (subst unfolded) (simp only: if_False)
    with "1.IH" [OF refl refl refl 4(1,2) refl 4(3)] "1.prems" obtain used where "drop ?k ent = used @ ent'" by auto
    then have "ent = (take ?k ent @ used) @ ent'" by (metis append_assoc append_take_drop_id)
    then show ?thesis by blast
  next
    case 3
    then have "rand_int_from mx ent = Some (?n, drop ?k ent)"
      by (subst unfolded) (simp only: if_False if_True)
    with "1.prems" have "drop ?k ent = ent'" by (metis option.inject snd_conv)
    then have "ent = take ?k ent @ ent'" by (metis append_take_drop_id)
    then show ?thesis by blast
  next
    case 1
    with "1.prems" have "ent = [] @ ent'" by (simp add: unfolded)
    then show ?thesis by blast
  qed (use "1.prems" in \<open>simp_all add: unfolded\<close>)
qed

section \<open>What a computation leaves unchanged\<close>

text \<open>\<open>io_keeps f m\<close>: running \<open>m\<close> does not change the part \<open>f\<close> of the world.\<close>

named_theorems keeps_intros "computations that leave a part of the world unchanged"

definition io_keeps :: "('w \<Rightarrow> 'b) \<Rightarrow> ('w, 'a) io \<Rightarrow> bool" where
  "io_keeps f m \<longleftrightarrow> (\<forall>w. f (snd (m w)) = f w)"

lemma io_keepsD: "io_keeps f m \<Longrightarrow> m w = (r, w') \<Longrightarrow> f w' = f w"
  unfolding io_keeps_def by (metis snd_conv)

lemma io_keeps_bind [keeps_intros]:
  "io_keeps f m \<Longrightarrow> (\<And>x. io_keeps f (k x)) \<Longrightarrow> io_keeps f (io_bind m k)"
  by (auto simp: io_keeps_def io_bind_def split_beta split: sum.splits)

lemma io_keeps_seq [keeps_intros]: "io_keeps f m \<Longrightarrow> io_keeps f n \<Longrightarrow> io_keeps f (io_seq m n)"
  by (auto simp: io_seq_def intro: keeps_intros)

lemma io_keeps_basic [keeps_intros]:
  "io_keeps f (io_return x)" "io_keeps f (io_fail e)" "io_keeps f (io_lift r)" "io_keeps f (io_gets g)"
  by (simp_all add: io_keeps_def)

lemma io_keeps_modify [keeps_intros]: "(\<And>w. f (h w) = f w) \<Longrightarrow> io_keeps f (io_modify h)"
  by (simp add: io_keeps_def)

lemma io_keeps_map_err [keeps_intros]: "io_keeps f m \<Longrightarrow> io_keeps f (io_map_err g m)"
  by (auto simp: io_keeps_def io_map_err_def split_beta split: sum.splits)

lemma io_keeps_try [keeps_intros]: "io_keeps f m \<Longrightarrow> io_keeps f (io_try m)"
  by (auto simp: io_keeps_def io_try_def split_beta)

lemma io_keeps_if [keeps_intros]: "io_keeps f m \<Longrightarrow> io_keeps f n \<Longrightarrow> io_keeps f (if b then m else n)"
  by simp

lemma io_keeps_prod [keeps_intros]: "(\<And>a b. io_keeps f (k a b)) \<Longrightarrow> io_keeps f (case p of (a, b) \<Rightarrow> k a b)"
  by (cases p) simp

lemma io_keeps_option [keeps_intros]:
  "io_keeps f m \<Longrightarrow> (\<And>a. io_keeps f (k a)) \<Longrightarrow> io_keeps f (case p of None \<Rightarrow> m | Some a \<Rightarrow> k a)"
  by (cases p) simp_all

lemma randomBytes_keeps [keeps_intros]:
  "io_keeps primeCache (randomBytes n)"
  by (simp add: io_keeps_def randomBytes_def)

lemma time_now_keeps [keeps_intros]: "io_keeps primeCache time_now" "io_keeps entropy time_now"
proof -
  show "io_keeps primeCache time_now" unfolding io_keeps_def
    by (intro allI, rename_tac w, case_tac "ticks w") (simp_all add: time_now_def)
  show "io_keeps entropy time_now" unfolding io_keeps_def
    by (intro allI, rename_tac w, case_tac "ticks w") (simp_all add: time_now_def)
qed

lemma rand_int_keeps [keeps_intros]: "io_keeps primeCache (rand_int mx)"
  by (simp add: io_keeps_def rand_int_def split: option.splits)


text \<open>\<open>io_draws m\<close>: a run of \<open>m\<close> that succeeds takes a prefix off the random source.\<close>

definition io_draws :: "('z env_scheme, 'a) io \<Rightarrow> bool" where
  "io_draws m \<longleftrightarrow> (\<forall>w x w'. m w = (Inr x, w') \<longrightarrow> (\<exists>used. entropy w = used @ entropy w'))"

named_theorems draws_intros "computations that draw from the random source"

lemma io_drawsD: "io_draws m \<Longrightarrow> m w = (Inr x, w') \<Longrightarrow> \<exists>used. entropy w = used @ entropy w'"
  unfolding io_draws_def by blast

lemma io_draws_bind [draws_intros]: "io_draws m \<Longrightarrow> (\<And>x. io_draws (k x)) \<Longrightarrow> io_draws (io_bind m k)"
  unfolding io_draws_def io_bind_eq_Inr by (metis append_assoc)

lemma io_draws_seq [draws_intros]: "io_draws m \<Longrightarrow> io_draws n \<Longrightarrow> io_draws (io_seq m n)"
  by (simp add: io_seq_def io_draws_bind)

lemma io_draws_keeps: "io_keeps entropy m \<Longrightarrow> io_draws m"
  unfolding io_draws_def by (metis append_Nil io_keepsD)

lemma io_draws_if [draws_intros]: "io_draws m \<Longrightarrow> io_draws n \<Longrightarrow> io_draws (if b then m else n)"
  by simp

lemma io_draws_basic [draws_intros]:
  "io_draws (io_return x)" "io_draws (io_fail e)" "io_draws (io_lift r)" "io_draws (io_gets g)"
  "io_draws (randomBytes n)" "io_draws (rand_int mx)"
  by (auto simp: io_draws_def randomBytes_Inr rand_int_def dest: rand_int_from_prefix split: option.splits)
    (metis append_take_drop_id)+

text \<open>\<open>io_inv P m\<close>: \<open>m\<close> preserves \<open>P\<close>, also when it fails.\<close>

definition io_inv :: "('w \<Rightarrow> bool) \<Rightarrow> ('w, 'a) io \<Rightarrow> bool" where
  "io_inv P m \<longleftrightarrow> (\<forall>w. P w \<longrightarrow> P (snd (m w)))"

lemma io_invD: "io_inv P m \<Longrightarrow> P w \<Longrightarrow> m w = (r, w') \<Longrightarrow> P w'"
  unfolding io_inv_def by (metis snd_conv)

lemma io_inv_keeps: "io_keeps f m \<Longrightarrow> (\<And>w w'. f w' = f w \<Longrightarrow> P w \<Longrightarrow> P w') \<Longrightarrow> io_inv P m"
  unfolding io_inv_def io_keeps_def by blast

lemma io_inv_bind: "io_inv P m \<Longrightarrow> (\<And>x. io_inv P (k x)) \<Longrightarrow> io_inv P (io_bind m k)"
  by (auto simp: io_inv_def io_bind_def split_beta split: sum.splits)

lemma io_inv_seq: "io_inv P m \<Longrightarrow> io_inv P n \<Longrightarrow> io_inv P (io_seq m n)"
  by (simp add: io_seq_def io_inv_bind)

lemma io_inv_prod: "(\<And>a b. io_inv P (k a b)) \<Longrightarrow> io_inv P (case p of (a, b) \<Rightarrow> k a b)"
  by (cases p) simp

lemma bit_len_eqI: "2 ^ k \<le> n \<Longrightarrow> n < 2 ^ Suc k \<Longrightarrow> bit_len n = Suc k"
proof -
  assume a: "2 ^ k \<le> n" "n < 2 ^ Suc k"
  have b: "n < 2 ^ bit_len n" "0 < n \<longrightarrow> 2 ^ (bit_len n - 1) \<le> n" using bit_len_bounds by blast+
  have "0 < n" using a(1) by (metis gr0I not_one_le_zero one_le_numeral one_le_power order_trans)
  have "(2::nat) ^ k < 2 ^ bit_len n" using a(1) b(1) by linarith
  then have "k < bit_len n" by simp
  moreover have "(2::nat) ^ (bit_len n - 1) < 2 ^ Suc k" using b(2) \<open>0 < n\<close> a(2) by linarith
  then have "bit_len n - 1 < Suc k" by (simp only: power_strict_increasing_iff)
  ultimately show ?thesis by linarith
qed

lemma bit_len_pow2_minus: "0 < k \<Longrightarrow> bit_len (2 ^ k - 1) = k"
proof -
  assume "0 < k"
  then obtain m where k: "k = Suc m" by (cases k) auto
  show ?thesis unfolding k by (rule bit_len_eqI) simp_all
qed

lemma mask_byte: "(x :: byte) AND mask 8 = x"
  by (rule bit_eqI) (auto simp: bit_and_iff bit_mask_iff dest: bit_imp_le_length)

text \<open>A bound that is a power of 256 is drawn in one go.\<close>

lemma rand_int_pow256:
  assumes "0 < k" "k \<le> length (entropy w)"
  shows "rand_int (2 ^ (8 * k)) w = (Inr (be_nat (take k (entropy w))), w\<lparr>entropy := drop k (entropy w)\<rparr>)"
proof -
  have bl: "bit_len (2 ^ (8 * k) - 1) = 8 * k" using assms(1) by (intro bit_len_pow2_minus) simp
  have m: "mask_top 8 (take k (entropy w)) = take k (entropy w)"
    by (simp add: mask_top_def mask_byte split: list.split)
  have "be_nat (take k (entropy w)) < 256 ^ k" using be_nat_bound [of "take k (entropy w)"] assms(2) by simp
  moreover have "(2::nat) ^ (8 * k) = 256 ^ k" by (simp add: power_mult)
  ultimately have lt: "be_nat (take k (entropy w)) < 2 ^ (8 * k)" by simp
  have k8: "(8 * k + 7) div 8 = k" by simp
  have "rand_int_from (2 ^ (8 * k)) (entropy w) = Some (be_nat (take k (entropy w)), drop k (entropy w))"
    using assms lt by (subst rand_int_from.simps) (simp add: bl [unfolded One_nat_def] Let_def k8 m)
  then show ?thesis by (simp add: rand_int_def)
qed

end
