(* ===== verification/Crypto.thy ===== *)
theory Crypto
  imports Effects
begin

text \<open>
  The cryptographic primitives of Go's standard library, as a parameter \<open>C\<close> of the model:
  SHA-1, SHA-256 and the AES block permutation under a key.  \<open>crypto_ok\<close> states what the
  protocol code relies on: digest and block lengths, and that AES decryption undoes
  encryption.  HMAC is written out over SHA-256.  Then \<open>internal/mtproto/ige.go\<close>, the IGE
  mode over the block cipher, with the proof that the two directions are inverse.
\<close>

record crypto =
  sha1 :: "bytes \<Rightarrow> bytes"
  sha256 :: "bytes \<Rightarrow> bytes"
  aes_enc :: "bytes \<Rightarrow> bytes \<Rightarrow> bytes"
  aes_dec :: "bytes \<Rightarrow> bytes \<Rightarrow> bytes"

definition aes_key_ok :: "bytes \<Rightarrow> bool" where
  "aes_key_ok key \<longleftrightarrow> length key = 16 \<or> length key = 24 \<or> length key = 32"

definition crypto_ok :: "crypto \<Rightarrow> bool" where
  "crypto_ok C \<longleftrightarrow>
     (\<forall>m. length (sha1 C m) = 20) \<and> (\<forall>m. length (sha256 C m) = 32) \<and>
     (\<forall>key b. aes_key_ok key \<and> length b = 16 \<longrightarrow>
        length (aes_enc C key b) = 16 \<and> length (aes_dec C key b) = 16 \<and>
        aes_dec C key (aes_enc C key b) = b \<and> aes_enc C key (aes_dec C key b) = b)"

lemma crypto_okD:
  assumes "crypto_ok C"
  shows "length (sha1 C m) = 20" and "length (sha256 C m) = 32"
    and "aes_key_ok key \<Longrightarrow> length b = 16 \<Longrightarrow> length (aes_enc C key b) = 16"
    and "aes_key_ok key \<Longrightarrow> length b = 16 \<Longrightarrow> length (aes_dec C key b) = 16"
    and "aes_key_ok key \<Longrightarrow> length b = 16 \<Longrightarrow> aes_dec C key (aes_enc C key b) = b"
    and "aes_key_ok key \<Longrightarrow> length b = 16 \<Longrightarrow> aes_enc C key (aes_dec C key b) = b"
  using assms by (auto simp: crypto_ok_def)

text \<open>\<open>hmacSHA256\<close> of faketls.go (RFC 2104 over SHA-256, block size 64).\<close>

definition hmacSHA256 :: "crypto \<Rightarrow> bytes \<Rightarrow> bytes \<Rightarrow> bytes" where
  "hmacSHA256 C key msg =
     (let k = (if length key > 64 then sha256 C key else key);
          k0 = k @ replicate (64 - length k) 0;
          ipad = map (\<lambda>b. b XOR 0x36) k0;
          opad = map (\<lambda>b. b XOR 0x5C) k0
      in sha256 C (opad @ sha256 C (ipad @ msg)))"

lemma length_hmacSHA256: "crypto_ok C \<Longrightarrow> length (hmacSHA256 C key msg) = 32"
  by (simp add: hmacSHA256_def crypto_okD Let_def)

section \<open>A crypto for examples\<close>

text \<open>A closed instance used by the witnesses: identity blocks and constant-length digests
  that still depend on the first bytes of their argument.\<close>

definition fit :: "nat \<Rightarrow> bytes \<Rightarrow> bytes" where
  "fit n m = take n (m @ replicate n 0)"

definition toy :: crypto where
  "toy = \<lparr>sha1 = fit 20, sha256 = fit 32, aes_enc = (\<lambda>k b. b), aes_dec = (\<lambda>k b. b)\<rparr>"

lemma toy_ok: "crypto_ok toy"
  by (auto simp: crypto_ok_def toy_def fit_def min_def)

section \<open>IGE\<close>

text \<open>Both loops carry the previous cipher block and the previous plain block.\<close>

fun ige_enc_loop :: "(bytes \<Rightarrow> bytes) \<Rightarrow> bytes \<Rightarrow> bytes \<Rightarrow> bytes \<Rightarrow> bytes" where
  "ige_enc_loop E prevCipher prevPlain data =
     (if data = [] then []
      else let plain = take 16 data;
               chunk = E (xor_bytes plain prevCipher);
               out = xor_bytes chunk prevPlain
           in out @ ige_enc_loop E out plain (drop 16 data))"

fun ige_dec_loop :: "(bytes \<Rightarrow> bytes) \<Rightarrow> bytes \<Rightarrow> bytes \<Rightarrow> bytes \<Rightarrow> bytes" where
  "ige_dec_loop D prevCipher prevPlain data =
     (if data = [] then []
      else let cipherBlock = take 16 data;
               chunk = D (xor_bytes cipherBlock prevPlain);
               out = xor_bytes chunk prevCipher
           in out @ ige_dec_loop D cipherBlock out (drop 16 data))"

declare ige_enc_loop.simps [simp del] ige_dec_loop.simps [simp del]

definition ige_checks :: "bytes \<Rightarrow> bytes \<Rightarrow> bytes \<Rightarrow> goerr option" where
  "ige_checks data key iv =
     (if \<not> aes_key_ok key then Some (ErrText (''crypto/aes: invalid key size '' @ dec_nat (length key)))
      else if length data mod 16 \<noteq> 0 then Some (ErrText ''IGE input must be a multiple of 16 bytes'')
      else if length iv \<noteq> 32 then Some (ErrText ''IGE needs a 32-byte IV'')
      else None)"

definition igeEncrypt :: "crypto \<Rightarrow> bytes \<Rightarrow> bytes \<Rightarrow> bytes \<Rightarrow> goerr + bytes" where
  "igeEncrypt C data key iv =
     (case ige_checks data key iv of
        Some e \<Rightarrow> Inl e
      | None \<Rightarrow> Inr (ige_enc_loop (aes_enc C key) (take 16 iv) (drop 16 iv) data))"

definition igeDecrypt :: "crypto \<Rightarrow> bytes \<Rightarrow> bytes \<Rightarrow> bytes \<Rightarrow> goerr + bytes" where
  "igeDecrypt C data key iv =
     (case ige_checks data key iv of
        Some e \<Rightarrow> Inl e
      | None \<Rightarrow> Inr (ige_dec_loop (aes_dec C key) (take 16 iv) (drop 16 iv) data))"

lemma ige_checks_None [simp]:
  "ige_checks data key iv = None \<longleftrightarrow> aes_key_ok key \<and> length data mod 16 = 0 \<and> length iv = 32"
  by (simp add: ige_checks_def)

lemma ige_loop_Nil [simp]:
  "ige_enc_loop E pc pp [] = []" "ige_dec_loop E pc pp [] = []"
  by (simp_all add: ige_enc_loop.simps ige_dec_loop.simps)

lemma ige_enc_loop_block:
  "length b = 16 \<Longrightarrow> ige_enc_loop E pc pp (b @ ys) =
     xor_bytes (E (xor_bytes b pc)) pp @ ige_enc_loop E (xor_bytes (E (xor_bytes b pc)) pp) b ys"
  by (auto simp: ige_enc_loop.simps [of E pc pp "b @ ys"] Let_def)

lemma ige_dec_loop_block:
  "length b = 16 \<Longrightarrow> ige_dec_loop D pc pp (b @ ys) =
     xor_bytes (D (xor_bytes b pp)) pc @ ige_dec_loop D b (xor_bytes (D (xor_bytes b pp)) pc) ys"
  by (auto simp: ige_dec_loop.simps [of D pc pp "b @ ys"] Let_def)

definition block_fun :: "(bytes \<Rightarrow> bytes) \<Rightarrow> bool" where
  "block_fun E \<longleftrightarrow> (\<forall>b. length b = 16 \<longrightarrow> length (E b) = 16)"

lemma block_fun_aes: "crypto_ok C \<Longrightarrow> aes_key_ok key \<Longrightarrow> block_fun (aes_enc C key)"
  "crypto_ok C \<Longrightarrow> aes_key_ok key \<Longrightarrow> block_fun (aes_dec C key)"
  by (simp_all add: block_fun_def crypto_okD)

lemma ige_enc_loop_length:
  assumes E: "block_fun E" and "length data mod 16 = 0" and "length pc = 16" and "length pp = 16"
  shows "length (ige_enc_loop E pc pp data) = length data"
proof -
  have "(0::nat) < 16" by simp
  then show ?thesis using assms(2,3,4)
  proof (induction data arbitrary: pc pp rule: block_induct)
    case (Block b ys)
    then show ?case using E by (simp add: ige_enc_loop_block block_fun_def)
  qed simp
qed

lemma ige_dec_loop_length:
  assumes D: "block_fun D" and "length data mod 16 = 0" and "length pc = 16" and "length pp = 16"
  shows "length (ige_dec_loop D pc pp data) = length data"
proof -
  have "(0::nat) < 16" by simp
  then show ?thesis using assms(2,3,4)
  proof (induction data arbitrary: pc pp rule: block_induct)
    case (Block b ys)
    then show ?case using D by (simp add: ige_dec_loop_block block_fun_def)
  qed simp
qed

lemma ige_dec_enc_loop:
  assumes E: "block_fun E" and inv: "\<And>b. length b = 16 \<Longrightarrow> D (E b) = b"
    and "length data mod 16 = 0" and "length pc = 16" and "length pp = 16"
  shows "ige_dec_loop D pc pp (ige_enc_loop E pc pp data) = data"
proof -
  have "(0::nat) < 16" by simp
  then show ?thesis using assms(3,4,5)
  proof (induction data arbitrary: pc pp rule: block_induct)
    case (Block b ys)
    then show ?case using E
      by (simp add: ige_enc_loop_block ige_dec_loop_block block_fun_def xor_bytes_cancel inv)
  qed simp
qed

lemma ige_enc_dec_loop:
  assumes D: "block_fun D" and inv: "\<And>b. length b = 16 \<Longrightarrow> E (D b) = b"
    and "length data mod 16 = 0" and "length pc = 16" and "length pp = 16"
  shows "ige_enc_loop E pc pp (ige_dec_loop D pc pp data) = data"
proof -
  have "(0::nat) < 16" by simp
  then show ?thesis using assms(3,4,5)
  proof (induction data arbitrary: pc pp rule: block_induct)
    case (Block b ys)
    then show ?case using D
      by (simp add: ige_enc_loop_block ige_dec_loop_block block_fun_def xor_bytes_cancel inv)
  qed simp
qed

lemma igeEncrypt_Inr:
  "igeEncrypt C data key iv = Inr out \<longleftrightarrow>
     aes_key_ok key \<and> length data mod 16 = 0 \<and> length iv = 32 \<and>
     out = ige_enc_loop (aes_enc C key) (take 16 iv) (drop 16 iv) data"
  by (auto simp: igeEncrypt_def ige_checks_def)

lemma igeDecrypt_Inr:
  "igeDecrypt C data key iv = Inr out \<longleftrightarrow>
     aes_key_ok key \<and> length data mod 16 = 0 \<and> length iv = 32 \<and>
     out = ige_dec_loop (aes_dec C key) (take 16 iv) (drop 16 iv) data"
  by (auto simp: igeDecrypt_def ige_checks_def)

lemma igeEncrypt_length:
  "crypto_ok C \<Longrightarrow> igeEncrypt C data key iv = Inr out \<Longrightarrow> length out = length data"
  by (auto simp: igeEncrypt_Inr block_fun_aes ige_enc_loop_length)

lemma igeDecrypt_length:
  "crypto_ok C \<Longrightarrow> igeDecrypt C data key iv = Inr out \<Longrightarrow> length out = length data"
  by (auto simp: igeDecrypt_Inr block_fun_aes ige_dec_loop_length)

lemma ige_inverse:
  assumes "crypto_ok C" and "igeEncrypt C data key iv = Inr out"
  shows "igeDecrypt C out key iv = Inr data"
  using assms
  by (auto simp: igeEncrypt_Inr igeDecrypt_Inr block_fun_aes ige_enc_loop_length crypto_okD
      intro!: ige_dec_enc_loop [symmetric])

lemma ige_inverse':
  assumes "crypto_ok C" and "igeDecrypt C data key iv = Inr out"
  shows "igeEncrypt C out key iv = Inr data"
  using assms
  by (auto simp: igeEncrypt_Inr igeDecrypt_Inr block_fun_aes ige_dec_loop_length crypto_okD
      intro!: ige_enc_dec_loop [symmetric])

end
