(* ===== verification/Tl.thy ===== *)
theory Tl
  imports Effects
begin

text \<open>
  \<open>internal/mtproto/tl.go\<close>: the TL serializer \<open>buf\<close> and the reader \<open>cursor\<close>.  A \<open>buf\<close> is
  the bytes written so far; a \<open>cursor\<close> is the payload, the read position and a sticky
  error: after the first failed read every read returns zero bytes and leaves the position.
  The lemmas show the round trip of every field the handshake uses, the sticky error and
  that the position never leaves the payload.
\<close>

section \<open>The writer\<close>

type_synonym buf = bytes

definition buf_uint32 :: "u32 \<Rightarrow> buf \<Rightarrow> buf" where
  "buf_uint32 v b = b @ put32 v"

definition buf_uint64 :: "u64 \<Rightarrow> buf \<Rightarrow> buf" where
  "buf_uint64 v b = b @ put64 v"

definition buf_raw :: "bytes \<Rightarrow> buf \<Rightarrow> buf" where
  "buf_raw p b = b @ p"

text \<open>\<open>for len(b.b)%4 != 0 { b.b = append(b.b, 0) }\<close>\<close>

function buf_pad :: "buf \<Rightarrow> buf" where
  "buf_pad b = (if length b mod 4 \<noteq> 0 then buf_pad (b @ [0]) else b)"
  by pat_completeness auto
termination
  by (relation "measure (\<lambda>b. pad4 (length b))") (simp_all add: pad4_less)

declare buf_pad.simps [simp del]

definition buf_bytes :: "bytes \<Rightarrow> buf \<Rightarrow> buf" where
  "buf_bytes p b =
     (let head = (if length p \<le> 253 then [word_of_nat (length p)]
                  else [254, word_of_nat (length p), word_of_nat (length p div 256),
                        word_of_nat (length p div 65536)])
      in buf_pad (b @ head @ p))"

section \<open>The reader\<close>

record cursor =
  cb :: bytes
  ci :: nat
  cerr :: "goerr option"

definition newCursor :: "bytes \<Rightarrow> cursor" where
  "newCursor b = \<lparr>cb = b, ci = 0, cerr = None\<rparr>"

definition cursor_take :: "nat \<Rightarrow> cursor \<Rightarrow> bytes \<times> cursor" where
  "cursor_take n c =
     (if cerr c \<noteq> None then (replicate n 0, c)
      else if ci c + n > length (cb c) then (replicate n 0, c\<lparr>cerr := Some ErrUnexpectedEOF\<rparr>)
      else (slice (ci c) (ci c + n) (cb c), c\<lparr>ci := ci c + n\<rparr>))"

definition cursor_uint32 :: "cursor \<Rightarrow> u32 \<times> cursor" where
  "cursor_uint32 c = (case cursor_take 4 c of (p, c') \<Rightarrow> (get32 p, c'))"

definition cursor_uint64 :: "cursor \<Rightarrow> u64 \<times> cursor" where
  "cursor_uint64 c = (case cursor_take 8 c of (p, c') \<Rightarrow> (get64 p, c'))"

definition cursor_int128 :: "cursor \<Rightarrow> bytes \<times> cursor" where
  "cursor_int128 = cursor_take 16"

definition cursor_int256 :: "cursor \<Rightarrow> bytes \<times> cursor" where
  "cursor_int256 = cursor_take 32"

text \<open>\<open>for (c.i)%4 != 0 && c.err == nil { c.take(1) }\<close>\<close>

function cursor_align :: "cursor \<Rightarrow> cursor" where
  "cursor_align c =
     (if ci c mod 4 \<noteq> 0 \<and> cerr c = None then cursor_align (snd (cursor_take 1 c)) else c)"
  by pat_completeness auto
termination
  by (relation "measure (\<lambda>c. if cerr c = None then Suc (pad4 (ci c)) else 0)")
    (auto simp: cursor_take_def pad4_less)

declare cursor_align.simps [simp del]

definition cursor_bytes :: "cursor \<Rightarrow> bytes \<times> cursor" where
  "cursor_bytes c =
     (let (first, c1) = cursor_take 1 c;
          len0 = unat (first ! 0);
          (len, c2) = (if len0 = 254
                       then (let (ext, c') = cursor_take 3 c1 in (le_nat ext, c'))
                       else (len0, c1));
          (out, c3) = cursor_take len c2
      in (out, cursor_align c3))"

definition ctorVector :: u32 where "ctorVector = 0x1CB5C415"
definition ctorServerDHParamsFail :: u32 where "ctorServerDHParamsFail = 0x79CB045D"
definition ctorDHGenRetry :: u32 where "ctorDHGenRetry = 0x46DC1FB9"
definition ctorDHGenFail :: u32 where "ctorDHGenFail = 0xA69DAE02"
definition ctorRPCError :: u32 where "ctorRPCError = 0x2144CA19"

fun cursor_uint64s :: "nat \<Rightarrow> cursor \<Rightarrow> u64 list \<times> cursor" where
  "cursor_uint64s 0 c = ([], c)"
| "cursor_uint64s (Suc n) c =
     (let (v, c') = cursor_uint64 c; (vs, c'') = cursor_uint64s n c' in (v # vs, c''))"

definition cursor_vectorLong :: "cursor \<Rightarrow> u64 list \<times> cursor" where
  "cursor_vectorLong c =
     (let (ctor, c1) = cursor_uint32 c in
      if ctor \<noteq> ctorVector \<and> cerr c1 = None
      then ([], c1\<lparr>cerr := Some (ErrText (''expected a vector, got 0x'' @ hex_word32 ctor))\<rparr>)
      else let (n, c2) = cursor_uint32 c1; count = unat n in
           if count > 64
           then ([], if cerr c2 = None
                     then c2\<lparr>cerr := Some (ErrText (''implausible vector length '' @ dec_nat count))\<rparr>
                     else c2)
           else cursor_uint64s count c2)"

definition describeCtor :: "u32 \<Rightarrow> string" where
  "describeCtor ctor =
     (if ctor = ctorServerDHParamsFail then '' (server_DH_params_fail)''
      else if ctor = ctorDHGenRetry then '' (dh_gen_retry)''
      else if ctor = ctorDHGenFail then '' (dh_gen_fail)''
      else if ctor = ctorRPCError then '' (rpc_error)''
      else [])"

definition cursor_expect :: "u32 \<Rightarrow> string \<Rightarrow> cursor \<Rightarrow> cursor" where
  "cursor_expect want name c =
     (let (got, c1) = cursor_uint32 c in
      if cerr c1 \<noteq> None \<or> got = want then c1
      else c1\<lparr>cerr := Some (ErrText (''expected '' @ name @ '' (0x'' @ hex_word32 want @
             ''), got 0x'' @ hex_word32 got @ describeCtor got))\<rparr>)"

definition bigFromBytes :: "bytes \<Rightarrow> nat" where
  "bigFromBytes p = be_nat p"

text \<open>\<open>FillBytes\<close> panics when the value does not fit.\<close>

definition padTo :: "nat \<Rightarrow> nat \<Rightarrow> goerr + bytes" where
  "padTo v sz = (if v < 256 ^ sz then Inr (be_bytes sz v)
                   else Inl (ErrPanic ''math/big: buffer too small to fit value''))"

section \<open>A cursor inside its payload\<close>

text \<open>\<open>cur xs ys\<close>: \<open>xs\<close> has been read, \<open>ys\<close> is still to come, nothing failed.\<close>

definition cur :: "bytes \<Rightarrow> bytes \<Rightarrow> cursor" where
  "cur xs ys = \<lparr>cb = xs @ ys, ci = length xs, cerr = None\<rparr>"

lemma newCursor_cur: "newCursor b = cur [] b"
  by (simp add: newCursor_def cur_def)

lemma cerr_cur [simp]: "cerr (cur xs ys) = None"
  by (simp add: cur_def)

lemma ci_cur [simp]: "ci (cur xs ys) = length xs"
  by (simp add: cur_def)

lemma cursor_take_cur: "length p = n \<Longrightarrow> cursor_take n (cur xs (p @ ys)) = (p, cur (xs @ p) ys)"
  by (auto simp: cursor_take_def cur_def slice_def)

lemma cursor_take_short:
  "length ys < n \<Longrightarrow> cursor_take n (cur xs ys) = (replicate n 0, (cur xs ys)\<lparr>cerr := Some ErrUnexpectedEOF\<rparr>)"
  by (simp add: cursor_take_def cur_def)

lemma cursor_uint32_cur: "cursor_uint32 (cur xs (put32 v @ ys)) = (v, cur (xs @ put32 v) ys)"
  by (simp add: cursor_uint32_def cursor_take_cur)

lemma cursor_uint64_cur: "cursor_uint64 (cur xs (put64 v @ ys)) = (v, cur (xs @ put64 v) ys)"
  by (simp add: cursor_uint64_def cursor_take_cur)

lemma cursor_int128_cur: "length p = 16 \<Longrightarrow> cursor_int128 (cur xs (p @ ys)) = (p, cur (xs @ p) ys)"
  by (simp add: cursor_int128_def cursor_take_cur)

lemma cursor_expect_cur: "cursor_expect v nm (cur xs (put32 v @ ys)) = cur (xs @ put32 v) ys"
  by (simp add: cursor_expect_def cursor_uint32_cur)

lemma cursor_expect_mismatch:
  "v \<noteq> w \<Longrightarrow> cerr (cursor_expect v nm (cur xs (put32 w @ ys))) \<noteq> None"
  by (simp add: cursor_expect_def cursor_uint32_cur)

lemma cursor_uint64s_cur:
  "cursor_uint64s (length vs) (cur xs (concat (map put64 vs) @ ys)) = (vs, cur (xs @ concat (map put64 vs)) ys)"
  by (induction vs arbitrary: xs) (simp_all add: cursor_uint64_cur)

section \<open>Sticky errors and bounds\<close>

definition cursor_wf :: "cursor \<Rightarrow> bool" where
  "cursor_wf c \<longleftrightarrow> ci c \<le> length (cb c)"

lemma cursor_take_length [simp]: "length (fst (cursor_take n c)) = n"
  by (simp add: cursor_take_def)

lemma cursor_take_wf: "cursor_wf c \<Longrightarrow> cursor_wf (snd (cursor_take n c))"
  by (simp add: cursor_take_def cursor_wf_def)

lemma cursor_take_sticky: "cerr c \<noteq> None \<Longrightarrow> snd (cursor_take n c) = c"
  by (simp add: cursor_take_def)

lemma cursor_take_cb [simp]: "cb (snd (cursor_take n c)) = cb c"
  by (simp add: cursor_take_def)

lemma cursor_take_mono: "ci c \<le> ci (snd (cursor_take n c))"
  by (simp add: cursor_take_def)

lemma cursor_align_wf: "cursor_wf c \<Longrightarrow> cursor_wf (cursor_align c)"
proof (induction c rule: cursor_align.induct)
  case (1 c)
  then show ?case
    by (simp add: cursor_align.simps [of c] cursor_take_wf)
qed

lemma cursor_align_sticky: "cerr c \<noteq> None \<Longrightarrow> cursor_align c = c"
  by (auto simp: cursor_align.simps [of c])

lemma cursor_bytes_wf: "cursor_wf c \<Longrightarrow> cursor_wf (snd (cursor_bytes c))"
  by (simp add: cursor_bytes_def Let_def split_beta cursor_align_wf cursor_take_wf)

lemma cursor_bytes_sticky: "cerr c \<noteq> None \<Longrightarrow> snd (cursor_bytes c) = c"
  by (auto simp: cursor_bytes_def Let_def split_beta cursor_align_sticky cursor_take_sticky)

section \<open>Round trip of byte strings\<close>

definition tl_bytes :: "bytes \<Rightarrow> bytes" where
  "tl_bytes p = buf_bytes p []"

definition tl_head :: "bytes \<Rightarrow> bytes" where
  "tl_head p = (if length p \<le> 253 then [word_of_nat (length p)]
                else [254, word_of_nat (length p), word_of_nat (length p div 256),
                      word_of_nat (length p div 65536)])"

lemma buf_pad_eq: "buf_pad b = b @ replicate (pad4 (length b)) 0"
proof (induction b rule: buf_pad.induct)
  case (1 b)
  then show ?case
    by (cases "length b mod 4 = 0") (simp_all add: buf_pad.simps [of b] pad4_Suc)
qed

lemma buf_bytes_eq:
  "buf_bytes p b = b @ tl_head p @ p @ replicate (pad4 (length b + length (tl_head p) + length p)) 0"
  by (simp add: buf_bytes_def tl_head_def buf_pad_eq)

lemma buf_bytes_append: "length b mod 4 = 0 \<Longrightarrow> buf_bytes p b = b @ tl_bytes p"
  by (simp add: tl_bytes_def buf_bytes_eq pad4_add_aligned add.assoc)

lemma tl_bytes_aligned [simp]: "length (tl_bytes p) mod 4 = 0"
  using add_pad4_mod [of "length (tl_head p) + length p"]
  by (simp add: tl_bytes_def buf_bytes_eq add.assoc del: add_pad4_mod)

lemma cursor_align_zeros:
  "n = pad4 (length xs) \<Longrightarrow>
     cursor_align (cur xs (replicate n 0 @ ys)) = cur (xs @ replicate n 0) ys"
proof (induction n arbitrary: xs)
  case 0
  then show ?case by (simp add: cursor_align.simps [of "cur xs ys"])
next
  case (Suc n)
  then have ne: "length xs mod 4 \<noteq> 0" by (metis nat.distinct(1) pad4_zero_iff)
  with Suc.prems have n: "n = pad4 (length (xs @ [0 :: byte]))" by (simp add: pad4_Suc)
  have t: "cursor_take 1 (cur xs ([0] @ replicate n 0 @ ys)) = ([0], cur (xs @ [0]) (replicate n 0 @ ys))"
    by (rule cursor_take_cur) simp
  from ne Suc.IH [OF n] t show ?case
    by (simp add: cursor_align.simps [of "cur xs (0 # replicate n 0 @ ys)"])
qed

lemma le_nat_size24:
  "n < 16777216 \<Longrightarrow> le_nat [word_of_nat n, word_of_nat (n div 256), word_of_nat (n div 65536)] = n"
  using le_nat_le_bytes [of 3 n] by (simp add: numeral_3_eq_3 div_mult2_eq [symmetric])

lemma cursor_bytes_cur:
  assumes "length p < 16777216" and "length xs mod 4 = 0"
  shows "cursor_bytes (cur xs (tl_bytes p @ ys)) = (p, cur (xs @ tl_bytes p) ys)"
proof -
  define z where "z = pad4 (length (tl_head p) + length p)"
  have tl: "tl_bytes p = tl_head p @ p @ replicate z 0"
    by (simp add: tl_bytes_def buf_bytes_eq z_def)
  have z: "z = pad4 (length (xs @ tl_head p @ p))"
    using assms(2) by (simp add: z_def pad4_add_aligned)
  have al: "cursor_align (cur (xs @ tl_head p @ p) (replicate z 0 @ ys)) = cur (xs @ tl_bytes p) ys"
    using cursor_align_zeros [OF z] by (simp add: tl)
  show ?thesis
  proof (cases "length p \<le> 253")
    case True
    then have h: "tl_head p = [word_of_nat (length p)]" by (simp add: tl_head_def)
    have t1: "cursor_take 1 (cur xs (tl_bytes p @ ys)) = (tl_head p, cur (xs @ tl_head p) (p @ replicate z 0 @ ys))"
      using cursor_take_cur [of "tl_head p" 1 xs "p @ replicate z 0 @ ys"] by (simp add: tl h)
    have t2: "cursor_take (length p) (cur (xs @ tl_head p) (p @ replicate z 0 @ ys)) = (p, cur (xs @ tl_head p @ p) (replicate z 0 @ ys))"
      using cursor_take_cur [of p "length p" "xs @ tl_head p" "replicate z 0 @ ys"] by simp
    have u: "unat (tl_head p ! 0) = length p" using True by (simp add: h unat_of_nat)
    show ?thesis using True by (simp add: cursor_bytes_def t1 [unfolded One_nat_def] t2 u al)
  next
    case False
    define sz :: bytes where "sz = [word_of_nat (length p), word_of_nat (length p div 256), word_of_nat (length p div 65536)]"
    from False have h: "tl_head p = [254] @ sz" by (simp add: tl_head_def sz_def)
    have t1: "cursor_take 1 (cur xs (tl_bytes p @ ys)) = ([254], cur (xs @ [254]) (sz @ p @ replicate z 0 @ ys))"
      using cursor_take_cur [of "[254]" 1 xs "sz @ p @ replicate z 0 @ ys"] by (simp add: tl h)
    have t2: "cursor_take 3 (cur (xs @ [254]) (sz @ p @ replicate z 0 @ ys)) = (sz, cur (xs @ tl_head p) (p @ replicate z 0 @ ys))"
      using cursor_take_cur [of sz 3 "xs @ [254]" "p @ replicate z 0 @ ys"] by (simp add: h sz_def)
    have t3: "cursor_take (length p) (cur (xs @ tl_head p) (p @ replicate z 0 @ ys)) = (p, cur (xs @ tl_head p @ p) (replicate z 0 @ ys))"
      using cursor_take_cur [of p "length p" "xs @ tl_head p" "replicate z 0 @ ys"] by simp
    have s: "le_nat sz = length p" using assms(1) by (simp only: sz_def le_nat_size24)
    show ?thesis by (simp add: cursor_bytes_def t1 [unfolded One_nat_def] t2 t3 s al)
  qed
qed

lemma cursor_vectorLong_cur:
  assumes "length vs \<le> 64"
  shows "cursor_vectorLong (cur xs (put32 ctorVector @ put32 (word_of_nat (length vs)) @ concat (map put64 vs) @ ys))
     = (vs, cur (xs @ put32 ctorVector @ put32 (word_of_nat (length vs)) @ concat (map put64 vs)) ys)"
  using assms
  by (simp add: cursor_vectorLong_def cursor_uint32_cur unat_of_nat cursor_uint64s_cur)

section \<open>Inversion: what an error-free read has consumed\<close>

lemma cursor_take_ok: "cerr (snd (cursor_take n c)) = None \<Longrightarrow> cerr c = None"
  by (auto simp: cursor_take_def split: if_splits)

lemma cursor_take_inv:
  "cursor_take n (cur xs ys) = (p, c') \<Longrightarrow> cerr c' = None \<Longrightarrow>
     \<exists>ys'. length p = n \<and> ys = p @ ys' \<and> c' = cur (xs @ p) ys'"
  by (auto simp: cursor_take_def cur_def slice_def split: if_splits
      intro!: exI [of _ "drop n ys"])

lemma cursor_uint32_ok: "cerr (snd (cursor_uint32 c)) = None \<Longrightarrow> cerr c = None"
  by (auto simp: cursor_uint32_def split_beta dest: cursor_take_ok)

lemma cursor_uint32_inv:
  "cursor_uint32 (cur xs ys) = (v, c') \<Longrightarrow> cerr c' = None \<Longrightarrow>
     \<exists>ys'. ys = put32 v @ ys' \<and> c' = cur (xs @ put32 v) ys'"
  by (auto simp: cursor_uint32_def put32_get32 split: prod.splits dest!: cursor_take_inv)

lemma cursor_expect_ok: "cerr (cursor_expect v nm c) = None \<Longrightarrow> cerr c = None"
  by (auto simp: cursor_expect_def split_beta Let_def dest: cursor_uint32_ok split: if_splits)

lemma cursor_expect_inv:
  assumes "cerr (cursor_expect v nm (cur xs ys)) = None"
  shows "\<exists>ys'. ys = put32 v @ ys' \<and> cursor_expect v nm (cur xs ys) = cur (xs @ put32 v) ys'"
proof -
  obtain got c1 where g: "cursor_uint32 (cur xs ys) = (got, c1)" by fastforce
  with assms have "got = v" "cerr c1 = None" "cursor_expect v nm (cur xs ys) = c1"
    by (auto simp: cursor_expect_def split: if_splits)
  with cursor_uint32_inv [OF g] show ?thesis by auto
qed

lemma cursor_align_inv:
  "cerr (cursor_align (cur xs ys)) = None \<Longrightarrow>
     \<exists>z ys'. ys = z @ ys' \<and> length z = pad4 (length xs) \<and> cursor_align (cur xs ys) = cur (xs @ z) ys'"
proof (induction "pad4 (length xs)" arbitrary: xs ys)
  case 0
  then have "length xs mod 4 = 0" by simp
  then have "cursor_align (cur xs ys) = cur xs ys" by (simp add: cursor_align.simps [of "cur xs ys"])
  with 0 show ?case by (intro exI [of _ "[]"] exI [of _ ys]) simp
next
  case (Suc n)
  then have ne: "length xs mod 4 \<noteq> 0" by (metis nat.distinct(1) pad4_zero_iff)
  then have al: "cursor_align (cur xs ys) = cursor_align (snd (cursor_take 1 (cur xs ys)))"
    by (subst cursor_align.simps) simp
  have e: "cerr (snd (cursor_take 1 (cur xs ys))) = None"
  proof (rule ccontr)
    assume "cerr (snd (cursor_take 1 (cur xs ys))) \<noteq> None"
    then show False using Suc.prems al cursor_align_sticky by metis
  qed
  obtain p c' where t: "cursor_take 1 (cur xs ys) = (p, c')" by fastforce
  then obtain ys1 where y: "length p = 1" "ys = p @ ys1" "c' = cur (xs @ p) ys1"
    using cursor_take_inv [OF t] e by auto
  have n: "n = pad4 (length (xs @ p))" using Suc.hyps(2) ne y(1) by (simp add: pad4_Suc)
  have "cerr (cursor_align (cur (xs @ p) ys1)) = None" using Suc.prems al t y(3) by simp
  from Suc.hyps(1) [OF n this] obtain z ys' where "ys1 = z @ ys'" "length z = pad4 (length (xs @ p))"
    "cursor_align (cur (xs @ p) ys1) = cur ((xs @ p) @ z) ys'" by blast
  with al t y n Suc.hyps(2) show ?case
    by (intro exI [of _ "p @ z"] exI [of _ ys']) auto
qed

lemma cursor_bytes_ok: "cerr (snd (cursor_bytes c)) = None \<Longrightarrow> cerr c = None"
  using cursor_bytes_sticky by fastforce

lemma cursor_uint64s_ok: "cerr (snd (cursor_uint64s n c)) = None \<Longrightarrow> cerr c = None"
  by (induction n arbitrary: c) (auto simp: cursor_uint64_def split_beta Let_def dest: cursor_take_ok)

lemma cursor_vectorLong_ok: "cerr (snd (cursor_vectorLong c)) = None \<Longrightarrow> cerr c = None"
  by (auto simp: cursor_vectorLong_def split_beta Let_def dest!: cursor_uint64s_ok cursor_uint32_ok split: if_splits)

text \<open>The encodings of a byte string that the reader accepts: the length in one byte or, after 254,
  in three, the string, and padding of any value up to the next word.  The first byte 255 counts as
  a length.\<close>

definition tl_length :: "bytes \<Rightarrow> nat \<Rightarrow> bool" where
  "tl_length head n \<longleftrightarrow> (\<exists>b. head = [b] \<and> b \<noteq> 254 \<and> unat b = n) \<or>
     (\<exists>ext. head = 254 # ext \<and> length ext = 3 \<and> le_nat ext = n)"

definition tl_field :: "bytes \<Rightarrow> bytes \<Rightarrow> bool" where
  "tl_field p enc \<longleftrightarrow> (\<exists>head padding. enc = head @ p @ padding \<and> tl_length head (length p) \<and>
     length padding = pad4 (length head + length p))"

lemma cursor_bytes_inv':
  assumes b: "cursor_bytes (cur xs ys) = (p, c')" and e: "cerr c' = None"
  shows "\<exists>head padding ys'. ys = head @ p @ padding @ ys' \<and> c' = cur (xs @ head @ p @ padding) ys' \<and>
     tl_length head (length p) \<and> length padding = pad4 (length xs + (length head + length p))"
proof -
  obtain first c1 where t1: "cursor_take 1 (cur xs ys) = (first, c1)" by fastforce
  define l2 where "l2 = (if unat (first ! 0) = 254 then (case cursor_take 3 c1 of (ext, c) \<Rightarrow> (le_nat ext, c))
       else (unat (first ! 0), c1))"
  obtain n c2 where t2: "l2 = (n, c2)" by fastforce
  obtain q c3 where t3: "cursor_take n c2 = (q, c3)" by fastforce
  have r: "p = q" "c' = cursor_align c3"
    using b t2 by (auto simp: cursor_bytes_def t1 [unfolded One_nat_def] Let_def l2_def t3 split: if_splits prod.splits)
  have e3: "cerr c3 = None" using e r cursor_align_sticky by metis
  then have e2: "cerr c2 = None" using t3 cursor_take_ok by (metis snd_conv)
  have e1: "cerr c1 = None"
    using e2 t2 cursor_take_ok [of 3 c1] by (auto simp: l2_def split: if_splits prod.splits)
  obtain ys1 where y1: "ys = first @ ys1" "c1 = cur (xs @ first) ys1" "length first = 1"
    using cursor_take_inv [OF t1 e1] by auto
  then obtain x where x: "first = [x]" by (cases first) auto
  obtain m ys2 where y2: "ys1 = m @ ys2" "c2 = cur (xs @ first @ m) ys2" "tl_length (first @ m) n"
  proof (cases "unat (first ! 0) = 254")
    case True
    then have "x = 254" by (simp add: x word_unat_eq_iff)
    obtain ext cx where ext: "cursor_take 3 c1 = (ext, cx)" by fastforce
    with True t2 have "cx = c2" "n = le_nat ext" by (simp_all add: l2_def)
    with ext e2 y1 that \<open>x = 254\<close> show ?thesis by (auto simp: x tl_length_def dest!: cursor_take_inv)
  next
    case False
    then have "x \<noteq> 254" by (auto simp: x)
    with False t2 y1 that [of "[]" ys1] show ?thesis by (simp add: l2_def x tl_length_def)
  qed
  obtain ys3 where y3: "ys2 = q @ ys3" "c3 = cur (xs @ first @ m @ q) ys3" "length q = n"
    using cursor_take_inv [OF t3 [unfolded y2(2)] e3] by auto
  obtain z ys4 where z: "ys3 = z @ ys4" "cursor_align c3 = cur ((xs @ first @ m @ q) @ z) ys4" "length z = pad4 (length (xs @ first @ m @ q))"
    using cursor_align_inv [of "xs @ first @ m @ q" ys3] e r y3 by auto
  show ?thesis
    using r y1 y2 y3 z by (intro exI [of _ "first @ m"] exI [of _ z] exI [of _ ys4]) simp
qed

lemma cursor_bytes_inv:
  assumes "cursor_bytes (cur xs ys) = (p, c')" and "cerr c' = None"
  shows "\<exists>enc ys'. ys = enc @ ys' \<and> c' = cur (xs @ enc) ys'"
  using cursor_bytes_inv' [OF assms] by (metis append_assoc)

lemma cursor_bytes_field:
  assumes "cursor_bytes (cur xs ys) = (p, c')" and "cerr c' = None" and "length xs mod 4 = 0"
  shows "\<exists>enc ys'. ys = enc @ ys' \<and> c' = cur (xs @ enc) ys' \<and> tl_field p enc"
proof -
  obtain head padding ys' where c: "ys = head @ p @ padding @ ys'" "c' = cur (xs @ head @ p @ padding) ys'"
    "tl_length head (length p)" "length padding = pad4 (length xs + (length head + length p))"
    using cursor_bytes_inv' [OF assms(1,2)] by blast
  then have "tl_field p (head @ p @ padding)"
    unfolding tl_field_def using assms(3) by (intro exI [of _ head] exI [of _ padding]) (simp add: pad4_add_aligned)
  with c(1,2) show ?thesis by (intro exI [of _ "head @ p @ padding"] exI [of _ ys']) simp
qed

lemma tl_field_aligned: "tl_field p enc \<Longrightarrow> length enc mod 4 = 0"
  using add_pad4_mod by (auto simp: tl_field_def add.assoc [symmetric])

text \<open>Every such encoding is read.\<close>

lemma cursor_align_any:
  "length z = pad4 (length xs) \<Longrightarrow> cursor_align (cur xs (z @ ys)) = cur (xs @ z) ys"
proof (induction z arbitrary: xs)
  case Nil
  then show ?case by (simp add: cursor_align.simps [of "cur xs ys"])
next
  case (Cons a z)
  then have ne: "length xs mod 4 \<noteq> 0" by (metis length_Cons nat.distinct(1) pad4_zero_iff)
  with Cons.prems have n: "length z = pad4 (length (xs @ [a]))" by (simp add: pad4_Suc)
  have t: "cursor_take 1 (cur xs ([a] @ z @ ys)) = ([a], cur (xs @ [a]) (z @ ys))"
    by (rule cursor_take_cur) simp
  from ne Cons.IH [OF n] t show ?case by (simp add: cursor_align.simps [of "cur xs (a # z @ ys)"])
qed

lemma cursor_bytes_any:
  assumes "tl_field p enc" and "length xs mod 4 = 0"
  shows "cursor_bytes (cur xs (enc @ ys)) = (p, cur (xs @ enc) ys)"
proof -
  obtain head z where f: "enc = head @ p @ z" "tl_length head (length p)" "length z = pad4 (length head + length p)"
    using assms(1) by (auto simp: tl_field_def)
  have al: "cursor_align (cur (xs @ head @ p) (z @ ys)) = cur (xs @ enc) ys"
    using cursor_align_any [of z "xs @ head @ p" ys] assms(2) f(1,3) by (simp add: pad4_add_aligned)
  have t: "cursor_take (length p) (cur (xs @ head) (p @ z @ ys)) = (p, cur (xs @ head @ p) (z @ ys))"
    using cursor_take_cur [of p "length p" "xs @ head" "z @ ys"] by simp
  from f(2) consider b where "head = [b]" "b \<noteq> 254" "unat b = length p"
    | ext where "head = 254 # ext" "length ext = 3" "le_nat ext = length p"
    by (auto simp: tl_length_def)
  then show ?thesis
  proof cases
    case 1
    have "cursor_take 1 (cur xs ([b] @ p @ z @ ys)) = ([b], cur (xs @ [b]) (p @ z @ ys))" by (rule cursor_take_cur) simp
    moreover have "unat b \<noteq> 254" using 1(2) by (simp add: word_unat_eq_iff)
    ultimately show ?thesis using t al 1 by (simp add: cursor_bytes_def f(1))
  next
    case 2
    have "cursor_take 1 (cur xs ([254] @ ext @ p @ z @ ys)) = ([254], cur (xs @ [254]) (ext @ p @ z @ ys))" by (rule cursor_take_cur) simp
    moreover have "cursor_take 3 (cur (xs @ [254]) (ext @ p @ z @ ys)) = (ext, cur (xs @ head) (p @ z @ ys))"
      using cursor_take_cur [OF 2(2), of "xs @ [254]" "p @ z @ ys"] 2(1) by simp
    ultimately show ?thesis using t al 2 by (simp add: cursor_bytes_def f(1))
  qed
qed

lemma tl_bytes_field: "length p < 16777216 \<Longrightarrow> tl_field p (tl_bytes p)"
proof -
  assume l: "length p < 16777216"
  have "tl_length (tl_head p) (length p)"
  proof (cases "length p \<le> 253")
    case True
    then have "unat (word_of_nat (length p) :: byte) = length p" by (simp add: unat_of_nat)
    moreover from this True have "(word_of_nat (length p) :: byte) \<noteq> 254" by (auto simp: word_unat_eq_iff)
    ultimately show ?thesis using True by (simp add: tl_length_def tl_head_def)
  next
    case False
    then show ?thesis using le_nat_size24 [OF l] by (simp add: tl_length_def tl_head_def)
  qed
  then show ?thesis unfolding tl_field_def
    by (intro exI [of _ "tl_head p"] exI [of _ "replicate (pad4 (length (tl_head p) + length p)) 0"])
      (simp add: tl_bytes_def buf_bytes_eq)
qed

lemma cursor_uint64_inv:
  "cursor_uint64 (cur xs ys) = (v, c') \<Longrightarrow> cerr c' = None \<Longrightarrow>
     \<exists>ys'. ys = put64 v @ ys' \<and> c' = cur (xs @ put64 v) ys'"
  by (auto simp: cursor_uint64_def put64_get64 split: prod.splits dest!: cursor_take_inv)

lemma cursor_uint64s_inv:
  "cursor_uint64s n (cur xs ys) = (vs, c') \<Longrightarrow> cerr c' = None \<Longrightarrow>
     \<exists>ys'. length vs = n \<and> ys = concat (map put64 vs) @ ys' \<and> c' = cur (xs @ concat (map put64 vs)) ys'"
proof (induction n arbitrary: xs ys vs c')
  case 0
  then show ?case by auto
next
  case (Suc n)
  obtain v c1 where 1: "cursor_uint64 (cur xs ys) = (v, c1)" by fastforce
  obtain us c2 where 2: "cursor_uint64s n c1 = (us, c2)" by fastforce
  have vs: "vs = v # us" "c' = c2" using Suc.prems(1) by (simp_all add: 1 2)
  then have "cerr c1 = None" using Suc.prems(2) 2 cursor_uint64s_ok [of n c1] by simp
  from cursor_uint64_inv [OF 1 this] obtain ys1 where y: "ys = put64 v @ ys1" "c1 = cur (xs @ put64 v) ys1" by blast
  from Suc.IH [OF 2 [unfolded y(2)]] Suc.prems(2) vs y show ?case by auto
qed

lemma cursor_vectorLong_inv:
  assumes r: "cursor_vectorLong (cur xs ys) = (vs, c')" and e: "cerr c' = None"
  shows "\<exists>ys'. length vs \<le> 64 \<and> ys = put32 ctorVector @ put32 (word_of_nat (length vs)) @ concat (map put64 vs) @ ys'"
proof -
  obtain k c1 where 1: "cursor_uint32 (cur xs ys) = (k, c1)" by fastforce
  obtain n c2 where 2: "cursor_uint32 c1 = (n, c2)" by fastforce
  have "cerr c1 = None" using e r cursor_uint32_ok [of c1] cursor_uint64s_ok [of "unat n" c2]
    by (auto simp: cursor_vectorLong_def 1 2 Let_def split: if_splits)
  with r e have k: "k = ctorVector" by (auto simp: cursor_vectorLong_def 1 2 Let_def split: if_splits)
  with r e have c: "unat n \<le> 64" "cursor_uint64s (unat n) c2 = (vs, c')"
    by (auto simp: cursor_vectorLong_def 1 2 Let_def split: if_splits)
  have "cerr c2 = None" using c(2) e cursor_uint64s_ok [of "unat n" c2] by simp
  obtain ys1 where y1: "ys = put32 k @ ys1" "c1 = cur (xs @ put32 k) ys1"
    using cursor_uint32_inv [OF 1 \<open>cerr c1 = None\<close>] by blast
  obtain ys2 where y2: "ys1 = put32 n @ ys2" "c2 = cur ((xs @ put32 k) @ put32 n) ys2"
    using cursor_uint32_inv [OF 2 [unfolded y1(2)] \<open>cerr c2 = None\<close>] by blast
  obtain ys3 where "length vs = unat n" "ys2 = concat (map put64 vs) @ ys3"
    using cursor_uint64s_inv [OF c(2) [unfolded y2(2)] e] by blast
  with k y1 y2 c(1) show ?thesis by simp
qed

lemmas cursor_cur_simps = cursor_uint32_cur cursor_uint64_cur cursor_int128_cur cursor_expect_cur
  cursor_bytes_cur cursor_vectorLong_cur cursor_take_cur

lemma bigFromBytes_padTo: "padTo v sz = Inr p \<Longrightarrow> bigFromBytes p = v \<and> length p = sz"
  by (auto simp: padTo_def bigFromBytes_def be_nat_be_bytes split: if_splits)

end
