(* ===== verification/Rsa.thy ===== *)
theory Rsa
  imports Crypto Tl
begin

text \<open>
  \<open>internal/mtproto/rsa.go\<close>: Telegram's public keys, their fingerprints, and RSA_PAD.  The
  two embedded PEM blocks appear as the moduli and exponents they encode.  The main lemma
  is that the owner of the private exponent recovers the padded data and its hash check.
\<close>

text \<open>\<open>Exp(x, y, m)\<close> of \<open>math/big\<close>, for \<open>m > 0\<close>.\<close>

definition modexp :: "nat \<Rightarrow> nat \<Rightarrow> nat \<Rightarrow> nat" where
  "modexp x y m = x ^ y mod m"

text \<open>\<open>v.Bytes()\<close>: big-endian without leading zeros.\<close>

definition big_bytes :: "nat \<Rightarrow> bytes" where
  "big_bytes v = be_bytes ((bit_len v + 7) div 8) v"

record publicKey =
  pk_N :: nat
  pk_E :: nat
  pk_fingerprint :: u64

definition keyFingerprint :: "crypto \<Rightarrow> nat \<Rightarrow> nat \<Rightarrow> u64" where
  "keyFingerprint C n e =
     (let b = buf_bytes (big_bytes e) (buf_bytes (big_bytes n) []);
          sum = sha1 C b
      in get64 (slice 12 20 sum))"

definition telegramModuli :: "nat list" where
  "telegramModuli =
     [0xC150023E2F70DB7985DED064759CFECF0AF328E69A41DAF4D6F01B538135A6F91F8F8B2A0EC9BA9720CE352EFCF6C5680FFC424BD634864902DE0B4BD6D49F4E580230E3AE97D95C8B19442B3C0A10D8F5633FECEDD6926A7F6DAB0DDB7D457F9EA81B8465FCD6FFFEED114011DF91C059CAEDAF97625F6C96ECC74725556934EF781D866B34F011FCE4D835A090196E9A5F0E4449AF7EB697DDB9076494CA5F81104A305B6DD27665722C46B60E5DF680FB16B210607EF217652E60236C255F6A28315F4083A96791D7214BF64C1DF4FD0DB1944FB26A2A57031B32EEE64AD15A8BA68885CDE74A5BFC920F6ABF59BA5C75506373E7130F9042DA922179251F,
      0xE8BB3305C0B52C6CF2AFDF7637313489E63E05268E5BADB601AF417786472E5F93B85438968E20E6729A301C0AFC121BF7151F834436F7FDA680847A66BF64ACCEC78EE21C0B316F0EDAFE2F41908DA7BD1F4A5107638EEB67040ACE472A14F90D9F7C2B7DEF99688BA3073ADB5750BB02964902A359FE745D8170E36876D4FD8A5D41B2A76CBFF9A13267EB9580B2D06D10357448D20D9DA2191CB5D8C93982961CDFDEDA629E37F1FB09A0722027696032FE61ED663DB7A37F6F263D370F69DB53A0DC0A1748BDAAFF6209D5645485E6E001D1953255757E4B8E42813347B11DA6AB500FD0ACE7E6DFA3736199CCAF9397ED0745A427DCFA6CD67BCB1ACFF3]"

definition telegramKeys :: "crypto \<Rightarrow> publicKey list" where
  "telegramKeys C =
     map (\<lambda>n. \<lparr>pk_N = n, pk_E = 65537, pk_fingerprint = keyFingerprint C n 65537\<rparr>) telegramModuli"

fun find_key :: "u64 \<Rightarrow> publicKey list \<Rightarrow> publicKey option" where
  "find_key fp [] = None"
| "find_key fp (key # keys) = (if pk_fingerprint key = fp then Some key else find_key fp keys)"

fun select_from :: "publicKey list \<Rightarrow> u64 list \<Rightarrow> publicKey option" where
  "select_from keys [] = None"
| "select_from keys (fp # fps) =
     (case find_key fp keys of Some key \<Rightarrow> Some key | None \<Rightarrow> select_from keys fps)"

definition selectKey :: "crypto \<Rightarrow> u64 list \<Rightarrow> goerr + publicKey" where
  "selectKey C fingerprints =
     (case select_from (telegramKeys C) fingerprints of
        Some key \<Rightarrow> Inr key
      | None \<Rightarrow> Inl (ErrText (''server offered no known RSA key (fingerprints ['' @
          join '' '' (map (\<lambda>fp. hex_nat (unat fp)) fingerprints) @ ''])'')))"

text \<open>One of the at most 64 rounds: a fresh temporary key until the value is below \<open>N\<close>.\<close>

primrec rsaPad_rounds :: "nat \<Rightarrow> crypto \<Rightarrow> bytes \<Rightarrow> bytes \<Rightarrow> publicKey \<Rightarrow> ('z env_scheme, bytes) io" where
  "rsaPad_rounds 0 C dataWithPadding dataPadReversed key =
     io_fail (ErrText ''RSA_PAD could not produce a value below the modulus'')"
| "rsaPad_rounds (Suc k) C dataWithPadding dataPadReversed key =
     io_bind (randomBytes 32) (\<lambda>tempKey.
       let hash = sha256 C (tempKey @ dataWithPadding);
           dataWithHash = dataPadReversed @ hash
       in io_bind (io_lift (igeEncrypt C dataWithHash tempKey (replicate 32 0))) (\<lambda>encrypted.
            let keyHash = sha256 C encrypted;
                keyAESEncrypted = xor_bytes tempKey keyHash @ encrypted;
                value = bigFromBytes keyAESEncrypted
            in if value \<ge> pk_N key then rsaPad_rounds k C dataWithPadding dataPadReversed key
               else io_lift (padTo (modexp value (pk_E key) (pk_N key)) 256)))"

definition rsaPad :: "crypto \<Rightarrow> bytes \<Rightarrow> publicKey \<Rightarrow> ('z env_scheme, bytes) io" where
  "rsaPad C data key =
     (if length data > 144
      then io_fail (ErrText (''RSA_PAD payload is '' @ dec_nat (length data) @ '' bytes, limit is 144''))
      else io_bind (randomBytes (192 - length data)) (\<lambda>padding.
             let dataWithPadding = data @ padding
             in rsaPad_rounds 64 C dataWithPadding (rev dataWithPadding) key))"

text \<open>\<open>randomBigInt(bits)\<close>\<close>

definition randomBigInt :: "nat \<Rightarrow> ('z env_scheme, nat) io" where
  "randomBigInt bits = rand_int (2 ^ bits)"

section \<open>Key selection\<close>

lemma find_key_Some: "find_key fp keys = Some key \<Longrightarrow> key \<in> set keys \<and> pk_fingerprint key = fp"
  by (induction keys) (auto split: if_splits)

lemma find_key_None: "find_key fp keys = None \<longleftrightarrow> fp \<notin> pk_fingerprint ` set keys"
  by (induction keys) auto

lemma select_from_Some:
  "select_from keys fps = Some key \<Longrightarrow> key \<in> set keys \<and> pk_fingerprint key \<in> set fps"
  by (induction fps) (auto split: option.splits dest: find_key_Some)

lemma select_from_None:
  "select_from keys fps = None \<longleftrightarrow> set fps \<inter> pk_fingerprint ` set keys = {}"
  by (induction fps) (auto simp: find_key_None split: option.splits dest: find_key_Some)

section \<open>The server's side of RSA\_PAD\<close>

text \<open>What the server does with the 256 bytes: raise to the private exponent, unmask the
  temporary key, decrypt, reverse, and compare the hash.\<close>

definition rsa_unpad :: "crypto \<Rightarrow> nat \<Rightarrow> nat \<Rightarrow> bytes \<Rightarrow> bytes option" where
  "rsa_unpad C n d cipher =
     (let value = be_bytes 256 (modexp (be_nat cipher) d n);
          encrypted = drop 32 value;
          tempKey = xor_bytes (take 32 value) (sha256 C encrypted)
      in case igeDecrypt C encrypted tempKey (replicate 32 0) of
           Inl _ \<Rightarrow> None
         | Inr plain \<Rightarrow>
             let dataWithPadding = rev (take 192 plain)
             in if sha256 C (tempKey @ dataWithPadding) = drop 192 plain then Some dataWithPadding else None)"

definition rsa_pair :: "nat \<Rightarrow> nat \<Rightarrow> nat \<Rightarrow> bool" where
  "rsa_pair n e d \<longleftrightarrow> (\<forall>v < n. (v ^ e mod n) ^ d mod n = v)"

lemma rsaPad_round_recovered:
  assumes C: "crypto_ok C" and key: "rsa_pair (pk_N key) (pk_E key) d" "0 < pk_N key" "pk_N key \<le> 256 ^ 256"
    and len: "length tempKey = 32" "length dp = 192"
    and enc: "igeEncrypt C (rev dp @ sha256 C (tempKey @ dp)) tempKey (replicate 32 0) = Inr encrypted"
    and vl: "value = bigFromBytes (xor_bytes tempKey (sha256 C encrypted) @ encrypted)" "value < pk_N key"
    and out: "padTo (modexp value (pk_E key) (pk_N key)) 256 = Inr out"
  shows "rsa_unpad C (pk_N key) d out = Some dp"
proof -
  have le: "length encrypted = 224"
    using igeEncrypt_length [OF C enc] len by (simp add: crypto_okD [OF C])
  let ?masked = "xor_bytes tempKey (sha256 C encrypted)"
  have lm: "length ?masked = 32" using len by (simp add: crypto_okD [OF C])
  have o: "be_nat out = modexp value (pk_E key) (pk_N key)"
    using bigFromBytes_padTo [OF out] by (simp add: bigFromBytes_def)
  have "modexp (be_nat out) d (pk_N key) = value"
    using key(1) vl(2) by (simp add: o modexp_def rsa_pair_def)
  moreover have "be_bytes 256 value = ?masked @ encrypted"
    using be_bytes_be_nat [of "?masked @ encrypted"] le lm by (simp add: vl(1) bigFromBytes_def)
  ultimately have v: "be_bytes 256 (modexp (be_nat out) d (pk_N key)) = ?masked @ encrypted" by simp
  have t: "xor_bytes ?masked (sha256 C encrypted) = tempKey"
    using len by (intro xor_bytes_cancel) (simp add: crypto_okD [OF C])
  have "igeDecrypt C encrypted tempKey (replicate 32 0) = Inr (rev dp @ sha256 C (tempKey @ dp))"
    by (rule ige_inverse [OF C enc])
  then show ?thesis
    using lm len by (simp add: rsa_unpad_def v t)
qed

lemma rsaPad_rounds_recovered:
  assumes C: "crypto_ok C" and key: "rsa_pair (pk_N key) (pk_E key) d" "0 < pk_N key" "pk_N key \<le> 256 ^ 256"
    and len: "length dp = 192"
  shows "rsaPad_rounds k C dp (rev dp) key w = (Inr out, w') \<Longrightarrow> rsa_unpad C (pk_N key) d out = Some dp"
proof (induction k arbitrary: w)
  case 0
  then show ?case by simp
next
  case (Suc k)
  then obtain tempKey w1 encrypted where
    t: "randomBytes 32 w = (Inr tempKey, w1)"
    and e: "igeEncrypt C (rev dp @ sha256 C (tempKey @ dp)) tempKey (replicate 32 0) = Inr encrypted"
    and r: "(let value = bigFromBytes (xor_bytes tempKey (sha256 C encrypted) @ encrypted)
            in if value \<ge> pk_N key then rsaPad_rounds k C dp (rev dp) key
               else io_lift (padTo (modexp value (pk_E key) (pk_N key)) 256)) w1 = (Inr out, w')"
    by (auto simp: io_bind_eq_Inr Let_def)
  have lt: "length tempKey = 32" using t by (rule randomBytes_length)
  show ?case
  proof (cases "bigFromBytes (xor_bytes tempKey (sha256 C encrypted) @ encrypted) \<ge> pk_N key")
    case True
    with r Suc.IH show ?thesis by (simp add: Let_def)
  next
    case False
    with r have "padTo (modexp (bigFromBytes (xor_bytes tempKey (sha256 C encrypted) @ encrypted)) (pk_E key) (pk_N key)) 256 = Inr out"
      by (simp add: Let_def)
    with False show ?thesis
      by (intro rsaPad_round_recovered [OF C key lt len e refl]) simp_all
  qed
qed

lemma rsaPad_recovered:
  assumes "crypto_ok C" and "0 < pk_N key" "pk_N key \<le> 256 ^ 256" and r: "rsaPad C data key w = (Inr out, w')"
  shows "\<exists>padding. length (data @ padding) = 192 \<and>
     (\<forall>d. rsa_pair (pk_N key) (pk_E key) d \<longrightarrow> rsa_unpad C (pk_N key) d out = Some (data @ padding))"
proof -
  from r have l: "length data \<le> 144" by (auto simp: rsaPad_def split: if_splits)
  with r obtain padding w1 where p: "randomBytes (192 - length data) w = (Inr padding, w1)"
    "rsaPad_rounds 64 C (data @ padding) (rev (data @ padding)) key w1 = (Inr out, w')"
    by (auto simp: rsaPad_def Let_def io_bind_eq_Inr)
  have "length (data @ padding) = 192" using randomBytes_length [OF p(1)] l by simp
  with rsaPad_rounds_recovered [OF assms(1) _ assms(2,3) this p(2)] show ?thesis by blast
qed

text \<open>A modulus of at most 2048 bits makes \<open>FillBytes\<close> safe.\<close>

lemma rsaPad_rounds_no_panic:
  assumes key: "0 < pk_N key" "pk_N key \<le> 256 ^ 256"
  shows "rsaPad_rounds k C dp dr key w \<noteq> (Inl (ErrPanic m), w')"
proof (induction k arbitrary: w)
  case 0
  then show ?case by simp
next
  case (Suc k)
  have "modexp v e (pk_N key) < 256 ^ 256" for v e
    unfolding modexp_def by (rule less_le_trans [OF mod_less_divisor [OF key(1)] key(2)])
  then have p: "padTo (modexp v e (pk_N key)) 256 \<noteq> Inl x" for v e x
    by (simp add: padTo_def)
  show ?case
    using Suc.IH p
    by (auto simp: io_bind_eq_Inl Let_def randomBytes_def igeEncrypt_def ige_checks_def split: if_splits)
qed

text \<open>A first round that succeeds.\<close>

definition rsa_value :: "crypto \<Rightarrow> bytes \<Rightarrow> bytes \<Rightarrow> nat" where
  "rsa_value C tempKey dp = (case igeEncrypt C (rev dp @ sha256 C (tempKey @ dp)) tempKey (replicate 32 0) of
      Inr encrypted \<Rightarrow> bigFromBytes (xor_bytes tempKey (sha256 C encrypted) @ encrypted) | Inl _ \<Rightarrow> 0)"

lemma rsaPad_first_round:
  assumes C: "crypto_ok C" and d: "length data \<le> 144"
    and e: "entropy w = padding @ tempKey @ ent" "length padding = 192 - length data" "length tempKey = 32"
    and v: "rsa_value C tempKey (data @ padding) < pk_N key" "pk_N key \<le> 256 ^ 256"
  shows "\<exists>out. rsaPad C data key w = (Inr out, w\<lparr>entropy := ent\<rparr>)"
proof -
  let ?dp = "data @ padding"
  let ?pl = "rev ?dp @ sha256 C (tempKey @ ?dp)"
  have lp: "length ?pl mod 16 = 0" using d e(2) crypto_okD [OF C] by simp
  then obtain enc where enc: "igeEncrypt C ?pl tempKey (replicate 32 0) = Inr enc"
    using e(3) by (auto simp: igeEncrypt_def ige_checks_def aes_key_ok_def)
  let ?v = "bigFromBytes (xor_bytes tempKey (sha256 C enc) @ enc)"
  have lt: "?v < pk_N key" using v(1) enc by (simp add: rsa_value_def)
  then have "modexp ?v (pk_E key) (pk_N key) < pk_N key" unfolding modexp_def by simp
  then have pt: "padTo (modexp ?v (pk_E key) (pk_N key)) 256 = Inr (be_bytes 256 (modexp ?v (pk_E key) (pk_N key)))"
    unfolding padTo_def using v(2) by (metis less_le_trans)
  moreover have r1: "randomBytes (192 - length data) w = (Inr padding, w\<lparr>entropy := tempKey @ ent\<rparr>)"
    using e by (simp add: randomBytes_def)
  moreover have r2: "randomBytes 32 (w\<lparr>entropy := tempKey @ ent\<rparr>) = (Inr tempKey, w\<lparr>entropy := ent\<rparr>)"
    using e(3) by (simp add: randomBytes_def)
  ultimately have "rsaPad_rounds (Suc m) C ?dp (rev ?dp) key (w\<lparr>entropy := tempKey @ ent\<rparr>)
      = (Inr (be_bytes 256 (modexp ?v (pk_E key) (pk_N key))), w\<lparr>entropy := ent\<rparr>)" for m
    using enc lt by (simp add: Let_def io_bind_Inr not_le)
  from this [of 63] have "rsaPad_rounds 64 C ?dp (rev ?dp) key (w\<lparr>entropy := tempKey @ ent\<rparr>)
      = (Inr (be_bytes 256 (modexp ?v (pk_E key) (pk_N key))), w\<lparr>entropy := ent\<rparr>)" by simp
  then show ?thesis using d r1 by (simp add: rsaPad_def Let_def io_bind_Inr)
qed

end
