(* ===== verification/Factorize.thy ===== *)
theory Factorize
  imports Effects
begin

text \<open>
  \<open>internal/mtproto/factorize.go\<close>: splitting \<open>pq\<close> with Brent's variant of Pollard's rho, on
  64-bit words.  \<open>math/rand/v2\<close>'s PCG generator, from which the walk is seeded, is written
  out.  The lemmas show the modular arithmetic exact despite wrap-around, that whatever the
  walk returns divides its argument, and that the step budget ends the search: the fuel of
  the doubling loop, one unit per round, never runs out.
\<close>

section \<open>The generator\<close>

record pcg =
  pcg_hi :: u64
  pcg_lo :: u64

definition mul64_hi :: "u64 \<Rightarrow> u64 \<Rightarrow> u64" where
  "mul64_hi a b = word_of_nat (unat a * unat b div 18446744073709551616)"

definition NewPCG :: "u64 \<Rightarrow> u64 \<Rightarrow> pcg" where
  "NewPCG seed1 seed2 = \<lparr>pcg_hi = seed1, pcg_lo = seed2\<rparr>"

definition pcg_next :: "pcg \<Rightarrow> pcg" where
  "pcg_next p =
     (let mulHi = 2549297995355413924; mulLo = 4865540595714422341;
          incHi = 6364136223846793005; incLo = 1442695040888963407;
          hi = mul64_hi (pcg_lo p) mulLo + (pcg_hi p * mulLo + pcg_lo p * mulHi);
          lo = pcg_lo p * mulLo;
          lo' = lo + incLo;
          carry = (if lo' < lo then 1 else 0)
      in \<lparr>pcg_hi = hi + incHi + carry, pcg_lo = lo'\<rparr>)"

definition pcg_output :: "pcg \<Rightarrow> u64" where
  "pcg_output p =
     (let hi1 = pcg_hi p XOR drop_bit 32 (pcg_hi p);
          hi2 = hi1 * 0xda942042e4dd58b5;
          hi3 = hi2 XOR drop_bit 48 hi2
      in hi3 * (pcg_lo p OR 1))"

section \<open>Modular arithmetic on words\<close>

definition diff :: "u64 \<Rightarrow> u64 \<Rightarrow> u64" where
  "diff a b = (if a > b then a - b else b - a)"

definition addmod :: "u64 \<Rightarrow> u64 \<Rightarrow> u64 \<Rightarrow> u64" where
  "addmod a b n = (let sum = a + b in if sum < a \<or> sum \<ge> n then sum - n else sum)"

text \<open>\<open>bits.Mul64\<close> and \<open>bits.Div64\<close>: the 128-bit product reduced by \<open>n\<close>.\<close>

definition mulmod :: "u64 \<Rightarrow> u64 \<Rightarrow> u64 \<Rightarrow> u64" where
  "mulmod a b n =
     (let hi = mul64_hi a b; lo = a * b
      in word_of_nat ((unat (hi mod n) * 18446744073709551616 + unat lo) mod unat n))"

function gcd64 :: "u64 \<Rightarrow> u64 \<Rightarrow> u64" where
  "gcd64 a b = (if b \<noteq> 0 then gcd64 b (a mod b) else a)"
  by pat_completeness auto
termination
  by (relation "measure (\<lambda>(a, b). unat b)") (simp_all add: unat_mod_distrib unat_gt_0)

declare gcd64.simps [simp del]

definition brent_next :: "u64 \<Rightarrow> u64 \<Rightarrow> u64 \<Rightarrow> u64" where
  "brent_next x c n = addmod (mulmod x x n) c n"

section \<open>The walk\<close>

definition brentBudget :: nat where
  "brentBudget = 1048576"

text \<open>\<open>for range r { y = next(y, c, n); steps++ }\<close>\<close>

primrec brent_advance :: "nat \<Rightarrow> u64 \<Rightarrow> u64 \<Rightarrow> u64 \<Rightarrow> u64" where
  "brent_advance 0 c n y = y"
| "brent_advance (Suc k) c n y = brent_advance k c n (brent_next y c n)"

text \<open>\<open>for range min(m, r-k) { y = next; q = mulmod(q, diff(x, y), n); steps++ }\<close>\<close>

primrec brent_batch :: "nat \<Rightarrow> u64 \<Rightarrow> u64 \<Rightarrow> u64 \<Rightarrow> u64 \<times> u64 \<Rightarrow> u64 \<times> u64" where
  "brent_batch 0 c n x s = s"
| "brent_batch (Suc k) c n x s =
     (let y = brent_next (fst s) c n in brent_batch k c n x (y, mulmod (snd s) (diff x y) n))"

record walk =
  w_y :: u64
  w_q :: u64
  w_g :: u64
  w_ys :: u64
  w_steps :: nat

text \<open>\<open>for k := 0; k < r && g == 1; k += m\<close> with \<open>m = 128\<close>.\<close>

function brent_batches :: "nat \<Rightarrow> nat \<Rightarrow> u64 \<Rightarrow> u64 \<Rightarrow> u64 \<Rightarrow> walk \<Rightarrow> walk" where
  "brent_batches k r c n x s =
     (if k < r \<and> w_g s = 1
      then let cnt = min 128 (r - k); (y, q) = brent_batch cnt c n x (w_y s, w_q s)
           in brent_batches (k + 128) r c n x
                \<lparr>w_y = y, w_q = q, w_g = gcd64 q n, w_ys = w_y s, w_steps = w_steps s + cnt\<rparr>
      else s)"
  by pat_completeness auto
termination
  by (relation "measure (\<lambda>(k, r, _). r - k)") auto

declare brent_batches.simps [simp del]

text \<open>The outcome of the doubling loop: the early \<open>return 1\<close>, or the values it leaves.\<close>

datatype brent_exit = GaveUp | Left u64 walk

fun brent_rounds :: "nat \<Rightarrow> nat \<Rightarrow> u64 \<Rightarrow> u64 \<Rightarrow> u64 \<Rightarrow> walk \<Rightarrow> brent_exit option" where
  "brent_rounds fuel r c n x s =
     (if w_g s \<noteq> 1 then Some (Left x s)
      else if w_steps s > brentBudget then Some GaveUp
      else case fuel of
        0 \<Rightarrow> None
      | Suc fuel' \<Rightarrow>
          let x' = w_y s;
              y = brent_advance r c n (w_y s);
              s' = brent_batches 0 r c n x' (s\<lparr>w_y := y, w_steps := w_steps s + r\<rparr>)
          in brent_rounds fuel' (r * 2 mod 18446744073709551616) c n x' s')"

declare brent_rounds.simps [simp del]

text \<open>The second loop, over \<open>ys\<close>, when the product collapsed to \<open>n\<close>.\<close>

function brent_backtrack :: "u64 \<Rightarrow> u64 \<Rightarrow> u64 \<Rightarrow> u64 \<Rightarrow> u64 \<Rightarrow> nat \<Rightarrow> u64" where
  "brent_backtrack c n x ys g steps =
     (if g = 1
      then if steps > brentBudget then 1
           else let ys' = brent_next ys c n
                in brent_backtrack c n x ys' (gcd64 (diff x ys') n) (steps + 1)
      else g)"
  by pat_completeness auto
termination
  by (relation "measure (\<lambda>(c, n, x, ys, g, steps). Suc brentBudget - steps)") auto

declare brent_backtrack.simps [simp del]

definition brent_fuel :: nat where
  "brent_fuel = 22"

definition brent :: "u64 \<Rightarrow> u64 \<Rightarrow> u64 option" where
  "brent n seed =
     (if n \<le> 3 then Some n
      else let p1 = pcg_next (NewPCG seed n); p2 = pcg_next p1;
               y = pcg_output p1 mod (n - 1) + 1;
               c = pcg_output p2 mod (n - 1) + 1
           in case brent_rounds brent_fuel 1 c n 0 \<lparr>w_y = y, w_q = 1, w_g = 1, w_ys = 0, w_steps = 0\<rparr> of
                None \<Rightarrow> None
              | Some GaveUp \<Rightarrow> Some 1
              | Some (Left x s) \<Rightarrow>
                  Some (if w_g s = n then brent_backtrack c n x (w_ys s) 1 (w_steps s) else w_g s))"

text \<open>\<open>for attempt := range 8\<close>; \<open>None\<close> of \<open>brent\<close> (fuel) would end the search without a result.\<close>

fun factorize_attempts :: "u64 \<Rightarrow> nat list \<Rightarrow> goerr + u64 \<times> u64" where
  "factorize_attempts pq [] = Inl (ErrText ''could not factorize pq'')"
| "factorize_attempts pq (attempt # rest) =
     (case brent pq (word_of_nat attempt + 1) of
        None \<Rightarrow> Inl (ErrPanic ''fuel'')
      | Some factor \<Rightarrow>
          if factor > 1 \<and> factor < pq
          then let p = factor; q = pq div factor
               in if p > q then Inr (q, p) else Inr (p, q)
          else factorize_attempts pq rest)"

definition factorize :: "u64 \<Rightarrow> goerr + u64 \<times> u64" where
  "factorize pq = (if pq mod 2 = 0 then Inr (2, pq div 2) else factorize_attempts pq [0..<8])"

section \<open>Exactness of the arithmetic\<close>

lemma addmod_exact:
  assumes "unat a < unat n" and "unat b < unat n"
  shows "unat (addmod a b n) = (unat a + unat b) mod unat n"
proof -
  let ?M = "18446744073709551616 :: nat"
  have lt: "unat a < ?M" "unat b < ?M" "unat n < ?M"
    using unat_u64_lt by blast+
  show ?thesis
  proof (cases "unat a + unat b < ?M")
    case True
    then have s: "unat (a + b) = unat a + unat b" by (simp add: unat_word_ariths)
    then have nw: "\<not> a + b < a" by (simp add: word_less_nat_alt)
    show ?thesis
    proof (cases "unat a + unat b < unat n")
      case True
      then show ?thesis using nw s by (simp add: addmod_def Let_def word_le_nat_alt)
    next
      case False
      then have "unat (a + b - n) = unat a + unat b - unat n"
        by (subst unat_sub) (simp_all add: word_le_nat_alt s)
      moreover have "(unat a + unat b) mod unat n = unat a + unat b - unat n"
        using False assms by (simp add: mod_if)
      ultimately show ?thesis using nw s False by (simp add: addmod_def Let_def word_le_nat_alt)
    qed
  next
    case False
    then have s: "unat (a + b) = unat a + unat b - ?M"
      using lt by (simp add: unat_word_ariths mod_if)
    then have w: "a + b < a" using lt False by (simp add: word_less_nat_alt)
    have l: "unat (a + b) < unat n" using s assms lt by linarith
    have "unat (a + b - n) = ?M + unat (a + b) - unat n"
      using l unat_sub_if' [of "a + b" n] by (simp add: word_le_nat_alt)
    then have "unat (a + b - n) = unat a + unat b - unat n" using s False lt by linarith
    moreover have "(unat a + unat b) mod unat n = unat a + unat b - unat n"
      using False assms lt by (simp add: mod_if)
    ultimately show ?thesis using w by (simp add: addmod_def)
  qed
qed

lemma mod_mult_add: "(x mod n * k + y) mod n = (x * k + y) mod (n :: nat)"
  using mod_add_left_eq [of "x mod n * k" n y] mod_add_left_eq [of "x * k" n y]
    mod_mult_left_eq [of x n k] by simp

lemma mulmod_exact:
  assumes "n \<noteq> 0"
  shows "unat (mulmod a b n) = unat a * unat b mod unat n"
proof -
  let ?M = "18446744073709551616 :: nat"
  let ?p = "unat a * unat b"
  have "?p < ?M * ?M"
    using unat_u64_lt [of a] unat_u64_lt [of b] by (intro mult_strict_mono) simp_all
  then have hi: "unat (mul64_hi a b) = ?p div ?M"
    by (simp add: mul64_hi_def unat_of_nat less_mult_imp_div_less)
  have lo: "unat (a * b) = ?p mod ?M" by (simp add: unat_word_ariths)
  have n: "0 < unat n" using assms by (simp add: unat_gt_0)
  have "(?p div ?M mod unat n * ?M + ?p mod ?M) mod unat n = (?p div ?M * ?M + ?p mod ?M) mod unat n"
    by (rule mod_mult_add)
  also have "\<dots> = ?p mod unat n" by simp
  finally have r: "(unat (mul64_hi a b mod n) * ?M + unat (a * b)) mod unat n = ?p mod unat n"
    by (simp only: unat_mod_distrib hi lo)
  have "?p mod unat n < ?M" using n unat_u64_lt [of n] by (meson less_trans mod_less_divisor)
  then show ?thesis by (simp add: mulmod_def Let_def r unat_of_nat)
qed

lemma gcd64_exact: "unat (gcd64 a b) = gcd (unat a) (unat b)"
proof (induction a b rule: gcd64.induct)
  case (1 a b)
  show ?case
  proof (cases "b = 0")
    case True
    then show ?thesis by (simp add: gcd64.simps [of a 0])
  next
    case False
    with 1 show ?thesis
      by (simp add: gcd64.simps [of a b] unat_mod_distrib gcd_red_nat [symmetric])
  qed
qed

lemma gcd64_dvd: "unat (gcd64 a n) dvd unat n"
  by (simp add: gcd64_exact)

section \<open>What the walk returns divides its argument\<close>

definition g_divides :: "u64 \<Rightarrow> walk \<Rightarrow> bool" where
  "g_divides n s \<longleftrightarrow> unat (w_g s) dvd unat n"

lemma brent_batches_divides: "g_divides n s \<Longrightarrow> g_divides n (brent_batches k r c n x s)"
proof (induction k r c n x s rule: brent_batches.induct)
  case (1 k r c n x s)
  show ?case
  proof (cases "k < r \<and> w_g s = 1")
    case True
    obtain y q where yq: "brent_batch (min 128 (r - k)) c n x (w_y s, w_q s) = (y, q)" by fastforce
    have "g_divides n \<lparr>w_y = y, w_q = q, w_g = gcd64 q n, w_ys = w_y s, w_steps = w_steps s + min 128 (r - k)\<rparr>"
      by (simp add: g_divides_def gcd64_dvd)
    with "1.IH" [OF True refl] yq True show ?thesis
      by (simp add: brent_batches.simps [of k r c n x s] Let_def)
  qed (use 1 in \<open>auto simp: brent_batches.simps [of k r c n x s]\<close>)
qed

lemma brent_batches_steps: "w_steps s \<le> w_steps (brent_batches k r c n x s)"
proof (induction k r c n x s rule: brent_batches.induct)
  case (1 k r c n x s)
  show ?case
  proof (cases "k < r \<and> w_g s = 1")
    case True
    obtain y q where yq: "brent_batch (min 128 (r - k)) c n x (w_y s, w_q s) = (y, q)" by fastforce
    from "1.IH" [OF True refl yq [symmetric] refl] yq True show ?thesis
      by (simp add: brent_batches.simps [of k r c n x s] Let_def)
  qed (auto simp: brent_batches.simps [of k r c n x s])
qed

lemma brent_rounds_divides:
  "brent_rounds fuel r c n x s = Some (Left x' s') \<Longrightarrow> g_divides n s \<Longrightarrow> g_divides n s' \<and> w_g s' \<noteq> 1"
proof (induction fuel arbitrary: r x s)
  case 0
  then show ?case by (auto simp: brent_rounds.simps [of 0 r c n x s] split: if_splits)
next
  case (Suc fuel)
  then show ?case
    by (auto simp: brent_rounds.simps [of "Suc fuel" r c n x s] Let_def g_divides_def [of n "s\<lparr>w_y := _, w_steps := _\<rparr>"]
        split: if_splits dest!: Suc.IH intro: brent_batches_divides)
qed

lemma brent_backtrack_divides: "unat g dvd unat n \<Longrightarrow> unat (brent_backtrack c n x ys g steps) dvd unat n"
proof (induction c n x ys g steps rule: brent_backtrack.induct)
  case (1 c n x ys g steps)
  then show ?case
    by (simp add: brent_backtrack.simps [of c n x ys g steps] Let_def gcd64_dvd)
qed

lemma brent_divides:
  assumes "brent n seed = Some g"
  shows "unat g dvd unat n"
proof -
  have init: "g_divides n \<lparr>w_y = y, w_q = 1, w_g = 1, w_ys = 0, w_steps = 0\<rparr>" for y
    by (simp add: g_divides_def)
  from assms show ?thesis
    by (auto simp: brent_def Let_def brent_backtrack_divides g_divides_def
        split: if_splits option.splits brent_exit.splits dest!: brent_rounds_divides [OF _ init])
qed

section \<open>The search ends\<close>

text \<open>After \<open>k\<close> rounds the stride is \<open>2^k\<close> and at least \<open>2^k - 1\<close> steps were made.\<close>

lemma brent_rounds_total:
  assumes "22 \<le> fuel + k" and "2 ^ k \<le> Suc (w_steps s)"
  shows "brent_rounds fuel (2 ^ k) c n x s \<noteq> None"
  using assms
proof (induction fuel arbitrary: k x s)
  case 0
  then have "(2::nat) ^ 22 \<le> 2 ^ k" by (intro power_increasing) simp_all
  with 0 have "brentBudget < w_steps s" by (simp add: brentBudget_def)
  then show ?case by (simp add: brent_rounds.simps [of 0])
next
  case (Suc fuel)
  show ?case
  proof (cases "w_g s \<noteq> 1 \<or> w_steps s > brentBudget")
    case True
    then show ?thesis by (auto simp: brent_rounds.simps [of "Suc fuel"])
  next
    case False
    with Suc.prems have "(2::nat) ^ k < 2 ^ 21" by (simp add: brentBudget_def)
    then have "k < 21" by (rule power_less_imp_less_exp [rotated]) simp
    then have "(2::nat) ^ Suc k \<le> 2 ^ 21" by (intro power_increasing) simp_all
    then have m: "2 ^ k * 2 mod 18446744073709551616 = (2::nat) ^ Suc k" by simp
    let ?s = "s\<lparr>w_y := brent_advance (2 ^ k) c n (w_y s), w_steps := w_steps s + 2 ^ k\<rparr>"
    have "w_steps ?s \<le> w_steps (brent_batches 0 (2 ^ k) c n (w_y s) ?s)"
      by (rule brent_batches_steps)
    then have "2 ^ Suc k \<le> Suc (w_steps (brent_batches 0 (2 ^ k) c n (w_y s) ?s))"
      using Suc.prems(2) by simp
    with Suc.IH [of "Suc k"] Suc.prems(1) False m show ?thesis
      by (simp add: brent_rounds.simps [of "Suc fuel"] Let_def)
  qed
qed

lemma brent_total: "\<exists>g. brent n seed = Some g"
proof -
  have "brent_rounds brent_fuel (2 ^ 0) c n x \<lparr>w_y = y, w_q = 1, w_g = 1, w_ys = 0, w_steps = 0\<rparr> \<noteq> None" for c x y
    by (rule brent_rounds_total) (simp_all add: brent_fuel_def)
  then have total: "\<exists>e. brent_rounds brent_fuel 1 c n x \<lparr>w_y = y, w_q = 1, w_g = 1, w_ys = 0, w_steps = 0\<rparr> = Some e" for c x y
    by (metis not_None_eq power_0)
  show ?thesis
  proof (cases "n \<le> 3")
    case False
    define y where "y = pcg_output (pcg_next (NewPCG seed n)) mod (n - 1) + 1"
    define c where "c = pcg_output (pcg_next (pcg_next (NewPCG seed n))) mod (n - 1) + 1"
    obtain e where e: "brent_rounds brent_fuel 1 c n 0 \<lparr>w_y = y, w_q = 1, w_g = 1, w_ys = 0, w_steps = 0\<rparr> = Some e"
      using total by blast
    with False show ?thesis
      by (simp add: brent_def Let_def y_def [symmetric] c_def [symmetric] split: brent_exit.split)
  qed (simp add: brent_def)
qed

lemma factorize_attempts_sound:
  "factorize_attempts pq as = Inr (p, q) \<Longrightarrow> unat p * unat q = unat pq \<and> 1 < unat p \<and> unat p \<le> unat q \<and> unat q < unat pq"
proof (induction as)
  case (Cons a as)
  obtain f where f: "brent pq (word_of_nat a + 1) = Some f" using brent_total by blast
  show ?case
  proof (cases "f > 1 \<and> f < pq")
    case True
    have d: "unat f dvd unat pq" using f by (rule brent_divides)
    then have m: "unat f * unat (pq div f) = unat pq" by (simp add: unat_div_distrib)
    have f1: "1 < unat f" "unat f < unat pq" using True by (simp_all add: word_less_nat_alt)
    have q0: "unat (pq div f) \<noteq> 0" "unat (pq div f) \<noteq> 1" using m f1 by (metis mult_0_right less_zeroE, metis mult.right_neutral less_irrefl)
    then have q1: "1 < unat (pq div f)" by linarith
    have "1 * unat (pq div f) < unat f * unat (pq div f)" using f1 q1 by (intro mult_strict_right_mono) linarith+
    then have q2: "unat (pq div f) < unat pq" by (simp only: m mult_1)
    have r: "factorize_attempts pq (a # as) = (if f > pq div f then Inr (pq div f, f) else Inr (f, pq div f))"
      using f True by (simp add: Let_def)
    note r' = Cons.prems [unfolded r]
    show ?thesis
    proof (cases "f > pq div f")
      case True
      with r' have "p = pq div f" "q = f" by auto
      with True q1 f1 m show ?thesis by (simp add: word_less_nat_alt mult.commute)
    next
      case False
      with r' have "p = f" "q = pq div f" by auto
      with False q2 f1 m show ?thesis by (simp add: word_less_nat_alt)
    qed
  next
    case False
    with Cons f show ?thesis by (simp split: if_splits)
  qed
qed simp

lemma factorize_attempts_no_panic: "factorize_attempts pq as \<noteq> Inl (ErrPanic m)"
proof (induction as)
  case (Cons a as)
  obtain f where f: "brent pq (word_of_nat a + 1) = Some f" using brent_total by blast
  with Cons show ?case by (simp add: Let_def)
qed simp

end
