(* ===== verification/Conn.thy ===== *)
theory Conn
  imports Effects
begin

text \<open>
  The byte streams the protocol code runs over.  \<open>byte_source\<close> is the contract of the
  \<open>reader\<close> interface of transport.go (\<open>ReadFull(n)\<close>), \<open>byte_sink\<close> that of an
  \<open>io.Writer\<close>: both are stated over an abstract view, the bytes still to be read and the
  bytes written so far.  \<open>conn\<close> is a \<open>net.Conn\<close>: what the peer will have sent, how its
  half ends, what has been written and how many writes the link still takes.
\<close>

section \<open>The two contracts\<close>

locale byte_source =
  fixes rd :: "nat \<Rightarrow> ('c, bytes) io"
    and pend :: "'c \<Rightarrow> bytes"
  assumes rd_enough: "n \<le> length (pend c) \<Longrightarrow>
      \<exists>c'. rd n c = (Inr (take n (pend c)), c') \<and> pend c' = drop n (pend c)"
    and rd_short: "length (pend c) < n \<Longrightarrow> \<exists>e c'. rd n c = (Inl e, c')"
begin

lemma rd_prefix:
  assumes "pend c = p @ rest" and "length p = n"
  obtains c' where "rd n c = (Inr p, c')" and "pend c' = rest"
  using rd_enough [of n c] assms by auto

lemma rd_Inr: "rd n c = (Inr p, c') \<Longrightarrow> pend c = p @ pend c' \<and> length p = n"
proof -
  assume r: "rd n c = (Inr p, c')"
  have n: "n \<le> length (pend c)"
  proof (rule ccontr)
    assume "\<not> n \<le> length (pend c)"
    then have "length (pend c) < n" by simp
    then obtain e c2 where "rd n c = (Inl e, c2)" using rd_short by blast
    with r show False by simp
  qed
  with rd_enough [of n c] r show ?thesis by auto
qed

end

text \<open>\<open>byte_reader\<close> is the part of that contract which a stream keeps whose reads may also fail
  for reasons of their own: what is read is the next part of the stream.\<close>

locale byte_reader =
  fixes rd :: "nat \<Rightarrow> ('c, bytes) io"
    and pend :: "'c \<Rightarrow> bytes"
  assumes reads: "rd n c = (Inr p, c') \<Longrightarrow> pend c = p @ pend c' \<and> length p = n"
begin

lemma reads_short: "length (pend c) < n \<Longrightarrow> \<exists>e c'. rd n c = (Inl e, c')"
  using reads [of n c] by (cases "rd n c"; cases "fst (rd n c)") fastforce+

end

sublocale byte_source \<subseteq> byte_reader rd pend
  by unfold_locales (rule rd_Inr)

locale byte_sink =
  fixes wr :: "bytes \<Rightarrow> ('c, unit) io"
    and sent :: "'c \<Rightarrow> bytes"
    and sink_ok :: "'c \<Rightarrow> bool"
  assumes wr_sent: "sink_ok c \<Longrightarrow> wr p c = (Inr (), c') \<Longrightarrow> sink_ok c' \<and> sent c' = sent c @ p"
begin

lemma wr_wr_sent:
  "sink_ok c \<Longrightarrow> io_seq (wr p) (wr q) c = (Inr (), c') \<Longrightarrow> sink_ok c' \<and> sent c' = sent c @ p @ q"
  unfolding io_seq_def io_bind_eq_Inr by (metis append_assoc old.unit.exhaust wr_sent)

end

section \<open>A network connection\<close>

record conn =
  incoming :: bytes
  ending :: goerr
  outgoing :: "bytes list"
  wleft :: nat
  werr :: goerr
  deadlines :: "int list"

text \<open>\<open>io.ReadFull(conn, make([]byte, n))\<close>: the peer's end of stream turns into
  \<open>ErrUnexpectedEOF\<close> once some bytes have been read.\<close>

definition conn_read_full :: "nat \<Rightarrow> (conn, bytes) io" where
  "conn_read_full n = (\<lambda>c.
     if n \<le> length (incoming c)
     then (Inr (take n (incoming c)), c\<lparr>incoming := drop n (incoming c)\<rparr>)
     else (Inl (if incoming c \<noteq> [] \<and> ending c = ErrEOF then ErrUnexpectedEOF else ending c),
           c\<lparr>incoming := []\<rparr>))"

definition conn_write :: "bytes \<Rightarrow> (conn, unit) io" where
  "conn_write p = (\<lambda>c. case wleft c of
       0 \<Rightarrow> (Inl (werr c), c)
     | Suc k \<Rightarrow> (Inr (), c\<lparr>wleft := k, outgoing := outgoing c @ [p]\<rparr>))"

definition conn_set_deadline :: "int \<Rightarrow> conn \<Rightarrow> conn" where
  "conn_set_deadline t c = c\<lparr>deadlines := deadlines c @ [t]\<rparr>"

definition conn_sent :: "conn \<Rightarrow> bytes" where
  "conn_sent c = concat (outgoing c)"

interpretation conn_in: byte_source conn_read_full incoming
  by unfold_locales (auto simp: conn_read_full_def)

interpretation conn_out: byte_sink conn_write conn_sent "\<lambda>_. True"
  by unfold_locales (auto simp: conn_write_def conn_sent_def split: nat.splits)

lemma conn_read_full_length: "conn_read_full n c = (r, c') \<Longrightarrow> length (incoming c') \<le> length (incoming c)"
  by (auto simp: conn_read_full_def split: if_splits)

lemma conn_read_full_frame:
  "conn_read_full n c = (r, c') \<Longrightarrow> outgoing c' = outgoing c \<and> wleft c' = wleft c"
  by (auto simp: conn_read_full_def split: if_splits)

lemma conn_write_frame: "conn_write p c = (r, c') \<Longrightarrow> incoming c' = incoming c \<and> ending c' = ending c"
  by (auto simp: conn_write_def split: nat.splits)

section \<open>The world of a computation on a channel\<close>

text \<open>The environment together with the channel the code works on.\<close>

record 'c world = env +
  chan :: 'c

definition on_chan :: "('c, 'a) io \<Rightarrow> (('c, 'z) world_scheme, 'a) io" where
  "on_chan m = (\<lambda>w. case m (chan w) of (r, c) \<Rightarrow> (r, w\<lparr>chan := c\<rparr>))"

text \<open>The same environment around another channel.\<close>

definition with_chan :: "('a, unit) world_scheme \<Rightarrow> 'b \<Rightarrow> 'b world" where
  "with_chan w c = \<lparr>entropy = entropy w, clk = clk w, ticks = ticks w, primeCache = primeCache w, chan = c\<rparr>"

lemma with_chan_simps [simp]:
  "entropy (with_chan w c) = entropy w" "chan (with_chan w c) = c"
  "clk (with_chan w c) = clk w" "ticks (with_chan w c) = ticks w"
  "primeCache (with_chan w c) = primeCache w"
  by (simp_all add: with_chan_def)

lemma on_chan_eq: "on_chan m w = (r, w') \<longleftrightarrow> (\<exists>c. m (chan w) = (r, c) \<and> w' = w\<lparr>chan := c\<rparr>)"
  by (auto simp: on_chan_def split: prod.splits)

section \<open>Both directions\<close>

text \<open>\<open>duplex\<close>: a stream that is read and written.  \<open>room\<close> is the number of writes the
  link still takes; writing does not disturb what is to be read, reading and deadlines do not
  disturb what was written.\<close>

locale duplex = byte_source rd pend + byte_sink wr sent sink_ok
  for rd :: "nat \<Rightarrow> ('c, bytes) io" and pend :: "'c \<Rightarrow> bytes"
    and wr :: "bytes \<Rightarrow> ('c, unit) io" and sent :: "'c \<Rightarrow> bytes" and sink_ok :: "'c \<Rightarrow> bool" +
  fixes room :: "'c \<Rightarrow> nat" and dl :: "int \<Rightarrow> 'c \<Rightarrow> 'c"
  assumes wr_room: "0 < room c \<Longrightarrow> \<exists>c'. wr p c = (Inr (), c') \<and> room c' = room c - 1 \<and> pend c' = pend c"
    and wr_pend: "wr p c = (Inr (), c') \<Longrightarrow> pend c' = pend c"
    and rd_room: "rd n c = (r, c') \<Longrightarrow> room c' = room c"
    and rd_sent: "sink_ok c \<Longrightarrow> rd n c = (r, c') \<Longrightarrow> sink_ok c' \<and> sent c' = sent c"
    and dl_frame: "pend (dl t c) = pend c" "room (dl t c) = room c" "sent (dl t c) = sent c" "sink_ok (dl t c) = sink_ok c"
begin

lemma rd_keeps_room [keeps_intros]: "io_keeps room (rd n)"
  unfolding io_keeps_def using rd_room by (metis prod.collapse)

end

interpretation conn_duplex: duplex conn_read_full incoming conn_write conn_sent "\<lambda>_. True" wleft conn_set_deadline
proof (unfold_locales, goal_cases)
  case (1 c p)
  then show ?case by (cases "wleft c") (simp_all add: conn_write_def)
next
  case (2 p c c')
  then show ?case by (rule conn_write_frame [THEN conjunct1])
next
  case (3 n c r c')
  then show ?case by (rule conn_read_full_frame [THEN conjunct2])
next
  case (4 c n r c')
  then show ?case using conn_read_full_frame [of n c r c'] by (simp add: conn_sent_def)
qed (simp_all add: conn_set_deadline_def conn_sent_def)

end
