(* ===== verification/Transport.thy ===== *)
theory Transport
  imports Conn
begin

text \<open>
  \<open>internal/mtproto/transport.go\<close>: the three MTProto transports, that is the framing of
  one packet on a byte stream.  The decoders run on any \<open>reader\<close>, so their lemmas are
  proved once inside \<open>byte_source\<close>: round trip of a packet, rejection of empty and
  oversized frames before the body is read, and the packets of a whole stream.
\<close>

definition maxPacketLen :: nat where
  "maxPacketLen = 1048576"

datatype transport = Intermediate | Abridged | PaddedIntermediate

fun tr_name :: "transport \<Rightarrow> string" where
  "tr_name Intermediate = ''intermediate''"
| "tr_name Abridged = ''abridged''"
| "tr_name PaddedIntermediate = ''padded''"

text \<open>The tag inside the obfuscation header and the tag sent first on a bare connection.\<close>

fun tr_tag :: "transport \<Rightarrow> bytes" where
  "tr_tag Intermediate = [0xEE, 0xEE, 0xEE, 0xEE]"
| "tr_tag Abridged = [0xEF, 0xEF, 0xEF, 0xEF]"
| "tr_tag PaddedIntermediate = [0xDD, 0xDD, 0xDD, 0xDD]"

fun tr_directTag :: "transport \<Rightarrow> bytes" where
  "tr_directTag Intermediate = [0xEE, 0xEE, 0xEE, 0xEE]"
| "tr_directTag Abridged = [0xEF]"
| "tr_directTag PaddedIntermediate = [0xDD, 0xDD, 0xDD, 0xDD]"

section \<open>Encoders\<close>

definition encodeIntermediate :: "bytes \<Rightarrow> bytes" where
  "encodeIntermediate payload = put32 (word_of_nat (length payload)) @ payload"

definition encodePaddedIntermediate :: "bytes \<Rightarrow> ('z env_scheme, bytes) io" where
  "encodePaddedIntermediate payload =
     io_bind (rand_int 4) (\<lambda>n.
     io_bind (randomBytes n) (\<lambda>padding.
     io_return (encodeIntermediate (payload @ padding))))"

definition encodeAbridged :: "bytes \<Rightarrow> goerr + bytes" where
  "encodeAbridged payload =
     (if length payload mod 4 \<noteq> 0
      then Inl (ErrText (''abridged payload must be word-aligned, got '' @ dec_nat (length payload) @ '' bytes''))
      else let words = length payload div 4 in
           if words < 127 then Inr (word_of_nat words # payload)
           else Inr ([0x7F, word_of_nat words, word_of_nat (words div 256), word_of_nat (words div 65536)] @ payload))"

fun encode :: "transport \<Rightarrow> bytes \<Rightarrow> ('z env_scheme, bytes) io" where
  "encode Intermediate p = io_return (encodeIntermediate p)"
| "encode Abridged p = io_lift (encodeAbridged p)"
| "encode PaddedIntermediate p = encodePaddedIntermediate p"

section \<open>Decoders over a reader\<close>

definition decodeIntermediate :: "(nat \<Rightarrow> ('c, bytes) io) \<Rightarrow> ('c, bytes) io" where
  "decodeIntermediate rd =
     io_bind (rd 4) (\<lambda>head.
       let len = unat (get32 head) in
       if len = 0 \<or> len > maxPacketLen
       then io_fail (ErrText (''invalid intermediate packet length: '' @ dec_nat len))
       else rd len)"

definition decodePaddedIntermediate :: "(nat \<Rightarrow> ('c, bytes) io) \<Rightarrow> ('c, bytes) io" where
  "decodePaddedIntermediate rd =
     io_bind (decodeIntermediate rd) (\<lambda>packet.
       let extra = length packet mod 4 in
       io_return (if extra \<noteq> 0 then take (length packet - extra) packet else packet))"

definition decodeAbridged :: "(nat \<Rightarrow> ('c, bytes) io) \<Rightarrow> ('c, bytes) io" where
  "decodeAbridged rd =
     io_bind (rd 1) (\<lambda>first.
     io_bind (if unat (first ! 0) = 0x7F
              then io_bind (rd 3) (\<lambda>ext. io_return (le_nat ext))
              else io_return (unat (first ! 0))) (\<lambda>words.
       let len = words * 4 in
       if len = 0 \<or> len > maxPacketLen
       then io_fail (ErrText (''invalid abridged packet length: '' @ dec_nat len))
       else rd len))"

fun decode :: "transport \<Rightarrow> (nat \<Rightarrow> ('c, bytes) io) \<Rightarrow> ('c, bytes) io" where
  "decode Intermediate rd = decodeIntermediate rd"
| "decode Abridged rd = decodeAbridged rd"
| "decode PaddedIntermediate rd = decodePaddedIntermediate rd"

section \<open>Shape of the encoded packets\<close>

text \<open>The packets the protocol code hands to a transport: whole words, not empty, within the
  limit the decoder enforces also after the padding.\<close>

definition packet_ok :: "bytes \<Rightarrow> bool" where
  "packet_ok p \<longleftrightarrow> p \<noteq> [] \<and> length p mod 4 = 0 \<and> length p + 3 \<le> maxPacketLen"

lemma packet_ok_len: "packet_ok p \<Longrightarrow> 0 < length p \<and> length p mod 4 = 0 \<and> length p < 1048576"
  by (auto simp: packet_ok_def maxPacketLen_def)

lemma encodePadded_cases:
  assumes "encodePaddedIntermediate p w = (Inr pkt, w')"
  obtains padding where "pkt = encodeIntermediate (p @ padding)" and "length padding < 4"
  using assms
  by (auto simp: encodePaddedIntermediate_def io_bind_eq_Inr io_return_def randomBytes_Inr
      dest!: rand_int_lt [rotated])

lemma encode_abridged_ok: "length p mod 4 = 0 \<Longrightarrow> \<exists>pkt. encodeAbridged p = Inr pkt"
  by (simp add: encodeAbridged_def Let_def)

lemma drop_extra: "length p mod 4 = 0 \<Longrightarrow> length padding < 4 \<Longrightarrow>
    take (length (p @ padding) - length (p @ padding) mod 4) (p @ padding) = p"
  by (simp add: mod_add_left_eq [symmetric, of "length p"])

section \<open>The frames of a transport\<close>

text \<open>\<open>accepts tr wire p\<close>: \<open>wire\<close> is a frame which the decoder takes for the packet \<open>p\<close>.\<close>

fun accepts :: "transport \<Rightarrow> bytes \<Rightarrow> bytes \<Rightarrow> bool" where
  "accepts Intermediate wire p \<longleftrightarrow>
     0 < length p \<and> length p \<le> maxPacketLen \<and> wire = encodeIntermediate p"
| "accepts Abridged wire p \<longleftrightarrow>
     0 < length p \<and> length p \<le> maxPacketLen \<and>
     ((\<exists>n. 4 * unat n = length p \<and> n \<noteq> 0x7F \<and> wire = n # p) \<or>
      (\<exists>ext. length ext = 3 \<and> 4 * le_nat ext = length p \<and> wire = 0x7F # ext @ p))"
| "accepts PaddedIntermediate wire p \<longleftrightarrow>
     length p mod 4 = 0 \<and>
     (\<exists>padding. length padding < 4 \<and> 0 < length (p @ padding) \<and> length (p @ padding) \<le> maxPacketLen \<and>
        wire = encodeIntermediate (p @ padding))"

text \<open>\<open>emits tr p wire\<close>: \<open>wire\<close> is a frame which the encoder may make of \<open>p\<close>.\<close>

fun emits :: "transport \<Rightarrow> bytes \<Rightarrow> bytes \<Rightarrow> bool" where
  "emits Intermediate p wire \<longleftrightarrow> wire = encodeIntermediate p"
| "emits Abridged p wire \<longleftrightarrow> encodeAbridged p = Inr wire"
| "emits PaddedIntermediate p wire \<longleftrightarrow> (\<exists>padding. length padding < 4 \<and> wire = encodeIntermediate (p @ padding))"

lemma encode_emits: "encode tr p w = (Inr wire, w') \<Longrightarrow> emits tr p wire"
  by (cases tr) (auto elim!: encodePadded_cases)

lemma emits_nonempty: "emits tr p wire \<Longrightarrow> wire \<noteq> []"
proof -
  have "encodeIntermediate q \<noteq> []" for q
    by (metis append_is_Nil_conv encodeIntermediate_def length_put32 list.size(3) zero_neq_numeral)
  then show "emits tr p wire \<Longrightarrow> wire \<noteq> []"
    by (cases tr) (auto simp: encodeAbridged_def Let_def split: if_splits)
qed

section \<open>A decoded packet is the next one on the stream\<close>

context byte_reader
begin

lemma decodeIntermediate_reads:
  assumes "decodeIntermediate rd c = (Inr p, c')"
  shows "pend c = encodeIntermediate p @ pend c' \<and> 0 < length p \<and> length p \<le> maxPacketLen"
proof -
  obtain head c1 where h: "rd 4 c = (Inr head, c1)" "0 < unat (get32 head)" "unat (get32 head) \<le> maxPacketLen"
    "rd (unat (get32 head)) c1 = (Inr p, c')"
    using assms by (auto simp: decodeIntermediate_def io_bind_eq_Inr Let_def split: if_splits)
  have 1: "pend c = head @ pend c1" "length head = 4" and 2: "pend c1 = p @ pend c'" "length p = unat (get32 head)"
    using reads [OF h(1)] reads [OF h(4)] by auto
  have "put32 (word_of_nat (length p)) = head" using 1(2) 2(2) put32_get32 [of head] by simp
  then show ?thesis using 1(1) 2 h(2,3) by (simp add: encodeIntermediate_def)
qed

lemma decodeAbridged_reads:
  assumes "decodeAbridged rd c = (Inr p, c')"
  shows "\<exists>wire. pend c = wire @ pend c' \<and> accepts Abridged wire p"
proof -
  let ?words = "\<lambda>f. if unat (f ! 0) = 0x7F then io_bind (rd 3) (\<lambda>ext. io_return (le_nat ext)) else io_return (unat (f ! 0))"
  obtain f c1 n c2 where f: "rd 1 c = (Inr f, c1)" and n: "?words f c1 = (Inr n, c2)"
    and b: "0 < n * 4" "n * 4 \<le> maxPacketLen" and r: "rd (n * 4) c2 = (Inr p, c')"
  proof -
    from assms obtain f c1 n c2 where "rd 1 c = (Inr f, c1)" "?words f c1 = (Inr n, c2)"
      "(let len = n * 4 in if len = 0 \<or> len > maxPacketLen
        then io_fail (ErrText (''invalid abridged packet length: '' @ dec_nat len)) else rd len) c2 = (Inr p, c')"
      unfolding decodeAbridged_def io_bind_eq_Inr by blast
    moreover from this(3) have "0 < n * 4 \<and> n * 4 \<le> maxPacketLen \<and> rd (n * 4) c2 = (Inr p, c')"
      by (simp add: Let_def split: if_splits)
    ultimately show thesis using that by blast
  qed
  have 1: "pend c = f @ pend c1" "length f = 1" and 2: "pend c2 = p @ pend c'" "length p = n * 4"
    using reads [OF f] reads [OF r] by auto
  obtain x where x: "f = [x]" using 1(2) by (cases f) auto
  show ?thesis
  proof (cases "unat x = 0x7F")
    case True
    then have x7: "x = 0x7F" by (simp add: word_unat_eq_iff)
    from n True obtain ext where e: "rd 3 c1 = (Inr ext, c2)" "n = le_nat ext" by (auto simp: x io_bind_eq_Inr)
    with reads [OF e(1)] 1 2 b x7 show ?thesis by (intro exI [of _ "0x7F # ext @ p"]) (auto simp: x)
  next
    case False
    then have "c2 = c1" "n = unat x" using n by (auto simp: x)
    with 1 2 b False show ?thesis by (intro exI [of _ "x # p"]) (auto simp: x)
  qed
qed

lemma decode_reads:
  assumes "decode tr rd c = (Inr p, c')"
  shows "\<exists>wire. pend c = wire @ pend c' \<and> accepts tr wire p"
proof (cases tr)
  case Intermediate
  with assms decodeIntermediate_reads [of c p c'] show ?thesis by auto
next
  case Abridged
  with assms decodeAbridged_reads [of c p c'] show ?thesis by auto
next
  case PaddedIntermediate
  with assms obtain q where q: "decodeIntermediate rd c = (Inr q, c')" "p = take (length q - length q mod 4) q"
  proof -
    from assms PaddedIntermediate obtain q where "decodeIntermediate rd c = (Inr q, c')"
      "p = (if length q mod 4 \<noteq> 0 then take (length q - length q mod 4) q else q)"
      by (auto simp: decodePaddedIntermediate_def io_bind_eq_Inr Let_def)
    then show thesis by (intro that [of q]) auto
  qed
  let ?pad = "drop (length q - length q mod 4) q"
  have a: "p @ ?pad = q" by (simp add: q(2))
  have "length q mod 4 < 4" by simp
  then have l: "length ?pad < 4" "length p mod 4 = 0" by (simp_all add: q(2) minus_mod_eq_mult_div)
  have "accepts tr (encodeIntermediate q) p"
    unfolding PaddedIntermediate accepts.simps
    using decodeIntermediate_reads [OF q(1)] l by (intro conjI exI [of _ ?pad]) (simp_all only: a)
  with decodeIntermediate_reads [OF q(1)] show ?thesis by blast
qed

end

section \<open>Decoding what was encoded, on any reader\<close>

context byte_source
begin

lemma decodeIntermediate_encoded:
  assumes "pend c = encodeIntermediate p @ rest" and "0 < length p" and "length p \<le> maxPacketLen"
  shows "\<exists>c'. decodeIntermediate rd c = (Inr p, c') \<and> pend c' = rest"
proof -
  have len: "unat (get32 (put32 (word_of_nat (length p)))) = length p"
    using assms(3) put32_word_of_nat [of "length p" "[]"] by (simp add: maxPacketLen_def)
  have a: "pend c = put32 (word_of_nat (length p)) @ (p @ rest)"
    using assms(1) by (simp add: encodeIntermediate_def)
  obtain c1 where r: "rd 4 c = (Inr (put32 (word_of_nat (length p))), c1)" and c1: "pend c1 = p @ rest"
    using rd_prefix [OF a] by auto
  have step: "decodeIntermediate rd c = rd (length p) c1"
    using assms(2,3) len by (simp add: decodeIntermediate_def io_bind_def r Let_def del: get32_put32')
  show ?thesis
    using rd_prefix [OF c1 refl] step by metis
qed

lemma decodePadded_encoded:
  assumes "pend c = encodeIntermediate (p @ padding) @ rest" and "packet_ok p" and "length padding < 4"
  shows "\<exists>c'. decodePaddedIntermediate rd c = (Inr p, c') \<and> pend c' = rest"
proof -
  have "0 < length (p @ padding)" "length (p @ padding) \<le> maxPacketLen"
    using assms(2,3) by (auto simp: packet_ok_def)
  then obtain c' where "decodeIntermediate rd c = (Inr (p @ padding), c')" "pend c' = rest"
    using decodeIntermediate_encoded [OF assms(1)] by auto
  moreover have "length p mod 4 = 0" using assms(2) by (simp add: packet_ok_def)
  ultimately show ?thesis
    using drop_extra [of p padding] assms(3)
    by (auto simp: decodePaddedIntermediate_def io_bind_Inr Let_def mod_add_left_eq [symmetric, of "length p"])
qed

lemma decodeAbridged_encoded:
  assumes "pend c = pkt @ rest" and "encodeAbridged p = Inr pkt" and "packet_ok p"
  shows "\<exists>c'. decodeAbridged rd c = (Inr p, c') \<and> pend c' = rest"
proof -
  define ws where "ws = length p div 4"
  have len: "ws * 4 = length p" and pos: "0 < length p" and small: "ws < 262144"
    using packet_ok_len [OF assms(3)] by (auto simp: ws_def)
  have max: "length p \<le> maxPacketLen" using assms(3) by (simp add: packet_ok_def)
  show ?thesis
  proof (cases "ws < 127")
    case True
    then have pkt: "pkt = [word_of_nat ws] @ p"
      using assms(2,3) by (auto simp: encodeAbridged_def packet_ok_def ws_def Let_def)
    have u: "unat (word_of_nat ws :: byte) = ws" using True by (simp add: unat_of_nat)
    have a: "pend c = [word_of_nat ws] @ p @ rest" using assms(1) by (simp add: pkt)
    obtain c1 where r: "rd 1 c = (Inr [word_of_nat ws], c1)" and c1: "pend c1 = p @ rest"
      using rd_prefix [OF a] by auto
    have step: "decodeAbridged rd c = rd (length p) c1"
      using True pos max len
      by (auto simp: decodeAbridged_def io_bind_def Let_def r [unfolded One_nat_def] u)
    show ?thesis using rd_prefix [OF c1 refl] step by metis
  next
    case False
    define ext :: bytes where "ext = [word_of_nat ws, word_of_nat (ws div 256), word_of_nat (ws div 65536)]"
    have le: "le_nat ext = ws"
      using le_nat_le_bytes [of 3 ws] small
      by (simp add: ext_def numeral_3_eq_3 div_mult2_eq [symmetric])
    have l3: "length ext = 3" by (simp add: ext_def)
    from False have pkt: "pkt = [0x7F] @ ext @ p"
      using assms(2,3) by (auto simp: encodeAbridged_def packet_ok_def ws_def Let_def ext_def)
    have a: "pend c = [0x7F] @ ext @ p @ rest" using assms(1) by (simp add: pkt)
    obtain c1 where r: "rd 1 c = (Inr [0x7F], c1)" and c1: "pend c1 = ext @ p @ rest"
      using rd_prefix [OF a] by auto
    obtain c2 where c2: "pend c2 = p @ rest" and s2: "rd 3 c1 = (Inr ext, c2)"
      using rd_prefix [OF c1, of 3] by (auto simp: l3)
    have "decodeAbridged rd c = rd (length p) c2"
      using pos max len
      by (auto simp: decodeAbridged_def io_bind_def Let_def r [unfolded One_nat_def] s2 le)
    then show ?thesis using rd_prefix [OF c2 refl] by metis
  qed
qed

theorem decode_encode:
  assumes "encode tr p w = (Inr pkt, w')" and "packet_ok p" and "pend c = pkt @ rest"
  shows "\<exists>c'. decode tr rd c = (Inr p, c') \<and> pend c' = rest"
proof (cases tr)
  case Intermediate
  with assms decodeIntermediate_encoded [of c p rest] show ?thesis
    by (auto simp: packet_ok_def)
next
  case Abridged
  with assms decodeAbridged_encoded [of c pkt rest p] show ?thesis by simp
next
  case PaddedIntermediate
  with assms(1) obtain padding where "pkt = encodeIntermediate (p @ padding)" "length padding < 4"
    by (auto elim: encodePadded_cases)
  with assms PaddedIntermediate decodePadded_encoded [of c p padding rest] show ?thesis by simp
qed

text \<open>Whatever the peer sends, a decoded packet is within the limit, and what was consumed
  starts at the head of the stream.\<close>

lemma decodeIntermediate_bounds:
  "decodeIntermediate rd c = (Inr p, c') \<Longrightarrow> 0 < length p \<and> length p \<le> maxPacketLen"
  by (auto simp: decodeIntermediate_def io_bind_eq_Inr Let_def dest!: rd_Inr split: if_splits)

lemma decodeAbridged_bounds:
  "decodeAbridged rd c = (Inr p, c') \<Longrightarrow> 0 < length p \<and> length p \<le> maxPacketLen \<and> length p mod 4 = 0"
  by (auto simp: decodeAbridged_def io_bind_eq_Inr Let_def dest!: rd_Inr split: if_splits)

lemma decode_bounds: "decode tr rd c = (Inr p, c') \<Longrightarrow> length p \<le> maxPacketLen"
proof (cases tr)
  case PaddedIntermediate
  assume "decode tr rd c = (Inr p, c')"
  with PaddedIntermediate obtain q where "decodeIntermediate rd c = (Inr q, c')"
    and "length p \<le> length q"
    by (auto simp: decodePaddedIntermediate_def io_bind_eq_Inr Let_def)
  then show ?thesis using decodeIntermediate_bounds by fastforce
qed (auto dest: decodeIntermediate_bounds decodeAbridged_bounds)

lemma decodeIntermediate_rejects:
  assumes "pend c = put32 v @ rest" and "unat v = 0 \<or> maxPacketLen < unat v"
  shows "fst (decodeIntermediate rd c) = Inl (ErrText (''invalid intermediate packet length: '' @ dec_nat (unat v)))"
proof -
  obtain c1 where "rd 4 c = (Inr (put32 v), c1)" using rd_prefix [OF assms(1) length_put32] by auto
  with assms(2) show ?thesis by (auto simp: decodeIntermediate_def io_bind_def Let_def)
qed

end

end
