(* ===== verification/Obfuscate.thy ===== *)
theory Obfuscate
  imports Crypto Transport
begin

text \<open>
  \<open>internal/mtproto/obfuscate.go\<close>: the 64-byte obfuscation header and the AES-CTR stream
  over a carrier.  The header is drawn until it cannot be mistaken for another protocol;
  both cipher streams are derived from it and the secret.  The lemmas show what the proxy on
  the other side recovers, and that an obfuscated carrier again is a \<open>byte_source\<close> and a
  \<open>byte_sink\<close> over the plaintext.
\<close>

section \<open>CTR streams\<close>

record ctr =
  ctr_key :: bytes
  ctr_iv :: bytes
  ctr_pos :: nat

text \<open>\<open>cipher.NewCTR\<close>: the counter block is the IV plus the block index, modulo \<open>2^128\<close>.\<close>

definition ctr_ks :: "crypto \<Rightarrow> bytes \<Rightarrow> bytes \<Rightarrow> nat \<Rightarrow> byte" where
  "ctr_ks C key iv i = aes_enc C key (be_bytes 16 (be_nat iv + i div 16)) ! (i mod 16)"

primrec xor_at :: "(nat \<Rightarrow> byte) \<Rightarrow> nat \<Rightarrow> bytes \<Rightarrow> bytes" where
  "xor_at ks i [] = []"
| "xor_at ks i (b # bs) = (b XOR ks i) # xor_at ks (Suc i) bs"

definition XORKeyStream :: "crypto \<Rightarrow> ctr \<Rightarrow> bytes \<Rightarrow> bytes \<times> ctr" where
  "XORKeyStream C s data =
     (xor_at (ctr_ks C (ctr_key s) (ctr_iv s)) (ctr_pos s) data, s\<lparr>ctr_pos := ctr_pos s + length data\<rparr>)"

lemma length_xor_at [simp]: "length (xor_at ks i bs) = length bs"
  by (induction bs arbitrary: i) simp_all

lemma xor_at_append: "xor_at ks i (xs @ ys) = xor_at ks i xs @ xor_at ks (i + length xs) ys"
  by (induction xs arbitrary: i) simp_all

lemma xor_at_involution [simp]: "xor_at ks i (xor_at ks i bs) = bs"
  by (induction bs arbitrary: i) (simp_all add: xor.assoc)

lemma xor_at_take: "xor_at ks i (take n bs) = take n (xor_at ks i bs)"
  by (induction bs arbitrary: i n) (simp_all add: take_Cons split: nat.splits)

lemma xor_at_drop: "xor_at ks (i + n) (drop n bs) = drop n (xor_at ks i bs)"
proof (induction bs arbitrary: i n)
  case (Cons b bs)
  then show ?case
    by (cases n) (simp_all, metis add_Suc)
qed simp

section \<open>The header\<close>

fun matchesAny :: "bytes \<Rightarrow> bytes list \<Rightarrow> bool" where
  "matchesAny prefix [] = False"
| "matchesAny prefix (candidate # rest) = (prefix = candidate \<or> matchesAny prefix rest)"

definition reverse :: "bytes \<Rightarrow> bytes" where
  "reverse b = rev b"

definition forbidden :: "bytes list" where
  "forbidden =
     [[0xDD, 0xDD, 0xDD, 0xDD], [0xEE, 0xEE, 0xEE, 0xEE], str_bytes ''POST'', str_bytes ''GET '',
      str_bytes ''HEAD'', [0x16, 0x03, 0x01, 0x02]]"

definition header_accepted :: "bytes \<Rightarrow> bool" where
  "header_accepted h \<longleftrightarrow>
     \<not> (h ! 0 = 0xEF) \<and> \<not> (get32 (slice 4 8 h) = 0) \<and> \<not> matchesAny (take 4 h) forbidden"

text \<open>The rejection loop: each round consumes 64 bytes of the random source.\<close>

function draw_header :: "bytes \<Rightarrow> (bytes \<times> bytes) option" where
  "draw_header ent =
     (if length ent < 64 then None
      else if header_accepted (take 64 ent) then Some (take 64 ent, drop 64 ent)
      else draw_header (drop 64 ent))"
  by pat_completeness auto
termination
  by (relation "measure length") auto

declare draw_header.simps [simp del]

definition stamp_header :: "bytes \<Rightarrow> int \<Rightarrow> bytes \<Rightarrow> bytes" where
  "stamp_header tag dcID h =
     take 56 h @ tag @ le_bytes 2 (unat (word_of_int dcID :: u16)) @ drop 62 h"

definition obfuscationHeader :: "bytes \<Rightarrow> int \<Rightarrow> ('z env_scheme, bytes) io" where
  "obfuscationHeader tag dcID = (\<lambda>w. case draw_header (entropy w) of
       None \<Rightarrow> (Inl (ErrText ''random source failed''), w\<lparr>entropy := []\<rparr>)
     | Some (h, ent) \<Rightarrow> (Inr (stamp_header tag dcID h), w\<lparr>entropy := ent\<rparr>))"

section \<open>The obfuscated carrier\<close>

record 'c obf =
  o_rw :: 'c
  o_enc :: ctr
  o_dec :: ctr

text \<open>The two directions' streams; the second half of the header is sent encrypted.\<close>

definition newObfConn ::
  "crypto \<Rightarrow> (bytes \<Rightarrow> ('c, unit) io) \<Rightarrow> bytes \<Rightarrow> bytes \<Rightarrow> int \<Rightarrow> (('c, 'z) world_scheme, ctr \<times> ctr) io" where
  "newObfConn C wr secretKey tag dcID =
     io_bind (obfuscationHeader tag dcID) (\<lambda>header.
       let encKey = sha256 C (slice 8 40 header @ secretKey);
           encIV = slice 40 56 header;
           reversed = reverse header;
           decKey = sha256 C (slice 8 40 reversed @ secretKey);
           decIV = slice 40 56 reversed;
           enc0 = \<lparr>ctr_key = encKey, ctr_iv = encIV, ctr_pos = 0\<rparr>;
           dec = \<lparr>ctr_key = decKey, ctr_iv = decIV, ctr_pos = 0\<rparr>;
           (encrypted, enc) = XORKeyStream C enc0 header;
           wire = take 56 header @ slice 56 64 encrypted
       in if \<not> aes_key_ok encKey
          then io_fail (ErrText (''crypto/aes: invalid key size '' @ dec_nat (length encKey)))
          else if \<not> aes_key_ok decKey
          then io_fail (ErrText (''crypto/aes: invalid key size '' @ dec_nat (length decKey)))
          else io_bind (on_chan (wr wire)) (\<lambda>_. io_return (enc, dec)))"

definition obf_write :: "crypto \<Rightarrow> (bytes \<Rightarrow> ('c, unit) io) \<Rightarrow> bytes \<Rightarrow> ('c obf, unit) io" where
  "obf_write C wr p = (\<lambda>c.
     let (buf, enc') = XORKeyStream C (o_enc c) p in
     case wr buf (o_rw c) of (r, rw') \<Rightarrow> (r, c\<lparr>o_rw := rw', o_enc := enc'\<rparr>))"

definition obf_ReadFull :: "crypto \<Rightarrow> (nat \<Rightarrow> ('c, bytes) io) \<Rightarrow> nat \<Rightarrow> ('c obf, bytes) io" where
  "obf_ReadFull C rd n = (\<lambda>c. case rd n (o_rw c) of
       (Inl e, rw') \<Rightarrow> (Inl e, c\<lparr>o_rw := rw'\<rparr>)
     | (Inr buf, rw') \<Rightarrow> let (p, dec') = XORKeyStream C (o_dec c) buf in
                          (Inr p, c\<lparr>o_rw := rw', o_dec := dec'\<rparr>))"

section \<open>Header facts\<close>

lemma draw_header_accepted:
  "draw_header ent = Some (h, ent') \<Longrightarrow> header_accepted h \<and> length h = 64"
proof (induction ent rule: draw_header.induct)
  case (1 ent)
  then show ?case
    by (cases "length ent < 64"; cases "header_accepted (take 64 ent)")
      (auto simp: draw_header.simps [of ent])
qed

lemma length_stamp_header: "length h = 64 \<Longrightarrow> length tag = 4 \<Longrightarrow> length (stamp_header tag dc h) = 64"
  by (simp add: stamp_header_def)

lemma stamp_header_prefix: "n \<le> 56 \<Longrightarrow> length h = 64 \<Longrightarrow> take n (stamp_header tag dc h) = take n h"
  by (simp add: stamp_header_def min_def)

lemma length_tr_tag [simp]: "length (tr_tag tr) = 4"
  by (cases tr) simp_all

lemma obfuscationHeader_Inr:
  "obfuscationHeader tag dc w = (Inr hdr, w') \<longleftrightarrow>
     (\<exists>h ent. draw_header (entropy w) = Some (h, ent) \<and> hdr = stamp_header tag dc h \<and> w' = w\<lparr>entropy := ent\<rparr>)"
  by (auto simp: obfuscationHeader_def split: option.splits)

section \<open>What the proxy recovers\<close>

text \<open>An MTProxy derives the client's stream from the header on the wire and its own copy
  of the secret, decrypts the header and reads the protocol tag and the datacenter.\<close>

definition proxy_stream :: "crypto \<Rightarrow> bytes \<Rightarrow> bytes \<Rightarrow> nat \<Rightarrow> byte" where
  "proxy_stream C secret wire = ctr_ks C (sha256 C (slice 8 40 wire @ secret)) (slice 40 56 wire)"

definition proxy_view :: "crypto \<Rightarrow> bytes \<Rightarrow> bytes \<Rightarrow> bytes \<times> u16" where
  "proxy_view C secret wire =
     (let plain = xor_at (proxy_stream C secret wire) 0 wire
      in (slice 56 60 plain, word_of_nat (le_nat (slice 60 62 plain))))"

lemma newObfConn_Inr:
  assumes "newObfConn C wr secret tag dc w = (Inr (enc, dec), w')"
    and "length tag = 4"
  obtains h ent c' where "draw_header (entropy w) = Some (h, ent)"
    and "length h = 64" and "header_accepted h"
    and "wr (take 56 h @ slice 56 64 (xor_at (ctr_ks C (ctr_key enc) (ctr_iv enc)) 0 (stamp_header tag dc h))) (chan w) = (Inr (), c')"
    and "w' = w\<lparr>entropy := ent, chan := c'\<rparr>"
    and "enc = \<lparr>ctr_key = sha256 C (slice 8 40 h @ secret), ctr_iv = slice 40 56 h, ctr_pos = 64\<rparr>"
    and "ctr_pos dec = 0"
proof -
  from assms(1) obtain h ent where h: "draw_header (entropy w) = Some (h, ent)"
    by (auto simp: newObfConn_def io_bind_eq_Inr obfuscationHeader_Inr)
  have len: "length h = 64" "header_accepted h" using draw_header_accepted [OF h] by simp_all
  have sl: "slice a b (stamp_header tag dc h) = slice a b h" if "a \<le> b" "b \<le> 56" for a b
    using that len by (simp add: slice_take_append stamp_header_def)
  have sh: "length (stamp_header tag dc h) = 64" using len(1) assms(2) by (rule length_stamp_header)
  have ow: "obfuscationHeader tag dc w = (Inr (stamp_header tag dc h), w\<lparr>entropy := ent\<rparr>)"
    using h by (simp add: obfuscationHeader_def)
  from assms(1) obtain c' where a: "wr (take 56 h @ slice 56 64 (xor_at (ctr_ks C (ctr_key enc) (ctr_iv enc)) 0 (stamp_header tag dc h))) (chan w) = (Inr (), c')"
    and b: "w' = w\<lparr>entropy := ent, chan := c'\<rparr>"
    and c: "enc = \<lparr>ctr_key = sha256 C (slice 8 40 h @ secret), ctr_iv = slice 40 56 h, ctr_pos = 64\<rparr>"
    and d: "ctr_pos dec = 0"
    by (auto simp: newObfConn_def io_bind_def ow Let_def XORKeyStream_def sl sh stamp_header_prefix len
        on_chan_def split: prod.splits sum.splits if_splits)
  show ?thesis by (rule that [OF h len a b c d])
qed

lemma proxy_recovers:
  fixes dc :: int and C :: crypto and secret :: bytes
  defines "ks \<equiv> \<lambda>h. ctr_ks C (sha256 C (slice 8 40 h @ secret)) (slice 40 56 h)"
  assumes "length h = 64" and "length tag = 4"
    and wire: "wire = take 56 h @ slice 56 64 (xor_at (ks h) 0 (stamp_header tag dc h))"
  shows "proxy_view C secret wire = (tag, word_of_int dc)"
    and "length wire = 64" and "proxy_stream C secret wire = ks h"
proof -
  let ?s = "stamp_header tag dc h"
  have len: "length ?s = 64" using assms(2,3) by (rule length_stamp_header)
  have sl: "slice a b wire = slice a b h" if "a \<le> b" "b \<le> 56" for a b
    using that assms(2) by (simp add: slice_take_append wire)
  then show st: "proxy_stream C secret wire = ks h"
    by (simp add: proxy_stream_def ks_def)
  show "length wire = 64" using assms(2) len by (simp add: wire)
  have split: "?s = take 56 h @ drop 56 ?s"
    using stamp_header_prefix [of 56 h tag dc] assms(2) by (metis append_take_drop_id order_refl)
  have "xor_at (ks h) 0 ?s = xor_at (ks h) 0 (take 56 h) @ xor_at (ks h) 56 (drop 56 ?s)"
    using assms(2) by (subst split, subst xor_at_append) simp
  then have w2: "wire = take 56 h @ xor_at (ks h) 56 (drop 56 ?s)"
    using assms(2) len by (simp add: wire slice_def)
  have "xor_at (ks h) 0 wire = xor_at (ks h) 0 (take 56 h) @ drop 56 ?s"
    using assms(2) by (simp add: w2 xor_at_append)
  moreover have "drop 56 ?s = tag @ le_bytes 2 (unat (word_of_int dc :: u16)) @ drop 62 h"
    using assms(2) by (simp add: stamp_header_def)
  ultimately have plain: "xor_at (ks h) 0 wire
      = xor_at (ks h) 0 (take 56 h) @ tag @ le_bytes 2 (unat (word_of_int dc :: u16)) @ drop 62 h" by simp
  have "unat (word_of_int dc :: u16) < 65536"
    using unsigned_less [of "word_of_int dc :: u16", where 'a = nat] by simp
  then show "proxy_view C secret wire = (tag, word_of_int dc)"
    using assms(2,3) by (simp add: proxy_view_def st plain slice_def le_nat_le_bytes Let_def)
qed

section \<open>The obfuscated carrier keeps the stream contracts\<close>

locale obf_source = byte_source rd pend
  for rd :: "nat \<Rightarrow> ('c, bytes) io" and pend :: "'c \<Rightarrow> bytes" +
  fixes C :: crypto
begin

sublocale obf: byte_source "obf_ReadFull C rd"
  "\<lambda>b. xor_at (ctr_ks C (ctr_key (o_dec b)) (ctr_iv (o_dec b))) (ctr_pos (o_dec b)) (pend (o_rw b))"
proof (unfold_locales, goal_cases)
  case (1 n c)
  then obtain c' where "rd n (o_rw c) = (Inr (take n (pend (o_rw c))), c')"
    and "pend c' = drop n (pend (o_rw c))"
    using rd_enough [of n "o_rw c"] by auto
  with 1 show ?case
    by (simp add: obf_ReadFull_def XORKeyStream_def xor_at_take xor_at_drop [symmetric])
next
  case (2 c n)
  then obtain e c' where "rd n (o_rw c) = (Inl e, c')"
    using rd_short [of "o_rw c" n] by auto
  then show ?case by (simp add: obf_ReadFull_def)
qed

end

locale obf_reader = byte_reader rd pend
  for rd :: "nat \<Rightarrow> ('c, bytes) io" and pend :: "'c \<Rightarrow> bytes" +
  fixes C :: crypto
begin

sublocale obf_rd: byte_reader "obf_ReadFull C rd"
  "\<lambda>b. xor_at (ctr_ks C (ctr_key (o_dec b)) (ctr_iv (o_dec b))) (ctr_pos (o_dec b)) (pend (o_rw b))"
proof (unfold_locales, goal_cases)
  case (1 n c p c')
  then obtain q rw' where "rd n (o_rw c) = (Inr q, rw')"
    "p = xor_at (ctr_ks C (ctr_key (o_dec c)) (ctr_iv (o_dec c))) (ctr_pos (o_dec c)) q"
    "c' = c\<lparr>o_rw := rw', o_dec := (o_dec c)\<lparr>ctr_pos := ctr_pos (o_dec c) + length q\<rparr>\<rparr>"
    by (auto simp: obf_ReadFull_def XORKeyStream_def split: prod.splits sum.splits)
  with reads [of n "o_rw c" q rw'] show ?case by (simp add: xor_at_append)
qed

end

text \<open>\<open>base\<close> is the position of the inner stream at which the obfuscation header starts.\<close>

locale obf_sink = byte_sink wr sent sink_ok
  for wr :: "bytes \<Rightarrow> ('c, unit) io" and sent :: "'c \<Rightarrow> bytes" and sink_ok :: "'c \<Rightarrow> bool" +
  fixes C :: crypto and base :: nat
begin

sublocale obf: byte_sink "obf_write C wr"
  "\<lambda>b. xor_at (ctr_ks C (ctr_key (o_enc b)) (ctr_iv (o_enc b))) 0 (drop base (sent (o_rw b)))"
  "\<lambda>b. sink_ok (o_rw b) \<and> base + ctr_pos (o_enc b) = length (sent (o_rw b))"
proof (unfold_locales, goal_cases)
  case (1 c p c')
  let ?ks = "ctr_ks C (ctr_key (o_enc c)) (ctr_iv (o_enc c))"
  let ?q = "xor_at ?ks (ctr_pos (o_enc c)) p"
  from 1 obtain rw' where w: "wr ?q (o_rw c) = (Inr (), rw')"
    and c': "c' = c\<lparr>o_rw := rw', o_enc := (o_enc c)\<lparr>ctr_pos := ctr_pos (o_enc c) + length p\<rparr>\<rparr>"
    by (auto simp: obf_write_def XORKeyStream_def split: prod.splits)
  from wr_sent [OF _ w] 1 have s: "sink_ok rw'" "sent rw' = sent (o_rw c) @ ?q" by auto
  have "length (drop base (sent (o_rw c))) = ctr_pos (o_enc c)" and "base \<le> length (sent (o_rw c))"
    using 1 by auto
  with s 1 show ?case by (simp add: c' xor_at_append)
qed

end

interpretation obf_conn_in: obf_source conn_read_full incoming C for C
  by unfold_locales

interpretation obf_conn_out: obf_sink conn_write conn_sent "\<lambda>_. True" C base for C base
  by unfold_locales

text \<open>The deadline of an obfuscated stream is that of the connection below it.\<close>

definition obf_deadline :: "(int \<Rightarrow> 'c \<Rightarrow> 'c) \<Rightarrow> int \<Rightarrow> 'c obf \<Rightarrow> 'c obf" where
  "obf_deadline dl t b = b\<lparr>o_rw := dl t (o_rw b)\<rparr>"

locale obf_duplex = duplex rd pend wr sent sink_ok room dl
  for rd :: "nat \<Rightarrow> ('c, bytes) io" and pend :: "'c \<Rightarrow> bytes" and wr :: "bytes \<Rightarrow> ('c, unit) io"
    and sent :: "'c \<Rightarrow> bytes" and sink_ok :: "'c \<Rightarrow> bool" and room :: "'c \<Rightarrow> nat" and dl :: "int \<Rightarrow> 'c \<Rightarrow> 'c" +
  fixes C :: crypto and base :: nat
begin

sublocale source: obf_source rd pend C
  by unfold_locales

sublocale sink: obf_sink wr sent sink_ok C base
  by unfold_locales

sublocale both: duplex "obf_ReadFull C rd"
  "\<lambda>b. xor_at (ctr_ks C (ctr_key (o_dec b)) (ctr_iv (o_dec b))) (ctr_pos (o_dec b)) (pend (o_rw b))"
  "obf_write C wr"
  "\<lambda>b. xor_at (ctr_ks C (ctr_key (o_enc b)) (ctr_iv (o_enc b))) 0 (drop base (sent (o_rw b)))"
  "\<lambda>b. sink_ok (o_rw b) \<and> base + ctr_pos (o_enc b) = length (sent (o_rw b))"
  "\<lambda>b. room (o_rw b)" "obf_deadline dl"
proof (unfold_locales, goal_cases)
  case (1 c p)
  then obtain c' where "wr (fst (XORKeyStream C (o_enc c) p)) (o_rw c) = (Inr (), c')" "room c' = room (o_rw c) - 1" "pend c' = pend (o_rw c)"
    using wr_room by blast
  then show ?case by (simp add: obf_write_def split_beta)
next
  case (2 p c c')
  then show ?case by (auto simp: obf_write_def XORKeyStream_def dest: wr_pend split: prod.splits)
next
  case (3 n c r c')
  then show ?case by (auto simp: obf_ReadFull_def XORKeyStream_def Let_def dest: rd_room split: prod.splits sum.splits)
next
  case (4 c n r c')
  then show ?case by (auto simp: obf_ReadFull_def XORKeyStream_def Let_def dest!: rd_sent [rotated] split: prod.splits sum.splits)
qed (simp_all add: obf_deadline_def dl_frame)

end

interpretation obf_conn: obf_duplex conn_read_full incoming conn_write conn_sent "\<lambda>_. True" wleft conn_set_deadline C base
  for C base
  by unfold_locales

text \<open>The plaintext still to be read from an obfuscated connection.\<close>

definition obf_incoming :: "crypto \<Rightarrow> conn obf \<Rightarrow> bytes" where
  "obf_incoming C b = xor_at (ctr_ks C (ctr_key (o_dec b)) (ctr_iv (o_dec b))) (ctr_pos (o_dec b)) (incoming (o_rw b))"

text \<open>The plaintext of what was written to it, from the obfuscation header on: the last bytes on
  the wire, as many as the cipher stream has covered.\<close>

definition obf_base :: "conn obf \<Rightarrow> nat" where
  "obf_base b = length (conn_sent (o_rw b)) - ctr_pos (o_enc b)"

definition obf_in_step :: "conn obf \<Rightarrow> bool" where
  "obf_in_step b \<longleftrightarrow> ctr_pos (o_enc b) \<le> length (conn_sent (o_rw b))"

definition obf_outgoing :: "crypto \<Rightarrow> conn obf \<Rightarrow> bytes" where
  "obf_outgoing C b = xor_at (ctr_ks C (ctr_key (o_enc b)) (ctr_iv (o_enc b))) 0 (drop (obf_base b) (conn_sent (o_rw b)))"

end
