(* ===== verification/Stream.thy ===== *)
theory Stream
  imports Obfuscate
begin

text \<open>
  The \<open>stream\<close> of \<open>internal/mtproto/auth.go\<close> and \<open>messageID\<close> of respq.go: packets of a
  transport on a carrier, deadlines per round trip, the two time stamps, and the envelope of
  unencrypted messages.  The struct's function fields \<open>w\<close>, \<open>r\<close> and \<open>deadline\<close> are the
  fields of \<open>link\<close>.  The lemmas show what a peer that decodes the packets sees, that the
  transport tag is sent once, and which messages \<open>recvUnencrypted\<close> accepts.
\<close>

record 'c link =
  lk_read :: "nat \<Rightarrow> ('c, bytes) io"
  lk_write :: "bytes \<Rightarrow> ('c, unit) io"
  lk_deadline :: "(int \<Rightarrow> 'c \<Rightarrow> 'c) option"

record 'c stream =
  s_link :: "'c link"
  s_carrier :: 'c
  s_tr :: transport
  s_tagFirst :: "bytes option"
  s_perStep :: int
  s_until :: "int option"
  s_sentAt :: "int option"
  s_recvdAt :: "int option"

type_synonym 'c sworld = "'c stream world"

definition on_carrier :: "('c, 'a) io \<Rightarrow> (('c stream, 'z) world_scheme, 'a) io" where
  "on_carrier m = (\<lambda>w. case m (s_carrier (chan w)) of
      (r, c) \<Rightarrow> (r, w\<lparr>chan := (chan w)\<lparr>s_carrier := c\<rparr>\<rparr>))"

section \<open>Deadlines and time stamps\<close>

definition firstRoundTrip :: "'c stream \<Rightarrow> int" where
  "firstRoundTrip s = (case (s_sentAt s, s_recvdAt s) of
      (Some a, Some b) \<Rightarrow> b - a | _ \<Rightarrow> 0)"

definition set_carrier_deadline :: "int \<Rightarrow> 'c stream \<Rightarrow> 'c stream" where
  "set_carrier_deadline at s = (case lk_deadline (s_link s) of
      None \<Rightarrow> s | Some f \<Rightarrow> s\<lparr>s_carrier := f at (s_carrier s)\<rparr>)"

definition setDeadline :: "int \<Rightarrow> (('c stream, 'z) world_scheme, unit) io" where
  "setDeadline at = io_modify (\<lambda>w. w\<lparr>chan := set_carrier_deadline at ((chan w)\<lparr>s_until := Some at\<rparr>)\<rparr>)"

definition stream_step :: "(('c stream, 'z) world_scheme, unit) io" where
  "stream_step = io_bind (io_gets chan) (\<lambda>s.
     if s_until s \<noteq> None \<or> s_perStep s \<le> 0 \<or> lk_deadline (s_link s) = None then io_return ()
     else io_bind time_now (\<lambda>now.
            io_modify (\<lambda>w. w\<lparr>chan := set_carrier_deadline (now + s_perStep s) (chan w)\<rparr>)))"

section \<open>Message identifiers\<close>

definition messageID_at :: "int \<Rightarrow> u64" where
  "messageID_at now =
     push_bit 32 (word_of_int (now div 1000000000)) OR
     ucast (push_bit 2 (word_of_int (now mod 1000000000 div 1000) :: u32))"

definition messageID :: "('z env_scheme, u64) io" where
  "messageID = io_bind time_now (\<lambda>now. io_return (messageID_at now))"

section \<open>Sending\<close>

definition stamp_sent :: "(('c stream, 'z) world_scheme, unit) io" where
  "stamp_sent = io_bind (io_gets (\<lambda>w. s_sentAt (chan w))) (\<lambda>at.
     if at = None
     then io_bind time_now (\<lambda>now. io_modify (\<lambda>w. w\<lparr>chan := (chan w)\<lparr>s_sentAt := Some now\<rparr>\<rparr>))
     else io_return ())"

definition sendRaw :: "bytes \<Rightarrow> (('c stream, 'z) world_scheme, unit) io" where
  "sendRaw message =
     io_seq stream_step
     (io_bind (io_gets (\<lambda>w. s_tr (chan w))) (\<lambda>tr.
      io_bind (encode tr message) (\<lambda>packet.
      io_seq stamp_sent
      (io_bind (io_gets (\<lambda>w. s_tagFirst (chan w))) (\<lambda>tag.
       io_seq (io_modify (\<lambda>w. w\<lparr>chan := (chan w)\<lparr>s_tagFirst := None\<rparr>\<rparr>))
       (io_bind (io_gets (\<lambda>w. lk_write (s_link (chan w)))) (\<lambda>wr.
        on_carrier (wr (case tag of None \<Rightarrow> packet | Some t \<Rightarrow> t @ packet)))))))))"

definition unencrypted_message :: "u64 \<Rightarrow> bytes \<Rightarrow> bytes" where
  "unencrypted_message msgID body =
     replicate 8 0 @ put64 msgID @ put32 (word_of_nat (length body)) @ body"

definition sendUnencrypted :: "bytes \<Rightarrow> (('c stream, 'z) world_scheme, unit) io" where
  "sendUnencrypted body = io_bind messageID (\<lambda>msgID. sendRaw (unencrypted_message msgID body))"

section \<open>Receiving\<close>

definition recvRaw :: "(('c stream, 'z) world_scheme, bytes) io" where
  "recvRaw =
     io_bind (io_gets chan) (\<lambda>s.
     io_bind (on_carrier (decode (s_tr s) (lk_read (s_link s)))) (\<lambda>packet.
     io_bind (io_gets (\<lambda>w. s_recvdAt (chan w))) (\<lambda>at.
     io_seq (if at = None
             then io_bind time_now (\<lambda>now. io_modify (\<lambda>w. w\<lparr>chan := (chan w)\<lparr>s_recvdAt := Some now\<rparr>\<rparr>))
             else io_return ())
            (io_return packet))))"

definition open_unencrypted :: "bytes \<Rightarrow> goerr + bytes" where
  "open_unencrypted packet =
     (if length packet < 20
      then Inl (ErrText (''message is '' @ dec_nat (length packet) @ '' bytes, too short for a header''))
      else if take 8 packet \<noteq> replicate 8 0
      then Inl (ErrText (''unexpected auth_key_id '' @ concat (map hex_byte (take 8 packet))))
      else let len = unat (get32 (slice 16 20 packet)) in
           if len < 4 \<or> 20 + len > length packet
           then Inl (ErrText (''declared body length '' @ dec_nat len @ '' does not fit in ''
                              @ dec_nat (length packet - 20) @ '' bytes''))
           else Inr (slice 20 (20 + len) packet))"

definition recvUnencrypted :: "(('c stream, 'z) world_scheme, bytes) io" where
  "recvUnencrypted = io_bind recvRaw (\<lambda>packet. io_lift (open_unencrypted packet))"

section \<open>Facts about message identifiers\<close>

lemma messageID_value:
  assumes "0 \<le> now" and "now div 1000000000 < 4294967296"
  shows "unat (messageID_at now) = nat (now div 1000000000) * 4294967296 + 4 * nat (now mod 1000000000 div 1000)"
proof -
  define s where "s = nat (now div 1000000000)"
  define m where "m = nat (now mod 1000000000 div 1000)"
  have m: "m < 1000000" and s: "s < 4294967296"
    using assms by (auto simp: m_def s_def nat_less_iff)
  have ws: "(word_of_int (now div 1000000000) :: u64) = word_of_nat s"
    and wm: "(word_of_int (now mod 1000000000 div 1000) :: u32) = word_of_nat m"
    using assms(1) by (simp_all add: s_def m_def pos_imp_zdiv_nonneg_iff)
  have pm: "unat (push_bit 2 (word_of_nat m :: u32)) = 4 * m"
    using m by (simp add: push_bit_eq_mult unat_word_ariths unat_of_nat)
  have um: "unat (ucast (push_bit 2 (word_of_nat m :: u32)) :: u64) = 4 * m"
    using m by (simp add: unsigned_ucast_eq pm take_bit_eq_mod)
  have us: "unat (push_bit 32 (word_of_nat s :: u64)) = s * 4294967296"
    using s by (simp add: push_bit_eq_mult unat_word_ariths unat_of_nat)
  have "(push_bit 32 (word_of_nat s :: u64)) AND ucast (push_bit 2 (word_of_nat m :: u32)) = 0"
  proof (rule bit_eqI)
    fix n
    have "\<not> bit (4 * m) n" if "32 \<le> n"
    proof -
      have "4 * m < 2 ^ 32" using m by simp
      also have "(2::nat) ^ 32 \<le> 2 ^ n" using that by (intro power_increasing) simp_all
      finally show ?thesis by (simp add: bit_iff_odd)
    qed
    moreover have "bit (ucast (push_bit 2 (word_of_nat m :: u32)) :: u64) n \<longleftrightarrow> bit (4 * m) n"
      unfolding um [symmetric] by (simp add: bit_unsigned_iff)
    ultimately show "bit (push_bit 32 (word_of_nat s :: u64) AND ucast (push_bit 2 (word_of_nat m :: u32))) n
        = bit (0 :: u64) n"
      by (auto simp: bit_and_iff bit_push_bit_iff not_le)
  qed
  then have "messageID_at now = push_bit 32 (word_of_nat s) + ucast (push_bit 2 (word_of_nat m :: u32))"
    unfolding messageID_at_def ws wm by (rule disjunctive_add_eq_or [symmetric])
  then show ?thesis
    using s m by (simp add: unat_word_ariths us um s_def [symmetric] m_def [symmetric])
qed

lemma messageID_mono:
  assumes "0 \<le> t1" and "t1 \<le> t2" and "t2 div 1000000000 < 4294967296"
  shows "messageID_at t1 \<le> messageID_at t2"
proof -
  have d: "t1 div 1000000000 \<le> t2 div 1000000000"
    using assms(2) by (rule zdiv_mono1) simp
  have m: "t mod 1000000000 div 1000 < 1000000" for t :: int
    using zdiv_mono1 [of "t mod 1000000000" 999999999 1000] by simp
  have "nat (t1 div 1000000000) * 4294967296 + 4 * nat (t1 mod 1000000000 div 1000)
      \<le> nat (t2 div 1000000000) * 4294967296 + 4 * nat (t2 mod 1000000000 div 1000)"
  proof (cases "t1 div 1000000000 = t2 div 1000000000")
    case True
    then have "t1 mod 1000000000 \<le> t2 mod 1000000000"
      using assms(2) by (metis add_le_cancel_left mult_div_mod_eq)
    then have "t1 mod 1000000000 div 1000 \<le> t2 mod 1000000000 div 1000" by (rule zdiv_mono1) simp
    then have "nat (t1 mod 1000000000 div 1000) \<le> nat (t2 mod 1000000000 div 1000)" by (rule nat_mono)
    then show ?thesis unfolding True by (intro add_mono mult_le_mono order_refl)
  next
    case False
    with d have "nat (t1 div 1000000000) < nat (t2 div 1000000000)"
      using assms(1) by (simp add: nat_less_eq_zless pos_imp_zdiv_nonneg_iff)
    moreover have "nat (t1 mod 1000000000 div 1000) < 1000000" using m [of t1] by simp
    ultimately show ?thesis by linarith
  qed
  then show ?thesis
    using assms d by (simp add: word_le_nat_alt messageID_value)
qed

section \<open>Accepted unencrypted messages\<close>

lemma slice_full: "a + length ys = b \<Longrightarrow> length xs = a \<Longrightarrow> slice a b (xs @ ys) = ys"
  by (simp add: slice_def)

lemma open_unencrypted_iff:
  "open_unencrypted packet = Inr body \<longleftrightarrow>
     (\<exists>mid rest. length mid = 8 \<and> 4 \<le> length body \<and> length body < 4294967296 \<and>
        packet = replicate 8 0 @ mid @ put32 (word_of_nat (length body)) @ body @ rest)"
    (is "?l \<longleftrightarrow> ?r")
proof
  assume ?l
  then have l: "20 \<le> length packet" "take 8 packet = replicate 8 0"
    and b: "body = slice 20 (20 + unat (get32 (slice 16 20 packet))) packet"
    and n: "4 \<le> unat (get32 (slice 16 20 packet))" "20 + unat (get32 (slice 16 20 packet)) \<le> length packet"
    by (auto simp: open_unencrypted_def Let_def split: if_splits)
  have len: "length body = unat (get32 (slice 16 20 packet))" using n by (simp add: b)
  have s4: "length (slice 16 20 packet) = 4" using l by simp
  then have w: "put32 (word_of_nat (length body)) = slice 16 20 packet"
    by (simp add: len put32_get32)
  have "packet = take 8 packet @ slice 8 16 packet @ slice 16 20 packet @ body @ drop (20 + length body) packet"
    using drop_slice [of 8 16 packet] drop_slice [of 16 20 packet]
      drop_slice [of 20 "20 + length body" packet] append_take_drop_id [of 8 packet]
    unfolding len b [symmetric] by simp
  then show ?r
    using l n len unat_u32_lt [of "get32 (slice 16 20 packet)"] w
    by (intro exI [of _ "slice 8 16 packet"] exI [of _ "drop (20 + length body) packet"]) simp
next
  assume ?r
  then obtain mid rest where m: "length mid = 8" "4 \<le> length body" "length body < 4294967296"
    and p: "packet = replicate 8 0 @ mid @ put32 (word_of_nat (length body)) @ body @ rest" by blast
  have "slice 16 20 packet = put32 (word_of_nat (length body))"
    using m slice_prefix [of "replicate 8 0 @ mid" 16 20 "put32 (word_of_nat (length body))" "body @ rest"]
    by (simp add: p)
  moreover have "slice 20 (20 + length body) packet = body"
    using m slice_prefix [of "replicate 8 0 @ mid @ put32 (word_of_nat (length body))" 20 "20 + length body" body rest]
    by (simp add: p)
  moreover have "take 8 packet = replicate 8 0" by (simp add: p)
  ultimately show ?l
    using m by (simp add: open_unencrypted_def Let_def unat_of_nat p)
qed

lemma open_unencrypted_message:
  "4 \<le> length body \<Longrightarrow> length body < 4294967296 \<Longrightarrow> open_unencrypted (unencrypted_message i body) = Inr body"
  unfolding open_unencrypted_iff unencrypted_message_def
  by (intro exI [of _ "put64 i"] exI [of _ "[]"]) simp

section \<open>What a stream operation leaves unchanged\<close>

lemma on_carrier_keeps [keeps_intros]: "io_keeps primeCache (on_carrier m)" "io_keeps entropy (on_carrier m)"
  by (simp_all add: io_keeps_def on_carrier_def split: prod.splits)

lemma stream_step_keeps [keeps_intros]: "io_keeps primeCache stream_step"
  unfolding stream_step_def by (intro keeps_intros) simp

lemma stamp_sent_keeps [keeps_intros]: "io_keeps primeCache stamp_sent"
  unfolding stamp_sent_def by (intro keeps_intros) simp

lemma encode_keeps [keeps_intros]: "io_keeps primeCache (encode tr p)"
  by (cases tr) (auto simp: encodePaddedIntermediate_def intro!: keeps_intros)

lemma encode_keeps_chan: "io_keeps chan (encode tr p)"
proof (cases tr)
  case PaddedIntermediate
  have "io_keeps chan (rand_int n)" "io_keeps chan (randomBytes n)" for n
    by (simp_all add: io_keeps_def rand_int_def randomBytes_def split: option.splits)
  then show ?thesis unfolding PaddedIntermediate encode.simps encodePaddedIntermediate_def by (intro keeps_intros)
qed (auto intro!: keeps_intros)

lemma sendRaw_keeps [keeps_intros]: "io_keeps primeCache (sendRaw message)"
  unfolding sendRaw_def by (intro keeps_intros) simp_all

lemma messageID_keeps [keeps_intros]: "io_keeps primeCache messageID"
  unfolding messageID_def by (intro keeps_intros)

lemma sendUnencrypted_keeps [keeps_intros]: "io_keeps primeCache (sendUnencrypted body)"
  unfolding sendUnencrypted_def by (intro keeps_intros)

lemma recvRaw_keeps [keeps_intros]: "io_keeps primeCache recvRaw"
  unfolding recvRaw_def by (intro keeps_intros) simp_all

lemma recvUnencrypted_keeps [keeps_intros]: "io_keeps primeCache recvUnencrypted"
  unfolding recvUnencrypted_def by (intro keeps_intros)

section \<open>A stream over a duplex link\<close>

lemma io_bind_gets: "io_bind (io_gets g) f w = f (g w) w"
  by (simp add: io_bind_Inr)

context duplex
begin

text \<open>The stream's functions are those of the link, with or without a deadline hook.\<close>

definition fits :: "('c stream, 'z) world_scheme \<Rightarrow> bool" where
  "fits w \<longleftrightarrow> lk_read (s_link (chan w)) = rd \<and> lk_write (s_link (chan w)) = wr \<and>
     lk_deadline (s_link (chan w)) \<in> {None, Some dl} \<and> s_tr (chan w) = Intermediate"

text \<open>What the following lemmas follow: the input left, the writes left, the randomness.\<close>

definition view :: "('c stream, 'z) world_scheme \<Rightarrow> bytes \<times> nat \<times> bytes \<times> bytes list" where
  "view w = (pend (s_carrier (chan w)), room (s_carrier (chan w)), entropy w, primeCache w)"

text \<open>Reading a packet writes nothing.\<close>

lemma decode_sent:
  assumes "sink_ok c" and "decode tr rd c = (r, c')"
  shows "sink_ok c' \<and> sent c' = sent c"
proof -
  let ?P = "\<lambda>x. sink_ok x \<and> sent x = sent c"
  have rd: "io_inv ?P (rd n)" for n unfolding io_inv_def using rd_sent by (metis prod.collapse)
  have basic: "io_inv ?P (io_return x)" "io_inv ?P (io_fail e)" for x :: 'd and e by (simp_all add: io_inv_def)
  have ifs: "io_inv ?P m \<Longrightarrow> io_inv ?P n \<Longrightarrow> io_inv ?P (if b then m else n)" for b and m n :: "('c, 'd) io" by simp
  have "io_inv ?P (decode tr rd)"
    by (cases tr) (auto simp: decodeIntermediate_def decodeAbridged_def decodePaddedIntermediate_def Let_def
        intro!: io_inv_bind rd basic ifs)
  from io_invD [OF this _ assms(2)] assms(1) show ?thesis by simp
qed

lemma time_now_view: "\<exists>now w'. time_now w = (Inr now, w') \<and> chan w' = chan w \<and> entropy w' = entropy w \<and> primeCache w' = primeCache w"
  by (cases "ticks w") (simp_all add: time_now_def)

lemma set_carrier_deadline_view:
  assumes "lk_deadline (s_link s) \<in> {None, Some dl}"
  shows "pend (s_carrier (set_carrier_deadline t s)) = pend (s_carrier s)"
    "room (s_carrier (set_carrier_deadline t s)) = room (s_carrier s)"
    "s_link (set_carrier_deadline t s) = s_link s" "s_tr (set_carrier_deadline t s) = s_tr s"
  using assms by (auto simp: set_carrier_deadline_def dl_frame)

lemma stream_step_ok:
  assumes "fits w" shows "\<exists>w'. stream_step w = (Inr (), w') \<and> fits w' \<and> view w' = view w"
proof (cases "s_until (chan w) \<noteq> None \<or> s_perStep (chan w) \<le> 0 \<or> lk_deadline (s_link (chan w)) = None")
  case True
  then have "stream_step w = (Inr (), w)" by (auto simp: stream_step_def io_bind_gets)
  with assms show ?thesis by blast
next
  case False
  obtain now w1 where t: "time_now w = (Inr now, w1)" "chan w1 = chan w" "entropy w1 = entropy w" "primeCache w1 = primeCache w"
    using time_now_view by blast
  let ?w2 = "w1\<lparr>chan := set_carrier_deadline (now + s_perStep (chan w)) (chan w1)\<rparr>"
  have "stream_step w = (Inr (), ?w2)" using False t by (auto simp: stream_step_def io_bind_gets io_bind_Inr)
  moreover have "fits ?w2" "view ?w2 = view w"
    using assms t set_carrier_deadline_view [of "chan w" "now + s_perStep (chan w)"] by (auto simp: fits_def view_def)
  ultimately show ?thesis by blast
qed

lemma stamp_sent_ok:
  assumes "fits w" shows "\<exists>w'. stamp_sent w = (Inr (), w') \<and> fits w' \<and> view w' = view w"
proof (cases "s_sentAt (chan w)")
  case None
  obtain now w1 where t: "time_now w = (Inr now, w1)" "chan w1 = chan w" "entropy w1 = entropy w" "primeCache w1 = primeCache w"
    using time_now_view by blast
  with None assms show ?thesis by (simp add: stamp_sent_def io_bind_Inr fits_def view_def)
next
  case (Some a)
  with assms show ?thesis by (simp add: stamp_sent_def io_bind_Inr)
qed

lemma sendRaw_ok:
  assumes "fits w" and "view w = (i, Suc k, ent, pc)"
  shows "\<exists>w'. sendRaw message w = (Inr (), w') \<and> fits w' \<and> view w' = (i, k, ent, pc)"
proof -
  obtain w1 where 1: "stream_step w = (Inr (), w1)" "fits w1" "view w1 = view w" using stream_step_ok [OF assms(1)] by blast
  obtain w2 where 2: "stamp_sent w1 = (Inr (), w2)" "fits w2" "view w2 = view w1" using stamp_sent_ok [OF 1(2)] by blast
  define w3 where "w3 = w2\<lparr>chan := (chan w2)\<lparr>s_tagFirst := None\<rparr>\<rparr>"
  have 3: "fits w3" "view w3 = view w2" using 2(2) by (simp_all add: w3_def fits_def view_def)
  let ?q = "case s_tagFirst (chan w2) of None \<Rightarrow> encodeIntermediate message | Some t \<Rightarrow> t @ encodeIntermediate message"
  have "0 < room (s_carrier (chan w3))" using 1(3) 2(3) 3(2) assms(2) by (simp add: view_def)
  then obtain c where c: "wr ?q (s_carrier (chan w3)) = (Inr (), c)" "room c = room (s_carrier (chan w3)) - 1" "pend c = pend (s_carrier (chan w3))"
    using wr_room by blast
  let ?w4 = "w3\<lparr>chan := (chan w3)\<lparr>s_carrier := c\<rparr>\<rparr>"
  have tr: "s_tr (chan w1) = Intermediate" "lk_write (s_link (chan w3)) = wr" using 1(2) 3(1) by (simp_all add: fits_def)
  have "sendRaw message w = (Inr (), ?w4)"
    using 1(1) 2(1) tr c(1) by (simp add: sendRaw_def io_seq_def io_bind_Inr w3_def on_carrier_def)
  moreover have "fits ?w4" using 3(1) by (simp add: fits_def)
  moreover have "view ?w4 = (i, k, ent, pc)"
    using c(2,3) 1(3) 2(3) 3(2) assms(2) by (simp add: view_def)
  ultimately show ?thesis by blast
qed

lemma sendUnencrypted_ok:
  assumes "fits w" and "view w = (i, Suc k, ent, pc)"
  shows "\<exists>w'. sendUnencrypted body w = (Inr (), w') \<and> fits w' \<and> view w' = (i, k, ent, pc)"
proof -
  obtain now w1 where t: "time_now w = (Inr now, w1)" "chan w1 = chan w" "entropy w1 = entropy w" "primeCache w1 = primeCache w"
    using time_now_view by blast
  have "fits w1" "view w1 = (i, Suc k, ent, pc)" using assms t by (simp_all add: fits_def view_def)
  from sendRaw_ok [OF this, of "unencrypted_message (messageID_at now) body"] t(1) show ?thesis
    by (simp add: sendUnencrypted_def messageID_def io_bind_Inr)
qed

lemma recvRaw_ok:
  assumes "fits w" and "view w = (encodeIntermediate msg @ rest, k, ent, pc)" and "0 < length msg" "length msg \<le> maxPacketLen"
  shows "\<exists>w'. recvRaw w = (Inr msg, w') \<and> fits w' \<and> view w' = (rest, k, ent, pc)"
proof -
  have p: "pend (s_carrier (chan w)) = encodeIntermediate msg @ rest" using assms(2) by (simp add: view_def)
  obtain c where c: "decodeIntermediate rd (s_carrier (chan w)) = (Inr msg, c)" "pend c = rest"
    using decodeIntermediate_encoded [OF p assms(3,4)] by blast
  have "io_keeps room (decodeIntermediate rd)"
    unfolding decodeIntermediate_def Let_def by (intro keeps_intros)
  from io_keepsD [OF this c(1)] have r: "room c = room (s_carrier (chan w))" .
  define w1 where "w1 = w\<lparr>chan := (chan w)\<lparr>s_carrier := c\<rparr>\<rparr>"
  have 1: "fits w1" "view w1 = (rest, k, ent, pc)" using assms(1,2) c(2) r by (simp_all add: w1_def fits_def view_def)
  have d: "on_carrier (decode (s_tr (chan w)) (lk_read (s_link (chan w)))) w = (Inr msg, w1)"
    using assms(1) c(1) by (simp add: on_carrier_def w1_def fits_def)
  show ?thesis
  proof (cases "s_recvdAt (chan w1)")
    case None
    obtain now w2 where t: "time_now w1 = (Inr now, w2)" "chan w2 = chan w1" "entropy w2 = entropy w1" "primeCache w2 = primeCache w1"
      using time_now_view by blast
    with None d 1 show ?thesis by (simp add: recvRaw_def io_bind_Inr io_seq_def fits_def view_def)
  next
    case (Some a)
    with d 1 show ?thesis by (simp add: recvRaw_def io_bind_Inr io_seq_def)
  qed
qed

lemma recvUnencrypted_ok:
  assumes "fits w" and "view w = (encodeIntermediate (unencrypted_message i body) @ rest, k, ent, pc)"
    and "4 \<le> length body" "length body + 20 \<le> maxPacketLen"
  shows "\<exists>w'. recvUnencrypted w = (Inr body, w') \<and> fits w' \<and> view w' = (rest, k, ent, pc)"
proof -
  have l: "0 < length (unencrypted_message i body)" "length (unencrypted_message i body) \<le> maxPacketLen"
    using assms(4) by (simp_all add: unencrypted_message_def)
  have "length body < 4294967296" using assms(4) by (simp add: maxPacketLen_def)
  then show ?thesis
    using recvRaw_ok [OF assms(1,2) l] open_unencrypted_message [OF assms(3)]
    by (auto simp: recvUnencrypted_def io_bind_Inr)
qed

end

section \<open>What a run reads and writes\<close>

text \<open>The tag which the next packet brings along.\<close>

definition lead :: "'c stream \<Rightarrow> bytes" where
  "lead s = (case s_tagFirst s of None \<Rightarrow> [] | Some t \<Rightarrow> t)"

context duplex
begin

definition linked :: "('c stream, 'z) world_scheme \<Rightarrow> bool" where
  "linked w \<longleftrightarrow> lk_read (s_link (chan w)) = rd \<and> lk_write (s_link (chan w)) = wr \<and>
     lk_deadline (s_link (chan w)) \<in> {None, Some dl}"

text \<open>\<open>writes s outb s'\<close>: between the two states of the stream \<open>outb\<close> was written, behind the tag
  if that was still to be sent.\<close>

definition writes :: "'c stream \<Rightarrow> bytes \<Rightarrow> 'c stream \<Rightarrow> bool" where
  "writes s outb s' \<longleftrightarrow> (sink_ok (s_carrier s) \<longrightarrow> sink_ok (s_carrier s') \<and>
     (if outb = [] then s_tagFirst s' = s_tagFirst s \<and> sent (s_carrier s') = sent (s_carrier s)
      else s_tagFirst s' = None \<and> sent (s_carrier s') = sent (s_carrier s) @ lead s @ outb))"

text \<open>\<open>moves w inb outb used w'\<close>: \<open>inb\<close> was read, \<open>outb\<close> written, \<open>used\<close> drawn.\<close>

definition moves :: "('c stream, 'z) world_scheme \<Rightarrow> bytes \<Rightarrow> bytes \<Rightarrow> bytes \<Rightarrow> ('c stream, 'z) world_scheme \<Rightarrow> bool" where
  "moves w inb outb used w' \<longleftrightarrow> linked w' \<and> s_tr (chan w') = s_tr (chan w) \<and>
     pend (s_carrier (chan w)) = inb @ pend (s_carrier (chan w')) \<and> entropy w = used @ entropy w' \<and>
     writes (chan w) outb (chan w')"

lemma writes_trans: "writes s a s1 \<Longrightarrow> writes s1 b s2 \<Longrightarrow> writes s (a @ b) s2"
  by (auto simp: writes_def lead_def split: if_splits)

lemma moves_trans: "moves w a b c w1 \<Longrightarrow> moves w1 a' b' c' w2 \<Longrightarrow> moves w (a @ a') (b @ b') (c @ c') w2"
  unfolding moves_def by (auto intro: writes_trans)

lemma movesD:
  assumes "moves w inb outb used w'"
  shows "linked w'" "s_tr (chan w') = s_tr (chan w)" "pend (s_carrier (chan w)) = inb @ pend (s_carrier (chan w'))"
    "entropy w = used @ entropy w'" "writes (chan w) outb (chan w')"
  using assms by (simp_all add: moves_def)

text \<open>What leaves the stream alone.\<close>

lemma moves_still: "linked w \<Longrightarrow> chan w' = chan w \<Longrightarrow> entropy w = used @ entropy w' \<Longrightarrow> moves w [] [] used w'"
  by (simp add: moves_def linked_def writes_def)

lemma time_now_moves: "linked w \<Longrightarrow> time_now w = (Inr t, w') \<Longrightarrow> moves w [] [] [] w' \<and> chan w' = chan w"
  using time_now_view [of w] by (auto intro: moves_still)

lemma deadline_moves: "linked w \<Longrightarrow> moves w [] [] [] (w\<lparr>chan := set_carrier_deadline t (chan w)\<rparr>)"
  unfolding moves_def writes_def linked_def set_carrier_deadline_def
  by (auto simp: dl_frame split: option.splits)

lemma update_moves:
  "linked w \<Longrightarrow> moves w [] [] [] (w\<lparr>chan := (chan w)\<lparr>s_sentAt := a\<rparr>\<rparr>)"
  "linked w \<Longrightarrow> moves w [] [] [] (w\<lparr>chan := (chan w)\<lparr>s_recvdAt := a\<rparr>\<rparr>)"
  "linked w \<Longrightarrow> moves w [] [] [] (w\<lparr>chan := (chan w)\<lparr>s_until := u\<rparr>\<rparr>)"
  by (simp_all add: moves_def linked_def writes_def)

lemma setDeadline_moves: "linked w \<Longrightarrow> setDeadline t w = (Inr (), w') \<Longrightarrow> moves w [] [] [] w'"
proof -
  assume l: "linked w" and r: "setDeadline t w = (Inr (), w')"
  define w1 where "w1 = w\<lparr>chan := (chan w)\<lparr>s_until := Some t\<rparr>\<rparr>"
  have 1: "moves w [] [] [] w1" unfolding w1_def by (rule update_moves(3) [OF l])
  from r have "w' = w1\<lparr>chan := set_carrier_deadline t (chan w1)\<rparr>" by (simp add: setDeadline_def w1_def)
  with moves_trans [OF 1 deadline_moves [OF movesD(1) [OF 1]]] show ?thesis by simp
qed

lemma stream_step_moves: "linked w \<Longrightarrow> stream_step w = (Inr (), w') \<Longrightarrow> moves w [] [] [] w' \<and> s_tagFirst (chan w') = s_tagFirst (chan w)"
proof -
  assume l: "linked w" and r: "stream_step w = (Inr (), w')"
  show ?thesis
  proof (cases "s_until (chan w) \<noteq> None \<or> s_perStep (chan w) \<le> 0 \<or> lk_deadline (s_link (chan w)) = None")
    case True
    then have "w' = w" using r by (auto simp: stream_step_def io_bind_gets)
    with moves_still [OF l] show ?thesis by simp
  next
    case False
    then obtain now w1 where t: "time_now w = (Inr now, w1)" "w' = w1\<lparr>chan := set_carrier_deadline (now + s_perStep (chan w)) (chan w1)\<rparr>"
      using r by (auto simp: stream_step_def io_bind_gets io_bind_eq_Inr)
    from time_now_moves [OF l t(1)] have m: "moves w [] [] [] w1" "chan w1 = chan w" by simp_all
    have "s_tagFirst (set_carrier_deadline a s) = s_tagFirst s" for a and s :: "'c stream"
      by (simp add: set_carrier_deadline_def split: option.split)
    then show ?thesis
      using moves_trans [OF m(1) deadline_moves [OF movesD(1) [OF m(1)]]] m(2) t(2) by simp
  qed
qed

lemma stamp_sent_moves: "linked w \<Longrightarrow> stamp_sent w = (Inr (), w') \<Longrightarrow> moves w [] [] [] w' \<and> s_tagFirst (chan w') = s_tagFirst (chan w)"
proof -
  assume l: "linked w" and r: "stamp_sent w = (Inr (), w')"
  show ?thesis
  proof (cases "s_sentAt (chan w)")
    case (Some a)
    then have "w' = w" using r by (simp add: stamp_sent_def io_bind_gets)
    with moves_still [OF l] show ?thesis by simp
  next
    case None
    then obtain now w1 where t: "time_now w = (Inr now, w1)" "w' = w1\<lparr>chan := (chan w1)\<lparr>s_sentAt := Some now\<rparr>\<rparr>"
      using r by (auto simp: stamp_sent_def io_bind_gets io_bind_eq_Inr)
    from time_now_moves [OF l t(1)] have m: "moves w [] [] [] w1" "chan w1 = chan w" by simp_all
    show ?thesis using moves_trans [OF m(1) update_moves(1) [OF movesD(1) [OF m(1)]]] m(2) t(2) by simp
  qed
qed

lemma sendRaw_moves:
  assumes l: "linked w" and r: "sendRaw message w = (Inr (), w')"
  shows "\<exists>wire used. emits (s_tr (chan w)) message wire \<and> moves w [] wire used w'"
proof -
  from r obtain w1 packet w2 w3 where 1: "stream_step w = (Inr (), w1)"
    and 2: "encode (s_tr (chan w1)) message w1 = (Inr packet, w2)" and 3: "stamp_sent w2 = (Inr (), w3)"
    and 4: "on_carrier (lk_write (s_link (chan w3)) (case s_tagFirst (chan w3) of None \<Rightarrow> packet | Some t \<Rightarrow> t @ packet))
       (w3\<lparr>chan := (chan w3)\<lparr>s_tagFirst := None\<rparr>\<rparr>) = (Inr (), w')"
    by (auto simp: sendRaw_def io_seq_def io_bind_eq_Inr)
  have m1: "moves w [] [] [] w1" using stream_step_moves [OF l 1] by simp
  from io_keepsD [OF encode_keeps_chan 2] have c2: "chan w2 = chan w1" .
  have "io_draws (encode (s_tr (chan w1)) message)"
    by (cases "s_tr (chan w1)") (auto simp: encodePaddedIntermediate_def intro!: draws_intros)
  from io_drawsD [OF this 2] obtain used where "entropy w1 = used @ entropy w2" by blast
  with moves_still [OF movesD(1) [OF m1] c2] have m2: "moves w1 [] [] used w2" by blast
  note m3 = stamp_sent_moves [OF movesD(1) [OF m2] 3, THEN conjunct1]
  from 4 movesD(1) [OF m3] obtain c where c: "wr (lead (chan w3) @ packet) (s_carrier (chan w3)) = (Inr (), c)"
    "w' = w3\<lparr>chan := (chan w3)\<lparr>s_tagFirst := None, s_carrier := c\<rparr>\<rparr>"
    by (auto simp: on_carrier_def linked_def lead_def split: prod.splits option.splits)
  have e: "emits (s_tr (chan w)) packet' packet \<longleftrightarrow> emits (s_tr (chan w1)) packet' packet" for packet'
    using movesD(2) [OF m1] by simp
  have em: "emits (s_tr (chan w)) message packet" using encode_emits [OF 2] e by simp
  have "moves w3 [] packet [] w'"
    using movesD(1) [OF m3] emits_nonempty [OF em] wr_pend [OF c(1)] wr_sent [OF _ c(1)]
    by (auto simp: c(2) moves_def linked_def writes_def)
  from moves_trans [OF moves_trans [OF moves_trans [OF m1 m2] m3] this] em show ?thesis by auto
qed

lemma sendUnencrypted_moves:
  assumes l: "linked w" and r: "sendUnencrypted body w = (Inr (), w')"
  shows "\<exists>mid wire used. emits (s_tr (chan w)) (unencrypted_message mid body) wire \<and> moves w [] wire used w'"
proof -
  from r obtain now w1 where t: "time_now w = (Inr now, w1)" and s: "sendRaw (unencrypted_message (messageID_at now) body) w1 = (Inr (), w')"
    by (auto simp: sendUnencrypted_def messageID_def io_bind_eq_Inr)
  note m = time_now_moves [OF l t]
  from sendRaw_moves [OF movesD(1) [OF conjunct1 [OF m]] s] m obtain wire used where
    "emits (s_tr (chan w)) (unencrypted_message (messageID_at now) body) wire" "moves w1 [] wire used w'" by auto
  with moves_trans [OF conjunct1 [OF m] this(2)] show ?thesis by auto
qed

lemma recvRaw_moves:
  assumes l: "linked w" and r: "recvRaw w = (Inr p, w')"
  shows "\<exists>wire. accepts (s_tr (chan w)) wire p \<and> moves w wire [] [] w'"
proof -
  from r obtain w1 w2 where 1: "on_carrier (decode (s_tr (chan w)) (lk_read (s_link (chan w)))) w = (Inr p, w1)"
    and 2: "(if s_recvdAt (chan w1) = None
             then io_bind time_now (\<lambda>now. io_modify (\<lambda>w. w\<lparr>chan := (chan w)\<lparr>s_recvdAt := Some now\<rparr>\<rparr>))
             else io_return ()) w1 = (Inr (), w')"
    by (auto simp: recvRaw_def io_seq_def io_bind_eq_Inr)
  from 1 l obtain c where c: "decode (s_tr (chan w)) rd (s_carrier (chan w)) = (Inr p, c)" "w1 = w\<lparr>chan := (chan w)\<lparr>s_carrier := c\<rparr>\<rparr>"
    by (auto simp: on_carrier_def linked_def split: prod.splits)
  from decode_reads [OF c(1)] obtain wire where w: "pend (s_carrier (chan w)) = wire @ pend c" "accepts (s_tr (chan w)) wire p" by blast
  have k: "sink_ok c \<and> sent c = sent (s_carrier (chan w))" if "sink_ok (s_carrier (chan w))"
    using decode_sent [OF that c(1)] .
  have m1: "moves w wire [] [] w1" using l w(1) k by (auto simp: c(2) moves_def linked_def writes_def)
  show ?thesis
  proof (cases "s_recvdAt (chan w1)")
    case (Some a)
    with 2 m1 w(2) show ?thesis by auto
  next
    case None
    with 2 obtain now w2 where t: "time_now w1 = (Inr now, w2)" "w' = w2\<lparr>chan := (chan w2)\<lparr>s_recvdAt := Some now\<rparr>\<rparr>"
      by (auto simp: io_bind_eq_Inr)
    have m2: "moves w1 [] [] [] w2" using time_now_moves [OF movesD(1) [OF m1] t(1)] by simp
    from moves_trans [OF moves_trans [OF m1 m2] update_moves(2) [OF movesD(1) [OF m2]]] w(2) show ?thesis by (auto simp: t(2))
  qed
qed

lemma recvUnencrypted_moves:
  assumes l: "linked w" and r: "recvUnencrypted w = (Inr body, w')"
  shows "\<exists>wire packet. accepts (s_tr (chan w)) wire packet \<and> open_unencrypted packet = Inr body \<and> moves w wire [] [] w'"
proof -
  from r obtain packet where p: "recvRaw w = (Inr packet, w')" "open_unencrypted packet = Inr body"
    by (auto simp: recvUnencrypted_def io_bind_eq_Inr)
  from recvRaw_moves [OF l p(1)] p(2) show ?thesis by blast
qed

end

text \<open>The link that \<open>handshake\<close> of probe.go sets up over a connection.\<close>

definition obf_link :: "crypto \<Rightarrow> conn obf link" where
  "obf_link C = \<lparr>lk_read = obf_ReadFull C conn_read_full, lk_write = obf_write C conn_write,
     lk_deadline = Some (obf_deadline conn_set_deadline)\<rparr>"

text \<open>A stream over an obfuscated connection: its plaintext input and the writes left.\<close>

definition obf_stream :: "crypto \<Rightarrow> bytes \<Rightarrow> nat \<Rightarrow> (conn obf stream, 'z) world_scheme \<Rightarrow> bool" where
  "obf_stream C input n w \<longleftrightarrow> s_link (chan w) = obf_link C \<and> s_tr (chan w) = Intermediate \<and>
     obf_incoming C (s_carrier (chan w)) = input \<and> wleft (o_rw (s_carrier (chan w))) = n"

lemma obf_stream_fits: "obf_stream C input n w \<Longrightarrow> obf_conn.both.fits C w"
  by (simp add: obf_conn.both.fits_def obf_stream_def obf_link_def)

lemma obf_stream_view:
  "obf_stream C input n w \<Longrightarrow> obf_conn.both.view C w = (input, n, entropy w, primeCache w)"
  by (simp add: obf_conn.both.view_def obf_stream_def obf_incoming_def)

end
