(* ===== verification/Auth.thy ===== *)
theory Auth
  imports Rsa Factorize Stream
begin

text \<open>
  \<open>internal/mtproto/auth.go\<close> and \<open>quickCheck\<close> of respq.go: the MTProto key exchange.
  \<open>createAuthKey\<close> is the whole exchange (resPQ, factorization, RSA\_PAD, Diffie-Hellman,
  dh\_gen\_ok) over a \<open>stream\<close>; its parsers and verifiers are functions of the payload.
  \<open>ProbablyPrime(16)\<close> of math/big is the parameter \<open>pp\<close>.  The lemmas characterise exactly
  which answers are accepted and what a completed exchange guarantees.
\<close>

definition ctorReqPQMulti :: u32 where "ctorReqPQMulti = 0xBE7E8EF1"
definition ctorResPQ :: u32 where "ctorResPQ = 0x05162463"
definition ctorPQInnerDataDC :: u32 where "ctorPQInnerDataDC = 0xA9F55F95"
definition ctorReqDHParams :: u32 where "ctorReqDHParams = 0xD712E4BE"
definition ctorServerDHParamsOK :: u32 where "ctorServerDHParamsOK = 0xD0E8075C"
definition ctorServerDHInnerData :: u32 where "ctorServerDHInnerData = 0xB5890DBA"
definition ctorClientDHInnerData :: u32 where "ctorClientDHInnerData = 0x6643B654"
definition ctorSetClientDHParams :: u32 where "ctorSetClientDHParams = 0xF5045F1F"
definition ctorDHGenOK :: u32 where "ctorDHGenOK = 0x3BCBF734"

record authKey =
  ak_key :: bytes
  ak_keyID :: bytes
  ak_salt :: bytes
  ak_timeOffset :: int

section \<open>Requests and parsers\<close>

definition reqPQMultiBody :: "bytes \<Rightarrow> bytes" where
  "reqPQMultiBody nonce = buf_raw nonce (buf_uint32 ctorReqPQMulti [])"

text \<open>\<open>for len(full) > 1 && full[0] == 0 { full = full[1:] }\<close>\<close>

fun strip_zeros :: "bytes \<Rightarrow> bytes" where
  "strip_zeros (x # y # rest) = (if x = 0 then strip_zeros (y # rest) else x # y # rest)"
| "strip_zeros full = full"

definition bigEndian :: "u64 \<Rightarrow> bytes" where
  "bigEndian v = strip_zeros (be_bytes 8 (unat v))"

definition quickCheck :: "(('c stream, 'z) world_scheme, unit) io" where
  "quickCheck =
     io_bind (randomBytes 16) (\<lambda>nonce.
     io_seq (sendUnencrypted (reqPQMultiBody nonce))
     (io_bind recvUnencrypted (\<lambda>body.
        if length body < 20 then io_fail (ErrText ''resPQ is too short'')
        else if get32 (take 4 body) \<noteq> ctorResPQ then io_fail (ErrText ''answer is not a resPQ'')
        else if slice 4 20 body \<noteq> nonce then io_fail (ErrText ''resPQ nonce mismatch'')
        else io_return ())))"

definition parseResPQ :: "bytes \<Rightarrow> bytes \<Rightarrow> goerr + (u64 \<times> bytes \<times> u64 list)" where
  "parseResPQ payload nonce =
     (let c0 = cursor_expect ctorResPQ ''resPQ'' (newCursor payload);
          (n, c1) = cursor_int128 c0
      in if n \<noteq> nonce \<and> cerr c1 = None then Inl (ErrText ''resPQ nonce mismatch'')
         else let (serverNonce, c2) = cursor_int128 c1;
                  (pqBytes, c3) = cursor_bytes c2;
                  (fingerprints, c4) = cursor_vectorLong c3
              in case cerr c4 of
                   Some e \<Rightarrow> Inl e
                 | None \<Rightarrow>
                     if length pqBytes = 0 \<or> length pqBytes > 8
                     then Inl (ErrText (''implausible pq length '' @ dec_nat (length pqBytes)))
                     else Inr (word_of_nat (bigFromBytes pqBytes), serverNonce, fingerprints))"

definition dhTempKeys :: "crypto \<Rightarrow> bytes \<Rightarrow> bytes \<Rightarrow> bytes \<times> bytes" where
  "dhTempKeys C newNonce serverNonce =
     (let newServer = sha1 C (newNonce @ serverNonce);
          serverNew = sha1 C (serverNonce @ newNonce);
          newNew = sha1 C (newNonce @ newNonce)
      in (newServer @ take 12 serverNew, slice 12 20 serverNew @ newNew @ take 4 newNonce))"

text \<open>The decrypted answer: SHA-1 of the inner object, then the object and padding.\<close>

definition parseServerDHInner ::
  "crypto \<Rightarrow> bytes \<Rightarrow> bytes \<Rightarrow> bytes \<Rightarrow> goerr + (nat \<times> nat \<times> nat \<times> u32)" where
  "parseServerDHInner C decrypted nonce serverNonce =
     (if length decrypted < 20 then Inl (ErrText ''server_DH_inner_data is too short'')
      else let i0 = cursor_expect ctorServerDHInnerData ''server_DH_inner_data'' (newCursor (drop 20 decrypted));
               (n, i1) = cursor_int128 i0
           in if n \<noteq> nonce \<and> cerr i1 = None then Inl (ErrText ''server_DH_inner_data nonce mismatch'')
              else let (sn, i2) = cursor_int128 i1
                   in if sn \<noteq> serverNonce \<and> cerr i2 = None
                      then Inl (ErrText ''server_DH_inner_data server_nonce mismatch'')
                      else let (g, i3) = cursor_uint32 i2;
                               (primeBytes, i4) = cursor_bytes i3;
                               (gABytes, i5) = cursor_bytes i4;
                               (serverTime, i6) = cursor_uint32 i5
                           in case cerr i6 of
                                Some e \<Rightarrow> Inl e
                              | None \<Rightarrow>
                                  let consumed = slice 20 (20 + ci i6) decrypted
                                  in if sha1 C consumed \<noteq> take 20 decrypted
                                     then Inl (ErrText ''server_DH_inner_data hash mismatch'')
                                     else Inr (unat g, bigFromBytes primeBytes, bigFromBytes gABytes, serverTime))"

definition parseServerDHParams ::
  "crypto \<Rightarrow> bytes \<Rightarrow> bytes \<Rightarrow> bytes \<Rightarrow> bytes \<Rightarrow> bytes \<Rightarrow> goerr + (nat \<times> nat \<times> nat \<times> u32)" where
  "parseServerDHParams C payload nonce serverNonce tmpKey tmpIV =
     (let c0 = cursor_expect ctorServerDHParamsOK ''server_DH_params_ok'' (newCursor payload);
          (n, c1) = cursor_int128 c0
      in if n \<noteq> nonce \<and> cerr c1 = None then Inl (ErrText ''server_DH_params nonce mismatch'')
         else let (sn, c2) = cursor_int128 c1
              in if sn \<noteq> serverNonce \<and> cerr c2 = None
                 then Inl (ErrText ''server_DH_params server_nonce mismatch'')
                 else let (answer, c3) = cursor_bytes c2
                      in case cerr c3 of
                           Some e \<Rightarrow> Inl e
                         | None \<Rightarrow>
                             res_bind (igeDecrypt C answer tmpKey tmpIV) (\<lambda>decrypted.
                             parseServerDHInner C decrypted nonce serverNonce))"

definition encryptDHInner :: "crypto \<Rightarrow> bytes \<Rightarrow> bytes \<Rightarrow> bytes \<Rightarrow> ('z env_scheme, bytes) io" where
  "encryptDHInner C data tmpKey tmpIV =
     (let payload = sha1 C data @ data;
          pad = (16 - length payload mod 16) mod 16
      in if pad > 0
         then io_bind (randomBytes pad) (\<lambda>filler. io_lift (igeEncrypt C (payload @ filler) tmpKey tmpIV))
         else io_lift (igeEncrypt C payload tmpKey tmpIV))"

definition newNonceHash1 :: "crypto \<Rightarrow> bytes \<Rightarrow> bytes \<Rightarrow> bytes" where
  "newNonceHash1 C newNonce shared =
     (let auxHash = sha1 C shared; digest = sha1 C (newNonce @ [1] @ take 8 auxHash)
      in slice 4 20 digest)"

definition verifyDHGen ::
  "crypto \<Rightarrow> bytes \<Rightarrow> bytes \<Rightarrow> bytes \<Rightarrow> bytes \<Rightarrow> bytes \<Rightarrow> goerr + unit" where
  "verifyDHGen C payload nonce serverNonce newNonce shared =
     (let c0 = cursor_expect ctorDHGenOK ''dh_gen_ok'' (newCursor payload);
          (n, c1) = cursor_int128 c0
      in if n \<noteq> nonce \<and> cerr c1 = None then Inl (ErrText ''dh_gen_ok nonce mismatch'')
         else let (sn, c2) = cursor_int128 c1
              in if sn \<noteq> serverNonce \<and> cerr c2 = None
                 then Inl (ErrText ''dh_gen_ok server_nonce mismatch'')
                 else let (got, c3) = cursor_int128 c2
                      in case cerr c3 of
                           Some e \<Rightarrow> Inl e
                         | None \<Rightarrow>
                             if got \<noteq> newNonceHash1 C newNonce shared
                             then Inl (ErrText ''dh_gen_ok new_nonce_hash mismatch: the shared key differs'')
                             else Inr ())"

text \<open>The prime check with its process-wide cache.\<close>

definition checkDHParams :: "crypto \<Rightarrow> (nat \<Rightarrow> bool) \<Rightarrow> nat \<Rightarrow> nat \<Rightarrow> nat \<Rightarrow> ('z env_scheme, unit) io" where
  "checkDHParams C pp g dhPrime gA = (\<lambda>w.
     if g < 2 \<or> g > 7 then (Inl (ErrText (''g is out of range: '' @ dec_nat g)), w)
     else if bit_len dhPrime \<noteq> 2048
     then (Inl (ErrText (''dh_prime is '' @ dec_nat (bit_len dhPrime) @ '' bits, want 2048'')), w)
     else let upper = dhPrime - 1
          in if gA \<le> 1 \<or> gA \<ge> upper then (Inl (ErrText ''g_a is out of range''), w)
             else let fingerprint = sha256 C (big_bytes dhPrime)
                  in if fingerprint \<in> set (primeCache w) then (Inr (), w)
                     else if \<not> pp dhPrime then (Inl (ErrText ''dh_prime is not prime''), w)
                     else if \<not> pp (upper div 2) then (Inl (ErrText ''dh_prime is not a safe prime''), w)
                     else (Inr (), w\<lparr>primeCache := fingerprint # primeCache w\<rparr>))"

section \<open>The exchange\<close>

definition pqInnerData :: "u64 \<Rightarrow> u64 \<Rightarrow> u64 \<Rightarrow> bytes \<Rightarrow> bytes \<Rightarrow> bytes \<Rightarrow> int \<Rightarrow> bytes" where
  "pqInnerData pq p q nonce serverNonce newNonce dcID =
     buf_uint32 (word_of_int dcID) (buf_raw newNonce (buf_raw serverNonce (buf_raw nonce
       (buf_bytes (bigEndian q) (buf_bytes (bigEndian p) (buf_bytes (bigEndian pq)
       (buf_uint32 ctorPQInnerDataDC [])))))))"

definition reqDHParamsBody :: "bytes \<Rightarrow> bytes \<Rightarrow> u64 \<Rightarrow> u64 \<Rightarrow> u64 \<Rightarrow> bytes \<Rightarrow> bytes" where
  "reqDHParamsBody nonce serverNonce p q fingerprint encrypted =
     buf_bytes encrypted (buf_uint64 fingerprint (buf_bytes (bigEndian q) (buf_bytes (bigEndian p)
       (buf_raw serverNonce (buf_raw nonce (buf_uint32 ctorReqDHParams []))))))"

definition clientDHInner :: "bytes \<Rightarrow> bytes \<Rightarrow> bytes \<Rightarrow> bytes" where
  "clientDHInner nonce serverNonce gB =
     buf_bytes gB (buf_uint64 0 (buf_raw serverNonce (buf_raw nonce (buf_uint32 ctorClientDHInnerData []))))"

definition setClientDHParamsBody :: "bytes \<Rightarrow> bytes \<Rightarrow> bytes \<Rightarrow> bytes" where
  "setClientDHParamsBody nonce serverNonce encrypted =
     buf_bytes encrypted (buf_raw serverNonce (buf_raw nonce (buf_uint32 ctorSetClientDHParams [])))"

text \<open>The first half: resPQ, the factors and the encrypted request for the DH parameters.\<close>

definition request_dh ::
  "crypto \<Rightarrow> int \<Rightarrow> (('c stream, 'z) world_scheme, bytes \<times> bytes \<times> bytes) io" where
  "request_dh C dcID =
     io_bind (randomBytes 16) (\<lambda>nonce.
     io_seq (sendUnencrypted (reqPQMultiBody nonce))
     (io_bind (io_map_err (ErrWrap ''no resPQ: '') recvUnencrypted) (\<lambda>res.
      io_bind (io_lift (parseResPQ res nonce)) (\<lambda>(pq, serverNonce, fingerprints).
      io_bind (io_lift (factorize pq)) (\<lambda>(p, q).
      io_bind (io_lift (selectKey C fingerprints)) (\<lambda>key.
      io_bind (randomBytes 32) (\<lambda>newNonce.
      io_bind (rsaPad C (pqInnerData pq p q nonce serverNonce newNonce dcID) key) (\<lambda>encrypted.
      io_seq (sendUnencrypted (reqDHParamsBody nonce serverNonce p q (pk_fingerprint key) encrypted))
      (io_return (nonce, serverNonce, newNonce))))))))))"

text \<open>The second half: check the parameters, answer with \<open>g^b\<close>, verify the server's hash.\<close>

definition finish_dh ::
  "crypto \<Rightarrow> (nat \<Rightarrow> bool) \<Rightarrow> bytes \<Rightarrow> bytes \<Rightarrow> bytes \<Rightarrow> (('c stream, 'z) world_scheme, authKey) io" where
  "finish_dh C pp nonce serverNonce newNonce =
     io_bind (io_map_err (ErrWrap ''no server_DH_params: '') recvUnencrypted) (\<lambda>res.
      let (tmpKey, tmpIV) = dhTempKeys C newNonce serverNonce in
      io_bind (io_lift (parseServerDHParams C res nonce serverNonce tmpKey tmpIV)) (\<lambda>(g, dhPrime, gA, serverTime).
      io_seq (checkDHParams C pp g dhPrime gA)
      (io_bind (randomBigInt 2048) (\<lambda>b.
       io_bind (io_lift (padTo (modexp g b dhPrime) 256)) (\<lambda>gB.
       io_bind (encryptDHInner C (clientDHInner nonce serverNonce gB) tmpKey tmpIV) (\<lambda>encryptedClient.
       io_seq (sendUnencrypted (setClientDHParamsBody nonce serverNonce encryptedClient))
       (io_bind (io_map_err (ErrWrap ''no dh_gen answer: '') recvUnencrypted) (\<lambda>res2.
        io_bind (io_lift (padTo (modexp gA b dhPrime) 256)) (\<lambda>shared.
        io_seq (io_lift (verifyDHGen C res2 nonce serverNonce newNonce shared))
        (io_bind time_now (\<lambda>now.
         io_return \<lparr>ak_key = shared, ak_keyID = slice 12 20 (sha1 C shared),
                    ak_salt = xor_bytes (take 8 newNonce) (take 8 serverNonce),
                    ak_timeOffset = int (unat serverTime) - now div 1000000000\<rparr>)))))))))))"

definition createAuthKey ::
  "crypto \<Rightarrow> (nat \<Rightarrow> bool) \<Rightarrow> int \<Rightarrow> (('c stream, 'z) world_scheme, authKey) io" where
  "createAuthKey C pp dcID =
     io_bind (request_dh C dcID) (\<lambda>(nonce, serverNonce, newNonce).
     finish_dh C pp nonce serverNonce newNonce)"

lemma cursor_int128_ok: "cerr (snd (cursor_int128 c)) = None \<Longrightarrow> cerr c = None"
  by (simp add: cursor_int128_def cursor_take_ok)

lemma cursor_int128_inv:
  "cursor_int128 (cur xs ys) = (p, c') \<Longrightarrow> cerr c' = None \<Longrightarrow>
     \<exists>ys'. length p = 16 \<and> ys = p @ ys' \<and> c' = cur (xs @ p) ys'"
  using cursor_take_inv [of 16 xs ys p c'] by (auto simp: cursor_int128_def)

lemma take_append_exact: "length xs = n \<Longrightarrow> take n (xs @ ys) = xs"
  by simp

section \<open>The integers of the exchange\<close>

lemma le_nat_snoc_zero [simp]: "le_nat (xs @ [0]) = le_nat xs"
  by (induction xs) simp_all

lemma be_nat_zero_Cons [simp]: "be_nat (0 # xs) = be_nat xs"
  by (simp add: be_nat_def)

lemma be_nat_strip_zeros [simp]: "be_nat (strip_zeros xs) = be_nat xs"
  by (induction xs rule: strip_zeros.induct) auto

lemma strip_zeros_length: "length (strip_zeros xs) \<le> length xs"
  by (induction xs rule: strip_zeros.induct) (auto intro: le_SucI)

lemma strip_zeros_nonempty: "xs \<noteq> [] \<Longrightarrow> strip_zeros xs \<noteq> []"
  by (induction xs rule: strip_zeros.induct) auto

lemma strip_zeros_minimal: "2 \<le> length (strip_zeros xs) \<Longrightarrow> strip_zeros xs ! 0 \<noteq> 0"
  by (induction xs rule: strip_zeros.induct) (auto split: if_splits)

lemma bigEndian_value: "bigFromBytes (bigEndian v) = unat v"
  using unat_u64_lt [of v] by (simp add: bigFromBytes_def bigEndian_def be_nat_be_bytes)

lemma bigEndian_length: "length (bigEndian v) \<le> 8" "bigEndian v \<noteq> []"
proof -
  show "length (bigEndian v) \<le> 8"
    using strip_zeros_length [of "be_bytes 8 (unat v)"] by (simp add: bigEndian_def)
  have "length (be_bytes 8 (unat v)) = 8" by simp
  then have "be_bytes 8 (unat v) \<noteq> []" by (metis list.size(3) zero_neq_numeral)
  then show "bigEndian v \<noteq> []" unfolding bigEndian_def by (rule strip_zeros_nonempty)
qed

section \<open>resPQ\<close>

definition resPQ_body :: "bytes \<Rightarrow> bytes \<Rightarrow> bytes \<Rightarrow> u64 list \<Rightarrow> bytes" where
  "resPQ_body nonce serverNonce pqBytes fps =
     put32 ctorResPQ @ nonce @ serverNonce @ tl_bytes pqBytes @ put32 ctorVector
     @ put32 (word_of_nat (length fps)) @ concat (map put64 fps)"

lemma parseResPQ_honest:
  assumes "length nonce = 16" "length serverNonce = 16" "0 < length pqBytes" "length pqBytes \<le> 8" "length fps \<le> 64"
  shows "parseResPQ (resPQ_body nonce serverNonce pqBytes fps @ rest) nonce =
           Inr (word_of_nat (bigFromBytes pqBytes), serverNonce, fps)"
proof -
  have e: "resPQ_body nonce serverNonce pqBytes fps @ rest = put32 ctorResPQ @ nonce @ serverNonce @ tl_bytes pqBytes
     @ put32 ctorVector @ put32 (word_of_nat (length fps)) @ concat (map put64 fps) @ rest"
    by (simp add: resPQ_body_def)
  show ?thesis
    using assms unfolding e
    by (simp add: parseResPQ_def newCursor_cur cursor_expect_cur cursor_int128_cur cursor_bytes_cur
        cursor_vectorLong_cur)
qed


text \<open>The common head of every answer: a constructor and the two nonces.\<close>

lemma read_head_inv:
  assumes "cursor_int128 (cursor_expect k nm (newCursor payload)) = (n, c1)" and "cursor_int128 c1 = (sn, c2)"
    and "cerr c2 = None"
  shows "\<exists>ys. length n = 16 \<and> length sn = 16 \<and> payload = put32 k @ n @ sn @ ys \<and> c2 = cur (put32 k @ n @ sn) ys"
proof -
  have e1: "cerr c1 = None" using assms(2,3) cursor_int128_ok [of c1] by simp
  then have "cerr (cursor_expect k nm (newCursor payload)) = None"
    using assms(1) cursor_int128_ok [of "cursor_expect k nm (newCursor payload)"] by simp
  then obtain ys where y: "payload = put32 k @ ys" "cursor_expect k nm (newCursor payload) = cur (put32 k) ys"
    using cursor_expect_inv [of k nm "[]" payload] by (auto simp: newCursor_cur)
  obtain ys1 where y1: "length n = 16" "ys = n @ ys1" "c1 = cur (put32 k @ n) ys1"
    using cursor_int128_inv [OF assms(1) [unfolded y(2)] e1] by auto
  obtain ys2 where "length sn = 16" "ys1 = sn @ ys2" "c2 = cur ((put32 k @ n) @ sn) ys2"
    using cursor_int128_inv [OF assms(2) [unfolded y1(3)] assms(3)] by auto
  with y y1 show ?thesis by simp
qed

lemma parseResPQ_sound:
  assumes "parseResPQ payload nonce = Inr (pq, serverNonce, fps)"
  shows "\<exists>pqBytes enc tail. length serverNonce = 16 \<and>
     payload = put32 ctorResPQ @ nonce @ serverNonce @ enc @ put32 ctorVector @ put32 (word_of_nat (length fps))
       @ concat (map put64 fps) @ tail \<and>
     tl_field pqBytes enc \<and> 0 < length pqBytes \<and> length pqBytes \<le> 8 \<and> pq = word_of_nat (be_nat pqBytes) \<and> length fps \<le> 64"
proof -
  obtain n c1 where 1: "cursor_int128 (cursor_expect ctorResPQ ''resPQ'' (newCursor payload)) = (n, c1)" by fastforce
  obtain sn c2 where 2: "cursor_int128 c1 = (sn, c2)" by fastforce
  obtain pqBytes c3 where 3: "cursor_bytes c2 = (pqBytes, c3)" by fastforce
  obtain fs c4 where 4: "cursor_vectorLong c3 = (fs, c4)" by fastforce
  have a: "n = nonce \<or> cerr c1 \<noteq> None" "cerr c4 = None" "serverNonce = sn" "fs = fps"
    "0 < length pqBytes" "length pqBytes \<le> 8" "pq = word_of_nat (be_nat pqBytes)"
    using assms by (auto simp: parseResPQ_def bigFromBytes_def 1 2 3 4 split: if_splits option.splits)
  have e3: "cerr c3 = None" using a(2) 4 cursor_vectorLong_ok [of c3] by simp
  then have e2: "cerr c2 = None" using 3 cursor_bytes_ok [of c2] by simp
  then have e1: "cerr c1 = None" using 2 cursor_int128_ok [of c1] by simp
  obtain ys2 where y2: "length n = 16" "length sn = 16" "payload = put32 ctorResPQ @ n @ sn @ ys2" "c2 = cur (put32 ctorResPQ @ n @ sn) ys2"
    using read_head_inv [OF 1 2 e2] by auto
  have al: "length (put32 ctorResPQ @ n @ sn) mod 4 = 0" using y2(1,2) by simp
  obtain enc ys3 where y3: "ys2 = enc @ ys3" "c3 = cur ((put32 ctorResPQ @ n @ sn) @ enc) ys3" "tl_field pqBytes enc"
    using cursor_bytes_field [OF 3 [unfolded y2(4)] e3 al] by blast
  obtain tail where "length fs \<le> 64" "ys3 = put32 ctorVector @ put32 (word_of_nat (length fs)) @ concat (map put64 fs) @ tail"
    using cursor_vectorLong_inv [OF 4 [unfolded y3(2)] a(2)] by blast
  with a y2 y3 e1 show ?thesis by (intro exI [of _ pqBytes] exI [of _ enc] exI [of _ tail]) simp
qed

section \<open>The answer to the Diffie-Hellman request\<close>

definition dh_gen_ok_body :: "crypto \<Rightarrow> bytes \<Rightarrow> bytes \<Rightarrow> bytes \<Rightarrow> bytes \<Rightarrow> bytes" where
  "dh_gen_ok_body C nonce serverNonce newNonce shared =
     put32 ctorDHGenOK @ nonce @ serverNonce @ newNonceHash1 C newNonce shared"

lemma newNonceHash1_length: "crypto_ok C \<Longrightarrow> length (newNonceHash1 C newNonce shared) = 16"
  by (simp add: newNonceHash1_def crypto_okD)

lemma verifyDHGen_iff:
  assumes "crypto_ok C" "length nonce = 16" "length serverNonce = 16"
  shows "verifyDHGen C payload nonce serverNonce newNonce shared = Inr () \<longleftrightarrow>
     (\<exists>rest. payload = dh_gen_ok_body C nonce serverNonce newNonce shared @ rest)" (is "?l \<longleftrightarrow> ?r")
proof
  assume ?r
  then show ?l using assms
    by (auto simp: verifyDHGen_def dh_gen_ok_body_def newCursor_cur cursor_expect_cur cursor_int128_cur newNonceHash1_length)
next
  assume l: ?l
  obtain n c1 where 1: "cursor_int128 (cursor_expect ctorDHGenOK ''dh_gen_ok'' (newCursor payload)) = (n, c1)" by fastforce
  obtain sn c2 where 2: "cursor_int128 c1 = (sn, c2)" by fastforce
  obtain got c3 where 3: "cursor_int128 c2 = (got, c3)" by fastforce
  have a: "n = nonce \<or> cerr c1 \<noteq> None" "sn = serverNonce \<or> cerr c2 \<noteq> None" "cerr c3 = None"
    "got = newNonceHash1 C newNonce shared"
    using l by (auto simp: verifyDHGen_def 1 2 3 split: if_splits option.splits)
  have e2: "cerr c2 = None" using a(3) 3 cursor_int128_ok [of c2] by simp
  then have e1: "cerr c1 = None" using 2 cursor_int128_ok [of c1] by simp
  obtain ys where y: "payload = put32 ctorDHGenOK @ n @ sn @ ys" "c2 = cur (put32 ctorDHGenOK @ n @ sn) ys"
    using read_head_inv [OF 1 2 e2] by auto
  with cursor_int128_inv [OF 3 [unfolded y(2)] a(3)] a(1,2,4) e1 e2 show ?r
    by (auto simp: dh_gen_ok_body_def)
qed

definition server_dh_inner :: "bytes \<Rightarrow> bytes \<Rightarrow> u32 \<Rightarrow> bytes \<Rightarrow> bytes \<Rightarrow> u32 \<Rightarrow> bytes" where
  "server_dh_inner nonce serverNonce g prime gA time =
     put32 ctorServerDHInnerData @ nonce @ serverNonce @ put32 g @ tl_bytes prime @ tl_bytes gA @ put32 time"

lemma parseServerDHInner_honest:
  assumes "crypto_ok C" "length nonce = 16" "length serverNonce = 16" "length prime < 16777216" "length gA < 16777216"
    and inner: "inner = server_dh_inner nonce serverNonce g prime gA time"
  shows "parseServerDHInner C (sha1 C inner @ inner @ rest) nonce serverNonce =
           Inr (unat g, bigFromBytes prime, bigFromBytes gA, time)"
proof -
  have al: "length (put32 ctorServerDHInnerData @ nonce @ serverNonce @ put32 g) mod 4 = 0"
    "length (put32 ctorServerDHInnerData @ nonce @ serverNonce @ put32 g @ tl_bytes prime) mod 4 = 0"
    using assms(2,3) tl_bytes_aligned [of prime] by (simp_all add: mod_add_eq [symmetric] del: tl_bytes_aligned)
  have l: "length (sha1 C inner) = 20" using assms(1) by (simp add: crypto_okD)
  have "slice 20 (20 + length inner) (sha1 C inner @ inner @ rest) = inner"
    using l by (intro slice_prefix) simp_all
  then show ?thesis
    using assms al l
    by (simp add: parseServerDHInner_def newCursor_cur cursor_expect_cur cursor_int128_cur cursor_bytes_cur
        cursor_uint32_cur server_dh_inner_def add.assoc)
qed


text \<open>\<open>dh_inner\<close>: the layout of an inner object that is accepted, whatever encodings its two
  numbers have.\<close>

definition dh_inner :: "bytes \<Rightarrow> bytes \<Rightarrow> bytes \<Rightarrow> nat \<Rightarrow> nat \<Rightarrow> nat \<Rightarrow> u32 \<Rightarrow> bool" where
  "dh_inner nonce serverNonce inner g prime gA time \<longleftrightarrow> (\<exists>g' pb encP gb encGA.
     inner = put32 0xB5890DBA @ nonce @ serverNonce @ put32 g' @ encP @ encGA @ put32 time \<and>
     tl_field pb encP \<and> tl_field gb encGA \<and> g = unat g' \<and> prime = be_nat pb \<and> gA = be_nat gb)"

lemma parseServerDHInner_sound:
  assumes "parseServerDHInner C decrypted nonce serverNonce = Inr (g, prime, gA, time)"
  shows "\<exists>inner rest. decrypted = sha1 C inner @ inner @ rest \<and> dh_inner nonce serverNonce inner g prime gA time"
proof -
  let ?p = "drop 20 decrypted"
  let ?k = "put32 ctorServerDHInnerData"
  obtain n i1 where 1: "cursor_int128 (cursor_expect ctorServerDHInnerData ''server_DH_inner_data'' (newCursor ?p)) = (n, i1)"
    by fastforce
  obtain sn i2 where 2: "cursor_int128 i1 = (sn, i2)" by fastforce
  obtain g' i3 where 3: "cursor_uint32 i2 = (g', i3)" by fastforce
  obtain pb i4 where 4: "cursor_bytes i3 = (pb, i4)" by fastforce
  obtain gb i5 where 5: "cursor_bytes i4 = (gb, i5)" by fastforce
  obtain t i6 where 6: "cursor_uint32 i5 = (t, i6)" by fastforce
  have a: "n = nonce \<or> cerr i1 \<noteq> None" "sn = serverNonce \<or> cerr i2 \<noteq> None" "cerr i6 = None" "20 \<le> length decrypted"
    "sha1 C (Prelude.slice 20 (20 + ci i6) decrypted) = take 20 decrypted" "g = unat g'" "time = t"
    "prime = be_nat pb" "gA = be_nat gb"
    using assms by (auto simp: parseServerDHInner_def bigFromBytes_def 1 2 3 4 5 6 Let_def split: if_splits option.splits)
  have e5: "cerr i5 = None" using a(3) 6 cursor_uint32_ok [of i5] by simp
  then have e4: "cerr i4 = None" using 5 cursor_bytes_ok [of i4] by simp
  then have e3: "cerr i3 = None" using 4 cursor_bytes_ok [of i3] by simp
  then have e2: "cerr i2 = None" using 3 cursor_uint32_ok [of i2] by simp
  then have e1: "cerr i1 = None" using 2 cursor_int128_ok [of i1] by simp
  obtain ys2 where y2: "length n = 16" "length sn = 16" "?p = ?k @ n @ sn @ ys2" "i2 = cur (?k @ n @ sn) ys2"
    using read_head_inv [OF 1 2 e2] by auto
  obtain ys3 where y3: "ys2 = put32 g' @ ys3" "i3 = cur ((?k @ n @ sn) @ put32 g') ys3"
    using cursor_uint32_inv [OF 3 [unfolded y2(4)] e3] by auto
  have al: "length ((?k @ n @ sn) @ put32 g') mod 4 = 0" using y2(1,2) by simp
  obtain enc1 ys4 where y4: "ys3 = enc1 @ ys4" "i4 = cur (((?k @ n @ sn) @ put32 g') @ enc1) ys4" "tl_field pb enc1"
    using cursor_bytes_field [OF 4 [unfolded y3(2)] e4 al] by blast
  have al1: "length (((?k @ n @ sn) @ put32 g') @ enc1) mod 4 = 0"
    unfolding length_append [of "(?k @ n @ sn) @ put32 g'"] mod_add_eq [symmetric, of _ "length enc1"] al tl_field_aligned [OF y4(3)] by simp
  obtain enc2 ys5 where y5: "ys4 = enc2 @ ys5" "i5 = cur ((((?k @ n @ sn) @ put32 g') @ enc1) @ enc2) ys5" "tl_field gb enc2"
    using cursor_bytes_field [OF 5 [unfolded y4(2)] e5 al1] by blast
  obtain ys6 where y6: "ys5 = put32 t @ ys6" "i6 = cur (((((?k @ n @ sn) @ put32 g') @ enc1) @ enc2) @ put32 t) ys6"
    using cursor_uint32_inv [OF 6 [unfolded y5(2)] a(3)] by auto
  define inner where "inner = ?k @ n @ sn @ put32 g' @ enc1 @ enc2 @ put32 t"
  have p: "?p = inner @ ys6" and ci: "ci i6 = length inner"
    using y2(3) y3(1) y4(1) y5(1) y6 by (simp_all add: inner_def)
  have "Prelude.slice 20 (20 + ci i6) decrypted = inner"
    by (simp add: slice_def p ci)
  with a(5) have "take 20 decrypted = sha1 C inner" by simp
  with p have "decrypted = sha1 C inner @ inner @ ys6" by (metis append_take_drop_id)
  moreover have "dh_inner nonce serverNonce inner g prime gA time"
    unfolding dh_inner_def using a e1 e2 y4(3) y5(3)
    by (intro exI [of _ g'] exI [of _ pb] exI [of _ enc1] exI [of _ gb] exI [of _ enc2]) (simp add: inner_def ctorServerDHInnerData_def)
  ultimately show ?thesis by blast
qed

lemma parseServerDHInner_accepts:
  assumes "crypto_ok C" "length nonce = 16" "length serverNonce = 16" and i: "dh_inner nonce serverNonce inner g prime gA time"
  shows "parseServerDHInner C (sha1 C inner @ inner @ rest) nonce serverNonce = Inr (g, prime, gA, time)"
proof -
  from i obtain g' pb encP gb encGA where
    e: "inner = put32 ctorServerDHInnerData @ nonce @ serverNonce @ put32 g' @ encP @ encGA @ put32 time"
    and f: "tl_field pb encP" "tl_field gb encGA" and v: "g = unat g'" "prime = be_nat pb" "gA = be_nat gb"
    by (auto simp: dh_inner_def ctorServerDHInnerData_def)
  have al: "length (put32 ctorServerDHInnerData @ nonce @ serverNonce @ put32 g') mod 4 = 0"
    "length (put32 ctorServerDHInnerData @ nonce @ serverNonce @ put32 g' @ encP) mod 4 = 0"
    using assms(2,3) tl_field_aligned [OF f(1)] by (simp_all add: mod_add_eq [symmetric])
  have l: "length (sha1 C inner) = 20" using assms(1) by (simp add: crypto_okD)
  have "slice 20 (20 + length inner) (sha1 C inner @ inner @ rest) = inner"
    using l by (intro slice_prefix) simp_all
  then show ?thesis
    using assms al l f
    by (simp add: parseServerDHInner_def newCursor_cur cursor_expect_cur cursor_int128_cur cursor_bytes_any
        cursor_uint32_cur e v bigFromBytes_def add.assoc)
qed

text \<open>The server's answer, encrypted under the temporary key.\<close>

definition server_dh_params :: "bytes \<Rightarrow> bytes \<Rightarrow> bytes \<Rightarrow> bytes" where
  "server_dh_params nonce serverNonce answer = put32 ctorServerDHParamsOK @ nonce @ serverNonce @ tl_bytes answer"

lemma parseServerDHParams_honest:
  assumes C: "crypto_ok C" and len: "length nonce = 16" "length serverNonce = 16"
    "length prime < 16777216" "length gA < 16777216" "length answer < 16777216"
    and inner: "inner = server_dh_inner nonce serverNonce g prime gA time"
    and enc: "igeEncrypt C (sha1 C inner @ inner @ pad) key iv = Inr answer"
  shows "parseServerDHParams C (server_dh_params nonce serverNonce answer @ rest) nonce serverNonce key iv =
           Inr (unat g, bigFromBytes prime, bigFromBytes gA, time)"
proof -
  have al: "length (put32 ctorServerDHParamsOK @ nonce @ serverNonce) mod 4 = 0" using len by simp
  show ?thesis
    using len al ige_inverse [OF C enc] parseServerDHInner_honest [OF C len(1-4) inner]
    by (simp add: parseServerDHParams_def newCursor_cur cursor_expect_cur cursor_int128_cur cursor_bytes_cur
        server_dh_params_def)
qed

text \<open>\<open>dh_answer\<close>: the server's answer which carries the parameters: both nonces, the encrypted
  object, its hash, and the inner object.\<close>

definition dh_answer ::
  "crypto \<Rightarrow> bytes \<Rightarrow> bytes \<Rightarrow> bytes \<Rightarrow> bytes \<Rightarrow> bytes \<Rightarrow> nat \<Rightarrow> nat \<Rightarrow> nat \<Rightarrow> u32 \<Rightarrow> bool" where
  "dh_answer C nonce serverNonce key iv payload g prime gA time \<longleftrightarrow> (\<exists>answer enc tail inner padding.
     payload = put32 0xD0E8075C @ nonce @ serverNonce @ enc @ tail \<and> tl_field answer enc \<and>
     igeDecrypt C answer key iv = Inr (sha1 C inner @ inner @ padding) \<and>
     dh_inner nonce serverNonce inner g prime gA time)"

lemma parseServerDHParams_iff:
  assumes "crypto_ok C" "length nonce = 16" "length serverNonce = 16"
  shows "parseServerDHParams C payload nonce serverNonce key iv = Inr (g, prime, gA, time) \<longleftrightarrow>
     dh_answer C nonce serverNonce key iv payload g prime gA time" (is "?l \<longleftrightarrow> ?r")
proof
  assume ?r
  then obtain answer enc tail inner padding where a: "payload = put32 ctorServerDHParamsOK @ nonce @ serverNonce @ enc @ tail"
    "tl_field answer enc" "igeDecrypt C answer key iv = Inr (sha1 C inner @ inner @ padding)"
    "dh_inner nonce serverNonce inner g prime gA time"
    by (auto simp: dh_answer_def ctorServerDHParamsOK_def)
  have al: "length (put32 ctorServerDHParamsOK @ nonce @ serverNonce) mod 4 = 0" using assms by simp
  show ?l
    using assms al a(2,3) parseServerDHInner_accepts [OF assms a(4)]
    by (simp add: a(1) parseServerDHParams_def newCursor_cur cursor_expect_cur cursor_int128_cur cursor_bytes_any)
next
  assume ?l
  obtain n c1 where 1: "cursor_int128 (cursor_expect ctorServerDHParamsOK ''server_DH_params_ok'' (newCursor payload)) = (n, c1)"
    by fastforce
  obtain sn c2 where 2: "cursor_int128 c1 = (sn, c2)" by fastforce
  obtain answer c3 where 3: "cursor_bytes c2 = (answer, c3)" by fastforce
  have a: "n = nonce \<or> cerr c1 \<noteq> None" "sn = serverNonce \<or> cerr c2 \<noteq> None" "cerr c3 = None"
    "res_bind (igeDecrypt C answer key iv) (\<lambda>d. parseServerDHInner C d nonce serverNonce) = Inr (g, prime, gA, time)"
    using \<open>?l\<close> by (auto simp: parseServerDHParams_def 1 2 3 split: if_splits option.splits)
  have e2: "cerr c2 = None" using a(3) 3 cursor_bytes_ok [of c2] by simp
  then have e1: "cerr c1 = None" using 2 cursor_int128_ok [of c1] by simp
  from read_head_inv [OF 1 2 e2] a(1,2) e1 e2
  obtain ys where y: "payload = put32 ctorServerDHParamsOK @ nonce @ serverNonce @ ys"
    "c2 = cur (put32 ctorServerDHParamsOK @ nonce @ serverNonce) ys" by auto
  have al: "length (put32 ctorServerDHParamsOK @ nonce @ serverNonce) mod 4 = 0" using assms by simp
  obtain enc tail where f: "ys = enc @ tail" "tl_field answer enc"
    using cursor_bytes_field [OF 3 [unfolded y(2)] a(3) al] by blast
  from a(4) obtain d where "igeDecrypt C answer key iv = Inr d"
    "parseServerDHInner C d nonce serverNonce = Inr (g, prime, gA, time)" by (auto simp: res_bind_eq_Inr)
  with parseServerDHInner_sound [OF this(2)] y(1) f show ?r
    by (auto simp: dh_answer_def ctorServerDHParamsOK_def)
qed

section \<open>The client's half\<close>

lemma dhTempKeys_length:
  assumes "crypto_ok C" "4 \<le> length newNonce"
  shows "length (fst (dhTempKeys C newNonce serverNonce)) = 32" "length (snd (dhTempKeys C newNonce serverNonce)) = 32"
  using assms by (simp_all add: dhTempKeys_def Let_def crypto_okD)

lemma encryptDHInner_recovered:
  assumes C: "crypto_ok C" and r: "encryptDHInner C data key iv w = (Inr out, w')"
  shows "\<exists>pad. length pad < 16 \<and> igeDecrypt C out key iv = Inr (sha1 C data @ data @ pad)"
proof -
  let ?p = "sha1 C data @ data"
  show ?thesis
  proof (cases "(16 - length ?p mod 16) mod 16 > 0")
    case True
    with r obtain filler w1 where "randomBytes ((16 - length ?p mod 16) mod 16) w = (Inr filler, w1)"
      "igeEncrypt C (?p @ filler) key iv = Inr out"
      by (auto simp: encryptDHInner_def Let_def io_bind_eq_Inr)
    then show ?thesis using ige_inverse [OF C, of "?p @ filler"] randomBytes_length
      by (intro exI [of _ filler]) fastforce
  next
    case False
    with r have "igeEncrypt C ?p key iv = Inr out" by (auto simp: encryptDHInner_def Let_def)
    then show ?thesis using ige_inverse [OF C] by (intro exI [of _ "[]"]) simp
  qed
qed

text \<open>Both sides compute the same secret.\<close>

lemma modexp_agree: "modexp (modexp g b p) a p = modexp (modexp g a p) b p"
  by (simp add: modexp_def power_mod power_mult [symmetric] mult.commute)

section \<open>The prime cache\<close>

definition safe_prime_test :: "(nat \<Rightarrow> bool) \<Rightarrow> nat \<Rightarrow> bool" where
  "safe_prime_test pp p \<longleftrightarrow> pp p \<and> pp ((p - 1) div 2)"

definition prime_cache_ok :: "crypto \<Rightarrow> (nat \<Rightarrow> bool) \<Rightarrow> 'z env_scheme \<Rightarrow> bool" where
  "prime_cache_ok C pp w \<longleftrightarrow> (\<forall>fp \<in> set (primeCache w). \<exists>p. fp = sha256 C (big_bytes p) \<and> safe_prime_test pp p)"

lemma checkDHParams_cases:
  "checkDHParams C pp g p gA w = (Inr (), w') \<longleftrightarrow>
     2 \<le> g \<and> g \<le> 7 \<and> bit_len p = 2048 \<and> 1 < gA \<and> gA < p - 1 \<and>
     (sha256 C (big_bytes p) \<in> set (primeCache w) \<and> w' = w \<or>
      sha256 C (big_bytes p) \<notin> set (primeCache w) \<and> safe_prime_test pp p \<and>
      w' = w\<lparr>primeCache := sha256 C (big_bytes p) # primeCache w\<rparr>)"
  by (auto simp: checkDHParams_def Let_def safe_prime_test_def)

lemma checkDHParams_error_keeps: "checkDHParams C pp g p gA w = (Inl e, w') \<Longrightarrow> w' = w"
  by (auto simp: checkDHParams_def Let_def split: if_splits)

lemma checkDHParams_cache_ok:
  assumes "prime_cache_ok C pp w" and "checkDHParams C pp g p gA w = (r, w')"
  shows "prime_cache_ok C pp w'"
proof (cases r)
  case (Inl e)
  with assms checkDHParams_error_keeps show ?thesis by blast
next
  case (Inr u)
  with assms show ?thesis
    by (auto simp: checkDHParams_cases prime_cache_ok_def)
qed

lemma checkDHParams_safe:
  assumes "prime_cache_ok C pp w" and "checkDHParams C pp g p gA w = (Inr (), w')"
  shows "\<exists>q. sha256 C (big_bytes q) = sha256 C (big_bytes p) \<and> safe_prime_test pp q"
  using assms by (fastforce simp: checkDHParams_cases prime_cache_ok_def)


section \<open>What a completed exchange guarantees\<close>

lemma randomBigInt_keeps [keeps_intros]: "io_keeps primeCache (randomBigInt n)"
  unfolding randomBigInt_def by (intro keeps_intros)

lemma encryptDHInner_keeps [keeps_intros]: "io_keeps primeCache (encryptDHInner C d k i)"
  unfolding encryptDHInner_def Let_def by (intro keeps_intros)

lemma rsaPad_rounds_keeps [keeps_intros]: "io_keeps primeCache (rsaPad_rounds k C dp dr key)"
proof (induction k)
  case 0
  show ?case unfolding rsaPad_rounds.simps by (rule keeps_intros)
next
  case (Suc k)
  then show ?case unfolding rsaPad_rounds.simps Let_def by (intro keeps_intros)
qed

lemma rsaPad_keeps [keeps_intros]: "io_keeps primeCache (rsaPad C d key)"
  unfolding rsaPad_def Let_def by (intro keeps_intros)

lemma request_dh_keeps [keeps_intros]: "io_keeps primeCache (request_dh C dc)"
  unfolding request_dh_def by (intro keeps_intros)

lemma padTo_modexp_2048: "bit_len p = 2048 \<Longrightarrow> padTo (modexp v e p) 256 = Inr (be_bytes 256 (modexp v e p))"
proof -
  assume b: "bit_len p = 2048"
  have lt: "p < 2 ^ 2048" by (rule bit_len_lt [OF b])
  have "0 < p" using b bit_len.simps [of 0] by (cases "p = 0") simp_all
  then have "modexp v e p < 2 ^ 2048" using lt unfolding modexp_def by (meson less_trans mod_less_divisor)
  moreover have "(256::nat) ^ 256 = 2 ^ 2048" using power_mult [of 2 8 256] by simp
  ultimately show ?thesis unfolding padTo_def by presburger
qed

lemma checkDHParams_inv: "io_inv (prime_cache_ok C pp) (checkDHParams C pp g p gA)"
  unfolding io_inv_def using checkDHParams_cache_ok by (metis prod.collapse)

lemma cache_ok_inv: "io_keeps primeCache m \<Longrightarrow> io_inv (prime_cache_ok C pp) m"
  by (rule io_inv_keeps [of primeCache]) (auto simp: prime_cache_ok_def)

lemma createAuthKey_cache_ok:
  assumes "prime_cache_ok C pp w" and "createAuthKey C pp dc w = (r, w')"
  shows "prime_cache_ok C pp w'"
proof -
  have "io_inv (prime_cache_ok C pp) (finish_dh C pp nonce serverNonce newNonce
      :: (('c stream, 'd) world_scheme, authKey) io)" for nonce serverNonce newNonce
    unfolding finish_dh_def Let_def
    by (intro io_inv_bind io_inv_seq io_inv_prod checkDHParams_inv cache_ok_inv [OF io_keeps_map_err]
        cache_ok_inv [OF recvUnencrypted_keeps] cache_ok_inv [OF sendUnencrypted_keeps] recvUnencrypted_keeps
        cache_ok_inv [OF randomBigInt_keeps] cache_ok_inv [OF encryptDHInner_keeps]
        cache_ok_inv [OF time_now_keeps(1)] cache_ok_inv [OF io_keeps_basic(1)] cache_ok_inv [OF io_keeps_basic(3)])
  then have "io_inv (prime_cache_ok C pp) (createAuthKey C pp dc :: (('c stream, 'd) world_scheme, authKey) io)"
    unfolding createAuthKey_def by (intro io_inv_bind io_inv_prod cache_ok_inv [OF request_dh_keeps])
  from io_invD [OF this] assms show ?thesis by blast
qed

section \<open>Against an honest server the exchange completes\<close>

lemma pad16: "((16 - n mod 16) mod 16 :: nat) \<le> 15" "(n + (16 - n mod 16) mod 16) mod 16 = (0 :: nat)"
proof -
  show "((16 - n mod 16) mod 16 :: nat) \<le> 15" by simp
  have "n mod 16 < 16" by simp
  then have "(n mod 16 + (16 - n mod 16) mod 16) mod 16 = 0" by (cases "n mod 16 = 0") simp_all
  then show "(n + (16 - n mod 16) mod 16) mod 16 = 0" by (simp only: mod_add_left_eq)
qed

lemma encryptDHInner_ok:
  assumes C: "crypto_ok C" and "length key = 32" "length iv = 32" "15 \<le> length (entropy w)"
  shows "\<exists>out n. n \<le> 15 \<and> encryptDHInner C data key iv w = (Inr out, w\<lparr>entropy := drop n (entropy w)\<rparr>)"
proof -
  let ?p = "sha1 C data @ data"
  let ?n = "(16 - length ?p mod 16) mod 16"
  have e: "\<exists>out. igeEncrypt C (?p @ f) key iv = Inr out" if "length f = ?n" for f
    using assms(2,3) pad16(2) [of "length ?p"] that by (simp add: add.assoc igeEncrypt_def ige_checks_def aes_key_ok_def)
  show ?thesis
  proof (cases "?n > 0")
    case True
    have le: "?n \<le> length (entropy w)" using pad16(1) [of "length ?p"] assms(4) by linarith
    then have r: "randomBytes ?n w = (Inr (take ?n (entropy w)), w\<lparr>entropy := drop ?n (entropy w)\<rparr>)" by (rule randomBytes_ok)
    obtain out where "igeEncrypt C (?p @ take ?n (entropy w)) key iv = Inr out" using e le by fastforce
    with True r show ?thesis
      by (intro exI [of _ out] exI [of _ ?n] conjI pad16(1)) (simp add: encryptDHInner_def Let_def io_bind_Inr)
  next
    case False
    then obtain out where "igeEncrypt C ?p key iv = Inr out" using e [of "[]"] by auto
    with False show ?thesis
      by (intro exI [of _ out] exI [of _ 0]) (simp add: encryptDHInner_def Let_def)
  qed
qed

lemma length_tl_bytes_le: "length (tl_bytes p) \<le> length p + 7"
  by (auto simp: tl_bytes_def buf_bytes_eq tl_head_def pad4_def)

lemma length_tl_256: "length p = 256 \<Longrightarrow> length (tl_bytes p) = 260"
  by (simp add: tl_bytes_def buf_bytes_eq tl_head_def pad4_def)

text \<open>The temporary key and vector of the exchange and the hash that confirms its key, as the
  protocol's documentation gives them.\<close>

definition temp_key :: "crypto \<Rightarrow> bytes \<Rightarrow> bytes \<Rightarrow> bytes" where
  "temp_key C newNonce serverNonce = sha1 C (newNonce @ serverNonce) @ take 12 (sha1 C (serverNonce @ newNonce))"

definition temp_iv :: "crypto \<Rightarrow> bytes \<Rightarrow> bytes \<Rightarrow> bytes" where
  "temp_iv C newNonce serverNonce =
     drop 12 (sha1 C (serverNonce @ newNonce)) @ sha1 C (newNonce @ newNonce) @ take 4 newNonce"

definition key_hash :: "crypto \<Rightarrow> bytes \<Rightarrow> bytes \<Rightarrow> bytes" where
  "key_hash C newNonce key = drop 4 (sha1 C (newNonce @ [1] @ take 8 (sha1 C key)))"

lemma dhTempKeys_temp: "crypto_ok C \<Longrightarrow> dhTempKeys C newNonce serverNonce = (temp_key C newNonce serverNonce, temp_iv C newNonce serverNonce)"
  by (simp add: dhTempKeys_def temp_key_def temp_iv_def Prelude.slice_def Let_def crypto_okD)

lemma newNonceHash1_key_hash: "crypto_ok C \<Longrightarrow> newNonceHash1 C newNonce key = key_hash C newNonce key"
  by (simp add: newNonceHash1_def key_hash_def Prelude.slice_def Let_def crypto_okD)

text \<open>\<open>honest_dh\<close>: the two messages of an honest server with the exponent \<open>a\<close>, when the client's
  exponent is \<open>b\<close>.  The server computes the key from \<open>g\<^sup>b\<close>.\<close>

definition honest_dh ::
  "crypto \<Rightarrow> bytes \<Rightarrow> bytes \<Rightarrow> bytes \<Rightarrow> u32 \<Rightarrow> nat \<Rightarrow> nat \<Rightarrow> u32 \<Rightarrow> nat \<Rightarrow> bytes \<Rightarrow> bytes \<Rightarrow> bool" where
  "honest_dh C nonce serverNonce newNonce g p a time b params genok \<longleftrightarrow>
     (\<exists>pad answer. let inner = server_dh_inner nonce serverNonce g (be_bytes 256 p) (be_bytes 256 (modexp (unat g) a p)) time
      in igeEncrypt C (sha1 C inner @ inner @ pad) (temp_key C newNonce serverNonce) (temp_iv C newNonce serverNonce) = Inr answer \<and>
         length pad < 16 \<and> params = server_dh_params nonce serverNonce answer \<and>
         genok = put32 0x3BCBF734 @ nonce @ serverNonce
           @ key_hash C newNonce (be_bytes 256 (modexp (modexp (unat g) b p) a p)))"

lemma honest_dh_answers:
  assumes "crypto_ok C" and "dhTempKeys C newNonce serverNonce = (key, iv)"
    and "honest_dh C nonce serverNonce newNonce g p a time b params genok"
  obtains pad answer where
    "igeEncrypt C (sha1 C (server_dh_inner nonce serverNonce g (be_bytes 256 p) (be_bytes 256 (modexp (unat g) a p)) time)
        @ server_dh_inner nonce serverNonce g (be_bytes 256 p) (be_bytes 256 (modexp (unat g) a p)) time @ pad) key iv = Inr answer"
    "length pad < 16" "params = server_dh_params nonce serverNonce answer"
    "genok = dh_gen_ok_body C nonce serverNonce newNonce (be_bytes 256 (modexp (modexp (unat g) b p) a p))"
  using assms(2,3)
  by (auto simp: honest_dh_def Let_def dhTempKeys_temp [OF assms(1)] dh_gen_ok_body_def ctorDHGenOK_def newNonceHash1_key_hash [OF assms(1)])

context duplex
begin

lemma finish_dh_complete:
  assumes C: "crypto_ok C" and len: "length nonce = 16" "length serverNonce = 16" "length newNonce = 32"
    and w: "fits w" "view w = (encodeIntermediate (unencrypted_message i1 params) @ encodeIntermediate (unencrypted_message i2 genok) @ rest,
       Suc k, ent, pc)" "271 \<le> length ent"
    and b: "b = be_nat (take 256 ent)"
    and h: "honest_dh C nonce serverNonce newNonce g p a time b params genok" and gA: "gA = modexp (unat g) a p"
    and c: "2 \<le> unat g" "unat g \<le> 7" "bit_len p = 2048" "1 < gA" "gA < p - 1"
    and prime: "safe_prime_test pp p"
  shows "\<exists>ak w'. finish_dh C pp nonce serverNonce newNonce w = (Inr ak, w') \<and>
     ak_key ak = be_bytes 256 (modexp gA b p) \<and> view w' = (rest, k, entropy w', primeCache w')"
proof -
  obtain key iv where ti: "dhTempKeys C newNonce serverNonce = (key, iv)" by fastforce
  have lk: "length key = 32" "length iv = 32" using dhTempKeys_length [OF C, of newNonce serverNonce] len(3) ti by simp_all
  define inner where "inner = server_dh_inner nonce serverNonce g (be_bytes 256 p) (be_bytes 256 gA) time"
  obtain pad answer where a: "igeEncrypt C (sha1 C inner @ inner @ pad) key iv = Inr answer" "length pad < 16"
    "params = server_dh_params nonce serverNonce answer"
    "genok = dh_gen_ok_body C nonce serverNonce newNonce (be_bytes 256 (modexp gA b p))"
    by (rule honest_dh_answers [OF C ti h]) (simp_all only: inner_def gA modexp_agree [of "unat g" a p b])
  have p: "0 < p" "p < 2 ^ 2048" using c(5) bit_len_lt [OF c(3)] by simp_all
  have pw: "(256::nat) ^ 256 = 2 ^ (8 * 256)" by (simp only: power_mult) simp
  have pb: "bigFromBytes (be_bytes 256 p) = p" "bigFromBytes (be_bytes 256 gA) = gA"
    using p(2) c(5) pw by (simp_all only: bigFromBytes_def be_nat_be_bytes) simp_all
  have li: "length inner = 564" using len(1,2) by (simp add: inner_def server_dh_inner_def length_tl_256)
  have la: "length answer \<le> 599" using igeEncrypt_length [OF C a(1)] a(2) li crypto_okD [OF C] by simp
  have lp: "4 \<le> length params" "length params + 20 \<le> maxPacketLen"
    using la len(1,2) length_tl_bytes_le [of answer] by (simp_all add: a(3) server_dh_params_def maxPacketLen_def)
  let ?rest2 = "encodeIntermediate (unencrypted_message i2 genok) @ rest"
  obtain w1 where 1: "recvUnencrypted w = (Inr params, w1)" "fits w1" "view w1 = (?rest2, Suc k, ent, pc)"
    using recvUnencrypted_ok [OF w(1,2) lp] by blast
  have 2: "parseServerDHParams C params nonce serverNonce key iv = Inr (unat g, p, gA, time)"
    using parseServerDHParams_honest [OF C len(1,2) _ _ _ inner_def a(1), of "[]"] la by (simp add: a(3) pb)
  obtain w2 where 3: "checkDHParams C pp (unat g) p gA w1 = (Inr (), w2)" "fits w2" "\<exists>pc'. view w2 = (?rest2, Suc k, ent, pc')"
  proof (cases "sha256 C (big_bytes p) \<in> set (primeCache w1)")
    case True
    with c 1 that [of w1] show ?thesis by (simp add: checkDHParams_cases)
  next
    case False
    with c prime 1 that [of "w1\<lparr>primeCache := sha256 C (big_bytes p) # primeCache w1\<rparr>"] show ?thesis
      by (simp add: checkDHParams_cases fits_def view_def)
  qed
  then obtain pc' where v2: "view w2 = (?rest2, Suc k, ent, pc')" by blast
  define w3 where "w3 = w2\<lparr>entropy := drop 256 ent\<rparr>"
  have e2: "entropy w2 = ent" using v2 by (simp add: view_def)
  have "randomBigInt 2048 w2 = (Inr (be_nat (take 256 (entropy w2))), w2\<lparr>entropy := drop 256 (entropy w2)\<rparr>)"
    using rand_int_pow256 [of 256 w2] w(3) e2 by (simp only: randomBigInt_def) simp
  then have 4: "randomBigInt 2048 w2 = (Inr b, w3)" by (simp add: e2 b w3_def)
  have v3: "fits w3" "view w3 = (?rest2, Suc k, drop 256 ent, pc')" using 3(2) v2 by (simp_all add: w3_def fits_def view_def)
  let ?gB = "be_bytes 256 (modexp (unat g) b p)"
  obtain out n where 6: "encryptDHInner C (clientDHInner nonce serverNonce ?gB) key iv w3 = (Inr out, w3\<lparr>entropy := drop n (entropy w3)\<rparr>)"
  proof -
    have "15 \<le> length (entropy w3)" using w(3) by (simp add: w3_def)
    from encryptDHInner_ok [OF C lk this] that show ?thesis by blast
  qed
  define w4 where "w4 = w3\<lparr>entropy := drop n (entropy w3)\<rparr>"
  have v4: "fits w4" "view w4 = (?rest2, Suc k, entropy w4, pc')" using v3 by (simp_all add: w4_def fits_def view_def)
  obtain w5 where 7: "sendUnencrypted (setClientDHParamsBody nonce serverNonce out) w4 = (Inr (), w5)" "fits w5"
    "view w5 = (?rest2, k, entropy w4, pc')"
    using sendUnencrypted_ok [OF v4] by blast
  have lg: "4 \<le> length genok" "length genok + 20 \<le> maxPacketLen"
    using len(1,2) newNonceHash1_length [OF C] by (simp_all add: a(4) dh_gen_ok_body_def maxPacketLen_def)
  obtain w6 where 8: "recvUnencrypted w5 = (Inr genok, w6)" "view w6 = (rest, k, entropy w4, pc')"
    using recvUnencrypted_ok [OF 7(2,3) lg] by blast
  have 9: "verifyDHGen C genok nonce serverNonce newNonce (be_bytes 256 (modexp gA b p)) = Inr ()"
    unfolding verifyDHGen_iff [OF C len(1,2)] a(4) by (intro exI [of _ "[]"]) simp
  obtain now w7 where 10: "time_now w6 = (Inr now, w7)" "chan w7 = chan w6" "entropy w7 = entropy w6" "primeCache w7 = primeCache w6"
    using time_now_view by blast
  let ?shared = "be_bytes 256 (modexp gA b p)"
  let ?ak = "\<lparr>ak_key = ?shared, ak_keyID = Prelude.slice 12 20 (sha1 C ?shared),
      ak_salt = xor_bytes (take 8 newNonce) (take 8 serverNonce), ak_timeOffset = int (unat time) - now div 1000000000\<rparr>"
  note pad = padTo_modexp_2048 [OF c(3)]
  have b1: "io_bind (io_map_err f recvUnencrypted) h w = h params w1" for f h by (rule io_bind_Inr) (simp add: 1(1))
  have b8: "io_bind (io_map_err f recvUnencrypted) h w5 = h genok w6" for f h by (rule io_bind_Inr) (simp add: 8(1))
  have b3: "io_bind (checkDHParams C pp (unat g) p gA) h w1 = h () w2" for h by (rule io_bind_Inr) (rule 3(1))
  have b4: "io_bind (randomBigInt 2048) h w2 = h b w3" for h by (rule io_bind_Inr) (rule 4)
  have b6: "io_bind (encryptDHInner C (clientDHInner nonce serverNonce ?gB) key iv) h w3 = h out w4" for h
    by (rule io_bind_Inr) (simp only: 6 w4_def)
  have b7: "io_bind (sendUnencrypted (setClientDHParamsBody nonce serverNonce out)) h w4 = h () w5" for h
    by (rule io_bind_Inr) (rule 7(1))
  have b10: "io_bind time_now h w6 = h now w7" for h by (rule io_bind_Inr) (rule 10(1))
  have l: "io_bind (io_lift (Inr x)) h v = h x v" for x h v by (simp add: io_bind_Inr)
  have "finish_dh C pp nonce serverNonce newNonce w = (Inr ?ak, w7)"
    unfolding finish_dh_def by (simp only: b1 ti Let_def prod.case l 2 io_seq_def b3 b4 pad b6 b7 b8 9 b10 io_return_app)
  moreover have "view w7 = (rest, k, entropy w7, primeCache w7)" using 8(2) 10 by (simp add: view_def)
  ultimately show ?thesis by (intro exI [of _ ?ak] exI [of _ w7]) simp
qed

end

lemma mod4_app: "length xs mod 4 = 0 \<Longrightarrow> length ys mod 4 = 0 \<Longrightarrow> length (xs @ ys) mod 4 = 0"
  by (simp add: mod_add_eq [symmetric])

lemma length_concat_put64: "length (concat (map put64 vs)) = 8 * length vs"
  by (induction vs) simp_all

lemma length_tl_short: "length p \<le> 8 \<Longrightarrow> length (tl_bytes p) \<le> 12"
  by (auto simp: tl_bytes_def buf_bytes_eq tl_head_def pad4_def)

lemma pqInnerData_length:
  assumes "length nonce = 16" "length serverNonce = 16" "length newNonce = 32"
  shows "length (pqInnerData pq p q nonce serverNonce newNonce dc) \<le> 108"
proof -
  let ?a = "put32 ctorPQInnerDataDC"
  have l: "length (tl_bytes (bigEndian v)) \<le> 12" for v by (intro length_tl_short bigEndian_length)
  have a1: "length (?a @ tl_bytes (bigEndian pq)) mod 4 = 0" by (intro mod4_app) (simp_all add: tl_bytes_aligned)
  have a2: "length ((?a @ tl_bytes (bigEndian pq)) @ tl_bytes (bigEndian p)) mod 4 = 0"
    by (rule mod4_app [OF a1 tl_bytes_aligned])
  have "pqInnerData pq p q nonce serverNonce newNonce dc =
     ?a @ tl_bytes (bigEndian pq) @ tl_bytes (bigEndian p) @ tl_bytes (bigEndian q) @ nonce @ serverNonce @ newNonce @ put32 (word_of_int dc)"
    unfolding pqInnerData_def buf_uint32_def buf_raw_def
    using buf_bytes_append [of ?a "bigEndian pq"] buf_bytes_append [OF a1, of "bigEndian p"] buf_bytes_append [OF a2, of "bigEndian q"]
    by simp
  then show ?thesis using assms l [of pq] l [of p] l [of q] by simp
qed

text \<open>\<open>honest_pq\<close>: the server's resPQ, and the randomness the client uses to answer it.\<close>

definition honest_pq ::
  "crypto \<Rightarrow> int \<Rightarrow> bytes \<Rightarrow> bytes \<Rightarrow> bytes \<Rightarrow> bytes \<Rightarrow> bytes \<Rightarrow> bytes \<Rightarrow> u64 list \<Rightarrow> bool" where
  "honest_pq C dc nonce serverNonce newNonce padding tempKey pqBytes fps \<longleftrightarrow>
     length nonce = 16 \<and> length serverNonce = 16 \<and> length newNonce = 32 \<and> length tempKey = 32 \<and>
     0 < length pqBytes \<and> length pqBytes \<le> 8 \<and> length fps \<le> 64 \<and>
     (\<exists>p q key. factorize (word_of_nat (bigFromBytes pqBytes)) = Inr (p, q) \<and> selectKey C fps = Inr key \<and>
        (let data = pqInnerData (word_of_nat (bigFromBytes pqBytes)) p q nonce serverNonce newNonce dc
         in length padding = 192 - length data \<and> rsa_value C tempKey (data @ padding) < pk_N key))"

lemma selectKey_modulus: "selectKey C fps = Inr key \<Longrightarrow> 0 < pk_N key \<and> pk_N key \<le> 256 ^ 256"
proof -
  assume "selectKey C fps = Inr key"
  then have "key \<in> set (telegramKeys C)" by (auto simp: selectKey_def split: option.splits dest: select_from_Some)
  then show ?thesis by (auto simp: telegramKeys_def telegramModuli_def)
qed

context duplex
begin

lemma request_dh_complete:
  assumes C: "crypto_ok C" and h: "honest_pq C dc nonce serverNonce newNonce padding tempKey pqBytes fps"
    and w: "fits w" "view w = (encodeIntermediate (unencrypted_message i (resPQ_body nonce serverNonce pqBytes fps)) @ rest,
       Suc (Suc k), nonce @ newNonce @ padding @ tempKey @ ent, pc)"
  shows "\<exists>w'. request_dh C dc w = (Inr (nonce, serverNonce, newNonce), w') \<and> fits w' \<and> view w' = (rest, k, ent, pc)"
proof -
  let ?res = "resPQ_body nonce serverNonce pqBytes fps"
  let ?pq = "word_of_nat (bigFromBytes pqBytes) :: u64"
  from h obtain p q key where f: "factorize ?pq = Inr (p, q)" "selectKey C fps = Inr key"
    and pd: "length padding = 192 - length (pqInnerData ?pq p q nonce serverNonce newNonce dc)"
      "rsa_value C tempKey (pqInnerData ?pq p q nonce serverNonce newNonce dc @ padding) < pk_N key"
    and len: "length nonce = 16" "length serverNonce = 16" "length newNonce = 32" "length tempKey = 32"
      "0 < length pqBytes" "length pqBytes \<le> 8" "length fps \<le> 64"
    by (auto simp: honest_pq_def Let_def)
  define w1 where "w1 = w\<lparr>entropy := newNonce @ padding @ tempKey @ ent\<rparr>"
  have 1: "randomBytes 16 w = (Inr nonce, w1)" using w(2) len(1) by (simp add: randomBytes_def view_def w1_def)
  have v1: "fits w1" "view w1 = (encodeIntermediate (unencrypted_message i ?res) @ rest, Suc (Suc k), newNonce @ padding @ tempKey @ ent, pc)"
    using w by (simp_all add: w1_def fits_def view_def)
  obtain w2 where 2: "sendUnencrypted (reqPQMultiBody nonce) w1 = (Inr (), w2)" "fits w2"
    "view w2 = (encodeIntermediate (unencrypted_message i ?res) @ rest, Suc k, newNonce @ padding @ tempKey @ ent, pc)"
    using sendUnencrypted_ok [OF v1] by blast
  have lr: "4 \<le> length ?res" "length ?res + 20 \<le> maxPacketLen"
    using len length_tl_short [OF len(6)]
    by (simp_all add: resPQ_body_def maxPacketLen_def length_concat_put64)
  obtain w3 where 3: "recvUnencrypted w2 = (Inr ?res, w3)" "fits w3" "view w3 = (rest, Suc k, newNonce @ padding @ tempKey @ ent, pc)"
    using recvUnencrypted_ok [OF 2(2,3) lr] by blast
  have 4: "parseResPQ ?res nonce = Inr (?pq, serverNonce, fps)"
    using parseResPQ_honest [OF len(1,2,5,6,7), of "[]"] by simp
  define w4 where "w4 = w3\<lparr>entropy := padding @ tempKey @ ent\<rparr>"
  have 5: "randomBytes 32 w3 = (Inr newNonce, w4)" using 3(3) len(3) by (simp add: randomBytes_def view_def w4_def)
  let ?data = "pqInnerData ?pq p q nonce serverNonce newNonce dc"
  have ld: "length ?data \<le> 144" using pqInnerData_length [OF len(1-3), of ?pq p q dc] by simp
  obtain enc where 6: "rsaPad C ?data key w4 = (Inr enc, w4\<lparr>entropy := ent\<rparr>)"
    using rsaPad_first_round [OF C ld _ pd(1) len(4) pd(2) conjunct2 [OF selectKey_modulus [OF f(2)]], of w4 ent] by (auto simp: w4_def)
  define w5 where "w5 = w4\<lparr>entropy := ent\<rparr>"
  have v5: "fits w5" "view w5 = (rest, Suc k, ent, pc)" using 3(2,3) by (simp_all add: w5_def w4_def fits_def view_def)
  obtain w6 where 7: "sendUnencrypted (reqDHParamsBody nonce serverNonce p q (pk_fingerprint key) enc) w5 = (Inr (), w6)"
    "fits w6" "view w6 = (rest, k, ent, pc)"
    using sendUnencrypted_ok [OF v5] by blast
  have b1: "io_bind (randomBytes 16) g w = g nonce w1" for g by (rule io_bind_Inr) (rule 1)
  have b2: "io_bind (sendUnencrypted (reqPQMultiBody nonce)) g w1 = g () w2" for g by (rule io_bind_Inr) (rule 2(1))
  have b3: "io_bind (io_map_err e recvUnencrypted) g w2 = g ?res w3" for e g by (rule io_bind_Inr) (simp add: 3(1))
  have b5: "io_bind (randomBytes 32) g w3 = g newNonce w4" for g by (rule io_bind_Inr) (rule 5)
  have b6: "io_bind (rsaPad C ?data key) g w4 = g enc w5" for g by (rule io_bind_Inr) (simp only: 6 w5_def)
  have b7: "io_bind (sendUnencrypted (reqDHParamsBody nonce serverNonce p q (pk_fingerprint key) enc)) g w5 = g () w6" for g
    by (rule io_bind_Inr) (rule 7(1))
  have l: "io_bind (io_lift (Inr x)) g v = g x v" for x g v by (simp add: io_bind_Inr)
  have "request_dh C dc w = (Inr (nonce, serverNonce, newNonce), w6)"
    unfolding request_dh_def io_seq_def by (simp only: b1 b2 b3 4 l prod.case f b5 b6 b7 io_return_app)
  with 7 show ?thesis by blast
qed

text \<open>The whole exchange: both sides end with the same key.\<close>

lemma createAuthKey_complete:
  assumes C: "crypto_ok C" and h: "honest_pq C dc nonce serverNonce newNonce padding tempKey pqBytes fps"
    and w: "fits w" "view w = (encodeIntermediate (unencrypted_message i0 (resPQ_body nonce serverNonce pqBytes fps))
         @ encodeIntermediate (unencrypted_message i1 params) @ encodeIntermediate (unencrypted_message i2 genok) @ rest,
       Suc (Suc (Suc k)), nonce @ newNonce @ padding @ tempKey @ ent, pc)" "271 \<le> length ent"
    and d: "honest_dh C nonce serverNonce newNonce g p a time (be_nat (take 256 ent)) params genok" and gA: "gA = modexp (unat g) a p"
    and c: "2 \<le> unat g" "unat g \<le> 7" "bit_len p = 2048" "1 < gA" "gA < p - 1" "safe_prime_test pp p"
  shows "\<exists>ak w'. createAuthKey C pp dc w = (Inr ak, w') \<and> view w' = (rest, k, entropy w', primeCache w') \<and>
     ak_key ak = be_bytes 256 (modexp gA (be_nat (take 256 ent)) p)"
proof -
  obtain w1 where 1: "request_dh C dc w = (Inr (nonce, serverNonce, newNonce), w1)" "fits w1"
    "view w1 = (encodeIntermediate (unencrypted_message i1 params) @ encodeIntermediate (unencrypted_message i2 genok) @ rest,
       Suc k, ent, pc)"
    using request_dh_complete [OF C h w(1,2)] by blast
  have len: "length nonce = 16" "length serverNonce = 16" "length newNonce = 32" using h by (simp_all add: honest_pq_def)
  from finish_dh_complete [OF C len 1(2,3) w(3) refl d gA c] 1(1) show ?thesis
    by (auto simp: createAuthKey_def io_bind_Inr)
qed

end

end
