(* ===== verification/Exchange.thy ===== *)
theory Exchange
  imports Auth
begin

text \<open>
  What a key exchange that succeeds has read, written and drawn: the trace of a run of
  \<open>createAuthKey\<close> (\<open>internal/mtproto/auth.go\<close>), proved once for every duplex link and
  transport.  The messages are given by their layout, byte by byte, so that the lemmas tie what
  the client concludes to what arrived and what it sent to what a server can read.
\<close>

section \<open>Unencrypted messages on the wire\<close>

text \<open>\<open>heard tr wire body\<close>: \<open>wire\<close> is a frame with an unencrypted message, whose body is
  \<open>body\<close>.\<close>

definition heard :: "transport \<Rightarrow> bytes \<Rightarrow> bytes \<Rightarrow> bool" where
  "heard tr wire body \<longleftrightarrow> (\<exists>mid tail. length mid = 8 \<and> 4 \<le> length body \<and> length body < 4294967296 \<and>
     accepts tr wire (replicate 8 0 @ mid @ put32 (word_of_nat (length body)) @ body @ tail))"

definition said :: "transport \<Rightarrow> bytes \<Rightarrow> bytes \<Rightarrow> bool" where
  "said tr body wire \<longleftrightarrow> (\<exists>mid. length mid = 8 \<and>
     emits tr (replicate 8 0 @ mid @ put32 (word_of_nat (length body)) @ body) wire)"

lemma said_nonempty: "said tr body wire \<Longrightarrow> wire \<noteq> []"
  using emits_nonempty by (auto simp: said_def)

section \<open>The layout of the client's messages\<close>

lemma reqPQMultiBody_layout: "reqPQMultiBody nonce = put32 0xBE7E8EF1 @ nonce"
  by (simp add: reqPQMultiBody_def buf_raw_def buf_uint32_def ctorReqPQMulti_def)

lemma pqInnerData_layout:
  "pqInnerData pq p q nonce serverNonce newNonce dc =
     put32 0xA9F55F95 @ tl_bytes (bigEndian pq) @ tl_bytes (bigEndian p) @ tl_bytes (bigEndian q)
       @ nonce @ serverNonce @ newNonce @ put32 (word_of_int dc)"
proof -
  let ?a = "put32 ctorPQInnerDataDC"
  have a1: "length (?a @ tl_bytes (bigEndian pq)) mod 4 = 0" by (intro mod4_app) (simp_all add: tl_bytes_aligned)
  have a2: "length ((?a @ tl_bytes (bigEndian pq)) @ tl_bytes (bigEndian p)) mod 4 = 0"
    by (rule mod4_app [OF a1 tl_bytes_aligned])
  show ?thesis
    unfolding pqInnerData_def buf_uint32_def buf_raw_def
    using buf_bytes_append [of ?a "bigEndian pq"] buf_bytes_append [OF a1, of "bigEndian p"] buf_bytes_append [OF a2, of "bigEndian q"]
    by (simp add: ctorPQInnerDataDC_def)
qed

lemma reqDHParamsBody_layout:
  assumes "length nonce = 16" "length serverNonce = 16"
  shows "reqDHParamsBody nonce serverNonce p q fingerprint encrypted =
     put32 0xD712E4BE @ nonce @ serverNonce @ tl_bytes (bigEndian p) @ tl_bytes (bigEndian q) @ put64 fingerprint @ tl_bytes encrypted"
proof -
  let ?a = "(put32 ctorReqDHParams @ nonce) @ serverNonce"
  have a1: "length ?a mod 4 = 0" using assms by simp
  have a2: "length (?a @ tl_bytes (bigEndian p)) mod 4 = 0" by (rule mod4_app [OF a1 tl_bytes_aligned])
  have a3: "length ((?a @ tl_bytes (bigEndian p)) @ tl_bytes (bigEndian q)) mod 4 = 0" by (rule mod4_app [OF a2 tl_bytes_aligned])
  have a4: "length (((?a @ tl_bytes (bigEndian p)) @ tl_bytes (bigEndian q)) @ put64 fingerprint) mod 4 = 0"
    by (rule mod4_app [OF a3]) simp
  show ?thesis
    unfolding reqDHParamsBody_def buf_uint32_def buf_raw_def buf_uint64_def
    using buf_bytes_append [OF a1, of "bigEndian p"] buf_bytes_append [OF a2, of "bigEndian q"] buf_bytes_append [OF a4, of encrypted]
    by (simp add: ctorReqDHParams_def)
qed

lemma clientDHInner_layout:
  assumes "length nonce = 16" "length serverNonce = 16"
  shows "clientDHInner nonce serverNonce gB = put32 0x6643B654 @ nonce @ serverNonce @ put64 0 @ tl_bytes gB"
proof -
  have "length (((put32 ctorClientDHInnerData @ nonce) @ serverNonce) @ put64 0) mod 4 = 0" using assms by simp
  from buf_bytes_append [OF this, of gB] show ?thesis
    by (simp add: clientDHInner_def buf_uint32_def buf_raw_def buf_uint64_def ctorClientDHInnerData_def)
qed

lemma setClientDHParamsBody_layout:
  assumes "length nonce = 16" "length serverNonce = 16"
  shows "setClientDHParamsBody nonce serverNonce encrypted = put32 0xF5045F1F @ nonce @ serverNonce @ tl_bytes encrypted"
proof -
  have "length ((put32 ctorSetClientDHParams @ nonce) @ serverNonce) mod 4 = 0" using assms by simp
  from buf_bytes_append [OF this, of encrypted] show ?thesis
    by (simp add: setClientDHParamsBody_def buf_uint32_def buf_raw_def ctorSetClientDHParams_def)
qed

section \<open>What is drawn\<close>

lemma randomBytes_draws: "randomBytes n w = (Inr bs, w') \<Longrightarrow> entropy w = bs @ entropy w' \<and> length bs = n"
  by (auto simp: randomBytes_Inr)

lemma rand_int_pow256_Inr:
  assumes "0 < k" and "rand_int (2 ^ (8 * k)) w = (Inr n, w')"
  shows "k \<le> length (entropy w) \<and> n = be_nat (take k (entropy w)) \<and> w' = w\<lparr>entropy := drop k (entropy w)\<rparr>"
proof -
  have "k \<le> length (entropy w)"
  proof (rule ccontr)
    assume "\<not> k \<le> length (entropy w)"
    moreover have "bit_len (2 ^ (8 * k) - 1) = 8 * k" using assms(1) by (intro bit_len_pow2_minus) simp
    moreover have "(8 * k + 7) div 8 = k" by simp
    ultimately have "rand_int_from (2 ^ (8 * k)) (entropy w) = None"
      using assms(1) by (subst rand_int_from.simps) (simp only: Let_def, simp)
    with assms(2) show False by (simp add: rand_int_def)
  qed
  with rand_int_pow256 [OF assms(1) this] assms(2) show ?thesis by simp
qed

lemma randomBigInt_draws:
  "randomBigInt 2048 w = (Inr b, w') \<Longrightarrow> \<exists>bs. length bs = 256 \<and> b = be_nat bs \<and> entropy w = bs @ entropy w' \<and>
     w' = w\<lparr>entropy := entropy w'\<rparr>"
proof -
  assume r: "randomBigInt 2048 w = (Inr b, w')"
  have "rand_int (2 ^ (8 * 256)) w = (Inr b, w')" using r by (simp add: randomBigInt_def)
  from rand_int_pow256_Inr [OF _ this] show ?thesis by (intro exI [of _ "take 256 (entropy w)"]) auto
qed

lemma rsaPad_rounds_draws [draws_intros]: "io_draws (rsaPad_rounds k C dp dr key)"
proof (induction k)
  case 0
  show ?case unfolding rsaPad_rounds.simps by (rule draws_intros)
next
  case (Suc k)
  then show ?case unfolding rsaPad_rounds.simps Let_def by (intro draws_intros)
qed

lemma rsaPad_draws [draws_intros]: "io_draws (rsaPad C d key)"
  unfolding rsaPad_def Let_def by (intro draws_intros)

lemma encryptDHInner_draws [draws_intros]: "io_draws (encryptDHInner C d k i)"
  unfolding encryptDHInner_def Let_def by (intro draws_intros)

text \<open>None of them touches the stream.\<close>

lemma draws_keep_chan: "io_keeps chan (randomBytes n)" "io_keeps chan (rand_int n)"
  by (simp_all add: io_keeps_def randomBytes_def rand_int_def split: option.splits)

lemma rsaPad_keeps_chan: "io_keeps chan (rsaPad C d key)"
proof -
  have "io_keeps chan (rsaPad_rounds k C dp dr key)" for k dp dr
  proof (induction k)
    case 0
    show ?case unfolding rsaPad_rounds.simps by (rule keeps_intros)
  next
    case (Suc k)
    then show ?case unfolding rsaPad_rounds.simps Let_def by (intro keeps_intros draws_keep_chan)
  qed
  then show ?thesis unfolding rsaPad_def Let_def by (intro keeps_intros draws_keep_chan)
qed

lemma encryptDHInner_keeps_chan: "io_keeps chan (encryptDHInner C d k i)"
  unfolding encryptDHInner_def Let_def by (intro keeps_intros draws_keep_chan)

section \<open>The trace of an exchange\<close>

text \<open>The first half: the resPQ that was read, the two requests that were written.\<close>

definition asked ::
  "crypto \<Rightarrow> int \<Rightarrow> transport \<Rightarrow> bytes \<Rightarrow> bytes \<Rightarrow> bytes \<Rightarrow> bytes \<Rightarrow> bytes \<Rightarrow> bytes \<Rightarrow> bytes \<Rightarrow> bool" where
  "asked C dc tr nonce serverNonce newNonce r1 resPQ f1 f2 \<longleftrightarrow>
     length nonce = 16 \<and> length serverNonce = 16 \<and> length newNonce = 32 \<and> heard tr r1 resPQ \<and>
     said tr (put32 0xBE7E8EF1 @ nonce) f1 \<and>
     (\<exists>pq p q fps key encrypted padding. parseResPQ resPQ nonce = Inr (pq, serverNonce, fps) \<and> factorize pq = Inr (p, q) \<and>
        selectKey C fps = Inr key \<and>
        said tr (put32 0xD712E4BE @ nonce @ serverNonce @ tl_bytes (bigEndian p) @ tl_bytes (bigEndian q)
          @ put64 (pk_fingerprint key) @ tl_bytes encrypted) f2 \<and>
        (\<forall>d. rsa_pair (pk_N key) (pk_E key) d \<longrightarrow> rsa_unpad C (pk_N key) d encrypted =
           Some (put32 0xA9F55F95 @ tl_bytes (bigEndian pq) @ tl_bytes (bigEndian p) @ tl_bytes (bigEndian q)
             @ nonce @ serverNonce @ newNonce @ put32 (word_of_int dc) @ padding)))"

text \<open>The second half: the two answers that were read, the message that was written.\<close>

definition agreed ::
  "crypto \<Rightarrow> transport \<Rightarrow> bytes \<Rightarrow> bytes \<Rightarrow> bytes \<Rightarrow> bytes \<Rightarrow> bytes \<Rightarrow> bytes \<Rightarrow> bytes \<Rightarrow> bytes \<Rightarrow>
     nat \<Rightarrow> nat \<Rightarrow> nat \<Rightarrow> bytes \<Rightarrow> authKey \<Rightarrow> bool" where
  "agreed C tr nonce serverNonce newNonce r2 params r3 genok f3 g p gA bs ak \<longleftrightarrow>
     heard tr r2 params \<and> heard tr r3 genok \<and> length bs = 256 \<and>
     2 \<le> g \<and> g \<le> 7 \<and> bit_len p = 2048 \<and> 1 < gA \<and> gA < p - 1 \<and>
     (let (key, iv) = dhTempKeys C newNonce serverNonce in
        (\<exists>time. parseServerDHParams C params nonce serverNonce key iv = Inr (g, p, gA, time)) \<and>
        (\<exists>cipher pad. said tr (put32 0xF5045F1F @ nonce @ serverNonce @ tl_bytes cipher) f3 \<and>
           length pad < 16 \<and> igeDecrypt C cipher key iv = Inr (let inner = put32 0x6643B654 @ nonce @ serverNonce @ put64 0
             @ tl_bytes (be_bytes 256 (modexp g (be_nat bs) p)) in sha1 C inner @ inner @ pad))) \<and>
     verifyDHGen C genok nonce serverNonce newNonce (ak_key ak) = Inr () \<and>
     ak_key ak = be_bytes 256 (modexp gA (be_nat bs) p) \<and>
     ak_keyID ak = Prelude.slice 12 20 (sha1 C (ak_key ak)) \<and>
     ak_salt ak = xor_bytes (take 8 newNonce) (take 8 serverNonce)"

lemma parseResPQ_nonce: "parseResPQ payload nonce = Inr (pq, serverNonce, fps) \<Longrightarrow> length serverNonce = 16"
  using parseResPQ_sound by blast

context duplex
begin

lemma recv_trace:
  assumes "linked w" and "recvUnencrypted w = (Inr body, w')"
  shows "\<exists>wire. heard (s_tr (chan w)) wire body \<and> moves w wire [] [] w'"
proof -
  obtain wire packet where r: "accepts (s_tr (chan w)) wire packet" "open_unencrypted packet = Inr body" "moves w wire [] [] w'"
    using recvUnencrypted_moves [OF assms] by blast
  from r(2) obtain mid tail where "length mid = 8" "4 \<le> length body" "length body < 4294967296"
    "packet = replicate 8 0 @ mid @ put32 (word_of_nat (length body)) @ body @ tail"
    unfolding open_unencrypted_iff by blast
  with r(1,3) show ?thesis by (auto simp: heard_def)
qed

lemma send_trace:
  assumes "linked w" and "sendUnencrypted body w = (Inr (), w')"
  shows "\<exists>wire used. said (s_tr (chan w)) body wire \<and> moves w [] wire used w'"
proof -
  obtain mid wire used where s: "emits (s_tr (chan w)) (unencrypted_message mid body) wire" "moves w [] wire used w'"
    using sendUnencrypted_moves [OF assms] by blast
  from s(1) have "said (s_tr (chan w)) body wire"
    unfolding said_def unencrypted_message_def by (intro exI [of _ "put64 mid"]) simp
  with s(2) show ?thesis by blast
qed

lemma draw_moves:
  "linked w \<Longrightarrow> io_keeps chan m \<Longrightarrow> io_draws m \<Longrightarrow> m w = (Inr x, w') \<Longrightarrow> \<exists>used. moves w [] [] used w'"
  using io_keepsD [of chan m w] io_drawsD [of m w x w'] moves_still [of w w'] by blast

lemma request_dh_trace:
  assumes C: "crypto_ok C" and l: "linked w" and r: "request_dh C dc w = (Inr (nonce, serverNonce, newNonce), w')"
  shows "\<exists>r1 resPQ f1 f2 gap1 gap2. asked C dc (s_tr (chan w)) nonce serverNonce newNonce r1 resPQ f1 f2 \<and>
     moves w r1 (f1 @ f2) (nonce @ gap1 @ newNonce @ gap2) w'"
proof -
  from r obtain w1 w2 resPQ w3 pq fps p q key w4 encrypted w5 where
    1: "randomBytes 16 w = (Inr nonce, w1)" and 2: "sendUnencrypted (reqPQMultiBody nonce) w1 = (Inr (), w2)"
    and 3: "recvUnencrypted w2 = (Inr resPQ, w3)" and 4: "parseResPQ resPQ nonce = Inr (pq, serverNonce, fps)"
    and 5: "factorize pq = Inr (p, q)" "selectKey C fps = Inr key" and 6: "randomBytes 32 w3 = (Inr newNonce, w4)"
    and 7: "rsaPad C (pqInnerData pq p q nonce serverNonce newNonce dc) key w4 = (Inr encrypted, w5)"
    and 8: "sendUnencrypted (reqDHParamsBody nonce serverNonce p q (pk_fingerprint key) encrypted) w5 = (Inr (), w')"
    unfolding request_dh_def io_seq_def io_bind_eq_Inr io_map_err_eq_Inr by (auto simp: io_bind_eq_Inr)
  have len: "length nonce = 16" "length newNonce = 32" "length serverNonce = 16"
    using randomBytes_draws [OF 1] randomBytes_draws [OF 6] parseResPQ_nonce [OF 4] by simp_all
  have m1: "moves w [] [] nonce w1"
    using moves_still [OF l io_keepsD [OF draws_keep_chan(1) 1]] randomBytes_draws [OF 1] by blast
  obtain f1 gap1 where s1: "said (s_tr (chan w1)) (reqPQMultiBody nonce) f1" and m2: "moves w1 [] f1 gap1 w2"
    using send_trace [OF movesD(1) [OF m1] 2] by blast
  obtain r1 where h1: "heard (s_tr (chan w2)) r1 resPQ" and m3: "moves w2 r1 [] [] w3"
    using recv_trace [OF movesD(1) [OF m2] 3] by blast
  have m4: "moves w3 [] [] newNonce w4"
    using moves_still [OF movesD(1) [OF m3] io_keepsD [OF draws_keep_chan(1) 6]] randomBytes_draws [OF 6] by blast
  obtain u1 where m5: "moves w4 [] [] u1 w5"
    using draw_moves [OF movesD(1) [OF m4] rsaPad_keeps_chan rsaPad_draws 7] by blast
  obtain f2 u2 where s2: "said (s_tr (chan w5)) (reqDHParamsBody nonce serverNonce p q (pk_fingerprint key) encrypted) f2"
    and m6: "moves w5 [] f2 u2 w'" using send_trace [OF movesD(1) [OF m5] 8] by blast
  have "moves w r1 (f1 @ f2) (nonce @ gap1 @ newNonce @ (u1 @ u2)) w'"
    using moves_trans [OF m1 moves_trans [OF m2 moves_trans [OF m3 moves_trans [OF m4 moves_trans [OF m5 m6]]]]] by simp
  moreover have tr: "s_tr (chan w1) = s_tr (chan w)" "s_tr (chan w2) = s_tr (chan w)" "s_tr (chan w5) = s_tr (chan w)"
    using movesD(2) [OF m1] movesD(2) [OF m2] movesD(2) [OF m3] movesD(2) [OF m4] movesD(2) [OF m5] by simp_all
  moreover obtain padding where "\<forall>d. rsa_pair (pk_N key) (pk_E key) d \<longrightarrow>
      rsa_unpad C (pk_N key) d encrypted = Some (pqInnerData pq p q nonce serverNonce newNonce dc @ padding)"
    using rsaPad_recovered [OF C conjunct1 conjunct2, OF selectKey_modulus [OF 5(2)] selectKey_modulus [OF 5(2)] 7] by blast
  then have "asked C dc (s_tr (chan w)) nonce serverNonce newNonce r1 resPQ f1 f2"
    unfolding asked_def using len h1 s1 s2 4 5 tr
    by (auto simp: reqPQMultiBody_layout reqDHParamsBody_layout pqInnerData_layout)
  ultimately show ?thesis by blast
qed

lemma finish_dh_trace:
  assumes C: "crypto_ok C" and len: "length nonce = 16" "length serverNonce = 16"
    and l: "linked w" and r: "finish_dh C pp nonce serverNonce newNonce w = (Inr ak, w')"
  shows "\<exists>r2 params r3 genok f3 g p gA bs gap. agreed C (s_tr (chan w)) nonce serverNonce newNonce r2 params r3 genok f3 g p gA bs ak \<and>
     moves w (r2 @ r3) f3 (bs @ gap) w' \<and>
     (prime_cache_ok C pp w \<longrightarrow> (\<exists>q. sha256 C (big_bytes q) = sha256 C (big_bytes p) \<and> safe_prime_test pp q))"
proof -
  obtain key iv where k: "dhTempKeys C newNonce serverNonce = (key, iv)" by fastforce
  from r obtain params w1 g p gA time w2 b w3 gB cipher w4 w5 genok w6 shared now where
    1: "recvUnencrypted w = (Inr params, w1)" and 2: "parseServerDHParams C params nonce serverNonce key iv = Inr (g, p, gA, time)"
    and 3: "checkDHParams C pp g p gA w1 = (Inr (), w2)" and 4: "randomBigInt 2048 w2 = (Inr b, w3)"
    and 5: "padTo (modexp g b p) 256 = Inr gB"
    and 6: "encryptDHInner C (clientDHInner nonce serverNonce gB) key iv w3 = (Inr cipher, w4)"
    and 7: "sendUnencrypted (setClientDHParamsBody nonce serverNonce cipher) w4 = (Inr (), w5)"
    and 8: "recvUnencrypted w5 = (Inr genok, w6)" and 9: "padTo (modexp gA b p) 256 = Inr shared"
    and 10: "verifyDHGen C genok nonce serverNonce newNonce shared = Inr ()" and 11: "time_now w6 = (Inr now, w')"
    and ak: "ak = \<lparr>ak_key = shared, ak_keyID = Prelude.slice 12 20 (sha1 C shared),
                    ak_salt = xor_bytes (take 8 newNonce) (take 8 serverNonce),
                    ak_timeOffset = int (unat time) - now div 1000000000\<rparr>"
    unfolding finish_dh_def io_seq_def k io_bind_eq_Inr io_map_err_eq_Inr by (auto simp: io_bind_eq_Inr)
  have c: "2 \<le> g" "g \<le> 7" "bit_len p = 2048" "1 < gA" "gA < p - 1" using 3 by (simp_all only: checkDHParams_cases)
  note pad = padTo_modexp_2048 [OF c(3)]
  obtain r2 where h2: "heard (s_tr (chan w)) r2 params" and m1: "moves w r2 [] [] w1" using recv_trace [OF l 1] by blast
  have "chan w2 = chan w1" "entropy w2 = entropy w1" using 3 by (auto simp: checkDHParams_cases)
  then have m2: "moves w1 [] [] [] w2" using moves_still [OF movesD(1) [OF m1], of w2 "[]"] by simp
  obtain bs where bs: "length bs = 256" "b = be_nat bs" "entropy w2 = bs @ entropy w3" "w3 = w2\<lparr>entropy := entropy w3\<rparr>"
    using randomBigInt_draws [OF 4] by blast
  have "chan w3 = chan w2" by (subst bs(4)) simp
  from moves_still [OF movesD(1) [OF m2] this bs(3)] have m3: "moves w2 [] [] bs w3" .
  obtain u1 where m4: "moves w3 [] [] u1 w4"
    using draw_moves [OF movesD(1) [OF m3] encryptDHInner_keeps_chan encryptDHInner_draws 6] by blast
  obtain f3 u2 where s3: "said (s_tr (chan w4)) (setClientDHParamsBody nonce serverNonce cipher) f3" and m5: "moves w4 [] f3 u2 w5"
    using send_trace [OF movesD(1) [OF m4] 7] by blast
  obtain r3 where h3: "heard (s_tr (chan w5)) r3 genok" and m6: "moves w5 r3 [] [] w6" using recv_trace [OF movesD(1) [OF m5] 8] by blast
  have m7: "moves w6 [] [] [] w'" using time_now_moves [OF movesD(1) [OF m6] 11] by blast
  have m: "moves w (r2 @ r3) f3 (bs @ (u1 @ u2)) w'"
    using moves_trans [OF m1 moves_trans [OF m2 moves_trans [OF m3 moves_trans [OF m4 moves_trans [OF m5 moves_trans [OF m6 m7]]]]]] by simp
  have tr: "s_tr (chan w4) = s_tr (chan w)" "s_tr (chan w5) = s_tr (chan w)"
    using movesD(2) [OF m1] movesD(2) [OF m2] movesD(2) [OF m3] movesD(2) [OF m4] movesD(2) [OF m5] by simp_all
  have gB: "gB = be_bytes 256 (modexp g (be_nat bs) p)" using 5 by (simp only: pad bs(2) sum.inject)
  have sh: "shared = be_bytes 256 (modexp gA (be_nat bs) p)" using 9 by (simp only: pad bs(2) sum.inject)
  obtain filler where "length filler < 16" "igeDecrypt C cipher key iv =
      Inr (let inner = put32 0x6643B654 @ nonce @ serverNonce @ put64 0 @ tl_bytes gB in sha1 C inner @ inner @ filler)"
    using encryptDHInner_recovered [OF C 6] by (auto simp: clientDHInner_layout [OF len] Let_def)
  with s3 have "\<exists>cipher pad. said (s_tr (chan w)) (put32 0xF5045F1F @ nonce @ serverNonce @ tl_bytes cipher) f3 \<and>
           length pad < 16 \<and> igeDecrypt C cipher key iv = Inr (let inner = put32 0x6643B654 @ nonce @ serverNonce @ put64 0
             @ tl_bytes (be_bytes 256 (modexp g (be_nat bs) p)) in sha1 C inner @ inner @ pad)"
    unfolding tr setClientDHParamsBody_layout [OF len] gB by blast
  with 2 10 c bs(1) h2 h3 sh have "agreed C (s_tr (chan w)) nonce serverNonce newNonce r2 params r3 genok f3 g p gA bs ak"
    unfolding agreed_def k tr ak by auto
  moreover have "\<exists>q. sha256 C (big_bytes q) = sha256 C (big_bytes p) \<and> safe_prime_test pp q" if "prime_cache_ok C pp w"
  proof -
    have "prime_cache_ok C pp w1" using that io_keepsD [OF recvUnencrypted_keeps 1] by (simp add: prime_cache_ok_def)
    from checkDHParams_safe [OF this 3] show ?thesis .
  qed
  ultimately show ?thesis using m by blast
qed

end

section \<open>Whose messages they were\<close>

lemma encodeIntermediate_unique:
  assumes "encodeIntermediate a @ x = encodeIntermediate b @ y" and "length a < 4294967296" "length b < 4294967296"
  shows "a = b \<and> x = y"
proof -
  have "put32 (word_of_nat (length a)) = put32 (word_of_nat (length b))" and e: "a @ x = b @ y"
    using assms(1) by (simp_all add: encodeIntermediate_def)
  then have "get32 (put32 (word_of_nat (length a))) = get32 (put32 (word_of_nat (length b)))" by simp
  then have "(word_of_nat (length a) :: u32) = word_of_nat (length b)" by simp
  then have "unat (word_of_nat (length a) :: u32) = unat (word_of_nat (length b) :: u32)" by simp
  then have "length a = length b" using assms(2,3) by (simp add: unat_of_nat)
  with e show ?thesis by simp
qed

lemma heard_unique:
  assumes h: "heard Intermediate r body" and e: "r @ x = encodeIntermediate (unencrypted_message i body') @ y"
    and l: "4 \<le> length body'" "length body' + 20 \<le> maxPacketLen"
  shows "body = body' \<and> x = y"
proof -
  from h obtain mid tail where m: "length mid = 8" "4 \<le> length body" "length body < 4294967296"
    and a: "accepts Intermediate r (replicate 8 0 @ mid @ put32 (word_of_nat (length body)) @ body @ tail)"
    by (auto simp: heard_def)
  let ?p = "replicate 8 0 @ mid @ put32 (word_of_nat (length body)) @ body @ tail"
  from a have r: "r = encodeIntermediate ?p" "length ?p \<le> maxPacketLen" by simp_all
  have "length ?p < 4294967296" "length (unencrypted_message i body') < 4294967296"
    using r(2) l(2) by (simp_all add: maxPacketLen_def unencrypted_message_def)
  from encodeIntermediate_unique [OF e [unfolded r(1)] this] have u: "?p = unencrypted_message i body'" "x = y" by simp_all
  have "open_unencrypted ?p = Inr body" unfolding open_unencrypted_iff using m by blast
  moreover have "open_unencrypted (unencrypted_message i body') = Inr body'"
    using l by (intro open_unencrypted_message) (simp_all add: maxPacketLen_def)
  ultimately show ?thesis using u by simp
qed

lemma encodeIntermediate_heard:
  "4 \<le> length body \<Longrightarrow> length body + 20 \<le> maxPacketLen \<Longrightarrow> heard Intermediate (encodeIntermediate (unencrypted_message i body)) body"
  unfolding heard_def unencrypted_message_def
  by (intro exI [of _ "put64 i"] exI [of _ "[]"]) (simp add: maxPacketLen_def)

lemma honest_lengths:
  assumes "honest_pq C dc nonce serverNonce newNonce padding tempKey pqBytes fps"
  shows "4 \<le> length (resPQ_body nonce serverNonce pqBytes fps)" "length (resPQ_body nonce serverNonce pqBytes fps) + 20 \<le> maxPacketLen"
  using assms length_tl_short [of pqBytes]
  by (simp_all add: honest_pq_def resPQ_body_def maxPacketLen_def length_concat_put64)

lemma honest_params:
  assumes C: "crypto_ok C" and len: "length nonce = 16" "length serverNonce = 16" "length newNonce = 32"
    and h: "honest_dh C nonce serverNonce newNonce g p a time b params genok" and p: "bit_len p = 2048" "modexp (unat g) a p < p - 1"
  shows "4 \<le> length params" "length params + 20 \<le> maxPacketLen" "4 \<le> length genok" "length genok + 20 \<le> maxPacketLen"
    "parseServerDHParams C params nonce serverNonce (fst (dhTempKeys C newNonce serverNonce)) (snd (dhTempKeys C newNonce serverNonce))
       = Inr (unat g, p, modexp (unat g) a p, time)"
proof -
  obtain key iv where ti: "dhTempKeys C newNonce serverNonce = (key, iv)" by fastforce
  let ?gA = "modexp (unat g) a p"
  define inner where "inner = server_dh_inner nonce serverNonce g (be_bytes 256 p) (be_bytes 256 ?gA) time"
  obtain pad answer where a: "igeEncrypt C (sha1 C inner @ inner @ pad) key iv = Inr answer" "length pad < 16"
    "params = server_dh_params nonce serverNonce answer"
    "genok = dh_gen_ok_body C nonce serverNonce newNonce (be_bytes 256 (modexp (modexp (unat g) b p) a p))"
    by (rule honest_dh_answers [OF C ti h]) (simp_all only: inner_def)
  have "(256::nat) ^ 256 = 2 ^ (8 * 256)" by (simp only: power_mult) simp
  moreover have "p < 2 ^ 2048" by (rule bit_len_lt [OF p(1)])
  ultimately have pb: "bigFromBytes (be_bytes 256 p) = p" "bigFromBytes (be_bytes 256 ?gA) = ?gA"
    using p(2) by (simp_all only: bigFromBytes_def be_nat_be_bytes) simp_all
  have li: "length inner = 564" using len(1,2) by (simp add: inner_def server_dh_inner_def length_tl_256)
  have la: "length answer \<le> 599" using igeEncrypt_length [OF C a(1)] a(2) li crypto_okD [OF C] by simp
  show "4 \<le> length params" "length params + 20 \<le> maxPacketLen"
    using la len(1,2) length_tl_bytes_le [of answer] by (simp_all add: a(3) server_dh_params_def maxPacketLen_def)
  show "4 \<le> length genok" "length genok + 20 \<le> maxPacketLen"
    using len(1,2) newNonceHash1_length [OF C] by (simp_all add: a(4) dh_gen_ok_body_def maxPacketLen_def)
  have "parseServerDHParams C (server_dh_params nonce serverNonce answer @ []) nonce serverNonce key iv =
           Inr (unat g, bigFromBytes (be_bytes 256 p), bigFromBytes (be_bytes 256 ?gA), time)"
    using la by (intro parseServerDHParams_honest [OF C len(1,2) _ _ _ inner_def a(1)]) simp_all
  then show "parseServerDHParams C params nonce serverNonce (fst (dhTempKeys C newNonce serverNonce)) (snd (dhTempKeys C newNonce serverNonce))
       = Inr (unat g, p, ?gA, time)" by (simp add: ti a(3) pb)
qed

context duplex
begin

lemma fits_linked: "fits w \<Longrightarrow> linked w \<and> s_tr (chan w) = Intermediate"
  by (auto simp: fits_def linked_def)

text \<open>Against the honest server, the trace of the exchange that completes.\<close>

lemma createAuthKey_dialogue:
  assumes C: "crypto_ok C" and h: "honest_pq C dc nonce serverNonce newNonce padding tempKey pqBytes fps"
    and w: "fits w" "view w = (encodeIntermediate (unencrypted_message i0 (resPQ_body nonce serverNonce pqBytes fps))
         @ encodeIntermediate (unencrypted_message i1 params) @ encodeIntermediate (unencrypted_message i2 genok) @ rest,
       Suc (Suc (Suc k)), nonce @ newNonce @ padding @ tempKey @ ent, pc)" "271 \<le> length ent"
    and d: "honest_dh C nonce serverNonce newNonce g p a time (be_nat (take 256 ent)) params genok" and gA: "gA = modexp (unat g) a p"
    and c: "2 \<le> unat g" "unat g \<le> 7" "bit_len p = 2048" "1 < gA" "gA < p - 1" "safe_prime_test pp p"
  shows "\<exists>ak w' r1 f1 f2 r2 r3 f3 used. createAuthKey C pp dc w = (Inr ak, w') \<and>
     asked C dc Intermediate nonce serverNonce newNonce r1 (resPQ_body nonce serverNonce pqBytes fps) f1 f2 \<and>
     agreed C Intermediate nonce serverNonce newNonce r2 params r3 genok f3 (unat g) p gA (take 256 ent) ak \<and>
     moves w (r1 @ r2 @ r3) (f1 @ f2 @ f3) used w'"
proof -
  let ?in2 = "encodeIntermediate (unencrypted_message i1 params) @ encodeIntermediate (unencrypted_message i2 genok) @ rest"
  obtain w1 where 1: "request_dh C dc w = (Inr (nonce, serverNonce, newNonce), w1)" "fits w1" "view w1 = (?in2, Suc k, ent, pc)"
    using request_dh_complete [OF C h w(1,2)] by blast
  have len: "length nonce = 16" "length serverNonce = 16" "length newNonce = 32" using h by (simp_all add: honest_pq_def)
  obtain ak w' where 2: "finish_dh C pp nonce serverNonce newNonce w1 = (Inr ak, w')"
    using finish_dh_complete [OF C len 1(2,3) w(3) refl d gA c] by blast
  note l = fits_linked [OF w(1)] fits_linked [OF 1(2)]
  obtain r1 resPQ f1 f2 u1 where t1: "asked C dc Intermediate nonce serverNonce newNonce r1 resPQ f1 f2" "moves w r1 (f1 @ f2) u1 w1"
    using request_dh_trace [OF C conjunct1 [OF l(1)] 1(1)] l(1) by (metis (no_types))
  obtain r2 params' r3 genok' f3 g' p' gA' bs gap where
    t2: "agreed C Intermediate nonce serverNonce newNonce r2 params' r3 genok' f3 g' p' gA' bs ak" "moves w1 (r2 @ r3) f3 (bs @ gap) w'"
    using finish_dh_trace [OF C len(1,2) conjunct1 [OF l(2)] 2] l(2) by (metis (no_types))
  have in1: "r1 @ pend (s_carrier (chan w1)) = encodeIntermediate (unencrypted_message i0 (resPQ_body nonce serverNonce pqBytes fps)) @ ?in2"
    using movesD(3) [OF t1(2)] w(2) by (simp add: view_def)
  have "heard Intermediate r1 resPQ" using t1(1) by (simp add: asked_def)
  from heard_unique [OF this in1 honest_lengths [OF h]] have e1: "resPQ = resPQ_body nonce serverNonce pqBytes fps" by simp
  note hp = honest_params [OF C len d c(3) c(5) [unfolded gA]]
  have in2: "r2 @ (r3 @ pend (s_carrier (chan w'))) = ?in2" using movesD(3) [OF t2(2)] 1(3) by (simp add: view_def)
  have hr: "heard Intermediate r2 params'" "heard Intermediate r3 genok'" using t2(1) by (simp_all add: agreed_def)
  from heard_unique [OF hr(1) in2 hp(1,2)] have e2: "params' = params"
    and in3: "r3 @ pend (s_carrier (chan w')) = encodeIntermediate (unencrypted_message i2 genok) @ rest" by simp_all
  from heard_unique [OF hr(2) in3 hp(3,4)] have e3: "genok' = genok" by simp
  have "\<exists>t. parseServerDHParams C params nonce serverNonce (fst (dhTempKeys C newNonce serverNonce)) (snd (dhTempKeys C newNonce serverNonce))
      = Inr (g', p', gA', t)" using t2(1) e2 by (simp add: agreed_def split_beta Let_def)
  with hp(5) have e4: "g' = unat g" "p' = p" "gA' = gA" by (auto simp: gA)
  have "length bs = 256" using t2(1) by (simp add: agreed_def)
  moreover have "ent = bs @ (gap @ entropy w')" using movesD(4) [OF t2(2)] 1(3) by (simp add: view_def)
  ultimately have e5: "take 256 ent = bs" by simp
  have "createAuthKey C pp dc w = (Inr ak, w')" using 1(1) 2 by (simp add: createAuthKey_def io_bind_Inr)
  moreover have "moves w (r1 @ r2 @ r3) (f1 @ f2 @ f3) (u1 @ bs @ gap) w'" using moves_trans [OF t1(2) t2(2)] by simp
  ultimately show ?thesis using t1(1) t2(1) unfolding e1 e2 e3 e4 e5 by blast
qed

text \<open>The trace of any exchange that succeeds.\<close>

lemma createAuthKey_trace:
  assumes C: "crypto_ok C" and cache: "prime_cache_ok C pp w" and l: "linked w" and r: "createAuthKey C pp dc w = (Inr ak, w')"
  shows "\<exists>nonce serverNonce newNonce r1 resPQ f1 f2 gap1 gap2 r2 params r3 genok f3 g p gA bs gap3 q.
     asked C dc (s_tr (chan w)) nonce serverNonce newNonce r1 resPQ f1 f2 \<and>
     agreed C (s_tr (chan w)) nonce serverNonce newNonce r2 params r3 genok f3 g p gA bs ak \<and>
     moves w (r1 @ r2 @ r3) (f1 @ f2 @ f3) (nonce @ gap1 @ newNonce @ gap2 @ bs @ gap3) w' \<and>
     sha256 C (big_bytes q) = sha256 C (big_bytes p) \<and> safe_prime_test pp q"
proof -
  from r obtain nonce serverNonce newNonce w1 where 1: "request_dh C dc w = (Inr (nonce, serverNonce, newNonce), w1)"
    "finish_dh C pp nonce serverNonce newNonce w1 = (Inr ak, w')"
    by (auto simp: createAuthKey_def io_bind_eq_Inr)
  obtain r1 resPQ f1 f2 gap1 gap2 where t1: "asked C dc (s_tr (chan w)) nonce serverNonce newNonce r1 resPQ f1 f2"
    "moves w r1 (f1 @ f2) (nonce @ gap1 @ newNonce @ gap2) w1"
    using request_dh_trace [OF C l 1(1)] by blast
  have len: "length nonce = 16" "length serverNonce = 16" using t1(1) by (simp_all add: asked_def)
  have c1: "prime_cache_ok C pp w1" using io_invD [OF cache_ok_inv [OF request_dh_keeps] cache 1(1)] .
  obtain r2 params r3 genok f3 g p gA bs gap3 where
    t2: "agreed C (s_tr (chan w1)) nonce serverNonce newNonce r2 params r3 genok f3 g p gA bs ak" "moves w1 (r2 @ r3) f3 (bs @ gap3) w'"
    "prime_cache_ok C pp w1 \<longrightarrow> (\<exists>q. sha256 C (big_bytes q) = sha256 C (big_bytes p) \<and> safe_prime_test pp q)"
    using finish_dh_trace [OF C len movesD(1) [OF t1(2)] 1(2)] by blast
  have "moves w (r1 @ r2 @ r3) (f1 @ f2 @ f3) (nonce @ gap1 @ newNonce @ gap2 @ bs @ gap3) w'"
    using moves_trans [OF t1(2) t2(2)] by simp
  with t1(1) t2(1,3) c1 movesD(2) [OF t1(2)] show ?thesis by metis
qed

end

section \<open>What the server reads, what the client trusts\<close>

text \<open>From the client's first two messages the server learns the nonces and the factors.\<close>

lemma asked_resPQ:
  assumes a: "asked C dc tr nonce serverNonce newNonce r1 (resPQ_body nonce serverNonce pqBytes fps) f1 f2"
    and h: "honest_pq C dc nonce serverNonce newNonce padding tempKey pqBytes fps"
  shows "\<exists>p q key pqB pB qB encrypted filler. said tr (put32 0xBE7E8EF1 @ nonce) f1 \<and>
     factorize (word_of_nat (be_nat pqBytes)) = Inr (p, q) \<and> key \<in> set (telegramKeys C) \<and> pk_fingerprint key \<in> set fps \<and>
     be_nat pqB = be_nat pqBytes \<and> be_nat pB = unat p \<and> be_nat qB = unat q \<and>
     said tr (put32 0xD712E4BE @ nonce @ serverNonce @ tl_bytes pB @ tl_bytes qB @ put64 (pk_fingerprint key) @ tl_bytes encrypted) f2 \<and>
     (\<forall>d. rsa_pair (pk_N key) (pk_E key) d \<longrightarrow> rsa_unpad C (pk_N key) d encrypted =
        Some (put32 0xA9F55F95 @ tl_bytes pqB @ tl_bytes pB @ tl_bytes qB @ nonce @ serverNonce @ newNonce @ put32 (word_of_int dc) @ filler))"
proof -
  from a obtain pq p q fps' key encrypted filler where 1: "said tr (put32 0xBE7E8EF1 @ nonce) f1"
    "parseResPQ (resPQ_body nonce serverNonce pqBytes fps) nonce = Inr (pq, serverNonce, fps')" "factorize pq = Inr (p, q)"
    "selectKey C fps' = Inr key"
    "said tr (put32 0xD712E4BE @ nonce @ serverNonce @ tl_bytes (bigEndian p) @ tl_bytes (bigEndian q)
          @ put64 (pk_fingerprint key) @ tl_bytes encrypted) f2"
    "\<forall>d. rsa_pair (pk_N key) (pk_E key) d \<longrightarrow> rsa_unpad C (pk_N key) d encrypted =
        Some (put32 0xA9F55F95 @ tl_bytes (bigEndian pq) @ tl_bytes (bigEndian p) @ tl_bytes (bigEndian q)
             @ nonce @ serverNonce @ newNonce @ put32 (word_of_int dc) @ filler)"
    unfolding asked_def by blast
  from h have l: "length nonce = 16" "length serverNonce = 16" "0 < length pqBytes" "length pqBytes \<le> 8" "length fps \<le> 64"
    by (simp_all add: honest_pq_def)
  from parseResPQ_honest [OF l, of "[]"] 1(2) have e: "pq = word_of_nat (be_nat pqBytes)" "fps' = fps"
    by (simp_all add: bigFromBytes_def)
  have "be_nat pqBytes < 2 ^ 64" using be_nat_bound [of pqBytes] power_increasing [OF l(4), of "256 :: nat"] by simp
  then have v: "be_nat (bigEndian pq) = be_nat pqBytes"
    unfolding e(1) using bigEndian_value [of "word_of_nat (be_nat pqBytes)"] by (simp add: bigFromBytes_def unat_of_nat)
  have w: "be_nat (bigEndian x) = unat x" for x using bigEndian_value [of x] by (simp add: bigFromBytes_def)
  have k: "key \<in> set (telegramKeys C)" "pk_fingerprint key \<in> set fps"
    using 1(4) e(2) by (auto simp: selectKey_def split: option.splits dest: select_from_Some)
  from 1(1,3,5,6) v w k show ?thesis unfolding e(1) by blast
qed

text \<open>From the third it computes the key.\<close>

lemma agreed_key:
  assumes C: "crypto_ok C" and a: "agreed C tr nonce serverNonce newNonce r2 params r3 genok f3 g p gA bs ak"
    and gA: "gA = modexp g a p"
  shows "\<exists>cipher gB pad. said tr (put32 0xF5045F1F @ nonce @ serverNonce @ tl_bytes cipher) f3 \<and>
     igeDecrypt C cipher (temp_key C newNonce serverNonce) (temp_iv C newNonce serverNonce) =
        Inr (let inner = put32 0x6643B654 @ nonce @ serverNonce @ put64 0 @ tl_bytes gB in sha1 C inner @ inner @ pad) \<and>
     be_nat gB = modexp g (be_nat bs) p \<and> ak_key ak = be_bytes 256 (modexp (be_nat gB) a p)"
proof -
  let ?gB = "be_bytes 256 (modexp g (be_nat bs) p)"
  from a have p: "bit_len p = 2048" and g: "1 < gA" "gA < p - 1" and k: "ak_key ak = be_bytes 256 (modexp gA (be_nat bs) p)" by (simp_all add: agreed_def)
  have "0 < p" using g by simp
  then have "modexp g (be_nat bs) p < 2 ^ 2048" using bit_len_lt [OF p] by (simp add: modexp_def order.strict_trans [OF mod_less_divisor])
  moreover have "(256 :: nat) ^ 256 = 2 ^ (8 * 256)" by (simp only: power_mult) simp
  ultimately have b: "be_nat ?gB = modexp g (be_nat bs) p" by (simp only: be_nat_be_bytes) simp
  from a obtain cipher pad where "said tr (put32 0xF5045F1F @ nonce @ serverNonce @ tl_bytes cipher) f3"
    "igeDecrypt C cipher (temp_key C newNonce serverNonce) (temp_iv C newNonce serverNonce) =
        Inr (let inner = put32 0x6643B654 @ nonce @ serverNonce @ put64 0 @ tl_bytes ?gB in sha1 C inner @ inner @ pad)"
    unfolding agreed_def dhTempKeys_temp [OF C] Let_def prod.case by blast
  moreover have "ak_key ak = be_bytes 256 (modexp (be_nat ?gB) a p)" unfolding b k gA by (simp only: modexp_agree)
  ultimately show ?thesis using b by blast
qed

text \<open>What the client has checked of the server's messages before it uses a key.\<close>

lemma asked_heard:
  assumes "asked C dc tr nonce serverNonce newNonce r1 resPQ f1 f2"
  shows "length nonce = 16 \<and> length serverNonce = 16 \<and> length newNonce = 32 \<and>
     (\<exists>tail. heard tr r1 (put32 0x05162463 @ nonce @ serverNonce @ tail))"
proof -
  from assms obtain pq fps where 1: "parseResPQ resPQ nonce = Inr (pq, serverNonce, fps)" "heard tr r1 resPQ"
    and l: "length nonce = 16" "length serverNonce = 16" "length newNonce = 32" unfolding asked_def by blast
  from parseResPQ_sound [OF 1(1)] obtain tail where "resPQ = put32 0x05162463 @ nonce @ serverNonce @ tail"
    unfolding ctorResPQ_def by blast
  with 1(2) l show ?thesis by blast
qed

lemma agreed_heard:
  assumes C: "crypto_ok C" and l: "length nonce = 16" "length serverNonce = 16"
    and a: "agreed C tr nonce serverNonce newNonce r2 params r3 genok f3 g p gA bs ak"
  shows "heard tr r2 params \<and>
     (\<exists>time. dh_answer C nonce serverNonce (temp_key C newNonce serverNonce) (temp_iv C newNonce serverNonce) params g p gA time) \<and>
     (\<exists>tail. heard tr r3 (put32 0x3BCBF734 @ nonce @ serverNonce @ key_hash C newNonce (ak_key ak) @ tail)) \<and>
     length bs = 256 \<and> 2 \<le> g \<and> g \<le> 7 \<and> bit_len p = 2048 \<and> 1 < gA \<and> gA < p - 1 \<and>
     ak_key ak = be_bytes 256 (modexp gA (be_nat bs) p) \<and> ak_keyID ak = Prelude.slice 12 20 (sha1 C (ak_key ak)) \<and>
     ak_salt ak = xor_bytes (take 8 newNonce) (take 8 serverNonce)"
proof -
  from a obtain time where 1: "heard tr r2 params" "heard tr r3 genok"
    "parseServerDHParams C params nonce serverNonce (temp_key C newNonce serverNonce) (temp_iv C newNonce serverNonce) = Inr (g, p, gA, time)"
    "verifyDHGen C genok nonce serverNonce newNonce (ak_key ak) = Inr ()"
    unfolding agreed_def dhTempKeys_temp [OF C] Let_def prod.case by blast
  from 1(4) obtain tail where g: "genok = put32 0x3BCBF734 @ nonce @ serverNonce @ key_hash C newNonce (ak_key ak) @ tail"
    unfolding verifyDHGen_iff [OF C l] dh_gen_ok_body_def ctorDHGenOK_def newNonceHash1_key_hash [OF C] by auto
  have d: "dh_answer C nonce serverNonce (temp_key C newNonce serverNonce) (temp_iv C newNonce serverNonce) params g p gA time"
    using 1(3) parseServerDHParams_iff [OF C l] by blast
  from a have "length bs = 256 \<and> 2 \<le> g \<and> g \<le> 7 \<and> bit_len p = 2048 \<and> 1 < gA \<and> gA < p - 1 \<and>
     ak_key ak = be_bytes 256 (modexp gA (be_nat bs) p) \<and> ak_keyID ak = Prelude.slice 12 20 (sha1 C (ak_key ak)) \<and>
     ak_salt ak = xor_bytes (take 8 newNonce) (take 8 serverNonce)" by (simp only: agreed_def simp_thms)
  with 1(1,2) d show ?thesis unfolding g by blast
qed

section \<open>Over an obfuscated connection\<close>

lemma obf_linked: "s_link (chan w) = obf_link C \<Longrightarrow> obf_conn.both.linked C w"
  by (simp add: obf_conn.both.linked_def obf_link_def)

lemma obf_moves_read:
  assumes "obf_conn.both.moves C base w inb outb used w'"
  shows "obf_incoming C (s_carrier (chan w)) = inb @ obf_incoming C (s_carrier (chan w')) \<and> entropy w = used @ entropy w'"
  unfolding obf_incoming_def using obf_conn.both.movesD(3) [OF assms] obf_conn.both.movesD(4) [OF assms] by (rule conjI)

lemma obf_moves_written:
  assumes m: "obf_conn.both.moves C (obf_base (s_carrier (chan w))) w inb outb used w'"
    and s: "obf_in_step (s_carrier (chan w))" and ne: "outb \<noteq> []"
  shows "obf_outgoing C (s_carrier (chan w')) = obf_outgoing C (s_carrier (chan w)) @ lead (chan w) @ outb \<and>
     obf_in_step (s_carrier (chan w'))"
proof -
  let ?base = "obf_base (s_carrier (chan w))"
  note wr = obf_conn.both.movesD(5) [OF m, unfolded obf_conn.both.writes_def]
  have "?base + ctr_pos (o_enc (s_carrier (chan w))) = length (conn_sent (o_rw (s_carrier (chan w))))"
    using s by (simp add: obf_base_def obf_in_step_def)
  with wr ne have w: "?base + ctr_pos (o_enc (s_carrier (chan w'))) = length (conn_sent (o_rw (s_carrier (chan w'))))"
    "xor_at (ctr_ks C (ctr_key (o_enc (s_carrier (chan w')))) (ctr_iv (o_enc (s_carrier (chan w'))))) 0
       (drop ?base (conn_sent (o_rw (s_carrier (chan w'))))) = obf_outgoing C (s_carrier (chan w)) @ lead (chan w) @ outb"
    by (simp_all add: obf_outgoing_def)
  have "obf_base (s_carrier (chan w')) = ?base" using w(1) by (simp add: obf_base_def [of "s_carrier (chan w')"])
  with w show ?thesis by (simp add: obf_outgoing_def [of C "s_carrier (chan w')"] obf_in_step_def)
qed

end
