(* ===== verification/Session.thy ===== *)
theory Session
  imports Auth
begin

text \<open>
  \<open>internal/mtproto/session.go\<close> and \<open>summarizeDurations\<close> of probe.go: encrypted messages
  under an auth key (MTProto 2.0), the search for a pong in a reply, and the ping series.
  The session is part of the world of the computation (\<open>sess\<close>), next to the stream
  (\<open>chan\<close>).  The lemmas show that the server recovers what \<open>encrypt\<close> sealed, that
  \<open>decrypt\<close> accepts exactly the messages sealed under the key, and what a series reports.
\<close>

definition ctorPing :: u32 where "ctorPing = 0x7ABE77EC"
definition ctorPong :: u32 where "ctorPong = 0x347773C5"
definition ctorMsgContainer :: u32 where "ctorMsgContainer = 0x73F1F8DC"
definition ctorNewSessionCreated :: u32 where "ctorNewSessionCreated = 0x9EC20908"
definition ctorBadServerSalt :: u32 where "ctorBadServerSalt = 0xEDAB447B"
definition ctorBadMsgNotification :: u32 where "ctorBadMsgNotification = 0xA7EBA1DB"

record session =
  ss_auth :: authKey
  ss_id :: bytes
  ss_seqNo :: u32
  ss_salt :: bytes

record 'c session_world = "'c stream world" +
  sess :: session

lemma time_now_keeps_sess: "io_keeps sess time_now"
  unfolding io_keeps_def by (intro allI, rename_tac w, case_tac "ticks w") (simp_all add: time_now_def)

definition newSession :: "authKey \<Rightarrow> ('z env_scheme, session) io" where
  "newSession auth = io_bind (randomBytes 8) (\<lambda>i.
     io_return \<lparr>ss_auth = auth, ss_id = i, ss_seqNo = 0, ss_salt = ak_salt auth\<rparr>)"

section \<open>Sealing and opening messages\<close>

text \<open>\<open>x\<close> is 0 for messages to the server and 8 for messages from it.\<close>

definition messageKey :: "crypto \<Rightarrow> bytes \<Rightarrow> bytes \<Rightarrow> nat \<Rightarrow> bytes" where
  "messageKey C key plain x =
     (let sum = sha256 C (slice (88 + x) (88 + x + 32) key @ plain) in slice 8 24 sum)"

definition messageKeys :: "crypto \<Rightarrow> bytes \<Rightarrow> bytes \<Rightarrow> nat \<Rightarrow> bytes \<times> bytes" where
  "messageKeys C key msgKey x =
     (let a = sha256 C (msgKey @ slice x (x + 36) key);
          b = sha256 C (slice (40 + x) (40 + x + 36) key @ msgKey)
      in (take 8 a @ slice 8 24 b @ slice 24 32 a, take 8 b @ slice 8 24 a @ slice 24 32 b))"

definition plain_header :: "session \<Rightarrow> u64 \<Rightarrow> u32 \<Rightarrow> bytes \<Rightarrow> bytes" where
  "plain_header s msgID seqNo body =
     buf_raw body (buf_uint32 (word_of_nat (length body)) (buf_uint32 seqNo (buf_uint64 msgID
       (buf_raw (ss_id s) (buf_raw (ss_salt s) [])))))"

definition padding_for :: "nat \<Rightarrow> nat" where
  "padding_for len = 12 + (16 - (len + 12) mod 16) mod 16"

definition seal :: "crypto \<Rightarrow> authKey \<Rightarrow> nat \<Rightarrow> bytes \<Rightarrow> goerr + bytes" where
  "seal C auth x plain =
     (let msgKey = messageKey C (ak_key auth) plain x;
          (key, iv) = messageKeys C (ak_key auth) msgKey x
      in res_bind (igeEncrypt C plain key iv) (\<lambda>encrypted. Inr (ak_keyID auth @ msgKey @ encrypted)))"

definition encrypt :: "crypto \<Rightarrow> bytes \<Rightarrow> (('c, 'z) session_world_scheme, bytes \<times> u64) io" where
  "encrypt C body =
     io_bind (io_gets sess) (\<lambda>s.
     let seqNo = ss_seqNo s * 2 + 1 in
     io_seq (io_modify (\<lambda>w. w\<lparr>sess := s\<lparr>ss_seqNo := ss_seqNo s + 1\<rparr>\<rparr>))
     (io_bind messageID (\<lambda>msgID.
      let plain = plain_header s msgID seqNo body in
      io_bind (randomBytes (padding_for (length plain))) (\<lambda>filler.
      io_bind (io_lift (seal C (ss_auth s) 0 (plain @ filler))) (\<lambda>packet.
      io_return (packet, msgID))))))"

definition open_message :: "crypto \<Rightarrow> authKey \<Rightarrow> nat \<Rightarrow> bytes \<Rightarrow> goerr + bytes" where
  "open_message C auth x packet =
     (if length packet < 40
      then Inl (ErrText (''encrypted message is only '' @ dec_nat (length packet) @ '' bytes''))
      else if take 8 packet \<noteq> ak_keyID auth then Inl (ErrText ''reply is addressed to a different auth key'')
      else let msgKey = slice 8 24 packet;
               (key, iv) = messageKeys C (ak_key auth) msgKey x
           in res_bind (igeDecrypt C (drop 24 packet) key iv) (\<lambda>plain.
              if messageKey C (ak_key auth) plain x \<noteq> msgKey
              then Inl (ErrText ''msg_key mismatch: the reply was tampered with'')
              else Inr plain))"

definition open_body :: "bytes \<Rightarrow> goerr + bytes" where
  "open_body plain =
     (if length plain < 32 then Inl (ErrText ''decrypted message is too short'')
      else let len = unat (get32 (slice 28 32 plain)) in
           if len < 4 \<or> 32 + len > length plain
           then Inl (ErrText (''declared body length '' @ dec_nat len @ '' does not fit''))
           else Inr (slice 32 (32 + len) plain))"

definition decrypt :: "crypto \<Rightarrow> authKey \<Rightarrow> bytes \<Rightarrow> goerr + bytes" where
  "decrypt C auth packet = res_bind (open_message C auth 8 packet) open_body"

section \<open>Looking for the pong\<close>

text \<open>The loop over a container's entries runs on the cursor; an inner message is shorter
  than the container it was taken from.\<close>

lemma cursor_uint64_advance:
  "cerr (snd (cursor_uint64 c)) = None \<Longrightarrow> ci (snd (cursor_uint64 c)) = ci c + 8 \<and> cerr c = None"
  by (auto simp: cursor_uint64_def cursor_take_def split: if_splits)

lemma cursor_uint32_advance:
  "cerr (snd (cursor_uint32 c)) = None \<Longrightarrow> ci (snd (cursor_uint32 c)) = ci c + 4"
  by (auto simp: cursor_uint32_def cursor_take_def split: if_splits)

lemma cursor_uint_cb [simp]: "cb (snd (cursor_uint64 c)) = cb c" "cb (snd (cursor_uint32 c)) = cb c"
  by (simp_all add: cursor_uint64_def cursor_uint32_def cursor_take_def)

lemma cursor_take_fits:
  "cursor_take n c = (p, c') \<Longrightarrow> cerr c' = None \<Longrightarrow> length p = n \<and> ci c + n \<le> length (cb c)"
  by (auto simp: cursor_take_def split: if_splits)

text \<open>The entry header of a container: \<open>msg_id\<close>, \<open>seqno\<close>, \<open>bytes\<close>.\<close>

definition container_entry :: "cursor \<Rightarrow> nat \<times> cursor" where
  "container_entry c =
     (let (_, c1) = cursor_uint64 c; (_, c2) = cursor_uint32 c1; (n, c3) = cursor_uint32 c2 in (unat n, c3))"

lemma container_entry_cb [simp]: "cb (snd (container_entry c)) = cb c"
  by (simp add: container_entry_def split_beta)

lemma container_entry_advance:
  assumes "container_entry c = (n, c')" and "cerr c' = None" shows "ci c' = ci c + 16"
proof -
  have e3: "cerr (snd (cursor_uint32 (snd (cursor_uint32 (snd (cursor_uint64 c)))))) = None"
    and c': "c' = snd (cursor_uint32 (snd (cursor_uint32 (snd (cursor_uint64 c)))))"
    using assms by (auto simp: container_entry_def split_beta)
  note e2 = cursor_uint32_ok [OF e3] and e1 = cursor_uint32_ok [OF cursor_uint32_ok [OF e3]]
  show ?thesis
    using cursor_uint32_advance [OF e3] cursor_uint32_advance [OF e2] cursor_uint64_advance [OF e1]
    by (simp add: c')
qed

lemma container_inner_shorter:
  assumes "container_entry c = (n, c1)" "cursor_take n c1 = (inner, c2)" "cerr c2 = None"
  shows "length inner < length (cb c)" "cb c2 = cb c"
proof -
  have "cerr c1 = None" using assms(2,3) cursor_take_ok [of n c1] by simp
  with assms(1) have "ci c1 = ci c + 16" by (rule container_entry_advance)
  moreover have "cb c1 = cb c" using assms(1) container_entry_cb [of c] by simp
  ultimately show "length inner < length (cb c)" using cursor_take_fits [OF assms(2,3)] by simp
  show "cb c2 = cb c" using assms(2) \<open>cb c1 = cb c\<close> cursor_take_cb [of n c1] by simp
qed

lemma container_inner_shorter':
  assumes "(n, c1) = container_entry c" "(inner, c2) = cursor_take n c1" "cerr c2 = None"
  shows "length inner < length (cb c)" "length (cb c2) = length (cb c)"
  using container_inner_shorter [OF assms(1) [symmetric] assms(2) [symmetric] assms(3)] by simp_all

lemma container_count_cb:
  "(x, c1) = cursor_uint32 (newCursor body) \<Longrightarrow> (n, c2) = cursor_uint32 c1 \<Longrightarrow> length (cb c2) = length body"
  by (metis cursor_uint_cb(2) newCursor_def cursor.select_convs(1) snd_conv)

function containsPong :: "bytes \<Rightarrow> bytes \<Rightarrow> goerr + bool"
  and pong_entries :: "bytes \<Rightarrow> nat \<Rightarrow> cursor \<Rightarrow> goerr + bool" where
  "containsPong pingID body =
     (if length body < 4 then Inl (ErrText ''empty message body'')
      else let ctor = get32 (take 4 body) in
        if ctor = ctorPong then
          (let (_, c1) = cursor_uint32 (newCursor body); (_, c2) = cursor_uint64 c1; (got, c3) = cursor_take 8 c2 in
           case cerr c3 of
             Some e \<Rightarrow> Inl e
           | None \<Rightarrow> if got \<noteq> pingID then Inl (ErrText ''pong carries a different ping_id'') else Inr True)
        else if ctor = ctorMsgContainer then
          (let (_, c1) = cursor_uint32 (newCursor body); (n, c2) = cursor_uint32 c1; count = unat n in
           if count > 64 then Inl (ErrText (''implausible container size '' @ dec_nat count))
           else pong_entries pingID count c2)
        else if ctor = ctorNewSessionCreated \<or> ctor = ctorBadServerSalt \<or> ctor = ctorBadMsgNotification then Inr False
        else if ctor = ctorRPCError then Inl (ErrText ''server answered with rpc_error'')
        else Inr False)"
| "pong_entries pingID 0 c = Inr False"
| "pong_entries pingID (Suc n) c =
     (let (sz, c1) = container_entry c in
      if sz > length (cb c) then Inl (ErrText ''malformed container entry'')
      else let (inner, c2) = cursor_take sz c1 in
        case cerr c2 of
          Some e \<Rightarrow> Inl e
        | None \<Rightarrow> (case containsPong pingID inner of
              Inr True \<Rightarrow> Inr True
            | _ \<Rightarrow> pong_entries pingID n c2))"
  by pat_completeness auto
termination
  by (relation "measures [\<lambda>x. case x of Inl (_, body) \<Rightarrow> length body | Inr (_, n, c) \<Rightarrow> length (cb c),
       \<lambda>x. case x of Inl (_, body) \<Rightarrow> 65 | Inr (_, n, c) \<Rightarrow> n]")
    (auto dest: container_count_cb container_inner_shorter' container_inner_shorter'(2) simp del: not_less)

declare containsPong.simps [simp del]

section \<open>Pings\<close>

definition recv_plain :: "crypto \<Rightarrow> (goerr \<Rightarrow> goerr) \<Rightarrow> (('c, 'z) session_world_scheme, bytes) io" where
  "recv_plain C wrap =
     io_bind (io_map_err wrap recvRaw) (\<lambda>response.
     io_bind (io_gets sess) (\<lambda>s. io_lift (decrypt C (ss_auth s) response)))"

fun await_pong :: "crypto \<Rightarrow> bytes \<Rightarrow> nat \<Rightarrow> (('c, 'z) session_world_scheme, unit) io" where
  "await_pong C pingID 0 = io_fail (ErrText ''no pong among the server's replies'')"
| "await_pong C pingID (Suc n) =
     io_bind (recv_plain C (ErrWrap ''no pong: '')) (\<lambda>plain.
     io_bind (io_lift (containsPong pingID plain)) (\<lambda>found.
     if found then io_return () else await_pong C pingID n))"

definition ping :: "crypto \<Rightarrow> (('c, 'z) session_world_scheme, int) io" where
  "ping C =
     io_bind (randomBytes 8) (\<lambda>pingID.
     io_bind (encrypt C (buf_raw pingID (buf_uint32 ctorPing []))) (\<lambda>(packet, _).
     io_bind time_now (\<lambda>started.
     io_seq (sendRaw packet)
     (io_seq (await_pong C pingID 4)
     (io_bind time_now (\<lambda>now. io_return (now - started)))))))"

text \<open>The figures a series reports; durations are kept in microseconds.\<close>

record pingStats =
  ps_Sent :: nat
  ps_Received :: nat
  ps_MedianMS :: int
  ps_MinMS :: int
  ps_MaxMS :: int
  ps_JitterMS :: int

text \<open>\<open>ms(d) = d.Microseconds() / 1000\<close>, in units of a microsecond.\<close>

definition ms :: "int \<Rightarrow> int" where
  "ms d = (if 0 \<le> d then d div 1000 else - ((- d) div 1000))"

fun deltas :: "int list \<Rightarrow> int" where
  "deltas (x # y # rest) = \<bar>y - x\<bar> + deltas (y # rest)"
| "deltas _ = 0"

definition summarizeDurations :: "int list \<Rightarrow> nat \<Rightarrow> pingStats" where
  "summarizeDurations samples sent =
     (if samples = [] then \<lparr>ps_Sent = sent, ps_Received = 0, ps_MedianMS = 0, ps_MinMS = 0, ps_MaxMS = 0, ps_JitterMS = 0\<rparr>
      else let jitter = (if length samples > 1 then ms (deltas samples div (int (length samples) - 1)) else 0);
               sorted = sort samples
           in \<lparr>ps_Sent = sent, ps_Received = length samples,
               ps_MedianMS = ms (sorted ! (length sorted div 2)), ps_MinMS = ms (sorted ! 0),
               ps_MaxMS = ms (sorted ! (length sorted - 1)), ps_JitterMS = jitter\<rparr>)"

definition arm_ping :: "int \<Rightarrow> (('c, 'z) session_world_scheme, unit) io" where
  "arm_ping perPing = (if perPing > 0 then io_bind time_now (\<lambda>now. setDeadline (now + perPing)) else io_return ())"

text \<open>\<open>first\<close> tells the first turn, whose error is returned; a later one ends the series.\<close>

fun ping_loop :: "crypto \<Rightarrow> int \<Rightarrow> bool \<Rightarrow> nat \<Rightarrow> int list \<Rightarrow> nat \<Rightarrow> (('c, 'z) session_world_scheme, int list \<times> nat) io" where
  "ping_loop C perPing first 0 samples sent = io_return (samples, sent)"
| "ping_loop C perPing first (Suc n) samples sent =
     io_seq (arm_ping perPing)
     (io_bind (io_try (ping C)) (\<lambda>r. case r of
        Inl err \<Rightarrow> if first then io_fail err else io_return (samples, Suc sent)
      | Inr rtt \<Rightarrow> ping_loop C perPing False n (samples @ [rtt]) (Suc sent)))"

definition pingSeries :: "crypto \<Rightarrow> int \<Rightarrow> int \<Rightarrow> (('c, 'z) session_world_scheme, pingStats) io" where
  "pingSeries C count perPing =
     io_bind (ping_loop C perPing True (nat (if count < 1 then 1 else count)) [] 0) (\<lambda>(samples, sent).
     io_return (summarizeDurations samples sent))"

section \<open>What the peer sees\<close>

lemma padding_for_bounds:
  "12 \<le> padding_for len" "padding_for len \<le> 27" "(len + padding_for len) mod 16 = 0"
proof -
  show "12 \<le> padding_for len" "padding_for len \<le> 27" by (simp_all add: padding_for_def)
  have z: "((m::nat) + (16 - m mod 16) mod 16) mod 16 = 0" for m
  proof -
    have "m mod 16 < 16" by simp
    then have "(m mod 16 + (16 - m mod 16) mod 16) mod 16 = 0" by (cases "m mod 16 = 0") simp_all
    then show ?thesis by (simp only: mod_add_left_eq)
  qed
  show "(len + padding_for len) mod 16 = 0" using z [of "len + 12"] by (simp only: padding_for_def add.assoc)
qed

lemma messageKeys_length:
  assumes "crypto_ok C"
  shows "length (fst (messageKeys C key mk x)) = 32" "length (snd (messageKeys C key mk x)) = 32"
  using assms by (simp_all add: messageKeys_def Let_def crypto_okD)

lemma messageKey_length: "crypto_ok C \<Longrightarrow> length (messageKey C key plain x) = 16"
  by (simp add: messageKey_def Let_def crypto_okD)

lemma seal_ok:
  assumes "crypto_ok C" and "length plain mod 16 = 0"
  shows "\<exists>packet. seal C auth x plain = Inr packet"
proof -
  obtain key iv where k: "messageKeys C (ak_key auth) (messageKey C (ak_key auth) plain x) x = (key, iv)" by fastforce
  have "length key = 32" "length iv = 32"
    using messageKeys_length [OF assms(1), of "ak_key auth" "messageKey C (ak_key auth) plain x" x] by (simp_all add: k)
  then show ?thesis using assms(2) by (auto simp: seal_def k Let_def igeEncrypt_def ige_checks_def aes_key_ok_def)
qed

lemma open_message_iff:
  assumes C: "crypto_ok C" and id: "length (ak_keyID auth) = 8" and n: "16 \<le> length plain"
  shows "open_message C auth x packet = Inr plain \<longleftrightarrow> seal C auth x plain = Inr packet" (is "?l \<longleftrightarrow> ?r")
proof
  assume l: ?l
  let ?mk = "Prelude.slice 8 24 packet"
  obtain key iv where k: "messageKeys C (ak_key auth) ?mk x = (key, iv)" by fastforce
  from l have p: "40 \<le> length packet" "take 8 packet = ak_keyID auth" "igeDecrypt C (drop 24 packet) key iv = Inr plain"
    "messageKey C (ak_key auth) plain x = ?mk"
    by (auto simp: open_message_def k Let_def res_bind_eq_Inr split: if_splits)
  have "packet = ak_keyID auth @ ?mk @ drop 24 packet"
    using append_take_drop_id [of 8 packet] drop_slice [of 8 24 packet] p(2) by simp
  then show ?r using p ige_inverse' [OF C p(3)] by (simp add: seal_def Let_def k)
next
  assume r: ?r
  let ?mk = "messageKey C (ak_key auth) plain x"
  obtain key iv where k: "messageKeys C (ak_key auth) ?mk x = (key, iv)" by fastforce
  from r obtain e where e: "igeEncrypt C plain key iv = Inr e" "packet = ak_keyID auth @ ?mk @ e"
    by (auto simp: seal_def Let_def k res_bind_eq_Inr)
  have "Prelude.slice 8 24 packet = ?mk"
    using id messageKey_length [OF C] unfolding e(2) by (intro slice_prefix) simp_all
  then show ?l
    using id n messageKey_length [OF C] igeEncrypt_length [OF C e(1)] ige_inverse [OF C e(1)]
    by (simp add: open_message_def Let_def k e(2))
qed

text \<open>A message body inside its envelope: salt, session, id, sequence number, length.\<close>

lemma open_body_iff:
  "open_body plain = Inr body \<longleftrightarrow>
     (\<exists>hdr rest. length hdr = 28 \<and> 4 \<le> length body \<and> length body < 4294967296 \<and>
        plain = hdr @ put32 (word_of_nat (length body)) @ body @ rest)" (is "?l \<longleftrightarrow> ?r")
proof
  assume ?l
  then have l: "32 \<le> length plain" "body = Prelude.slice 32 (32 + unat (get32 (Prelude.slice 28 32 plain))) plain"
    "4 \<le> unat (get32 (Prelude.slice 28 32 plain))" "32 + unat (get32 (Prelude.slice 28 32 plain)) \<le> length plain"
    by (auto simp: open_body_def Let_def split: if_splits)
  then have len: "length body = unat (get32 (Prelude.slice 28 32 plain))" by simp
  have "length (Prelude.slice 28 32 plain) = 4" using l(1) by simp
  then have w: "put32 (word_of_nat (length body)) = Prelude.slice 28 32 plain" by (simp add: len put32_get32)
  have "plain = take 28 plain @ Prelude.slice 28 32 plain @ body @ drop (32 + length body) plain"
    using drop_slice [of 28 32 plain] drop_slice [of 32 "32 + length body" plain] append_take_drop_id [of 28 plain]
    unfolding len l(2) [symmetric] by simp
  then show ?r using l len unat_u32_lt [of "get32 (Prelude.slice 28 32 plain)"] w
    by (intro exI [of _ "take 28 plain"] exI [of _ "drop (32 + length body) plain"]) simp
next
  assume ?r
  then obtain hdr rest where m: "length hdr = 28" "4 \<le> length body" "length body < 4294967296"
    and p: "plain = hdr @ put32 (word_of_nat (length body)) @ body @ rest" by blast
  have "Prelude.slice 28 32 plain = put32 (word_of_nat (length body))"
    using m slice_prefix [of hdr 28 32 "put32 (word_of_nat (length body))" "body @ rest"] by (simp add: p)
  moreover have "Prelude.slice 32 (32 + length body) plain = body"
    using m slice_prefix [of "hdr @ put32 (word_of_nat (length body))" 32 "32 + length body" body rest] by (simp add: p)
  ultimately show ?l using m by (simp add: open_body_def Let_def unat_of_nat p)
qed

lemma encrypt_Inr:
  assumes "encrypt C body w = (Inr (packet, msgID), w')"
  obtains filler where
    "length filler = padding_for (length (plain_header (sess w) msgID (ss_seqNo (sess w) * 2 + 1) body))"
    "seal C (ss_auth (sess w)) 0 (plain_header (sess w) msgID (ss_seqNo (sess w) * 2 + 1) body @ filler) = Inr packet"
    "sess w' = (sess w)\<lparr>ss_seqNo := ss_seqNo (sess w) + 1\<rparr>"
proof -
  from assms obtain w1 filler w2 where 1: "messageID (w\<lparr>sess := (sess w)\<lparr>ss_seqNo := ss_seqNo (sess w) + 1\<rparr>\<rparr>) = (Inr msgID, w1)"
    "randomBytes (padding_for (length (plain_header (sess w) msgID (ss_seqNo (sess w) * 2 + 1) body))) w1 = (Inr filler, w')"
    "seal C (ss_auth (sess w)) 0 (plain_header (sess w) msgID (ss_seqNo (sess w) * 2 + 1) body @ filler) = Inr packet"
    by (auto simp: encrypt_def Let_def io_seq_def io_bind_eq_Inr)
  have "io_keeps sess messageID" unfolding messageID_def
    by (intro keeps_intros time_now_keeps_sess)
  from io_keepsD [OF this 1(1)] have "sess w1 = (sess w)\<lparr>ss_seqNo := ss_seqNo (sess w) + 1\<rparr>" by simp
  moreover have "sess w' = sess w1" using 1(2) by (auto simp: randomBytes_Inr)
  ultimately show ?thesis using that randomBytes_length [OF 1(2)] 1(3) by simp
qed

text \<open>What \<open>encrypt\<close> seals is what the server reads back, with the padding the protocol
  asks for.\<close>

lemma encrypt_opens:
  assumes C: "crypto_ok C" and e: "encrypt C body w = (Inr (packet, msgID), w')" and s: "s = sess w"
    and len: "length (ak_keyID (ss_auth s)) = 8" "length (ss_id s) = 8" "length (ss_salt s) = 8"
    "4 \<le> length body" "length body < 4294967296"
  shows "\<exists>filler. 12 \<le> length filler \<and> length filler \<le> 27 \<and>
     open_message C (ss_auth s) 0 packet = Inr (plain_header s msgID (ss_seqNo s * 2 + 1) body @ filler) \<and>
     open_body (plain_header s msgID (ss_seqNo s * 2 + 1) body @ filler) = Inr body \<and>
     sess w' = s\<lparr>ss_seqNo := ss_seqNo s + 1\<rparr>"
  using e
proof (cases rule: encrypt_Inr)
  case (1 filler)
  let ?h = "plain_header s msgID (ss_seqNo s * 2 + 1) body"
  have h: "?h = (ss_salt s @ ss_id s @ put64 msgID @ put32 (ss_seqNo s * 2 + 1)) @ put32 (word_of_nat (length body)) @ body"
    by (simp add: plain_header_def buf_raw_def buf_uint32_def buf_uint64_def)
  have "open_message C (ss_auth s) 0 packet = Inr (?h @ filler)"
    using open_message_iff [OF C len(1), of "?h @ filler" 0 packet] 1(2) len by (simp add: s [symmetric] h)
  moreover have "open_body (?h @ filler) = Inr body"
    unfolding open_body_iff h using len
    by (intro exI [of _ "ss_salt s @ ss_id s @ put64 msgID @ put32 (ss_seqNo s * 2 + 1)"] exI [of _ filler]) simp
  ultimately show ?thesis
    using 1(1,3) padding_for_bounds [of "length ?h"] by (intro exI [of _ filler]) (simp add: s)
qed

lemma encrypt_total:
  assumes C: "crypto_ok C" and n: "27 \<le> length (entropy w)"
  shows "\<exists>packet msgID w'. encrypt C body w = (Inr (packet, msgID), w')"
proof -
  let ?s = "sess w"
  obtain msgID w1 where m: "messageID (w\<lparr>sess := ?s\<lparr>ss_seqNo := ss_seqNo ?s + 1\<rparr>\<rparr>) = (Inr msgID, w1)"
    using time_now_total [of "w\<lparr>sess := ?s\<lparr>ss_seqNo := ss_seqNo ?s + 1\<rparr>\<rparr>"] by (auto simp: messageID_def io_bind_def)
  let ?p = "plain_header ?s msgID (ss_seqNo ?s * 2 + 1) body"
  have "io_keeps entropy messageID" unfolding messageID_def by (intro keeps_intros)
  from io_keepsD [OF this m] have "padding_for (length ?p) \<le> length (entropy w1)"
    using n padding_for_bounds(2) [of "length ?p"] by simp
  then obtain filler w2 where f: "randomBytes (padding_for (length ?p)) w1 = (Inr filler, w2)"
    by (simp add: randomBytes_ok)
  have "length (?p @ filler) mod 16 = 0"
    using padding_for_bounds(3) randomBytes_length [OF f] by simp
  from seal_ok [OF C this] obtain packet where "seal C (ss_auth ?s) 0 (?p @ filler) = Inr packet" by blast
  with m f show ?thesis by (simp add: encrypt_def Let_def io_seq_def io_bind_def)
qed

text \<open>The client accepts exactly what was sealed for it.\<close>

lemma decrypt_iff:
  assumes C: "crypto_ok C" and id: "length (ak_keyID auth) = 8"
  shows "decrypt C auth packet = Inr body \<longleftrightarrow>
     (\<exists>plain. seal C auth 8 plain = Inr packet \<and> open_body plain = Inr body)" (is "?l \<longleftrightarrow> ?r")
proof -
  have n: "16 \<le> length plain" if "open_body plain = Inr body" for plain
    using that by (auto simp: open_body_def split: if_splits)
  show ?thesis
    unfolding decrypt_def res_bind_eq_Inr using open_message_iff [OF C id] n by blast
qed

section \<open>Pongs in containers\<close>

definition container_item :: "u64 \<times> u32 \<times> bytes \<Rightarrow> bytes" where
  "container_item m = (case m of (i, q, inner) \<Rightarrow> put64 i @ put32 q @ put32 (word_of_nat (length inner)) @ inner)"

definition container_body :: "(u64 \<times> u32 \<times> bytes) list \<Rightarrow> bytes" where
  "container_body es = put32 ctorMsgContainer @ put32 (word_of_nat (length es)) @ concat (map container_item es)"

lemma container_entry_cur:
  "length inner < 4294967296 \<Longrightarrow> container_entry (cur xs (container_item (i, q, inner) @ ys)) =
     (length inner, cur (xs @ put64 i @ put32 q @ put32 (word_of_nat (length inner))) (inner @ ys))"
  by (simp add: container_entry_def container_item_def cursor_uint64_cur cursor_uint32_cur unat_of_nat)

lemma length_cb_cur [simp]: "length (cb (cur xs ys)) = length xs + length ys"
  by (simp add: cur_def)

lemma pong_entries_cur:
  assumes "\<forall>m \<in> set es. length (snd (snd m)) < 4294967296"
  shows "pong_entries pingID (length es) (cur xs (concat (map container_item es) @ ys)) =
     Inr (\<exists>m \<in> set es. containsPong pingID (snd (snd m)) = Inr True)"
  using assms
proof (induction es arbitrary: xs)
  case Nil
  show ?case by simp
next
  case (Cons m es)
  obtain i q inner where m: "m = (i, q, inner)" by (cases m) auto
  have "length inner \<le> length (container_item (i, q, inner))" by (simp add: container_item_def)
  then show ?case
    using Cons.IH [of "xs @ put64 i @ put32 q @ put32 (word_of_nat (length inner)) @ inner"] Cons.prems
      container_entry_cur [of inner xs i q "concat (map container_item es) @ ys"]
    by (auto simp: m cursor_take_cur split: sum.splits bool.splits)
qed

lemma containsPong_container:
  assumes "length es \<le> 64" and "\<forall>m \<in> set es. length (snd (snd m)) < 4294967296"
  shows "containsPong pingID (container_body es @ rest) =
     Inr (\<exists>m \<in> set es. containsPong pingID (snd (snd m)) = Inr True)"
proof -
  let ?b = "container_body es @ rest"
  have h: "take 4 ?b = put32 ctorMsgContainer" by (simp add: container_body_def)
  have c: "cursor_uint32 (newCursor ?b) = (ctorMsgContainer, cur (put32 ctorMsgContainer)
      (put32 (word_of_nat (length es)) @ concat (map container_item es) @ rest))"
    using cursor_uint32_cur [of "[]" ctorMsgContainer] by (simp add: newCursor_cur container_body_def)
  have "ctorMsgContainer \<noteq> ctorPong" by (simp add: ctorMsgContainer_def ctorPong_def)
  then show ?thesis
    using assms pong_entries_cur [OF assms(2), of pingID "put32 ctorMsgContainer @ put32 (word_of_nat (length es))" rest]
    by (subst containsPong.simps) (simp add: h c [unfolded container_body_def append_assoc] cursor_uint32_cur unat_of_nat container_body_def)
qed

lemma containsPong_pong:
  assumes "length pingID = 8"
  shows "containsPong pingID (put32 ctorPong @ put64 i @ pid @ rest) = Inr True \<longleftrightarrow> take 8 (pid @ rest) = pingID"
proof -
  let ?b = "put32 ctorPong @ put64 i @ pid @ rest"
  have c: "cursor_uint64 (snd (cursor_uint32 (newCursor ?b))) = (i, cur (put32 ctorPong @ put64 i) (pid @ rest))"
    using cursor_uint32_cur [of "[]" ctorPong] by (simp add: newCursor_cur cursor_uint64_cur)
  show ?thesis
  proof (cases "8 \<le> length (pid @ rest)")
    case True
    then have "cursor_take 8 (cur (put32 ctorPong @ put64 i) (pid @ rest)) = (take 8 (pid @ rest),
        cur ((put32 ctorPong @ put64 i) @ take 8 (pid @ rest)) (drop 8 (pid @ rest)))"
      using cursor_take_cur [of "take 8 (pid @ rest)" 8 "put32 ctorPong @ put64 i" "drop 8 (pid @ rest)"]
      by (simp only: append_take_drop_id length_take min_absorb2)
    with c show ?thesis by (subst containsPong.simps) (simp add: split_beta)
  next
    case False
    then have "take 8 (pid @ rest) \<noteq> pingID" using assms by auto
    moreover from False have "cerr (snd (cursor_take 8 (cur (put32 ctorPong @ put64 i) (pid @ rest)))) \<noteq> None"
      by (simp add: cursor_take_short)
    ultimately show ?thesis using c
      by (subst containsPong.simps) (auto simp: split_beta split: option.splits)
  qed
qed

section \<open>What a series reports\<close>

lemma ms_mono: "a \<le> b \<Longrightarrow> ms a \<le> ms b"
  unfolding ms_def using zdiv_mono1 [of a b 1000] zdiv_mono1 [of "- b" "- a" 1000]
  by (auto simp: pos_imp_zdiv_nonneg_iff intro: order_trans [of _ 0])

lemma deltas_nonneg: "0 \<le> deltas xs"
  by (induction xs rule: deltas.induct) simp_all

lemma summarizeDurations_sound:
  assumes "samples \<noteq> []" and st: "st = summarizeDurations samples sent"
  shows "ps_Sent st = sent" "ps_Received st = length samples"
    "ps_MinMS st = ms (Min (set samples))" "ps_MaxMS st = ms (Max (set samples))"
    "ps_MedianMS st \<in> ms ` set samples" "ps_MinMS st \<le> ps_MedianMS st" "ps_MedianMS st \<le> ps_MaxMS st"
    "0 \<le> ps_JitterMS st"
proof -
  let ?s = "sort samples"
  have n: "0 < length samples" using assms(1) by simp
  have e: "st = \<lparr>ps_Sent = sent, ps_Received = length samples, ps_MedianMS = ms (?s ! (length ?s div 2)),
      ps_MinMS = ms (?s ! 0), ps_MaxMS = ms (?s ! (length ?s - 1)),
      ps_JitterMS = (if length samples > 1 then ms (deltas samples div (int (length samples) - 1)) else 0)\<rparr>"
    using assms(1) by (simp add: st summarizeDurations_def Let_def)
  show "ps_Sent st = sent" "ps_Received st = length samples" by (simp_all add: e)
  have mem: "?s ! i \<in> set samples" if "i < length samples" for i
    using nth_mem [of i ?s] that by simp
  have lo: "?s ! 0 \<le> x" and hi: "x \<le> ?s ! (length ?s - 1)" if "x \<in> set samples" for x
  proof -
    from that obtain i where "i < length ?s" "?s ! i = x" by (metis in_set_conv_nth set_sort)
    then show "?s ! 0 \<le> x" "x \<le> ?s ! (length ?s - 1)"
      using sorted_nth_mono [OF sorted_sort [of samples], of 0 i]
        sorted_nth_mono [OF sorted_sort [of samples], of i "length ?s - 1"] by auto
  qed
  have "?s ! 0 = Min (set samples)" using lo mem [of 0] n by (intro Min_eqI [symmetric]) auto
  then show "ps_MinMS st = ms (Min (set samples))" by (simp add: e)
  have "?s ! (length ?s - 1) = Max (set samples)" using hi mem [of "length samples - 1"] n
    by (intro Max_eqI [symmetric]) auto
  then show "ps_MaxMS st = ms (Max (set samples))" by (simp add: e)
  have m: "?s ! (length ?s div 2) \<in> set samples" using n by (intro mem) simp
  then show "ps_MedianMS st \<in> ms ` set samples" by (simp add: e)
  show "ps_MinMS st \<le> ps_MedianMS st" "ps_MedianMS st \<le> ps_MaxMS st"
    using lo [OF m] hi [OF m] by (simp_all add: e ms_mono)
  show "0 \<le> ps_JitterMS st"
    using deltas_nonneg [of samples] by (auto simp: e ms_def pos_imp_zdiv_nonneg_iff)
qed

lemma ping_loop_counts:
  "ping_loop C perPing first n samples sent w = (Inr (out, tot), w') \<Longrightarrow> sent = length samples \<Longrightarrow>
     (first \<longrightarrow> samples = []) \<Longrightarrow>
     length samples \<le> length out \<and> length out \<le> tot \<and> tot \<le> length out + 1 \<and> tot \<le> sent + n \<and>
     (first \<and> 0 < n \<longrightarrow> out \<noteq> [])"
proof (induction n arbitrary: first samples sent w)
  case 0
  then show ?case by auto
next
  case (Suc n)
  from Suc.prems(1) obtain r w1 where
    r: "(case r of Inl err \<Rightarrow> if first then io_fail err else io_return (samples, Suc sent)
         | Inr rtt \<Rightarrow> ping_loop C perPing False n (samples @ [rtt]) (Suc sent)) w1 = (Inr (out, tot), w')"
    by (auto simp: io_seq_def io_bind_eq_Inr)
  show ?case
  proof (cases r)
    case (Inl e)
    with r Suc.prems(2) show ?thesis by (auto split: if_splits)
  next
    case (Inr rtt)
    with r have l: "ping_loop C perPing False n (samples @ [rtt]) (Suc sent) w1 = (Inr (out, tot), w')" by simp
    have "Suc sent = length (samples @ [rtt])" using Suc.prems(2) by simp
    from Suc.IH [OF l this] show ?thesis by auto
  qed
qed

lemma pingSeries_sound:
  assumes "pingSeries C count perPing w = (Inr st, w')"
  shows "1 \<le> ps_Received st" "ps_Received st \<le> ps_Sent st" "ps_Sent st \<le> ps_Received st + 1"
    "int (ps_Sent st) \<le> max 1 count" "ps_MinMS st \<le> ps_MedianMS st" "ps_MedianMS st \<le> ps_MaxMS st"
proof -
  from assms obtain samples sent where l: "ping_loop C perPing True (nat (if count < 1 then 1 else count)) [] 0 w = (Inr (samples, sent), w')"
    and st: "st = summarizeDurations samples sent"
    by (auto simp: pingSeries_def io_bind_eq_Inr)
  have c: "samples \<noteq> []" "length samples \<le> sent" "sent \<le> length samples + 1" "sent \<le> nat (if count < 1 then 1 else count)"
    using ping_loop_counts [OF l] by auto
  note s = summarizeDurations_sound [OF c(1) st]
  have "0 < length samples" using c(1) by simp
  then show "1 \<le> ps_Received st" "ps_Received st \<le> ps_Sent st" "ps_Sent st \<le> ps_Received st + 1"
    unfolding s(1,2) using c by linarith+
  show "int (ps_Sent st) \<le> max 1 count" unfolding s(1) using c(4) by (auto split: if_splits)
  show "ps_MinMS st \<le> ps_MedianMS st" "ps_MedianMS st \<le> ps_MaxMS st" by (rule s)+
qed

end
