(* ===== verification/Text.thy ===== *)
theory Text
  imports Errors
begin

text \<open>
  The parts of Go's \<open>strings\<close>, \<open>strconv\<close>, \<open>encoding/hex\<close> and \<open>encoding/base64\<close>
  that the program uses on its inputs.  A string is its bytes; case mapping and white space
  are those of ASCII, and bytes from 0x80 on stay as they are.
\<close>

section \<open>strings\<close>

definition is_space :: "char \<Rightarrow> bool" where
  "is_space ch \<longleftrightarrow> (of_char ch :: nat) \<in> {9, 10, 11, 12, 13, 32}"

text \<open>\<open>strings.Trim\<close>, \<open>strings.TrimSpace\<close> and \<open>strings.TrimRight\<close>.\<close>

definition trim_right :: "(char \<Rightarrow> bool) \<Rightarrow> string \<Rightarrow> string" where
  "trim_right P s = rev (dropWhile P (rev s))"

definition trim_chars :: "(char \<Rightarrow> bool) \<Rightarrow> string \<Rightarrow> string" where
  "trim_chars P s = trim_right P (dropWhile P s)"

definition trim_space :: "string \<Rightarrow> string" where
  "trim_space s = trim_chars is_space s"

definition lower_char :: "char \<Rightarrow> char" where
  "lower_char ch = (let n = of_char ch :: nat in if 65 \<le> n \<and> n \<le> 90 then char_of (n + 32) else ch)"

definition to_lower :: "string \<Rightarrow> string" where
  "to_lower s = map lower_char s"

text \<open>The first and the last position of a byte (\<open>strings.IndexByte\<close>, \<open>LastIndexByte\<close>).\<close>

fun first_index :: "'a \<Rightarrow> 'a list \<Rightarrow> nat option" where
  "first_index x [] = None"
| "first_index x (y # ys) = (if y = x then Some 0 else map_option Suc (first_index x ys))"

fun last_index :: "'a \<Rightarrow> 'a list \<Rightarrow> nat option" where
  "last_index x [] = None"
| "last_index x (y # ys) = (case last_index x ys of
      Some i \<Rightarrow> Some (Suc i) | None \<Rightarrow> if y = x then Some 0 else None)"

text \<open>The first position of a substring (\<open>strings.Index\<close>).\<close>

fun index_of :: "string \<Rightarrow> string \<Rightarrow> nat option" where
  "index_of p [] = (if p = [] then Some 0 else None)"
| "index_of p (x # xs) = (if has_prefix (x # xs) p then Some 0 else map_option Suc (index_of p xs))"

text \<open>\<open>strings.Cut\<close> at a byte, and \<open>strings.Split\<close>.\<close>

fun cut :: "char \<Rightarrow> string \<Rightarrow> string \<times> string" where
  "cut c [] = ([], [])"
| "cut c (x # xs) = (if x = c then ([], xs) else (case cut c xs of (a, b) \<Rightarrow> (x # a, b)))"

fun split_on :: "char \<Rightarrow> string \<Rightarrow> string list" where
  "split_on c [] = [[]]"
| "split_on c (x # xs) =
     (if x = c then [] # split_on c xs
      else (case split_on c xs of [] \<Rightarrow> [[x]] | p # ps \<Rightarrow> (x # p) # ps))"

definition is_digit :: "char \<Rightarrow> bool" where
  "is_digit ch \<longleftrightarrow> 48 \<le> (of_char ch :: nat) \<and> (of_char ch :: nat) \<le> 57"

definition is_alpha :: "char \<Rightarrow> bool" where
  "is_alpha ch \<longleftrightarrow> (let n = of_char ch :: nat in 65 \<le> n \<and> n \<le> 90 \<or> 97 \<le> n \<and> n \<le> 122)"

section \<open>strconv\<close>

text \<open>\<open>%q\<close> of a string, for ASCII text (bytes from 128 on are kept, as in valid UTF-8).\<close>

definition quote_char :: "char \<Rightarrow> string" where
  "quote_char ch =
     (let n = of_char ch :: nat in
      if n = 34 \<or> n = 92 then [char_of (92 :: nat), ch]
      else if n = 7 then [char_of (92 :: nat), CHR ''a''] else if n = 8 then [char_of (92 :: nat), CHR ''b'']
      else if n = 9 then [char_of (92 :: nat), CHR ''t''] else if n = 10 then [char_of (92 :: nat), CHR ''n'']
      else if n = 11 then [char_of (92 :: nat), CHR ''v''] else if n = 12 then [char_of (92 :: nat), CHR ''f'']
      else if n = 13 then [char_of (92 :: nat), CHR ''r'']
      else if n < 32 \<or> n = 127 then char_of (92 :: nat) # CHR ''x'' # hex_byte (word_of_nat n)
      else [ch])"

definition quote :: "string \<Rightarrow> string" where
  "quote s = [char_of (34 :: nat)] @ concat (map quote_char s) @ [char_of (34 :: nat)]"

text \<open>\<open>strconv.Atoi\<close>: an optional sign, decimal digits, and the range of a 64-bit \<open>int\<close>.\<close>

definition digits_nat :: "string \<Rightarrow> nat" where
  "digits_nat s = foldl (\<lambda>v ch. 10 * v + (of_char ch - 48)) 0 s"

definition atoi :: "string \<Rightarrow> goerr + int" where
  "atoi s =
     (let (neg, ds) = (case s of [] \<Rightarrow> (False, [])
          | ch # rest \<Rightarrow> if ch = CHR ''-'' then (True, rest) else if ch = CHR ''+'' then (False, rest) else (False, s));
          v = int (digits_nat ds) in
      if ds = [] \<or> \<not> list_all is_digit ds
      then Inl (ErrText (''strconv.Atoi: parsing '' @ quote s @ '': invalid syntax''))
      else if neg \<and> v > 9223372036854775808 \<or> \<not> neg \<and> v > 9223372036854775807
      then Inl (ErrText (''strconv.Atoi: parsing '' @ quote s @ '': value out of range''))
      else Inr (if neg then - v else v))"

section \<open>encoding/hex\<close>

definition unhex :: "char \<Rightarrow> nat option" where
  "unhex ch =
     (let n = of_char ch :: nat in
      if 48 \<le> n \<and> n \<le> 57 then Some (n - 48)
      else if 97 \<le> n \<and> n \<le> 102 then Some (n - 87)
      else if 65 \<le> n \<and> n \<le> 70 then Some (n - 55)
      else None)"

fun hex_decode :: "string \<Rightarrow> bytes option" where
  "hex_decode [] = Some []"
| "hex_decode [a] = None"
| "hex_decode (a # b # rest) =
     (case (unhex a, unhex b) of
        (Some x, Some y) \<Rightarrow> map_option ((#) (word_of_nat (16 * x + y))) (hex_decode rest)
      | _ \<Rightarrow> None)"

section \<open>encoding/base64\<close>

text \<open>The standard and the URL alphabet differ in the last two digits.\<close>

definition b64_digit :: "bool \<Rightarrow> char \<Rightarrow> nat option" where
  "b64_digit url ch =
     (let n = of_char ch :: nat in
      if 65 \<le> n \<and> n \<le> 90 then Some (n - 65)
      else if 97 \<le> n \<and> n \<le> 122 then Some (n - 71)
      else if 48 \<le> n \<and> n \<le> 57 then Some (n + 4)
      else if ch = (if url then CHR ''-'' else CHR ''+'') then Some 62
      else if ch = (if url then CHR ''_'' else CHR ''/'') then Some 63
      else None)"

text \<open>The unpadded decoders: a last group of two or three digits gives one or two bytes, whose
  spare bits are ignored; one digit is an error.  Line breaks are skipped anywhere.\<close>

fun b64_groups :: "nat list \<Rightarrow> bytes option" where
  "b64_groups [] = Some []"
| "b64_groups [a] = None"
| "b64_groups [a, b] = Some [word_of_nat (4 * a + b div 16)]"
| "b64_groups [a, b, c] = Some [word_of_nat (4 * a + b div 16), word_of_nat (16 * b + c div 4)]"
| "b64_groups (a # b # c # d # rest) =
     map_option (\<lambda>out. word_of_nat (4 * a + b div 16) # word_of_nat (16 * b + c div 4) # word_of_nat (64 * c + d) # out)
       (b64_groups rest)"

definition b64_raw_decode :: "bool \<Rightarrow> string \<Rightarrow> bytes option" where
  "b64_raw_decode url s =
     (let ds = map (b64_digit url) (filter (\<lambda>ch. (of_char ch :: nat) \<noteq> 10 \<and> (of_char ch :: nat) \<noteq> 13) s) in
      if None \<in> set ds then None else b64_groups (map the ds))"

end
