(* ===== verification/Api.thy ===== *)
theory Api
  imports Complex_Main Session Text
begin

text \<open>
  \<open>internal/mtproto/api.go\<close>: API calls on an encrypted session.  \<open>dispatch\<close> walks one
  decrypted message (rpc\_result, gzip, containers, salt corrections), \<open>awaitResult\<close> and
  \<open>invoke\<close> wait for the answer, and the three queries parse it.  \<open>compress/gzip\<close> is the
  parameter \<open>gzip\<close>.  Nested gzip objects are the only unbounded recursion: the model
  counts them against a finite call stack, whose exhaustion kills a Go program.
\<close>

definition ctorRPCResult :: u32 where "ctorRPCResult = 0xF35C6D01"
definition ctorGzipPacked :: u32 where "ctorGzipPacked = 0x3072CFA1"
definition ctorInvokeWithLayer :: u32 where "ctorInvokeWithLayer = 0xDA9B0D0D"
definition ctorInitConnection :: u32 where "ctorInitConnection = 0xC1CD5EA9"
definition ctorHelpGetNearestDC :: u32 where "ctorHelpGetNearestDC = 0x1FB33026"
definition ctorNearestDC :: u32 where "ctorNearestDC = 0x8E1A1775"
definition ctorHelpGetConfig :: u32 where "ctorHelpGetConfig = 0xC4F9186B"
definition ctorConfig :: u32 where "ctorConfig = 0xCC1A241E"
definition ctorDCOption :: u32 where "ctorDCOption = 0x18B7A10D"
definition ctorBoolTrue :: u32 where "ctorBoolTrue = 0x997275B5"
definition ctorLangpackGetLangPack :: u32 where "ctorLangpackGetLangPack = 0xF2F2330A"
definition ctorLangPackDifference :: u32 where "ctorLangPackDifference = 0xF385C1F6"

definition apiLayer :: u32 where "apiLayer = 158"
definition maxRPCReplies :: nat where "maxRPCReplies = 16"

record nearestDC =
  nd_Country :: string
  nd_ThisDC :: int
  nd_NearestDC :: int

record dcOption =
  do_ID :: int
  do_Addr :: string

record configInfo =
  cf_ThisDC :: int
  cf_TestMode :: bool
  cf_Options :: "dcOption list"
  cf_Unexpected :: "string list"
  cf_Parsed :: bool

record speedStats =
  sp_Bytes :: nat
  sp_Seconds :: rat
  sp_KBPerSec :: rat

text \<open>The decompressor: what \<open>gzip.NewReader\<close> reports, and the bytes a reader yields before
  its end or its error.\<close>

record gzip =
  gz_open :: "bytes \<Rightarrow> goerr option"
  gz_read :: "bytes \<Rightarrow> bytes \<times> goerr option"

definition ctor_of :: "bytes \<Rightarrow> u32" where
  "ctor_of body = get32 (take 4 body)"

definition gzip_limit :: nat where "gzip_limit = 16777216"

text \<open>\<open>io.ReadAll(io.LimitReader(reader, 16<<20))\<close>: an error after the limit is not seen.\<close>

definition unwrap :: "gzip \<Rightarrow> bytes \<Rightarrow> goerr + bytes" where
  "unwrap G body =
     (if length body < 4 \<or> ctor_of body \<noteq> ctorGzipPacked then Inr body
      else let (_, c1) = cursor_uint32 (newCursor body); (packed, c2) = cursor_bytes c1 in
        case cerr c2 of
          Some e \<Rightarrow> Inl e
        | None \<Rightarrow> (case gz_open G packed of
              Some e \<Rightarrow> Inl (ErrWrap ''gzip_packed: '' e)
            | None \<Rightarrow> (case gz_read G packed of
                  (out, Some e) \<Rightarrow> if length out < gzip_limit then Inl e else Inr (take gzip_limit out)
                | (out, None) \<Rightarrow> Inr (take gzip_limit out))))"

definition parseRPCError :: "bytes \<Rightarrow> goerr" where
  "parseRPCError payload =
     (let (_, c1) = cursor_uint32 (newCursor payload);
          (code, c2) = cursor_uint32 c1;
          (message, c3) = cursor_bytes c2
      in case cerr c3 of Some e \<Rightarrow> e | None \<Rightarrow> ErrRPC (sint code) (bytes_str message))"

section \<open>Dispatching one message\<close>

text \<open>The answer: the payload, whether to retry, whether it was found.  The session's salt
  is passed along.\<close>

type_synonym dispatched = "(goerr + bytes \<times> bool \<times> bool) \<times> bytes"

definition stack_overflow :: goerr where "stack_overflow = ErrPanic ''stack overflow''"

function dispatch :: "gzip \<Rightarrow> u64 \<Rightarrow> nat \<Rightarrow> bytes \<Rightarrow> bytes \<Rightarrow> dispatched"
  and dispatch_entries :: "gzip \<Rightarrow> u64 \<Rightarrow> nat \<Rightarrow> nat \<Rightarrow> cursor \<Rightarrow> bytes \<Rightarrow> dispatched" where
  "dispatch G msgID stack body salt =
     (if length body < 4 then (Inl (ErrText ''empty message body''), salt)
      else let ctor = ctor_of body in
        if ctor = ctorRPCResult then
          (let (_, c1) = cursor_uint32 (newCursor body); (answered, c2) = cursor_uint64 c1 in
           case cerr c2 of
             Some e \<Rightarrow> (Inl e, salt)
           | None \<Rightarrow>
               if answered \<noteq> msgID then (Inr ([], False, False), salt)
               else (case unwrap G (drop (ci c2) body) of
                   Inl e \<Rightarrow> (Inl e, salt)
                 | Inr payload \<Rightarrow>
                     if 4 \<le> length payload \<and> ctor_of payload = ctorRPCError
                     then (Inl (parseRPCError payload), salt)
                     else (Inr (payload, False, True), salt)))
        else if ctor = ctorGzipPacked then
          (case unwrap G body of
             Inl e \<Rightarrow> (Inl e, salt)
           | Inr payload \<Rightarrow> (case stack of
                 0 \<Rightarrow> (Inl stack_overflow, salt)
               | Suc st \<Rightarrow> dispatch G msgID st payload salt))
        else if ctor = ctorMsgContainer then
          (let (_, c1) = cursor_uint32 (newCursor body); (n, c2) = cursor_uint32 c1; count = unat n in
           if count > 64 then (Inl (ErrText (''implausible container size '' @ dec_nat count)), salt)
           else dispatch_entries G msgID stack count c2 salt)
        else if ctor = ctorBadServerSalt then
          (let (_, c1) = cursor_uint32 (newCursor body); (_, c2) = cursor_uint64 c1; (_, c3) = cursor_uint32 c2;
               (_, c4) = cursor_uint32 c3; (fresh, c5) = cursor_take 8 c4 in
           case cerr c5 of
             Some e \<Rightarrow> (Inl e, salt)
           | None \<Rightarrow> (Inr ([], True, False), fresh))
        else if ctor = ctorNewSessionCreated then
          (let (_, c1) = cursor_uint32 (newCursor body); (_, c2) = cursor_uint64 c1; (_, c3) = cursor_uint64 c2;
               (fresh, c4) = cursor_take 8 c3 in
           (Inr ([], False, False), if cerr c4 = None then fresh else salt))
        else (Inr ([], False, False), salt))"
| "dispatch_entries G msgID stack 0 c salt = (Inr ([], False, False), salt)"
| "dispatch_entries G msgID stack (Suc n) c salt =
     (let (sz, c1) = container_entry c in
      if sz > length (cb c) then (Inl (ErrText ''malformed container entry''), salt)
      else let (inner, c2) = cursor_take sz c1 in
        case cerr c2 of
          Some e \<Rightarrow> (Inl e, salt)
        | None \<Rightarrow> (case dispatch G msgID stack inner salt of
              (Inl e, salt') \<Rightarrow> (Inl e, salt')
            | (Inr (result, retry, found), salt') \<Rightarrow>
                if retry \<or> found then (Inr (result, retry, found), salt')
                else dispatch_entries G msgID stack n c2 salt'))"
  by pat_completeness auto
termination
  by (relation "measures
       [\<lambda>x. case x of Inl (_, _, st, _, _) \<Rightarrow> st | Inr (_, _, st, _, _, _) \<Rightarrow> st,
        \<lambda>x. case x of Inl (_, _, _, body, _) \<Rightarrow> length body | Inr (_, _, _, n, c, _) \<Rightarrow> length (cb c),
        \<lambda>x. case x of Inl _ \<Rightarrow> 65 | Inr (_, _, _, n, c, _) \<Rightarrow> n]")
    (auto dest: container_count_cb container_inner_shorter' container_inner_shorter'(2) simp del: not_less)

declare dispatch.simps [simp del]

section \<open>Waiting for the answer\<close>

definition dispatch_io ::
  "gzip \<Rightarrow> nat \<Rightarrow> u64 \<Rightarrow> bytes \<Rightarrow> (('c, 'z) session_world_scheme, bytes \<times> bool \<times> bool) io" where
  "dispatch_io G stack msgID plain = (\<lambda>w.
     case dispatch G msgID stack plain (ss_salt (sess w)) of
       (r, salt) \<Rightarrow> (r, w\<lparr>sess := (sess w)\<lparr>ss_salt := salt\<rparr>\<rparr>))"

text \<open>The result, or \<open>None\<close> when the query has to be sent again.\<close>

fun await_replies ::
  "crypto \<Rightarrow> gzip \<Rightarrow> nat \<Rightarrow> nat \<Rightarrow> u64 \<Rightarrow> int \<Rightarrow> (('c, 'z) session_world_scheme, bytes option) io" where
  "await_replies C G stack 0 msgID deadline = io_fail (ErrText ''no rpc_result among the server's replies'')"
| "await_replies C G stack (Suc n) msgID deadline =
     io_bind time_now (\<lambda>now.
     if now > deadline then io_fail (ErrText ''timed out waiting for rpc_result'')
     else io_bind (recv_plain C id) (\<lambda>plain.
          io_bind (dispatch_io G stack msgID plain) (\<lambda>(result, retry, found).
          if retry then io_return None
          else if found then io_return (Some result)
          else await_replies C G stack n msgID deadline)))"

definition awaitResult ::
  "crypto \<Rightarrow> gzip \<Rightarrow> nat \<Rightarrow> u64 \<Rightarrow> int \<Rightarrow> (('c, 'z) session_world_scheme, bytes option) io" where
  "awaitResult C G stack = await_replies C G stack maxRPCReplies"

text \<open>\<open>for retry := range 2\<close>, with the turns left.\<close>

fun invoke_tries ::
  "crypto \<Rightarrow> gzip \<Rightarrow> nat \<Rightarrow> nat \<Rightarrow> bytes \<Rightarrow> int \<Rightarrow> (('c, 'z) session_world_scheme, bytes) io" where
  "invoke_tries C G stack 0 query deadline = io_fail (ErrText ''no rpc_result'')"
| "invoke_tries C G stack (Suc n) query deadline =
     io_bind (encrypt C query) (\<lambda>(packet, msgID).
     io_seq (sendRaw packet)
     (io_bind (awaitResult C G stack msgID deadline) (\<lambda>r. case r of
        Some result \<Rightarrow> io_return result
      | None \<Rightarrow> if n = 0 then io_fail (ErrText ''server kept rejecting the salt'')
                else invoke_tries C G stack n query deadline)))"

definition invoke ::
  "crypto \<Rightarrow> gzip \<Rightarrow> nat \<Rightarrow> bytes \<Rightarrow> int \<Rightarrow> (('c, 'z) session_world_scheme, bytes) io" where
  "invoke C G stack query timeout =
     io_bind time_now (\<lambda>now.
     io_seq (if timeout > 0 then setDeadline (now + timeout) else io_return ())
     (invoke_tries C G stack 2 query (now + timeout)))"

section \<open>Queries\<close>

definition wrapQuery :: "int \<Rightarrow> bytes \<Rightarrow> bytes" where
  "wrapQuery apiID query =
     (let inner = buf_raw query (buf_bytes (str_bytes ''en'') (buf_bytes [] (buf_bytes (str_bytes ''en'')
            (buf_bytes (str_bytes ''1.0'') (buf_bytes (str_bytes ''Linux'') (buf_bytes (str_bytes ''PC'')
            (buf_uint32 (word_of_int apiID) (buf_uint32 0 (buf_uint32 ctorInitConnection [])))))))))
      in buf_raw inner (buf_uint32 apiLayer (buf_uint32 ctorInvokeWithLayer [])))"

definition parseNearestDC :: "bytes \<Rightarrow> goerr + nearestDC" where
  "parseNearestDC payload =
     (let c0 = cursor_expect ctorNearestDC ''nearestDc'' (newCursor payload);
          (country, c1) = cursor_bytes c0;
          (thisDC, c2) = cursor_uint32 c1;
          (nearest, c3) = cursor_uint32 c2
      in case cerr c3 of
           Some e \<Rightarrow> Inl e
         | None \<Rightarrow> Inr \<lparr>nd_Country = bytes_str country, nd_ThisDC = sint thisDC, nd_NearestDC = sint nearest\<rparr>)"

definition getNearestDC ::
  "crypto \<Rightarrow> gzip \<Rightarrow> nat \<Rightarrow> int \<Rightarrow> int \<Rightarrow> (('c, 'z) session_world_scheme, nearestDC) io" where
  "getNearestDC C G stack apiID timeout =
     io_bind (invoke C G stack (wrapQuery apiID (buf_uint32 ctorHelpGetNearestDC [])) timeout) (\<lambda>payload.
     io_lift (parseNearestDC payload))"

text \<open>The configuration: the fields before \<open>dc_options\<close>, then the options.  \<open>None\<close> stands for
  the early returns that leave \<open>Parsed\<close> unset.\<close>

fun config_options :: "nat \<Rightarrow> cursor \<Rightarrow> dcOption list option" where
  "config_options 0 c = Some []"
| "config_options (Suc n) c =
     (let (ctor, c1) = cursor_uint32 c in
      if ctor \<noteq> ctorDCOption then None
      else let (flags, c2) = cursor_uint32 c1;
               (i, c3) = cursor_uint32 c2;
               (address, c4) = cursor_bytes c3;
               (port, c5) = cursor_uint32 c4;
               c6 = (if bit flags 10 then snd (cursor_bytes c5) else c5)
           in if cerr c6 \<noteq> None then None
              else map_option ((#) \<lparr>do_ID = sint i, do_Addr = bytes_str address @ '':'' @ dec_int (sint port)\<rparr>)
                     (config_options n c6))"

definition telegramNetworks :: "string list" where
  "telegramNetworks =
     [''149.154.160.'', ''149.154.161.'', ''149.154.162.'', ''149.154.163.'', ''149.154.164.'',
      ''149.154.165.'', ''149.154.166.'', ''149.154.167.'', ''149.154.168.'', ''149.154.169.'',
      ''149.154.170.'', ''149.154.171.'', ''149.154.172.'', ''149.154.173.'', ''149.154.174.'',
      ''149.154.175.'', ''91.108.4.'', ''91.108.5.'', ''91.108.6.'', ''91.108.7.'', ''91.108.8.'',
      ''91.108.12.'', ''91.108.13.'', ''91.108.14.'', ''91.108.15.'', ''91.108.16.'', ''91.108.17.'',
      ''91.108.18.'', ''91.108.19.'', ''91.108.20.'', ''91.108.21.'', ''91.108.22.'', ''91.108.23.'',
      ''91.108.56.'', ''91.108.57.'', ''91.108.58.'', ''91.108.59.'', ''95.161.64.'', ''95.161.65.'',
      ''95.161.66.'', ''95.161.67.'', ''2001:067c:04e8'', ''2001:0b28:f23c'', ''2001:0b28:f23d'',
      ''2001:0b28:f23f'', ''2001:b28:f23d'', ''2001:b28:f23f'', ''2001:67c:4e8'']"

definition isTelegramAddress :: "string \<Rightarrow> bool" where
  "isTelegramAddress host = list_ex (\<lambda>prefix. length host \<ge> length prefix \<and> take (length prefix) host = prefix) telegramNetworks"

text \<open>\<open>bytes.LastIndexByte\<close>, and the host in front of the last colon when it is not the
  first byte.\<close>

definition addr_host :: "string \<Rightarrow> string" where
  "addr_host addr = (case last_index CHR '':'' addr of
      Some i \<Rightarrow> if i > 0 then take i addr else addr | None \<Rightarrow> addr)"

fun unexpected_from :: "string list \<Rightarrow> dcOption list \<Rightarrow> string list" where
  "unexpected_from seen [] = []"
| "unexpected_from seen (opt # opts) =
     (let host = addr_host (do_Addr opt) in
      if isTelegramAddress host \<or> host \<in> set seen then unexpected_from seen opts
      else host # unexpected_from (host # seen) opts)"

definition unexpectedAddresses :: "dcOption list \<Rightarrow> string list" where
  "unexpectedAddresses = unexpected_from []"

definition emptyConfig :: configInfo where
  "emptyConfig = \<lparr>cf_ThisDC = 0, cf_TestMode = False, cf_Options = [], cf_Unexpected = [], cf_Parsed = False\<rparr>"

definition parseConfig :: "bytes \<Rightarrow> configInfo" where
  "parseConfig payload =
     (if length payload < 4 \<or> ctor_of payload \<noteq> ctorConfig then emptyConfig
      else let (_, c1) = cursor_uint32 (newCursor payload);
               (_, c2) = cursor_uint32 c1;
               (_, c3) = cursor_uint32 c2;
               (_, c4) = cursor_uint32 c3;
               (test, c5) = cursor_uint32 c4;
               (thisDC, c6) = cursor_uint32 c5;
               (vec, c7) = cursor_uint32 c6
           in if vec \<noteq> ctorVector then emptyConfig
              else let (n, c8) = cursor_uint32 c7; count = unat n in
                if cerr c8 \<noteq> None \<or> count > 256 then emptyConfig
                else case config_options count c8 of
                    None \<Rightarrow> emptyConfig
                  | Some options \<Rightarrow>
                      \<lparr>cf_ThisDC = sint thisDC, cf_TestMode = (test = ctorBoolTrue), cf_Options = options,
                       cf_Unexpected = unexpectedAddresses options, cf_Parsed = True\<rparr>)"

definition getConfig ::
  "crypto \<Rightarrow> gzip \<Rightarrow> nat \<Rightarrow> int \<Rightarrow> int \<Rightarrow> (('c, 'z) session_world_scheme, configInfo) io" where
  "getConfig C G stack apiID timeout =
     io_bind (invoke C G stack (wrapQuery apiID (buf_uint32 ctorHelpGetConfig [])) timeout) (\<lambda>payload.
     io_return (parseConfig payload))"

text \<open>\<open>int64(v*10+0.5) / 10\<close> and \<open>int64(v*1000+0.5) / 1000\<close>, over exact rationals.\<close>

definition trunc :: "rat \<Rightarrow> int" where
  "trunc v = (if 0 \<le> v then \<lfloor>v\<rfloor> else \<lceil>v\<rceil>)"

definition round1 :: "rat \<Rightarrow> rat" where
  "round1 v = of_int (trunc (v * 10 + 1 / 2)) / 10"

definition round3 :: "rat \<Rightarrow> rat" where
  "round3 v = of_int (trunc (v * 1000 + 1 / 2)) / 1000"

definition speed_of :: "bytes \<Rightarrow> int \<Rightarrow> speedStats" where
  "speed_of payload elapsed =
     (let seconds = of_int elapsed / 1000000000 in
      \<lparr>sp_Bytes = length payload, sp_Seconds = round3 seconds,
       sp_KBPerSec = (if seconds > 0 then round1 (of_nat (length payload) / 1024 / seconds) else 0)\<rparr>)"

definition measureDownload ::
  "crypto \<Rightarrow> gzip \<Rightarrow> nat \<Rightarrow> int \<Rightarrow> int \<Rightarrow> (('c, 'z) session_world_scheme, speedStats) io" where
  "measureDownload C G stack apiID timeout =
     io_bind time_now (\<lambda>started.
     io_bind (invoke C G stack (wrapQuery apiID (buf_bytes (str_bytes ''en'') (buf_bytes (str_bytes ''android'')
                (buf_uint32 ctorLangpackGetLangPack [])))) timeout) (\<lambda>payload.
     io_bind time_now (\<lambda>now.
     if 4 \<le> length payload \<and> ctor_of payload \<noteq> ctorLangPackDifference
     then io_fail (ErrText (''unexpected langpack answer 0x'' @ hex_word32 (ctor_of payload)))
     else io_return (speed_of payload (now - started)))))"

section \<open>Where an answer comes from\<close>

text \<open>\<open>nested G body m\<close>: \<open>m\<close> is \<open>body\<close>, or lies inside it through containers and gzip objects.\<close>

inductive nested :: "gzip \<Rightarrow> bytes \<Rightarrow> bytes \<Rightarrow> bool" for G where
  nested_self: "nested G body body"
| nested_gzip: "nested G body m" if "ctor_of body = ctorGzipPacked" "unwrap G body = Inr payload" "nested G payload m"
| nested_item: "nested G body m" if "ctor_of body = ctorMsgContainer" "body = pre @ inner @ post" "16 \<le> length pre" "nested G inner m"

definition answer_of :: "gzip \<Rightarrow> u64 \<Rightarrow> bytes \<Rightarrow> bytes \<Rightarrow> bool" where
  "answer_of G msgID m result \<longleftrightarrow>
     (\<exists>rest. m = put32 ctorRPCResult @ put64 msgID @ rest \<and> unwrap G rest = Inr result)"

definition salt_of :: "bytes \<Rightarrow> bytes \<Rightarrow> bool" where
  "salt_of m salt \<longleftrightarrow> length salt = 8 \<and>
     (\<exists>hdr rest. m = put32 ctorBadServerSalt @ hdr @ salt @ rest \<and> length hdr = 16)"

text \<open>A cursor that has read \<open>k\<close> bytes of \<open>body\<close> without an error.\<close>

lemma cursor_uint64_ok: "cerr (snd (cursor_uint64 c)) = None \<Longrightarrow> cerr c = None"
  by (auto simp: cursor_uint64_def split_beta dest: cursor_take_ok)

lemma container_entry_inv:
  assumes "container_entry (cur xs ys) = (sz, c1)" "cursor_take sz c1 = (inner, c2)" "cerr c2 = None"
  shows "\<exists>hdr ys'. length hdr = 16 \<and> ys = hdr @ inner @ ys' \<and> c2 = cur (xs @ hdr @ inner) ys'"
proof -
  obtain a d1 where 1: "cursor_uint64 (cur xs ys) = (a, d1)" by fastforce
  obtain b d2 where 2: "cursor_uint32 d1 = (b, d2)" by fastforce
  obtain n d3 where 3: "cursor_uint32 d2 = (n, d3)" by fastforce
  have c1: "c1 = d3" using assms(1) by (simp add: container_entry_def 1 2 3)
  then have e3: "cerr d3 = None" using assms(2,3) cursor_take_ok [of sz d3] by simp
  then have e2: "cerr d2 = None" using 3 cursor_uint32_ok [of d2] by simp
  then have e1: "cerr d1 = None" using 2 cursor_uint32_ok [of d1] by simp
  from cursor_uint64_inv [OF 1 e1] obtain ys1 where y1: "ys = put64 a @ ys1" "d1 = cur (xs @ put64 a) ys1" by blast
  from cursor_uint32_inv [OF 2 [unfolded y1(2)] e2] obtain ys2 where y2: "ys1 = put32 b @ ys2"
    "d2 = cur ((xs @ put64 a) @ put32 b) ys2" by blast
  from cursor_uint32_inv [OF 3 [unfolded y2(2)] e3] obtain ys3 where y3: "ys2 = put32 n @ ys3"
    "d3 = cur (((xs @ put64 a) @ put32 b) @ put32 n) ys3" by blast
  from cursor_take_inv [OF assms(2) [unfolded c1 y3(2)] assms(3)] obtain ys4 where
    "ys3 = inner @ ys4" "c2 = cur ((((xs @ put64 a) @ put32 b) @ put32 n) @ inner) ys4" by blast
  with y1 y2 y3 show ?thesis
    by (intro exI [of _ "put64 a @ put32 b @ put32 n"] exI [of _ ys4]) simp
qed

lemma put32_ctor_of: "4 \<le> length body \<Longrightarrow> body = put32 (ctor_of body) @ drop 4 body"
  using append_take_drop_id [of 4 body] put32_get32 [of "take 4 body"] by (simp add: ctor_of_def)

lemma first_uint32:
  "4 \<le> length body \<Longrightarrow> cursor_uint32 (newCursor body) = (ctor_of body, cur (put32 (ctor_of body)) (drop 4 body))"
  using cursor_uint32_cur [of "[]" "ctor_of body" "drop 4 body"] put32_ctor_of [of body]
  by (simp add: newCursor_cur)

text \<open>An answer is not an rpc\_error.\<close>

definition no_rpc_error :: "bytes \<Rightarrow> bool" where
  "no_rpc_error result \<longleftrightarrow> length result < 4 \<or> get32 (take 4 result) \<noteq> 0x2144CA19"

definition located :: "gzip \<Rightarrow> u64 \<Rightarrow> bytes \<Rightarrow> bytes \<Rightarrow> bool \<Rightarrow> bool \<Rightarrow> bytes \<Rightarrow> bool" where
  "located G msgID body result retry found salt \<longleftrightarrow>
     (\<exists>m. nested G body m \<and> (if found then answer_of G msgID m result \<and> no_rpc_error result \<and> \<not> retry
        else retry \<and> salt_of m salt))"

lemma located_nested: "located G msgID inner result retry found salt \<Longrightarrow>
    (\<And>m. nested G inner m \<Longrightarrow> nested G body m) \<Longrightarrow> located G msgID body result retry found salt"
  unfolding located_def by blast

lemma dispatch_entries_located:
  assumes IH: "\<And>inner salt. length inner < length b \<Longrightarrow>
      dispatch G msgID stack inner salt = (Inr (result, retry, found), salt') \<Longrightarrow> located G msgID inner result retry found salt'"
    and b: "ctor_of b = ctorMsgContainer" "b = xs @ ys"
    and d: "dispatch_entries G msgID stack n (cur xs ys) salt = (Inr (result, retry, found), salt')" and rf: "retry \<or> found"
  shows "located G msgID b result retry found salt'"
  using b(2) d
proof (induction n arbitrary: xs ys salt)
  case 0
  with rf show ?case by simp
next
  case (Suc n)
  obtain sz c1 where 1: "container_entry (cur xs ys) = (sz, c1)" by fastforce
  obtain inner c2 where 2: "cursor_take sz c1 = (inner, c2)" by fastforce
  from Suc.prems(2) 1 2 have e: "cerr c2 = None" by (auto split: if_splits option.splits)
  obtain hdr ys' where y: "length hdr = 16" "ys = hdr @ inner @ ys'" "c2 = cur (xs @ hdr @ inner) ys'"
    using container_entry_inv [OF 1 2 e] by blast
  have nest: "nested G b m" if "nested G inner m" for m
    by (rule nested_item [OF b(1), of "xs @ hdr" inner ys']) (use y Suc.prems(1) that in auto)
  have shorter: "length inner < length b" using y Suc.prems(1) by simp
  obtain r salt1 where d1: "dispatch G msgID stack inner salt = (r, salt1)" by fastforce
  then obtain res rt fd where r: "r = Inr (res, rt, fd)"
    using Suc.prems(2) 1 2 e by (cases r) (auto split: if_splits)
  show ?case
  proof (cases "rt \<or> fd")
    case True
    with Suc.prems(2) 1 2 e d1 r have "dispatch G msgID stack inner salt = (Inr (result, retry, found), salt')"
      by (auto split: if_splits)
    from IH [OF shorter this] nest show ?thesis by (rule located_nested)
  next
    case False
    with Suc.prems(2) 1 2 e d1 r have "dispatch_entries G msgID stack n (cur (xs @ hdr @ inner) ys') salt1 = (Inr (result, retry, found), salt')"
      using y(3) by (auto split: if_splits)
    from Suc.IH [OF _ this] show ?thesis using Suc.prems(1) y(2) by simp
  qed
qed

text \<open>The branches that look at one message only.\<close>

lemma dispatch_result_located:
  assumes b: "4 \<le> length body" "ctor_of body = ctorRPCResult"
    and d: "dispatch G msgID stack body salt = (Inr (result, retry, found), salt')" and rf: "retry \<or> found"
  shows "located G msgID body result retry found salt'"
proof -
  obtain v c2 where c: "cursor_uint64 (cur (put32 ctorRPCResult) (drop 4 body)) = (v, c2)" by fastforce
  from d b rf have e: "cerr c2 = None"
    by (subst (asm) dispatch.simps) (auto simp: first_uint32 c split: option.splits)
  from cursor_uint64_inv [OF c e] obtain ys where y: "drop 4 body = put64 v @ ys" "c2 = cur (put32 ctorRPCResult @ put64 v) ys"
    by auto
  have body: "body = put32 ctorRPCResult @ put64 v @ ys" using put32_ctor_of [OF b(1)] y(1) b(2) by simp
  have "drop (ci c2) body = ys" by (simp add: y(2) body)
  with d b rf e have "v = msgID" "unwrap G ys = Inr result" "found" "\<not> retry" "no_rpc_error result"
    by (subst (asm) dispatch.simps;
        auto simp: first_uint32 c no_rpc_error_def ctor_of_def ctorRPCError_def split: if_splits sum.splits)+
  with body show ?thesis unfolding located_def answer_of_def by (auto intro: nested_self)
qed

lemma dispatch_salt_located:
  assumes b: "4 \<le> length body" "ctor_of body = ctorBadServerSalt"
    and d: "dispatch G msgID stack body salt = (Inr (result, retry, found), salt')"
  shows "located G msgID body result retry found salt'"
proof -
  note n = ctorBadServerSalt_def ctorRPCResult_def ctorGzipPacked_def ctorMsgContainer_def
  obtain v2 c2 where 2: "cursor_uint64 (cur (put32 ctorBadServerSalt) (drop 4 body)) = (v2, c2)" by fastforce
  obtain v3 c3 where 3: "cursor_uint32 c2 = (v3, c3)" by fastforce
  obtain v4 c4 where 4: "cursor_uint32 c3 = (v4, c4)" by fastforce
  obtain fresh c5 where 5: "cursor_take 8 c4 = (fresh, c5)" by fastforce
  have ne: "ctorBadServerSalt \<noteq> ctorRPCResult" "ctorBadServerSalt \<noteq> ctorGzipPacked" "ctorBadServerSalt \<noteq> ctorMsgContainer"
    by (simp_all add: n)
  have r: "cerr c5 = None" "retry" "\<not> found" "salt' = fresh"
    using d b by (subst (asm) dispatch.simps; auto simp: ne first_uint32 2 3 4 5 split: option.splits)+
  have e4: "cerr c4 = None" using r(1) 5 cursor_take_ok [of 8 c4] by simp
  then have e3: "cerr c3 = None" using 4 cursor_uint32_ok [of c3] by simp
  then have e2: "cerr c2 = None" using 3 cursor_uint32_ok [of c2] by simp
  obtain ys2 where y2: "drop 4 body = put64 v2 @ ys2" "c2 = cur (put32 ctorBadServerSalt @ put64 v2) ys2"
    using cursor_uint64_inv [OF 2 e2] by auto
  obtain ys3 where y3: "ys2 = put32 v3 @ ys3" "c3 = cur ((put32 ctorBadServerSalt @ put64 v2) @ put32 v3) ys3"
    using cursor_uint32_inv [OF 3 [unfolded y2(2)] e3] by auto
  obtain ys4 where y4: "ys3 = put32 v4 @ ys4" "c4 = cur (((put32 ctorBadServerSalt @ put64 v2) @ put32 v3) @ put32 v4) ys4"
    using cursor_uint32_inv [OF 4 [unfolded y3(2)] e4] by auto
  obtain ys5 where y5: "length fresh = 8" "ys4 = fresh @ ys5"
    using cursor_take_inv [OF 5 [unfolded y4(2)] r(1)] by auto
  have "body = put32 ctorBadServerSalt @ (put64 v2 @ put32 v3 @ put32 v4) @ fresh @ ys5"
    using put32_ctor_of [OF b(1)] y2(1) y3(1) y4(1) y5(2) b(2) by simp
  then have "salt_of body salt'" unfolding salt_of_def r(4) using y5(1)
    by (intro conjI exI [of _ "put64 v2 @ put32 v3 @ put32 v4"] exI [of _ ys5]) simp_all
  with r show ?thesis unfolding located_def by (auto intro: nested_self)
qed

lemma le_nat_replicate_zero [simp]: "le_nat (replicate n 0) = 0"
  by (induction n) simp_all

lemma get32_replicate_zero: "get32 (replicate 4 0) = 0"
  by (simp add: get32_def)

lemma dispatch_container:
  assumes "4 \<le> length body" "ctor_of body = ctorMsgContainer"
    and "dispatch G msgID stack body salt = (Inr x, salt')"
  shows "\<exists>n xs ys. body = xs @ ys \<and> dispatch_entries G msgID stack n (cur xs ys) salt = (Inr x, salt')"
proof -
  have ne: "ctorMsgContainer \<noteq> ctorRPCResult" "ctorMsgContainer \<noteq> ctorGzipPacked"
    by (simp_all add: ctorMsgContainer_def ctorRPCResult_def ctorGzipPacked_def)
  obtain n c2 where c: "cursor_uint32 (cur (put32 ctorMsgContainer) (drop 4 body)) = (n, c2)" by fastforce
  have d: "dispatch_entries G msgID stack (unat n) c2 salt = (Inr x, salt')"
    using assms by (subst (asm) dispatch.simps) (auto simp: ne first_uint32 c Let_def split: if_splits)
  show ?thesis
  proof (cases "cerr c2")
    case None
    then obtain ys where "drop 4 body = put32 n @ ys" "c2 = cur (put32 ctorMsgContainer @ put32 n) ys"
      using cursor_uint32_inv [OF c] by auto
    with d put32_ctor_of [OF assms(1)] assms(2) show ?thesis
      by (intro exI [of _ "unat n"] exI [of _ "put32 ctorMsgContainer @ put32 n"] exI [of _ ys]) simp
  next
    case (Some e)
    with c have "n = 0" by (auto simp: cursor_uint32_def cursor_take_def get32_replicate_zero split: if_splits)
    with d have "dispatch_entries G msgID stack 0 (cur body []) salt = (Inr x, salt')" by simp
    then show ?thesis by (intro exI [of _ 0] exI [of _ body] exI [of _ "[]"]) simp
  qed
qed

lemma dispatch_located:
  assumes "dispatch G msgID stack body salt = (Inr (result, retry, found), salt')" and "retry \<or> found"
  shows "located G msgID body result retry found salt'"
  using assms(1)
proof (induction stack arbitrary: body salt rule: less_induct)
  case (less stack)
  note outer = less.IH
  from less.prems show ?case
  proof (induction body arbitrary: salt rule: length_induct)
    case (1 body)
    have len: "4 \<le> length body" using "1.prems" by (subst (asm) dispatch.simps) (auto split: if_splits)
    consider "ctor_of body = ctorRPCResult" | "ctor_of body = ctorBadServerSalt"
      | "ctor_of body = ctorGzipPacked" "ctor_of body \<noteq> ctorRPCResult"
      | "ctor_of body = ctorMsgContainer"
      | "ctor_of body \<noteq> ctorRPCResult" "ctor_of body \<noteq> ctorGzipPacked" "ctor_of body \<noteq> ctorMsgContainer" "ctor_of body \<noteq> ctorBadServerSalt"
      by blast
    then show ?case
    proof cases
      case 1
      from dispatch_result_located [OF len 1 "1.prems" assms(2)] show ?thesis .
    next
      case 2
      from dispatch_salt_located [OF len 2 "1.prems"] show ?thesis .
    next
      case 3
      with "1.prems" len obtain payload st where p: "unwrap G body = Inr payload" "stack = Suc st"
        "dispatch G msgID st payload salt = (Inr (result, retry, found), salt')"
        by (subst (asm) dispatch.simps) (auto split: sum.splits nat.splits)
      from outer [OF _ p(3)] p(2) have "located G msgID payload result retry found salt'" by simp
      then show ?thesis by (rule located_nested) (rule nested_gzip [OF 3(1) p(1)])
    next
      case 4
      from dispatch_container [OF len 4 "1.prems"] obtain n xs ys where
        e: "body = xs @ ys" "dispatch_entries G msgID stack n (cur xs ys) salt = (Inr (result, retry, found), salt')" by blast
      show ?thesis
        by (rule dispatch_entries_located [OF _ 4 e assms(2)]) (use "1.IH" in blast)
    next
      case 5
      with "1.prems" len assms(2) show ?thesis
        by (subst (asm) dispatch.simps) (auto simp: Let_def split_beta split: if_splits)
    qed
  qed
qed

text \<open>An answer to the query is found in a message of its own and inside a container.\<close>

lemma dispatch_answer:
  assumes "answer_of G msgID m result" and "length result < 4 \<or> ctor_of result \<noteq> ctorRPCError"
  shows "dispatch G msgID stack m salt = (Inr (result, False, True), salt)"
proof -
  from assms(1) obtain rest where m: "m = put32 ctorRPCResult @ put64 msgID @ rest" "unwrap G rest = Inr result"
    by (auto simp: answer_of_def)
  have f: "cursor_uint32 (newCursor m) = (ctorRPCResult, cur (put32 ctorRPCResult) (put64 msgID @ rest))"
    using cursor_uint32_cur [of "[]" ctorRPCResult "put64 msgID @ rest"] by (simp add: m newCursor_cur)
  have c: "ctor_of m = ctorRPCResult" "4 \<le> length m" by (simp_all add: m ctor_of_def)
  show ?thesis
    using assms(2) m(2) by (subst dispatch.simps) (auto simp: f c cursor_uint64_cur, auto simp: m)
qed

text \<open>A gzip object that unpacks to itself never ends: the stack overflows, however deep it
  may be.\<close>

lemma dispatch_gzip_loop:
  assumes "4 \<le> length body" "ctor_of body = ctorGzipPacked" "unwrap G body = Inr body"
  shows "dispatch G msgID stack body salt = (Inl stack_overflow, salt)"
proof (induction stack)
  case 0
  then show ?case using assms
    by (subst dispatch.simps) (simp add: ctorGzipPacked_def ctorRPCResult_def)
next
  case (Suc stack)
  then show ?case using assms
    by (subst dispatch.simps) (simp add: ctorGzipPacked_def ctorRPCResult_def)
qed

section \<open>What a call returns\<close>

definition session_auth :: "('c, 'z) session_world_scheme \<Rightarrow> authKey" where
  "session_auth w = ss_auth (sess w)"

lemma time_now_keeps_auth [keeps_intros]: "io_keeps session_auth time_now"
  unfolding io_keeps_def session_auth_def
  by (intro allI, rename_tac w, case_tac "ticks w") (simp_all add: time_now_def)

lemma randomBytes_keeps_auth [keeps_intros]: "io_keeps session_auth (randomBytes n)"
  by (simp add: io_keeps_def randomBytes_def session_auth_def)

lemma rand_int_keeps_auth [keeps_intros]: "io_keeps session_auth (rand_int n)"
  by (simp add: io_keeps_def rand_int_def session_auth_def split: option.splits)

lemma on_carrier_keeps_auth [keeps_intros]: "io_keeps session_auth (on_carrier m)"
  by (simp add: io_keeps_def on_carrier_def session_auth_def split: prod.splits)

lemma io_keeps_modify_auth [keeps_intros]:
  "io_keeps session_auth (io_modify (\<lambda>w. w\<lparr>chan := h w\<rparr>))"
  by (simp add: io_keeps_def session_auth_def)

lemma stream_keeps_auth [keeps_intros]:
  "io_keeps session_auth stream_step" "io_keeps session_auth stamp_sent" "io_keeps session_auth (setDeadline t)"
  unfolding stream_step_def stamp_sent_def setDeadline_def by (intro keeps_intros)+

lemma encode_keeps_auth [keeps_intros]: "io_keeps session_auth (encode tr p)"
  by (cases tr) (auto simp: encodePaddedIntermediate_def intro!: keeps_intros)

lemma raw_keeps_auth [keeps_intros]: "io_keeps session_auth (sendRaw p)" "io_keeps session_auth recvRaw"
  unfolding sendRaw_def recvRaw_def by (intro keeps_intros)+

lemma encrypt_keeps_auth [keeps_intros]: "io_keeps session_auth (encrypt C body)"
proof -
  have "session_auth w' = session_auth w" if r: "encrypt C body w = (r, w')"
    for r and w w' :: "('c, 'z) session_world_scheme"
  proof -
    have k: "io_keeps session_auth messageID" unfolding messageID_def by (intro keeps_intros)
    define w1 where "w1 = w\<lparr>sess := (sess w)\<lparr>ss_seqNo := ss_seqNo (sess w) + 1\<rparr>\<rparr>"
    have "session_auth w1 = session_auth w" by (simp add: w1_def session_auth_def)
    moreover have "io_keeps session_auth (io_bind messageID (\<lambda>msgID.
        let plain = plain_header (sess w) msgID (ss_seqNo (sess w) * 2 + 1) body in
        io_bind (randomBytes (padding_for (length plain))) (\<lambda>filler.
        io_bind (io_lift (seal C (ss_auth (sess w)) 0 (plain @ filler))) (\<lambda>packet.
        io_return (packet, msgID)))))"
      unfolding Let_def by (intro keeps_intros k)
    note io_keepsD [OF this, of w1 r w']
    moreover have "io_bind messageID (\<lambda>msgID.
        let plain = plain_header (sess w) msgID (ss_seqNo (sess w) * 2 + 1) body in
        io_bind (randomBytes (padding_for (length plain))) (\<lambda>filler.
        io_bind (io_lift (seal C (ss_auth (sess w)) 0 (plain @ filler))) (\<lambda>packet.
        io_return (packet, msgID)))) w1 = (r, w')"
      using r by (simp add: encrypt_def w1_def Let_def io_seq_def io_bind_def)
    ultimately show ?thesis by simp
  qed
  then show ?thesis unfolding io_keeps_def by (metis prod.collapse)
qed

lemma dispatch_io_Inr:
  "dispatch_io G stack msgID plain w = (r, w') \<longleftrightarrow>
     (\<exists>salt. dispatch G msgID stack plain (ss_salt (sess w)) = (r, salt) \<and> w' = w\<lparr>sess := (sess w)\<lparr>ss_salt := salt\<rparr>\<rparr>)"
  by (auto simp: dispatch_io_def split: prod.splits)

text \<open>\<open>replied C G auth tr inb msgID result\<close>: the last frame of \<open>inb\<close> is a packet sealed under
  the key, and inside it, through containers and gzip objects, lies the rpc\_result for \<open>msgID\<close>.\<close>

definition replied :: "crypto \<Rightarrow> gzip \<Rightarrow> authKey \<Rightarrow> transport \<Rightarrow> bytes \<Rightarrow> u64 \<Rightarrow> bytes \<Rightarrow> bool" where
  "replied C G auth tr inb msgID result \<longleftrightarrow>
     (\<exists>earlier frame packet hdr body tail m rest. inb = earlier @ frame \<and> accepts tr frame packet \<and>
        seal C auth 8 (hdr @ put32 (word_of_nat (length body)) @ body @ tail) = Inr packet \<and> length hdr = 28 \<and>
        nested G body m \<and> m = put32 0xF35C6D01 @ put64 msgID @ rest \<and> unwrap G rest = Inr result) \<and>
     no_rpc_error result"

text \<open>\<open>called C auth tr outb msgID query\<close>: the last frame of \<open>outb\<close> is the query, sealed under
  \<open>msgID\<close>.\<close>

definition called :: "crypto \<Rightarrow> authKey \<Rightarrow> transport \<Rightarrow> bytes \<Rightarrow> u64 \<Rightarrow> bytes \<Rightarrow> bool" where
  "called C auth tr outb msgID query \<longleftrightarrow>
     (\<exists>earlier frame packet salt sid seqNo filler. outb = earlier @ frame \<and> emits tr packet frame \<and>
        seal C auth 0 (salt @ sid @ put64 msgID @ put32 seqNo @ put32 (word_of_nat (length query)) @ query @ filler) = Inr packet)"

lemma replied_after: "replied C G auth tr inb msgID result \<Longrightarrow> replied C G auth tr (front @ inb) msgID result"
  unfolding replied_def by (metis append_assoc)

lemma called_after: "called C auth tr outb msgID query \<Longrightarrow> called C auth tr (front @ outb) msgID query"
  unfolding called_def by (metis append_assoc)

lemma repliedI:
  assumes C: "crypto_ok C" "length (ak_keyID auth) = 8" and f: "accepts tr frame packet" "decrypt C auth packet = Inr body"
    and l: "located G msgID body result False True salt"
  shows "replied C G auth tr frame msgID result"
proof -
  from l obtain m rest where m: "nested G body m" "m = put32 0xF35C6D01 @ put64 msgID @ rest" "unwrap G rest = Inr result" "no_rpc_error result"
    by (auto simp: located_def answer_of_def ctorRPCResult_def)
  from f(2) obtain plain where p: "seal C auth 8 plain = Inr packet" "open_body plain = Inr body"
    unfolding decrypt_iff [OF C] by blast
  from p(2) obtain hdr tail where h: "length hdr = 28" "plain = hdr @ put32 (word_of_nat (length body)) @ body @ tail"
    unfolding open_body_iff by blast
  have "frame = [] @ frame" by simp
  with f(1) p(1) h m show ?thesis unfolding replied_def by blast
qed

text \<open>What a session does beside the stream leaves the stream alone.\<close>

lemma encrypt_chan:
  assumes "encrypt C body w = (Inr (packet, msgID), w')"
  shows "chan w' = chan w \<and> (\<exists>used. entropy w = used @ entropy w')"
proof -
  let ?w = "w\<lparr>sess := (sess w)\<lparr>ss_seqNo := ss_seqNo (sess w) + 1\<rparr>\<rparr>"
  from assms obtain w1 filler where 1: "messageID ?w = (Inr msgID, w1)"
    "randomBytes (padding_for (length (plain_header (sess w) msgID (ss_seqNo (sess w) * 2 + 1) body))) w1 = (Inr filler, w')"
    by (auto simp: encrypt_def Let_def io_seq_def io_bind_eq_Inr)
  have "io_keeps chan time_now" unfolding io_keeps_def
    by (intro allI, rename_tac w, case_tac "ticks w") (simp_all add: time_now_def)
  then have "io_keeps chan messageID" unfolding messageID_def by (intro keeps_intros)
  from io_keepsD [OF this 1(1)] have c: "chan w1 = chan w" by simp
  have "io_keeps entropy messageID" unfolding messageID_def by (intro keeps_intros)
  from io_keepsD [OF this 1(1)] have "entropy w1 = entropy w" by simp
  moreover have "chan w' = chan w1" using 1(2) by (auto simp: randomBytes_Inr)
  ultimately show ?thesis using c io_drawsD [OF io_draws_basic(5) 1(2)] by simp
qed

lemma encrypt_called:
  assumes e: "encrypt C query w = (Inr (packet, msgID), w')" and f: "emits tr packet frame"
  shows "called C (session_auth w) tr frame msgID query"
  using e
proof (cases rule: encrypt_Inr)
  case (1 filler)
  have h: "plain_header (sess w) msgID (ss_seqNo (sess w) * 2 + 1) query @ filler =
      ss_salt (sess w) @ ss_id (sess w) @ put64 msgID @ put32 (ss_seqNo (sess w) * 2 + 1) @ put32 (word_of_nat (length query)) @ query @ filler"
    by (simp add: plain_header_def buf_raw_def buf_uint32_def buf_uint64_def)
  have "frame = [] @ frame" by simp
  with 1(2) f show ?thesis unfolding called_def session_auth_def h by blast
qed

context duplex
begin

lemma recv_plain_moves:
  assumes l: "linked w" and r: "recv_plain C f w = (Inr plain, w')"
  shows "\<exists>frame packet. accepts (s_tr (chan w)) frame packet \<and> decrypt C (session_auth w) packet = Inr plain \<and>
     session_auth w' = session_auth w \<and> moves w frame [] [] w'"
proof -
  from r obtain packet where p: "recvRaw w = (Inr packet, w')" "decrypt C (ss_auth (sess w')) packet = Inr plain"
    by (auto simp: recv_plain_def io_bind_eq_Inr)
  have "session_auth w' = session_auth w" by (rule io_keepsD [OF raw_keeps_auth(2) p(1)])
  with recvRaw_moves [OF l p(1)] p(2) show ?thesis by (auto simp: session_auth_def)
qed

lemma await_replies_trace:
  fixes w :: "('c, 'z) session_world_scheme"
  assumes C: "crypto_ok C"
  shows "await_replies C G stack n msgID deadline w = (Inr r, w') \<Longrightarrow> linked w \<Longrightarrow> length (ak_keyID (session_auth w)) = 8 \<Longrightarrow>
     \<exists>inb. moves w inb [] [] w' \<and> session_auth w' = session_auth w \<and>
       (\<forall>result. r = Some result \<longrightarrow> replied C G (session_auth w) (s_tr (chan w)) inb msgID result)"
proof (induction n arbitrary: w)
  case 0
  then show ?case by simp
next
  case (Suc n)
  from Suc.prems(1) obtain now w1 plain w2 result retry found w3 where
    1: "time_now w = (Inr now, w1)" and
    2: "recv_plain C id w1 = (Inr plain, w2)" and
    3: "dispatch_io G stack msgID plain w2 = (Inr (result, retry, found), w3)" and
    4: "(if retry then io_return None else if found then io_return (Some result)
         else await_replies C G stack n msgID deadline) w3 = (Inr r, w')"
    by (auto simp: io_bind_eq_Inr split: if_splits)
  have a1: "session_auth w1 = session_auth w" by (rule io_keepsD [OF time_now_keeps_auth 1])
  have m1: "moves w [] [] [] w1" using time_now_moves [OF Suc.prems(2) 1] by blast
  obtain frame packet where p: "accepts (s_tr (chan w1)) frame packet" "decrypt C (session_auth w1) packet = Inr plain"
    "session_auth w2 = session_auth w1" and m2: "moves w1 frame [] [] w2"
    using recv_plain_moves [OF movesD(1) [OF m1] 2] by blast
  obtain salt where s: "dispatch G msgID stack plain (ss_salt (sess w2)) = (Inr (result, retry, found), salt)"
    "w3 = w2\<lparr>sess := (sess w2)\<lparr>ss_salt := salt\<rparr>\<rparr>"
    using 3 by (auto simp: dispatch_io_Inr)
  have a3: "session_auth w3 = session_auth w" using a1 p(3) by (simp add: s(2) session_auth_def)
  have "moves w2 [] [] [] w3" using moves_still [OF movesD(1) [OF m2], of w3 "[]"] by (simp add: s(2))
  from moves_trans [OF moves_trans [OF m1 m2] this] have m3: "moves w frame [] [] w3" by simp
  have tr: "s_tr (chan w1) = s_tr (chan w)" "s_tr (chan w3) = s_tr (chan w)" using movesD(2) [OF m1] movesD(2) [OF m3] by simp_all
  show ?case
  proof (cases "retry \<or> found")
    case True
    from dispatch_located [OF s(1) True] have l: "located G msgID plain result retry found salt" .
    have w': "w' = w3" using 4 True by (auto split: if_splits)
    show ?thesis
    proof (cases retry)
      case True
      with 4 have "r = None" by simp
      with m3 a3 w' show ?thesis by auto
    next
      case False
      with \<open>retry \<or> found\<close> l 4 have "located G msgID plain result False True salt" "r = Some result" by simp_all
      with repliedI [OF C Suc.prems(3) p(1) [unfolded tr(1)] p(2) [unfolded a1]] m3 a3 w' show ?thesis by auto
    qed
  next
    case False
    with 4 have aw: "await_replies C G stack n msgID deadline w3 = (Inr r, w')" by simp
    have "length (ak_keyID (session_auth w3)) = 8" using Suc.prems(3) a3 by simp
    from Suc.IH [OF aw movesD(1) [OF m3] this] obtain inb where i: "moves w3 inb [] [] w'" "session_auth w' = session_auth w3"
      "\<forall>result. r = Some result \<longrightarrow> replied C G (session_auth w) (s_tr (chan w)) inb msgID result" unfolding a3 tr by blast
    with moves_trans [OF m3 i(1)] a3 replied_after [of C G _ _ inb] show ?thesis by (intro exI [of _ "frame @ inb"]) auto
  qed
qed

lemma invoke_tries_trace:
  fixes w :: "('c, 'z) session_world_scheme"
  assumes C: "crypto_ok C"
  shows "invoke_tries C G stack n query deadline w = (Inr result, w') \<Longrightarrow> linked w \<Longrightarrow> length (ak_keyID (session_auth w)) = 8 \<Longrightarrow>
     \<exists>inb outb used msgID. moves w inb outb used w' \<and> called C (session_auth w) (s_tr (chan w)) outb msgID query \<and>
       replied C G (session_auth w) (s_tr (chan w)) inb msgID result"
proof (induction n arbitrary: w)
  case 0
  then show ?case by simp
next
  case (Suc n)
  from Suc.prems(1) obtain packet msgID w1 w2 r w3 where
    1: "encrypt C query w = (Inr (packet, msgID), w1)" and
    2: "sendRaw packet w1 = (Inr (), w2)" and
    3: "awaitResult C G stack msgID deadline w2 = (Inr r, w3)" and
    4: "(case r of Some res \<Rightarrow> io_return res
         | None \<Rightarrow> if n = 0 then io_fail (ErrText ''server kept rejecting the salt'')
                else invoke_tries C G stack n query deadline) w3 = (Inr result, w')"
    by (auto simp: io_bind_eq_Inr io_seq_def)
  obtain u1 where m1: "moves w [] [] u1 w1" using encrypt_chan [OF 1] moves_still [OF Suc.prems(2)] by blast
  obtain frame u2 where f: "emits (s_tr (chan w1)) packet frame" and m2: "moves w1 [] frame u2 w2"
    using sendRaw_moves [OF movesD(1) [OF m1] 2] by blast
  have a: "session_auth w1 = session_auth w" "session_auth w2 = session_auth w"
    using io_keepsD [OF encrypt_keeps_auth 1] io_keepsD [OF raw_keeps_auth(1) 2] by simp_all
  have tr: "s_tr (chan w1) = s_tr (chan w)" "s_tr (chan w2) = s_tr (chan w)" using movesD(2) [OF m1] movesD(2) [OF m2] by simp_all
  have c: "called C (session_auth w) (s_tr (chan w)) frame msgID query" by (rule encrypt_called [OF 1 f [unfolded tr(1)]])
  have id: "length (ak_keyID (session_auth w2)) = 8" using Suc.prems(3) a by simp
  obtain inb where i: "moves w2 inb [] [] w3" "session_auth w3 = session_auth w2"
    "\<forall>result. r = Some result \<longrightarrow> replied C G (session_auth w2) (s_tr (chan w2)) inb msgID result"
    using await_replies_trace [OF C 3 [unfolded awaitResult_def] movesD(1) [OF m2] id] by blast
  have m3: "moves w inb frame (u1 @ u2) w3" using moves_trans [OF moves_trans [OF m1 m2] i(1)] by simp
  show ?case
  proof (cases r)
    case (Some res)
    with 4 i(3) have "replied C G (session_auth w) (s_tr (chan w)) inb msgID result" "w' = w3" by (simp_all add: a tr)
    with m3 c show ?thesis by blast
  next
    case None
    with 4 have t: "invoke_tries C G stack n query deadline w3 = (Inr result, w')" by (simp split: if_splits)
    have a3: "session_auth w3 = session_auth w" "s_tr (chan w3) = s_tr (chan w)" using i(2) a(2) movesD(2) [OF m3] by simp_all
    with Suc.prems(3) have "length (ak_keyID (session_auth w3)) = 8" by simp
    from Suc.IH [OF t movesD(1) [OF m3] this, unfolded a3] obtain inb' outb used msgID' where
      n: "moves w3 inb' outb used w'" "called C (session_auth w) (s_tr (chan w)) outb msgID' query"
      "replied C G (session_auth w) (s_tr (chan w)) inb' msgID' result" by blast
    from moves_trans [OF m3 n(1)] called_after [OF n(2)] replied_after [OF n(3)] show ?thesis by blast
  qed
qed

lemma invoke_trace:
  fixes w :: "('c, 'z) session_world_scheme"
  assumes C: "crypto_ok C" and r: "invoke C G stack query timeout w = (Inr result, w')" and l: "linked w"
    and id: "length (ak_keyID (session_auth w)) = 8"
  shows "\<exists>inb outb used msgID. moves w inb outb used w' \<and> called C (session_auth w) (s_tr (chan w)) outb msgID query \<and>
       replied C G (session_auth w) (s_tr (chan w)) inb msgID result"
proof -
  let ?sd = "\<lambda>now. if timeout > 0 then setDeadline (now + timeout) else io_return ()"
  from r obtain now w1 w2 where 1: "time_now w = (Inr now, w1)" and 2: "?sd now w1 = (Inr (), w2)"
    and 3: "invoke_tries C G stack 2 query (now + timeout) w2 = (Inr result, w')"
    by (auto simp: invoke_def io_bind_eq_Inr io_seq_def)
  have m1: "moves w [] [] [] w1" using time_now_moves [OF l 1] by blast
  have "moves w1 [] [] [] w2"
    using 2 setDeadline_moves [OF movesD(1) [OF m1], of "now + timeout" w2] moves_still [OF movesD(1) [OF m1] refl, of "[]"]
    by (cases "timeout > 0") auto
  from moves_trans [OF m1 this] have m: "moves w [] [] [] w2" by simp
  have "io_keeps session_auth (?sd now)" by (intro keeps_intros)
  from io_keepsD [OF this 2] io_keepsD [OF time_now_keeps_auth 1] have a: "session_auth w2 = session_auth w" by simp
  with id have "length (ak_keyID (session_auth w2)) = 8" by simp
  from invoke_tries_trace [OF C 3 movesD(1) [OF m] this] obtain inb outb used msgID where
    t: "moves w2 inb outb used w'" "called C (session_auth w) (s_tr (chan w)) outb msgID query"
    "replied C G (session_auth w) (s_tr (chan w)) inb msgID result" unfolding a movesD(2) [OF m] by blast
  from moves_trans [OF m t(1)] t(2,3) show ?thesis by auto
qed

end

section \<open>Addresses outside Telegram\<close>

lemma unexpected_from_spec:
  "set (unexpected_from seen opts) = {h \<in> (addr_host \<circ> do_Addr) ` set opts. \<not> isTelegramAddress h \<and> h \<notin> set seen}"
  "distinct (unexpected_from seen opts)"
  by (induction opts arbitrary: seen) (auto simp: Let_def)

lemma addr_host_port: "CHR '':'' \<notin> set p \<Longrightarrow> h \<noteq> [] \<Longrightarrow> addr_host (h @ '':'' @ p) = h"
proof -
  assume p: "CHR '':'' \<notin> set p" and h: "h \<noteq> []"
  have n: "last_index CHR '':'' p = None" using p by (induction p) auto
  have "last_index CHR '':'' (h @ '':'' @ p) = Some (length h)"
    by (induction h) (simp_all add: n)
  then show ?thesis using h by (simp add: addr_host_def)
qed

section \<open>Honest configurations\<close>

record wire_option =
  wo_flags :: u32
  wo_id :: u32
  wo_addr :: bytes
  wo_port :: u32
  wo_secret :: bytes

definition wire_item :: "wire_option \<Rightarrow> bytes" where
  "wire_item v = put32 ctorDCOption @ put32 (wo_flags v) @ put32 (wo_id v) @ tl_bytes (wo_addr v) @ put32 (wo_port v)
     @ (if bit (wo_flags v) 10 then tl_bytes (wo_secret v) else [])"

definition option_of :: "wire_option \<Rightarrow> dcOption" where
  "option_of v = \<lparr>do_ID = sint (wo_id v), do_Addr = bytes_str (wo_addr v) @ '':'' @ dec_int (sint (wo_port v))\<rparr>"

definition wire_ok :: "wire_option \<Rightarrow> bool" where
  "wire_ok v \<longleftrightarrow> length (wo_addr v) < 16777216 \<and> length (wo_secret v) < 16777216"

lemma wire_item_aligned: "length (wire_item v) mod 4 = 0"
  unfolding wire_item_def by (intro mod4_app) (simp_all add: tl_bytes_aligned)

lemma config_options_cur:
  assumes "length xs mod 4 = 0" and "\<forall>v \<in> set vs. wire_ok v"
  shows "config_options (length vs) (cur xs (concat (map wire_item vs) @ ys)) = Some (map option_of vs)"
  using assms
proof (induction vs arbitrary: xs)
  case Nil
  then show ?case by simp
next
  case (Cons v vs)
  let ?rest = "concat (map wire_item vs) @ ys"
  have a1: "length (xs @ put32 ctorDCOption @ put32 (wo_flags v) @ put32 (wo_id v)) mod 4 = 0"
    using Cons.prems(1) by (intro mod4_app) simp_all
  then have a2: "length (xs @ put32 ctorDCOption @ put32 (wo_flags v) @ put32 (wo_id v) @ tl_bytes (wo_addr v) @ put32 (wo_port v)) mod 4 = 0"
    using mod4_app [OF a1, of "tl_bytes (wo_addr v) @ put32 (wo_port v)"] mod4_app [of "tl_bytes (wo_addr v)" "put32 (wo_port v)"]
    by (simp add: tl_bytes_aligned)
  have ok: "wire_ok v" "\<forall>v \<in> set vs. wire_ok v" using Cons.prems(2) by simp_all
  have IH: "config_options (length vs) (cur (xs @ wire_item v) ?rest) = Some (map option_of vs)"
    using mod4_app [OF Cons.prems(1) wire_item_aligned] ok(2) by (rule Cons.IH)
  show ?case
    using IH ok(1) a1 a2
    by (cases "bit (wo_flags v) 10")
      (simp_all add: cursor_cur_simps wire_item_def [of v] option_of_def [of v] wire_ok_def [of v])
qed

definition config_body :: "u32 \<Rightarrow> u32 \<Rightarrow> u32 \<Rightarrow> u32 \<Rightarrow> u32 \<Rightarrow> wire_option list \<Rightarrow> bytes" where
  "config_body flags date expires test dc vs =
     put32 ctorConfig @ put32 flags @ put32 date @ put32 expires @ put32 test @ put32 dc @ put32 ctorVector
     @ put32 (word_of_nat (length vs)) @ concat (map wire_item vs)"

lemma parseConfig_honest:
  assumes "length vs \<le> 256" and "\<forall>v \<in> set vs. wire_ok v"
  shows "parseConfig (config_body flags date expires test dc vs @ rest) =
     \<lparr>cf_ThisDC = sint dc, cf_TestMode = (test = ctorBoolTrue), cf_Options = map option_of vs,
      cf_Unexpected = unexpectedAddresses (map option_of vs), cf_Parsed = True\<rparr>"
proof -
  let ?b = "config_body flags date expires test dc vs @ rest"
  have c: "ctor_of ?b = ctorConfig" "4 \<le> length ?b" by (simp_all add: config_body_def ctor_of_def)
  have "length (put32 ctorConfig @ put32 flags @ put32 date @ put32 expires @ put32 test @ put32 dc @ put32 ctorVector
     @ put32 (word_of_nat (length vs) :: u32)) mod 4 = 0" by simp
  note o = config_options_cur [OF this assms(2), of rest]
  show ?thesis
    using assms(1) o c
    by (simp add: parseConfig_def config_body_def newCursor_cur cursor_uint32_cur unat_of_nat)
qed

lemma parseNearestDC_honest:
  assumes "length country < 16777216"
  shows "parseNearestDC (put32 ctorNearestDC @ tl_bytes country @ put32 this @ put32 near @ rest) =
     Inr \<lparr>nd_Country = bytes_str country, nd_ThisDC = sint this, nd_NearestDC = sint near\<rparr>"
  using assms by (simp add: parseNearestDC_def newCursor_cur cursor_cur_simps)

section \<open>A call that is answered at once\<close>

text \<open>\<open>stands w\<close>: the clock stands still at \<open>t\<close>.\<close>

definition stands :: "int \<Rightarrow> 'z env_scheme \<Rightarrow> bool" where
  "stands t w \<longleftrightarrow> clk w = t \<and> ticks w = []"

lemma stands_time_now: "stands t w \<Longrightarrow> time_now w = (Inr t, w)"
  by (simp add: stands_def time_now_def)

lemma stands_keeps:
  "io_keeps clk (on_carrier m)" "io_keeps ticks (on_carrier m)"
  by (simp_all add: io_keeps_def on_carrier_def split: prod.splits)

lemma stands_cong: "clk w' = clk w \<Longrightarrow> ticks w' = ticks w \<Longrightarrow> stands t w' = stands t w"
  by (simp add: stands_def)

text \<open>\<open>by_then T w\<close>: no reading of the clock to come is after \<open>T\<close>; \<open>past T w\<close>: every one is.\<close>

definition by_then :: "int \<Rightarrow> 'z env_scheme \<Rightarrow> bool" where
  "by_then T w \<longleftrightarrow> (ticks w = [] \<longrightarrow> clk w \<le> T) \<and> (\<forall>t \<in> set (ticks w). t \<le> T)"

lemma by_then_time_now:
  assumes "by_then T w" and "time_now w = (Inr t, w')"
  shows "t \<le> T \<and> by_then T w'"
proof (cases "ticks w")
  case Nil
  with assms(2) have "t = clk w" "w' = w" by (auto simp: time_now_def)
  with assms(1) Nil show ?thesis by (simp add: by_then_def)
next
  case (Cons a as)
  with assms(2) have "t = a" "w' = w\<lparr>clk := a, ticks := as\<rparr>" by (auto simp: time_now_def)
  with assms(1) Cons show ?thesis by (simp add: by_then_def)
qed

definition past :: "int \<Rightarrow> 'z env_scheme \<Rightarrow> bool" where
  "past T w \<longleftrightarrow> (ticks w = [] \<longrightarrow> T < clk w) \<and> (\<forall>t \<in> set (ticks w). T < t)"

lemma past_time_now:
  assumes "past T w" and "time_now w = (Inr t, w')"
  shows "T < t \<and> past T w'"
proof (cases "ticks w")
  case Nil
  with assms(2) have "t = clk w" "w' = w" by (auto simp: time_now_def)
  with assms(1) Nil show ?thesis by (simp add: past_def)
next
  case (Cons a as)
  with assms(2) have "t = a" "w' = w\<lparr>clk := a, ticks := as\<rparr>" by (auto simp: time_now_def)
  with assms(1) Cons show ?thesis by (simp add: past_def)
qed

text \<open>Sending and receiving look at the clock only through \<open>time_now\<close>.\<close>

lemma sendRaw_clock:
  fixes P :: "('c stream, 'z) world_scheme \<Rightarrow> bool"
  assumes tn: "io_inv P time_now" and cong: "\<And>w w'. clk w' = clk w \<Longrightarrow> ticks w' = ticks w \<Longrightarrow> P w \<Longrightarrow> P w'"
    and w: "P w" "sendRaw p w = (r, w')"
  shows "P w'"
proof -
  have md: "io_inv P (io_modify (\<lambda>w. w\<lparr>chan := h w\<rparr>))" for h
    unfolding io_inv_def by (auto intro: cong [rotated 2])
  have gt: "io_inv P (io_gets f)" "io_inv P (io_return x)" "io_inv P (io_lift y)" for f x y
    by (simp_all add: io_inv_def)
  have cr: "io_inv P (on_carrier m)" for m
    unfolding io_inv_def on_carrier_def by (auto split: prod.splits intro: cong [rotated 2])
  have en: "io_inv P (encode tr q)" for tr q
  proof (cases tr)
    case PaddedIntermediate
    have "io_inv P (rand_int n)" "io_inv P (randomBytes m)" for n m
      unfolding io_inv_def rand_int_def randomBytes_def by (auto split: option.splits intro: cong [rotated 2])
    then show ?thesis using gt PaddedIntermediate by (auto simp: encodePaddedIntermediate_def intro!: io_inv_bind)
  qed (simp_all add: gt)
  have if1: "io_inv P m \<Longrightarrow> io_inv P n \<Longrightarrow> io_inv P (if b then m else n)" for b and m n :: "(('c stream, 'z) world_scheme, unit) io"
    by simp
  have "io_inv P (sendRaw p)"
    unfolding sendRaw_def stream_step_def stamp_sent_def
    by (intro io_inv_bind io_inv_seq tn md gt cr en if1)
  from io_invD [OF this] w show ?thesis by blast
qed

lemma sendRaw_stands: "stands t w \<Longrightarrow> sendRaw p w = (r, w') \<Longrightarrow> stands t w'"
  by (rule sendRaw_clock [of "stands t"]) (auto simp: io_inv_def stands_time_now stands_def)

lemma sendRaw_before:
  fixes w :: "('c stream, 'z) world_scheme"
  shows "by_then T w \<Longrightarrow> sendRaw p w = (r, w') \<Longrightarrow> by_then T w'"
proof (rule sendRaw_clock [of "by_then T"])
  have "by_then T (snd (time_now w))" if "by_then T w" for w :: "('c stream, 'z) world_scheme"
    using by_then_time_now [OF that] time_now_total [of w] by auto
  then show "io_inv (by_then T) (time_now :: (('c stream, 'z) world_scheme, int) io)" by (simp add: io_inv_def)
qed (auto simp: by_then_def)

lemma sendRaw_past:
  fixes w :: "('c stream, 'z) world_scheme"
  shows "past T w \<Longrightarrow> sendRaw p w = (r, w') \<Longrightarrow> past T w'"
proof (rule sendRaw_clock [of "past T"])
  have "past T (snd (time_now w))" if "past T w" for w :: "('c stream, 'z) world_scheme"
    using past_time_now [OF that] time_now_total [of w] by auto
  then show "io_inv (past T) (time_now :: (('c stream, 'z) world_scheme, int) io)" by (simp add: io_inv_def)
qed (auto simp: past_def)

lemma recvRaw_stands:
  assumes "stands t w" and "recvRaw w = (r, w')"
  shows "stands t w'"
proof -
  have "io_inv (stands t) recvRaw"
    unfolding recvRaw_def
    by (intro io_inv_bind io_inv_seq) (auto simp: io_inv_def stands_time_now on_carrier_def stands_def io_bind_def time_now_def
        split: prod.splits)
  from io_invD [OF this] assms show ?thesis by blast
qed

definition reply_of :: "crypto \<Rightarrow> gzip \<Rightarrow> authKey \<Rightarrow> u64 \<Rightarrow> bytes \<Rightarrow> bytes \<Rightarrow> bool" where
  "reply_of C G auth msgID reply result \<longleftrightarrow>
     (\<exists>plain body. seal C auth 8 plain = Inr reply \<and> open_body plain = Inr body \<and> answer_of G msgID body result \<and>
        (length result < 4 \<or> ctor_of result \<noteq> ctorRPCError))"

text \<open>The message carries the time at which it is sealed.\<close>

lemma encrypt_at:
  assumes C: "crypto_ok C" and t: "time_now w = (Inr t, v)" and n: "27 \<le> length (entropy w)"
  shows "\<exists>packet n. n \<le> 27 \<and> encrypt C body w = (Inr (packet, messageID_at t),
     v\<lparr>sess := (sess w)\<lparr>ss_seqNo := ss_seqNo (sess w) + 1\<rparr>, entropy := drop n (entropy w)\<rparr>)"
proof -
  let ?s = "sess w"
  define s' where "s' = ?s\<lparr>ss_seqNo := ss_seqNo ?s + 1\<rparr>"
  define v1 where "v1 = v\<lparr>sess := s'\<rparr>"
  have "time_now (w\<lparr>sess := s'\<rparr>) = (Inr t, v1)" using t by (cases "ticks w") (auto simp: time_now_def v1_def)
  then have m: "messageID (w\<lparr>sess := s'\<rparr>) = (Inr (messageID_at t), v1)" by (simp add: messageID_def io_bind_Inr)
  have e: "entropy v1 = entropy w" using time_now_entropy [OF t] by (simp add: v1_def)
  let ?p = "plain_header ?s (messageID_at t) (ss_seqNo ?s * 2 + 1) body"
  have le: "padding_for (length ?p) \<le> length (entropy v1)"
    using n padding_for_bounds(2) [of "length ?p"] by (simp add: e)
  then have f: "randomBytes (padding_for (length ?p)) v1 = (Inr (take (padding_for (length ?p)) (entropy v1)),
      v1\<lparr>entropy := drop (padding_for (length ?p)) (entropy v1)\<rparr>)" by (rule randomBytes_ok)
  have "length (?p @ take (padding_for (length ?p)) (entropy v1)) mod 16 = 0"
    using padding_for_bounds(3) [of "length ?p"] le by simp
  from seal_ok [OF C this, of "ss_auth ?s" 0] obtain packet
    where "seal C (ss_auth ?s) 0 (?p @ take (padding_for (length ?p)) (entropy v1)) = Inr packet" by blast
  with m f have "encrypt C body w = (Inr (packet, messageID_at t), v1\<lparr>entropy := drop (padding_for (length ?p)) (entropy v1)\<rparr>)"
    by (simp add: encrypt_def Let_def io_seq_def io_bind_def s'_def)
  then show ?thesis using padding_for_bounds(2) [of "length ?p"]
    by (intro exI [of _ packet] exI [of _ "padding_for (length ?p)"]) (simp add: v1_def s'_def time_now_entropy [OF t])
qed

lemmas encrypt_stands = encrypt_at [OF _ stands_time_now]

context duplex
begin

lemma setDeadline_ok: "fits w \<Longrightarrow> \<exists>w'. setDeadline a w = (Inr (), w') \<and> fits w' \<and> view w' = view w"
proof -
  assume f: "fits w"
  define s where "s = (chan w)\<lparr>s_until := Some a\<rparr>"
  have "lk_deadline (s_link s) \<in> {None, Some dl}" using f by (simp add: s_def fits_def)
  note d = set_carrier_deadline_view [OF this, of a]
  let ?w = "w\<lparr>chan := set_carrier_deadline a s\<rparr>"
  have "fits ?w" "view ?w = view w" using f d by (simp_all add: fits_def view_def) (simp_all add: s_def)
  moreover have "setDeadline a w = (Inr (), ?w)" by (simp add: setDeadline_def s_def)
  ultimately show ?thesis by blast
qed

text \<open>A call up to the point where it waits for the answer.\<close>

lemma invoke_asks:
  fixes w :: "('c, 'z) session_world_scheme"
  assumes C: "crypto_ok C" and auth: "ss_auth (sess w) = auth"
    and t: "time_now w = (Inr t0, v)" "time_now v = (Inr t, u)"
    and w: "fits w" "view w = (inp, Suc k, ent, pc)" "27 \<le> length ent"
  shows "\<exists>w3. invoke C G stack query timeout w =
       io_bind (awaitResult C G stack (messageID_at t) (t0 + timeout)) (\<lambda>r. case r of
          Some result \<Rightarrow> io_return result
        | None \<Rightarrow> invoke_tries C G stack 1 query (t0 + timeout)) w3 \<and>
     fits w3 \<and> view w3 = (inp, k, entropy w3, pc) \<and> session_auth w3 = auth \<and>
     (\<forall>T. (by_then T u \<longrightarrow> by_then T w3) \<and> (past T u \<longrightarrow> past T w3))"
proof -
  let ?sd = "if timeout > 0 then setDeadline (t0 + timeout) else io_return ()"
  have tv: "chan v = chan w" "entropy v = entropy w" "primeCache v = primeCache w"
    using time_now_view [of w] t(1) by auto
  have fv: "fits v" "view v = view w" using w(1) tv by (simp_all add: fits_def view_def)
  obtain w1 where 1: "?sd v = (Inr (), w1)" "fits w1" "view w1 = view w"
    using setDeadline_ok [OF fv(1), of "t0 + timeout"] fv by (cases "timeout > 0") auto
  have k1: "session_auth w1 = auth"
  proof -
    have "io_keeps session_auth ?sd" by (intro keeps_intros)
    from io_keepsD [OF this 1(1)] io_keepsD [OF time_now_keeps_auth t(1)] auth show ?thesis by (simp add: session_auth_def)
  qed
  have "clk w1 = clk v" "ticks w1 = ticks v" using 1(1) by (auto simp: setDeadline_def split: if_splits)
  then obtain u1 where t1: "time_now w1 = (Inr t, u1)" "clk u1 = clk u" "ticks u1 = ticks u"
    using t(2) by (cases "ticks v") (auto simp: time_now_def)
  have u1: "chan u1 = chan w1" "primeCache u1 = primeCache w1" "sess u1 = sess w1"
    using time_now_view [of w1] t1(1) io_keepsD [OF time_now_keeps_sess t1(1)] by auto
  have e1: "entropy w1 = ent" using 1(3) w(2) by (simp add: view_def)
  obtain packet m where 2: "encrypt C query w1 = (Inr (packet, messageID_at t),
     u1\<lparr>sess := (sess w1)\<lparr>ss_seqNo := ss_seqNo (sess w1) + 1\<rparr>, entropy := drop m (entropy w1)\<rparr>)"
    using encrypt_at [OF C t1(1)] w(3) e1 by blast
  define w2 where "w2 = u1\<lparr>sess := (sess w1)\<lparr>ss_seqNo := ss_seqNo (sess w1) + 1\<rparr>, entropy := drop m (entropy w1)\<rparr>"
  have v2: "fits w2" "view w2 = (inp, Suc k, entropy w2, pc)" "session_auth w2 = auth"
    "by_then T u \<Longrightarrow> by_then T w2" "past T u \<Longrightarrow> past T w2" for T
    using 1(2,3) w(2) t1(2,3) u1 k1 by (simp_all add: w2_def fits_def view_def by_then_def past_def session_auth_def)
  obtain w3 where 3: "sendRaw packet w2 = (Inr (), w3)" "fits w3" "view w3 = (inp, k, entropy w2, pc)"
    using sendRaw_ok [OF v2(1,2)] by blast
  have s3: "by_then T u \<Longrightarrow> by_then T w3" "past T u \<Longrightarrow> past T w3" for T
    by (rule sendRaw_before [OF v2(4) 3(1)] sendRaw_past [OF v2(5) 3(1)], assumption)+
  have k3: "session_auth w3 = auth" using io_keepsD [OF raw_keeps_auth(1) 3(1)] v2(3) by simp
  have b2: "io_bind (encrypt C query) f w1 = f (packet, messageID_at t) w2" for f by (rule io_bind_Inr) (simp only: 2 w2_def)
  have b3: "io_bind (sendRaw packet) f w2 = f () w3" for f by (rule io_bind_Inr) (rule 3(1))
  have "invoke C G stack query timeout w = invoke_tries C G stack 2 query (t0 + timeout) w1"
    using 1(1) t(1) by (simp add: invoke_def io_bind_def io_seq_def)
  also have "\<dots> = invoke_tries C G stack (Suc 1) query (t0 + timeout) w1" by (simp only: numeral_2_eq_2 One_nat_def)
  also have "\<dots> = io_bind (awaitResult C G stack (messageID_at t) (t0 + timeout)) (\<lambda>r. case r of
          Some result \<Rightarrow> io_return result
        | None \<Rightarrow> invoke_tries C G stack 1 query (t0 + timeout)) w3"
    by (subst invoke_tries.simps(2)) (simp only: b2 b3 io_seq_def prod.case one_neq_zero if_False)
  finally show ?thesis using 3(2,3) k3 s3 by (intro exI [of _ w3]) (simp add: view_def)
qed

lemma invoke_complete:
  fixes w :: "('c, 'z) session_world_scheme"
  assumes C: "crypto_ok C" and auth: "ss_auth (sess w) = auth" "length (ak_keyID auth) = 8"
    and t: "time_now w = (Inr t0, v)" "time_now v = (Inr t, u)" "by_then (t0 + timeout) u"
    and w: "fits w" "view w = (encodeIntermediate reply @ rest, Suc k, ent, pc)" "27 \<le> length ent"
    and r: "reply_of C G auth (messageID_at t) reply result" "length reply \<le> maxPacketLen"
  shows "\<exists>w'. invoke C G stack query timeout w = (Inr result, w')"
proof -
  from r(1) obtain plain body where b: "seal C auth 8 plain = Inr reply" "open_body plain = Inr body"
    "answer_of G (messageID_at t) body result" "length result < 4 \<or> ctor_of result \<noteq> ctorRPCError"
    by (auto simp: reply_of_def)
  have dec: "decrypt C auth reply = Inr body" using decrypt_iff [OF C auth(2)] b(1,2) by blast
  have l: "0 < length reply" using dec by (auto simp: decrypt_def open_message_def res_bind_eq_Inr split: if_splits)
  obtain w3 where i: "invoke C G stack query timeout w =
       io_bind (awaitResult C G stack (messageID_at t) (t0 + timeout)) (\<lambda>r. case r of
          Some result \<Rightarrow> io_return result
        | None \<Rightarrow> invoke_tries C G stack 1 query (t0 + timeout)) w3"
    and w3: "fits w3" "view w3 = (encodeIntermediate reply @ rest, k, entropy w3, pc)" "session_auth w3 = auth" "by_then (t0 + timeout) w3"
    using invoke_asks [OF C auth(1) t(1,2) w, of G stack query timeout] t(3) by blast
  obtain now v3 where tn: "time_now w3 = (Inr now, v3)" "chan v3 = chan w3" "entropy v3 = entropy w3" "primeCache v3 = primeCache w3"
    using time_now_view [of w3] by blast
  have now: "now \<le> t0 + timeout" using by_then_time_now [OF w3(4) tn(1)] by simp
  have v3: "fits v3" "view v3 = (encodeIntermediate reply @ rest, k, entropy w3, pc)" "session_auth v3 = auth"
    using w3 tn io_keepsD [OF time_now_keeps_auth tn(1)] by (simp_all add: fits_def view_def)
  obtain w4 where 4: "recvRaw v3 = (Inr reply, w4)" using recvRaw_ok [OF v3(1,2) l r(2)] by blast
  have a4: "ss_auth (sess w4) = auth" using io_keepsD [OF raw_keeps_auth(2) 4] v3(3) by (simp add: session_auth_def)
  obtain w5 where 5: "dispatch_io G stack (messageID_at t) body w4 = (Inr (result, False, True), w5)"
    using dispatch_answer [OF b(3,4)] by (auto simp: dispatch_io_def)
  have rp: "io_bind (recv_plain C id) f v3 = f body w4" for f :: "bytes \<Rightarrow> (('c, 'z) session_world_scheme, bytes option) io"
    by (rule io_bind_Inr) (simp add: recv_plain_def io_bind_def io_map_err_def 4 dec a4)
  have aw: "await_replies C G stack (Suc n) (messageID_at t) (t0 + timeout) w3 = (Inr (Some result), w5)" for n
    using now by (simp add: io_bind_def [of time_now] tn(1) rp) (simp add: io_bind_def 5)
  have "awaitResult C G stack (messageID_at t) (t0 + timeout) w3 = (Inr (Some result), w5)"
    using aw [of 15] by (simp add: awaitResult_def maxRPCReplies_def)
  then show ?thesis unfolding i by (simp add: io_bind_Inr)
qed

text \<open>When the deadline has passed, no reply is looked at.\<close>

lemma invoke_expires:
  fixes w :: "('c, 'z) session_world_scheme"
  assumes C: "crypto_ok C" and t: "time_now w = (Inr t0, v)" "time_now v = (Inr t, u)" "past (t0 + timeout) u"
    and w: "fits w" "view w = (inp, Suc k, ent, pc)" "27 \<le> length ent"
  shows "\<exists>w'. invoke C G stack query timeout w = (Inl (ErrText ''timed out waiting for rpc_result''), w') \<and>
     pend (s_carrier (chan w')) = inp"
proof -
  obtain w3 where i: "invoke C G stack query timeout w =
       io_bind (awaitResult C G stack (messageID_at t) (t0 + timeout)) (\<lambda>r. case r of
          Some result \<Rightarrow> io_return result
        | None \<Rightarrow> invoke_tries C G stack 1 query (t0 + timeout)) w3"
    and w3: "view w3 = (inp, k, entropy w3, pc)" "past (t0 + timeout) w3"
    using invoke_asks [OF C refl t(1,2) w, of G stack query timeout] t(3) by blast
  obtain now v3 where tn: "time_now w3 = (Inr now, v3)" "chan v3 = chan w3"
    using time_now_view [of w3] by blast
  have now: "t0 + timeout < now" using past_time_now [OF w3(2) tn(1)] by simp
  have aw: "await_replies C G stack (Suc n) (messageID_at t) (t0 + timeout) w3 = (Inl (ErrText ''timed out waiting for rpc_result''), v3)" for n
    using now by (simp add: io_bind_def tn(1))
  have "awaitResult C G stack (messageID_at t) (t0 + timeout) w3 = (Inl (ErrText ''timed out waiting for rpc_result''), v3)"
    using aw [of 15] by (simp add: awaitResult_def maxRPCReplies_def)
  then show ?thesis unfolding i using w3(1) tn(2) by (simp add: io_bind_Inl view_def)
qed

end

section \<open>A ping that is answered at once\<close>

context duplex
begin

lemma ping_complete:
  fixes w :: "('c, 'z) session_world_scheme"
  assumes C: "crypto_ok C" and auth: "ss_auth (sess w) = auth" "length (ak_keyID auth) = 8"
    and w: "stands t w" "fits w" "view w = (encodeIntermediate reply @ rest, Suc k, pingID @ ent, pc)" "length pingID = 8" "27 \<le> length ent"
    and r: "seal C auth 8 plain = Inr reply" "open_body plain = Inr body" "containsPong pingID body = Inr True"
      "length reply \<le> maxPacketLen"
  shows "\<exists>w'. ping C w = (Inr 0, w')"
proof -
  have dec: "decrypt C auth reply = Inr body" using decrypt_iff [OF C auth(2)] r(1,2) by blast
  have l: "0 < length reply" using dec by (auto simp: decrypt_def open_message_def res_bind_eq_Inr split: if_splits)
  have e: "entropy w = pingID @ ent" using w(3) by (simp add: view_def)
  define w1 where "w1 = w\<lparr>entropy := ent\<rparr>"
  have 1: "randomBytes 8 w = (Inr pingID, w1)" using e w(4) by (simp add: randomBytes_def w1_def)
  have v1: "fits w1" "view w1 = (encodeIntermediate reply @ rest, Suc k, ent, pc)" "stands t w1" "session_auth w1 = auth" "entropy w1 = ent"
    using w auth by (simp_all add: w1_def fits_def view_def stands_def session_auth_def)
  let ?body = "buf_raw pingID (buf_uint32 ctorPing [])"
  obtain packet m where 2: "encrypt C ?body w1 = (Inr (packet, messageID_at t),
     w1\<lparr>sess := (sess w1)\<lparr>ss_seqNo := ss_seqNo (sess w1) + 1\<rparr>, entropy := drop m (entropy w1)\<rparr>)"
    using encrypt_stands [OF C v1(3)] w(5) v1(5) by blast
  define w2 where "w2 = w1\<lparr>sess := (sess w1)\<lparr>ss_seqNo := ss_seqNo (sess w1) + 1\<rparr>, entropy := drop m (entropy w1)\<rparr>"
  have v2: "fits w2" "view w2 = (encodeIntermediate reply @ rest, Suc k, entropy w2, pc)" "stands t w2" "session_auth w2 = auth"
    using v1 by (simp_all add: w2_def fits_def view_def stands_def session_auth_def)
  obtain w3 where 3: "sendRaw packet w2 = (Inr (), w3)" "fits w3" "view w3 = (encodeIntermediate reply @ rest, k, entropy w2, pc)"
    using sendRaw_ok [OF v2(1,2)] by blast
  have k3: "session_auth w3 = auth" using io_keepsD [OF raw_keeps_auth(1) 3(1)] v2(4) by simp
  obtain w4 where 4: "recvRaw w3 = (Inr reply, w4)" using recvRaw_ok [OF 3(2,3) l r(4)] by blast
  have a4: "ss_auth (sess w4) = auth" using io_keepsD [OF raw_keeps_auth(2) 4] k3 by (simp add: session_auth_def)
  have s3: "stands t w3" by (rule sendRaw_stands [OF v2(3) 3(1)])
  have s4: "stands t w4" by (rule recvRaw_stands [OF s3 4])
  have rp: "io_bind (recv_plain C g) f w3 = f body w4" for g and f :: "bytes \<Rightarrow> (('c, 'z) session_world_scheme, unit) io"
    by (rule io_bind_Inr) (simp add: recv_plain_def io_bind_def io_map_err_def 4 dec a4)
  have aw: "await_pong C pingID (Suc n) w3 = (Inr (), w4)" for n
    by (simp add: rp) (simp add: io_bind_def r(3))
  have "await_pong C pingID 4 w3 = (Inr (), w4)" using aw [of 3] by simp
  then have "ping C w = (Inr (t - t), w4)"
    using 1 2 3(1) by (simp add: ping_def io_bind_def io_seq_def w2_def [symmetric] stands_time_now [OF v2(3)] stands_time_now [OF s4])
  then show ?thesis by simp
qed

end

end
