(* ===== verification/FakeTls.thy ===== *)
theory FakeTls
  imports Obfuscate Text
begin

text \<open>
  \<open>internal/mtproto/faketls.go\<close>: the TLS 1.3 look-alike in front of an MTProto proxy.  The
  ClientHello carries a digest of itself under the secret, the ServerHello answers with one
  over the client's random; afterwards \<open>tlsConn\<close> wraps the stream in application-data
  records.  The lemmas show that the hello is one well-formed record of 517 bytes the proxy
  authenticates, which ServerHello is accepted, and that a \<open>tlsConn\<close> again is a
  \<open>byte_source\<close> and a \<open>byte_sink\<close>, over the payload of the records.
\<close>

definition tlsRecordLimit :: nat where "tlsRecordLimit = 16384"

section \<open>Drawing the hello's fields\<close>

definition fakeX25519Key :: "('z env_scheme, bytes) io" where
  "fakeX25519Key =
     (let p = 2 ^ 255 - 19 in
      io_bind (rand_int p) (\<lambda>v. io_return (rev (be_bytes 32 (v * v mod p)))))"

fun grease_from :: "byte option \<Rightarrow> bytes \<Rightarrow> bytes" where
  "grease_from prev [] = []"
| "grease_from prev (b # raw) =
     (let v = (b AND 0xF0) + 0x0A; value = (if prev = Some v then v XOR 0x10 else v)
      in value # grease_from (Some value) raw)"

definition makeGrease :: "nat \<Rightarrow> ('z env_scheme, bytes) io" where
  "makeGrease n = io_bind (randomBytes n) (\<lambda>raw. io_return (grease_from None raw))"

definition encodeSNI :: "string \<Rightarrow> goerr + bytes" where
  "encodeSNI sni =
     (let name = to_lower (trim_space sni) in
      if name = [] then Inl (ErrText ''empty FakeTLS domain'')
      else if list_ex (\<lambda>ch. (of_char ch :: nat) < 0x21 \<or> (of_char ch :: nat) > 0x7E) name
      then Inl (ErrText (''FakeTLS domain is not ASCII: '' @ quote sni))
      else Inr (str_bytes (if length name > 255 then take 255 name else name)))"

section \<open>The builder\<close>

record helloBuilder =
  hb_buf :: bytes
  hb_scopes :: "nat list"

definition hb_put :: "bytes \<Rightarrow> helloBuilder \<Rightarrow> helloBuilder" where
  "hb_put p b = b\<lparr>hb_buf := hb_buf b @ p\<rparr>"

definition hb_len :: "helloBuilder \<Rightarrow> nat" where
  "hb_len b = length (hb_buf b)"

definition overwrite_at :: "nat \<Rightarrow> bytes \<Rightarrow> bytes \<Rightarrow> bytes" where
  "overwrite_at at p buf = take at buf @ p @ drop (at + length p) buf"

definition hb_overwrite :: "nat \<Rightarrow> bytes \<Rightarrow> helloBuilder \<Rightarrow> helloBuilder" where
  "hb_overwrite at p b = b\<lparr>hb_buf := overwrite_at at p (hb_buf b)\<rparr>"

text \<open>The scopes are a stack, innermost first.\<close>

definition hb_open :: "helloBuilder \<Rightarrow> helloBuilder" where
  "hb_open b = b\<lparr>hb_scopes := length (hb_buf b) # hb_scopes b, hb_buf := hb_buf b @ [0, 0]\<rparr>"

definition put16be :: "nat \<Rightarrow> bytes" where
  "put16be n = be_bytes 2 n"

definition hb_close :: "helloBuilder \<Rightarrow> helloBuilder" where
  "hb_close b = (case hb_scopes b of
       [] \<Rightarrow> b
     | start # rest \<Rightarrow> b\<lparr>hb_scopes := rest,
         hb_buf := overwrite_at start (put16be (length (hb_buf b) - start - 2)) (hb_buf b)\<rparr>)"

definition grease_pair :: "bytes \<Rightarrow> nat \<Rightarrow> helloBuilder \<Rightarrow> helloBuilder" where
  "grease_pair grease i = hb_put [grease ! i, grease ! i]"

text \<open>The hello up to the padding extension, in the order of the code.\<close>

definition hello_head :: "bytes \<Rightarrow> bytes \<Rightarrow> (helloBuilder \<Rightarrow> helloBuilder) list" where
  "hello_head grease sessionID =
     [hb_put [0x16, 0x03, 0x01], hb_open, hb_put [0x01, 0x00], hb_open, hb_put [0x03, 0x03],
      hb_put (replicate 32 0), hb_put [0x20], hb_put sessionID, hb_put [0x00, 0x20], grease_pair grease 0,
      hb_put [0x13, 0x01, 0x13, 0x02, 0x13, 0x03, 0xC0, 0x2B, 0xC0, 0x2F, 0xC0, 0x2C, 0xC0, 0x30,
              0xCC, 0xA9, 0xCC, 0xA8, 0xC0, 0x13, 0xC0, 0x14, 0x00, 0x9C, 0x00, 0x9D, 0x00, 0x2F,
              0x00, 0x35],
      hb_put [0x01, 0x00], hb_open, grease_pair grease 1, hb_put [0x00, 0x00]]"

definition hello_sni :: "bytes \<Rightarrow> (helloBuilder \<Rightarrow> helloBuilder) list" where
  "hello_sni serverName =
     [hb_put [0x00, 0x00], hb_open, hb_open, hb_put [0x00], hb_open, hb_put serverName,
      hb_close, hb_close, hb_close]"

definition hello_middle :: "bytes \<Rightarrow> (helloBuilder \<Rightarrow> helloBuilder) list" where
  "hello_middle grease =
     [hb_put [0x00, 0x17, 0x00, 0x00], hb_put [0xFF, 0x01, 0x00, 0x01, 0x00],
      hb_put [0x00, 0x0A, 0x00, 0x0A, 0x00, 0x08], grease_pair grease 2,
      hb_put [0x00, 0x1D, 0x00, 0x17, 0x00, 0x18], hb_put [0x00, 0x0B, 0x00, 0x02, 0x01, 0x00],
      hb_put [0x00, 0x23, 0x00, 0x00],
      hb_put [0x00, 0x10, 0x00, 0x0E, 0x00, 0x0C, 0x02, 0x68, 0x32, 0x08,
              0x68, 0x74, 0x74, 0x70, 0x2F, 0x31, 0x2E, 0x31],
      hb_put [0x00, 0x05, 0x00, 0x05, 0x01, 0x00, 0x00, 0x00, 0x00],
      hb_put [0x00, 0x0D, 0x00, 0x12, 0x00, 0x10, 0x04, 0x03, 0x08, 0x04, 0x04, 0x01,
              0x05, 0x03, 0x08, 0x05, 0x05, 0x01, 0x08, 0x06, 0x06, 0x01],
      hb_put [0x00, 0x12, 0x00, 0x00], hb_put [0x00, 0x1B, 0x00, 0x03, 0x02, 0x00, 0x02]]"

definition hello_key_share :: "bytes \<Rightarrow> bytes \<Rightarrow> (helloBuilder \<Rightarrow> helloBuilder) list" where
  "hello_key_share grease keyShare =
     [hb_put [0x00, 0x33], hb_open, hb_open, grease_pair grease 3, hb_put [0x00, 0x01, 0x00],
      hb_put [0x00, 0x1D, 0x00, 0x20], hb_put keyShare, hb_close, hb_close,
      hb_put [0x00, 0x2D, 0x00, 0x02, 0x01, 0x01], hb_put [0x00, 0x2B, 0x00, 0x07, 0x06],
      grease_pair grease 4, hb_put [0x03, 0x04, 0x03, 0x03]]"

text \<open>\<open>if pad := 517 - 4 - b.len(); pad > 0\<close>\<close>

definition hello_padding :: "helloBuilder \<Rightarrow> helloBuilder" where
  "hello_padding b =
     (if hb_len b < 513
      then hb_close (hb_put (replicate (513 - hb_len b) 0) (hb_open (hb_put [0x00, 0x15] b)))
      else b)"

definition run_ops :: "(helloBuilder \<Rightarrow> helloBuilder) list \<Rightarrow> helloBuilder \<Rightarrow> helloBuilder" where
  "run_ops fs b = fold (\<lambda>f. f) fs b"

definition hello_body :: "bytes \<Rightarrow> bytes \<Rightarrow> bytes \<Rightarrow> bytes \<Rightarrow> helloBuilder" where
  "hello_body serverName grease sessionID keyShare =
     hb_close (hb_close (hb_close (hello_padding
       (run_ops (hello_head grease sessionID @ hello_sni serverName @ hello_middle grease
                 @ hello_key_share grease keyShare)
          \<lparr>hb_buf = [], hb_scopes = []\<rparr>))))"

definition random_offset :: nat where "random_offset = 11"

record clientHello =
  ch_bytes :: bytes
  ch_sessionID :: bytes
  ch_random :: bytes

definition client_random :: "bytes \<Rightarrow> u32 \<Rightarrow> bytes" where
  "client_random digest now = take 28 digest @ xor_bytes (put32 now) (slice 28 32 digest)"

definition buildClientHello :: "crypto \<Rightarrow> string \<Rightarrow> bytes \<Rightarrow> ('z env_scheme, clientHello) io" where
  "buildClientHello C sni secretKey =
     io_bind (io_lift (encodeSNI sni)) (\<lambda>serverName.
     io_bind (makeGrease 5) (\<lambda>grease.
     io_bind (randomBytes 32) (\<lambda>sessionID.
     io_bind fakeX25519Key (\<lambda>keyShare.
     let b = hello_body serverName grease sessionID keyShare;
         digest = hmacSHA256 C secretKey (hb_buf b)
     in io_bind time_now (\<lambda>now.
          let random = client_random digest (word_of_int (now div 1000000000))
          in io_return \<lparr>ch_bytes = hb_buf (hb_overwrite random_offset random b),
                        ch_sessionID = sessionID, ch_random = random\<rparr>)))))"

section \<open>Records\<close>

definition get16be :: "bytes \<Rightarrow> nat" where
  "get16be p = be_nat (take 2 p)"

function splitTLSRecords :: "bytes \<Rightarrow> goerr + bytes list" where
  "splitTLSRecords data =
     (if data = [] then Inr []
      else if length data < 5 then Inl (ErrText ''incomplete TLS record header'')
      else let e = 5 + get16be (slice 3 5 data) in
           if e > length data then Inl (ErrText ''incomplete TLS record payload'')
           else res_bind (splitTLSRecords (drop e data)) (\<lambda>records. Inr (take e data # records)))"
  by pat_completeness auto
termination
  by (relation "measure length") auto

declare splitTLSRecords.simps [simp del]

definition verify_digest :: "crypto \<Rightarrow> bytes \<Rightarrow> bytes \<Rightarrow> bytes \<Rightarrow> bool" where
  "verify_digest C response secretKey clientRandom \<longleftrightarrow>
     slice 11 43 response = hmacSHA256 C secretKey (clientRandom @ overwrite_at 11 (replicate 32 0) response)"

definition bad_record :: "bytes \<Rightarrow> bool" where
  "bad_record rec \<longleftrightarrow> rec ! 0 \<noteq> 0x14 \<and> rec ! 0 \<noteq> 0x17"

definition verifyServerHello :: "crypto \<Rightarrow> bytes \<Rightarrow> bytes \<Rightarrow> bytes \<Rightarrow> bytes \<Rightarrow> goerr + unit" where
  "verifyServerHello C response secretKey sessionID clientRandom =
     res_bind (splitTLSRecords response) (\<lambda>records.
       if length records < 2 then Inl (ErrText ''FakeTLS ServerHello is incomplete'')
       else if \<not> has_prefix (records ! 0) [0x16, 0x03, 0x03] then Inl (ErrText ''first record is not a ServerHello'')
       else if last records ! 0 \<noteq> 0x17 then Inl (ErrText ''FakeTLS handoff application-data record is missing'')
       else case find bad_record (tl records) of
         Some rec \<Rightarrow> Inl (ErrText (''unexpected TLS record type 0x'' @ hex_byte (rec ! 0)))
       | None \<Rightarrow>
           let handshake = drop 5 (records ! 0) in
           if length handshake < 39 \<or> handshake ! 0 \<noteq> 0x02 then Inl (ErrText ''handshake payload is not a ServerHello'')
           else let idLen = unat (handshake ! 38) in
             if 39 + idLen > length handshake then Inl (ErrText ''ServerHello session_id is truncated'')
             else if slice 39 (39 + idLen) handshake \<noteq> sessionID then Inl (ErrText ''ServerHello session_id mismatch'')
             else if length response < 43 then Inl (ErrText ''ServerHello is too short to carry a digest'')
             else if \<not> verify_digest C response secretKey clientRandom
             then Inl (ErrText ''ServerHello HMAC mismatch (wrong secret or not an MTProto proxy)'')
             else Inr ())"

text \<open>Reading the answer from the connection; every turn takes a header off it.\<close>

lemma conn_read_full_shorter:
  "conn_read_full n c = (Inr p, c') \<Longrightarrow> length (incoming c') + n = length (incoming c) \<and> length p = n"
  by (auto simp: conn_read_full_def split: if_splits)

function read_records :: "bytes \<Rightarrow> conn \<Rightarrow> (goerr + bytes) \<times> conn" where
  "read_records out c =
     (case conn_read_full 5 c of
        (Inl e, c1) \<Rightarrow> (Inl e, c1)
      | (Inr header, c1) \<Rightarrow>
          if out = [] \<and> header ! 0 \<noteq> 0x16
          then (Inl (ErrText (''unexpected first TLS record type 0x'' @ hex_byte (header ! 0))), c1)
          else (case conn_read_full (get16be (slice 3 5 header)) c1 of
              (Inl e, c2) \<Rightarrow> (Inl e, c2)
            | (Inr payload, c2) \<Rightarrow>
                if header ! 0 = 0x17 then (Inr (out @ header @ payload), c2)
                else if header ! 0 = 0x16 \<or> header ! 0 = 0x14 then read_records (out @ header @ payload) c2
                else (Inl (ErrText (''unexpected TLS record type 0x'' @ hex_byte (header ! 0))), c2)))"
  by pat_completeness auto
termination
  by (relation "measure (\<lambda>(out, c). length (incoming c))")
    (auto dest!: conn_read_full_shorter sym [of "(_, _)"])

declare read_records.simps [simp del]

definition readServerHello :: "(conn, bytes) io" where
  "readServerHello = read_records []"

section \<open>Application data\<close>

record tlsConn =
  tc_conn :: conn
  tc_buf :: bytes
  tc_first :: bool

definition newTLSConn :: "conn \<Rightarrow> tlsConn" where
  "newTLSConn c = \<lparr>tc_conn = c, tc_buf = [], tc_first = True\<rparr>"

definition data_record :: "bytes \<Rightarrow> bytes" where
  "data_record chunk = [0x17, 0x03, 0x03] @ put16be (length chunk) @ chunk"

definition ccs_record :: bytes where
  "ccs_record = [0x14, 0x03, 0x03, 0x00, 0x01, 0x01]"

function data_records :: "bytes \<Rightarrow> bytes" where
  "data_records p =
     (if p = [] then []
      else data_record (take tlsRecordLimit p) @ data_records (drop tlsRecordLimit p))"
  by pat_completeness auto
termination
  by (relation "measure length") (auto simp: tlsRecordLimit_def)

declare data_records.simps [simp del]

definition tls_Write :: "bytes \<Rightarrow> (tlsConn, unit) io" where
  "tls_Write p = (\<lambda>t.
     case conn_write ((if tc_first t then ccs_record else []) @ data_records p) (tc_conn t) of
       (r, c) \<Rightarrow> (r, t\<lparr>tc_conn := c, tc_first := False\<rparr>))"

text \<open>\<open>for len(t.buf) == 0\<close>\<close>

function tls_fill :: "bytes \<Rightarrow> conn \<Rightarrow> (goerr + bytes) \<times> conn" where
  "tls_fill buf c =
     (if buf \<noteq> [] then (Inr buf, c)
      else case conn_read_full 5 c of
        (Inl e, c1) \<Rightarrow> (Inl e, c1)
      | (Inr header, c1) \<Rightarrow> (case conn_read_full (get16be (slice 3 5 header)) c1 of
            (Inl e, c2) \<Rightarrow> (Inl e, c2)
          | (Inr payload, c2) \<Rightarrow>
              if header ! 0 = 0x17 then tls_fill payload c2
              else if header ! 0 = 0x14 then tls_fill [] c2
              else (Inl (ErrText (''unexpected TLS record type 0x'' @ hex_byte (header ! 0))), c2)))"
  by pat_completeness auto
termination
  by (relation "measure (\<lambda>(buf, c). length (incoming c))")
    (auto dest!: conn_read_full_shorter sym [of "(_, _)"])

declare tls_fill.simps [simp del]

definition tls_Read :: "nat \<Rightarrow> (tlsConn, bytes) io" where
  "tls_Read n = (\<lambda>t. case tls_fill (tc_buf t) (tc_conn t) of
       (Inl e, c) \<Rightarrow> (Inl e, t\<lparr>tc_conn := c\<rparr>)
     | (Inr buf, c) \<Rightarrow> (Inr (take n buf), t\<lparr>tc_conn := c, tc_buf := drop n buf\<rparr>))"

lemma tls_fill_nonempty: "tls_fill buf c = (Inr b, c') \<Longrightarrow> b \<noteq> []"
  by (induction buf c rule: tls_fill.induct)
    (subst (asm) (2) tls_fill.simps, auto split: if_splits prod.splits sum.splits)

lemma tls_Read_nonempty: "tls_Read n t = (Inr p, t') \<Longrightarrow> 0 < n \<Longrightarrow> p \<noteq> []"
  by (auto simp: tls_Read_def split: prod.splits sum.splits dest: tls_fill_nonempty)

text \<open>\<open>io.ReadFull\<close> over a \<open>tlsConn\<close>, as \<open>obfConn\<close> calls it.\<close>

function tls_read_loop :: "nat \<Rightarrow> bytes \<Rightarrow> tlsConn \<Rightarrow> (goerr + bytes) \<times> tlsConn" where
  "tls_read_loop n got t =
     (if n \<le> length got then (Inr got, t)
      else case tls_Read (n - length got) t of
        (Inl e, t') \<Rightarrow> (Inl (if got \<noteq> [] \<and> e = ErrEOF then ErrUnexpectedEOF else e), t')
      | (Inr p, t') \<Rightarrow> tls_read_loop n (got @ p) t')"
  by pat_completeness auto
termination
  by (relation "measure (\<lambda>(n, got, t). n - length got)")
    (auto dest!: tls_Read_nonempty sym [of "(_, _)"] simp: diff_less_mono2)

declare tls_read_loop.simps [simp del]

definition tls_ReadFull :: "nat \<Rightarrow> (tlsConn, bytes) io" where
  "tls_ReadFull n = tls_read_loop n []"

section \<open>The payload of a stream of records\<close>

text \<open>What a peer that reads records makes of the bytes: change-cipher-spec records are
  dropped, reading stops at anything else than application data.\<close>

function tls_plain :: "bytes \<Rightarrow> bytes" where
  "tls_plain data =
     (if length data < 5 then []
      else let e = 5 + get16be (slice 3 5 data) in
           if e > length data then []
           else if data ! 0 = 0x17 then slice 5 e data @ tls_plain (drop e data)
           else if data ! 0 = 0x14 then tls_plain (drop e data)
           else [])"
  by pat_completeness auto
termination
  by (relation "measure length") auto

declare tls_plain.simps [simp del]

function tls_complete :: "bytes \<Rightarrow> bool" where
  "tls_complete data =
     (if data = [] then True
      else if length data < 5 \<or> 5 + get16be (slice 3 5 data) > length data then False
      else if data ! 0 = 0x17 \<or> data ! 0 = 0x14 then tls_complete (drop (5 + get16be (slice 3 5 data)) data)
      else False)"
  by pat_completeness auto
termination
  by (relation "measure length") auto

declare tls_complete.simps [simp del]

definition tls_pend :: "tlsConn \<Rightarrow> bytes" where
  "tls_pend t = tc_buf t @ tls_plain (incoming (tc_conn t))"

lemma slice_append_left: "b \<le> length xs \<Longrightarrow> Prelude.slice a b (xs @ ys) = Prelude.slice a b xs"
  by (simp add: slice_def)

lemma tls_plain_record:
  "length hdr = 5 \<Longrightarrow> get16be (Prelude.slice 3 5 hdr) = length payload \<Longrightarrow> tls_plain (hdr @ payload @ rest) =
     (if hdr ! 0 = 0x17 then payload @ tls_plain rest else if hdr ! 0 = 0x14 then tls_plain rest else [])"
proof -
  assume h: "length hdr = 5" "get16be (Prelude.slice 3 5 hdr) = length payload"
  have s: "Prelude.slice 3 5 (hdr @ payload @ rest) = Prelude.slice 3 5 hdr" by (rule slice_append_left) (simp add: h(1))
  have p: "Prelude.slice 5 (5 + length payload) (hdr @ payload @ rest) = payload"
    using h(1) by (intro slice_prefix) simp_all
  show ?thesis
    using h by (subst tls_plain.simps) (simp add: s p nth_append Let_def)
qed

lemma conn_read_full_split: "conn_read_full n c = (Inr p, c') \<Longrightarrow> incoming c = p @ incoming c' \<and> length p = n"
  by (rule conn_in.rd_Inr)

lemma conn_read_full_fail: "conn_read_full n c = (Inl e, c') \<Longrightarrow> length (incoming c) < n \<and> incoming c' = []"
  by (auto simp: conn_read_full_def split: if_splits)

lemma tls_plain_short: "length data < 5 \<Longrightarrow> tls_plain data = []"
  by (subst tls_plain.simps) simp

lemma tls_plain_cut:
  "length hdr = 5 \<Longrightarrow> length payload < get16be (Prelude.slice 3 5 hdr) \<Longrightarrow> tls_plain (hdr @ payload) = []"
proof -
  assume h: "length hdr = 5" "length payload < get16be (Prelude.slice 3 5 hdr)"
  have "Prelude.slice 3 5 (hdr @ payload) = Prelude.slice 3 5 hdr" by (rule slice_append_left) (simp add: h(1))
  with h show ?thesis by (subst tls_plain.simps) (simp add: Let_def)
qed

lemma tls_fill_plain:
  "tls_fill buf c = (r, c') \<Longrightarrow> (case r of
      Inr b \<Rightarrow> b @ tls_plain (incoming c') = buf @ tls_plain (incoming c)
    | Inl e \<Rightarrow> buf @ tls_plain (incoming c) = [])"
proof (induction buf c rule: tls_fill.induct)
  case (1 buf c)
  show ?case
  proof (cases "buf = []")
    case False
    with "1.prems" show ?thesis by (auto simp: tls_fill.simps [of buf c])
  next
    case True
    note u = tls_fill.simps [of "[]" c]
    obtain r1 c1 where h: "conn_read_full 5 c = (r1, c1)" by fastforce
    show ?thesis
    proof (cases r1)
      case (Inl e)
      with "1.prems" h True have "r = Inl e" by (simp add: u)
      with conn_read_full_fail [of 5 c e c1] h Inl True show ?thesis by (simp add: tls_plain_short)
    next
      case (Inr header)
      with h have i1: "incoming c = header @ incoming c1" "length header = 5"
        using conn_read_full_split by blast+
      obtain r2 c2 where p: "conn_read_full (get16be (Prelude.slice 3 5 header)) c1 = (r2, c2)" by fastforce
      show ?thesis
      proof (cases r2)
        case (Inl e)
        with "1.prems" h Inr p True have "r = Inl e" by (simp add: u)
        with conn_read_full_fail [OF p [unfolded Inl]] i1 True show ?thesis by (simp add: tls_plain_cut)
      next
        case r2: (Inr payload)
        with p have i2: "incoming c1 = payload @ incoming c2" "length payload = get16be (Prelude.slice 3 5 header)"
          using conn_read_full_split by blast+
        have pl: "tls_plain (incoming c) = (if header ! 0 = 0x17 then payload @ tls_plain (incoming c2)
             else if header ! 0 = 0x14 then tls_plain (incoming c2) else [])"
          unfolding i1(1) i2(1) using i1(2) i2(2) by (intro tls_plain_record) simp_all
        note IH = "1.IH" [unfolded True, OF _ h [symmetric] Inr p [symmetric] r2]
        show ?thesis
          using "1.prems" True h Inr p r2 IH by (auto simp: u pl split: if_splits sum.splits)
      qed
    qed
  qed
qed

lemma tls_Read_pend:
  "tls_Read n t = (r, t') \<Longrightarrow> (case r of
      Inr p \<Rightarrow> p @ tls_pend t' = tls_pend t \<and> length p \<le> n | Inl e \<Rightarrow> tls_pend t = [])"
  by (auto simp: tls_Read_def tls_pend_def append_assoc [symmetric] simp del: append_assoc
      split: prod.splits sum.splits dest: tls_fill_plain)

lemma tls_read_loop_pend:
  "tls_read_loop n got t = (r, t') \<Longrightarrow> length got \<le> n \<Longrightarrow>
     (if n \<le> length got + length (tls_pend t)
      then r = Inr (got @ take (n - length got) (tls_pend t)) \<and> tls_pend t' = drop (n - length got) (tls_pend t)
      else \<exists>e. r = Inl e)"
proof (induction n got t rule: tls_read_loop.induct)
  case (1 n got t)
  show ?case
  proof (cases "n \<le> length got")
    case True
    with 1 show ?thesis by (auto simp: tls_read_loop.simps [of n got t])
  next
    case False
    obtain r1 t1 where rd: "tls_Read (n - length got) t = (r1, t1)" by fastforce
    note p = tls_Read_pend [OF rd]
    show ?thesis
    proof (cases r1)
      case (Inl e)
      with "1.prems" False rd p show ?thesis by (auto simp: tls_read_loop.simps [of n got t])
    next
      case (Inr q)
      with p have q: "tls_pend t = q @ tls_pend t1" "length q \<le> n - length got" by simp_all
      have "tls_read_loop n (got @ q) t1 = (r, t')"
        using "1.prems"(1) False rd Inr by (simp add: tls_read_loop.simps [of n got t])
      from "1.IH" [OF False rd [symmetric] Inr this] q False "1.prems"(2) show ?thesis
        by (auto split: if_splits)
    qed
  qed
qed

interpretation tls_in: byte_source tls_ReadFull tls_pend
proof (unfold_locales, goal_cases)
  case (1 n c)
  obtain r c' where "tls_ReadFull n c = (r, c')" by fastforce
  with tls_read_loop_pend [of n "[]" c r c'] 1 show ?case by (simp add: tls_ReadFull_def)
next
  case (2 c n)
  obtain r c' where "tls_ReadFull n c = (r, c')" by fastforce
  with tls_read_loop_pend [of n "[]" c r c'] 2 show ?case by (auto simp: tls_ReadFull_def)
qed

section \<open>Written records\<close>

lemma get16be_put16be: "n < 65536 \<Longrightarrow> get16be (put16be n) = n"
  by (simp add: get16be_def put16be_def be_nat_be_bytes)

lemma tls_complete_record:
  "length hdr = 5 \<Longrightarrow> get16be (Prelude.slice 3 5 hdr) = length payload \<Longrightarrow> hdr ! 0 = 0x17 \<or> hdr ! 0 = 0x14 \<Longrightarrow>
     tls_complete (hdr @ payload @ rest) = tls_complete rest"
proof -
  assume h: "length hdr = 5" "get16be (Prelude.slice 3 5 hdr) = length payload" "hdr ! 0 = 0x17 \<or> hdr ! 0 = 0x14"
  have s: "Prelude.slice 3 5 (hdr @ payload @ rest) = Prelude.slice 3 5 hdr" by (rule slice_append_left) (simp add: h(1))
  have "hdr \<noteq> []" using h(1) by auto
  then show ?thesis
    using h by (subst tls_complete.simps) (simp add: s nth_append)
qed

lemma tls_complete_cases:
  assumes "tls_complete data" "data \<noteq> []"
  obtains hdr payload rest where "data = hdr @ payload @ rest" "length hdr = 5"
    "get16be (Prelude.slice 3 5 hdr) = length payload" "hdr ! 0 = 0x17 \<or> hdr ! 0 = 0x14" "tls_complete rest"
    "length rest < length data"
proof -
  let ?n = "get16be (Prelude.slice 3 5 data)"
  have c: "5 \<le> length data" "5 + ?n \<le> length data" "data ! 0 = 0x17 \<or> data ! 0 = 0x14" "tls_complete (drop (5 + ?n) data)"
    using assms by (simp_all add: tls_complete.simps [of data] split: if_splits)
  have "Prelude.slice 3 5 (take 5 data @ drop 5 data) = Prelude.slice 3 5 (take 5 data)"
    by (rule slice_append_left) (use c(1) in simp)
  then have s: "Prelude.slice 3 5 (take 5 data) = Prelude.slice 3 5 data" by simp
  have "data = take 5 data @ Prelude.slice 5 (5 + ?n) data @ drop (5 + ?n) data"
    using drop_slice [of 5 "5 + ?n" data] append_take_drop_id [of 5 data] by simp
  then show ?thesis using c s by (intro that [of "take 5 data" "Prelude.slice 5 (5 + ?n) data" "drop (5 + ?n) data"]) simp_all
qed

lemma tls_complete_append:
  "tls_complete a \<Longrightarrow> tls_complete (a @ b) = tls_complete b \<and> tls_plain (a @ b) = tls_plain a @ tls_plain b"
proof (induction a rule: length_induct)
  case (1 a)
  show ?case
  proof (cases "a = []")
    case True
    then show ?thesis by (simp add: tls_plain_short)
  next
    case False
    from "1.prems" False obtain hdr payload rest where a: "a = hdr @ payload @ rest" "length hdr = 5"
      "get16be (Prelude.slice 3 5 hdr) = length payload" "hdr ! 0 = 0x17 \<or> hdr ! 0 = 0x14" "tls_complete rest"
      "length rest < length a" by (rule tls_complete_cases)
    from "1.IH" a(5,6) have "tls_complete (rest @ b) = tls_complete b" "tls_plain (rest @ b) = tls_plain rest @ tls_plain b"
      by blast+
    then show ?thesis
      using a(2-4) by (auto simp: a(1) tls_complete_record tls_plain_record)
  qed
qed

lemma tls_complete_Nil [simp]: "tls_complete []"
  by (subst tls_complete.simps) simp

lemma ccs_record_plain: "tls_complete ccs_record" "tls_plain ccs_record = []"
proof -
  have h: "get16be (Prelude.slice 3 5 [0x14, 0x03, 0x03, 0x00, 0x01]) = length [1 :: byte]"
    by (simp add: slice_def get16be_def be_nat_def)
  have e: "ccs_record = [0x14, 0x03, 0x03, 0x00, 0x01] @ [1] @ []" by (simp add: ccs_record_def)
  show "tls_complete ccs_record" unfolding e by (subst tls_complete_record [OF _ h]) simp_all
  show "tls_plain ccs_record = []" unfolding e by (subst tls_plain_record [OF _ h]) (simp_all add: tls_plain_short)
qed

lemma data_record_plain:
  assumes "length chunk < 65536"
  shows "tls_complete (data_record chunk @ rest) = tls_complete rest"
    "tls_plain (data_record chunk @ rest) = chunk @ tls_plain rest"
proof -
  let ?h = "[0x17, 0x03, 0x03] @ put16be (length chunk)"
  have l: "length (put16be (length chunk)) = 2" by (simp add: put16be_def)
  have "Prelude.slice 3 5 ?h = put16be (length chunk)"
    using slice_prefix [of "[0x17, 0x03, 0x03] :: bytes" 3 5 "put16be (length chunk)" "[]"] l by simp
  with assms have h: "get16be (Prelude.slice 3 5 ?h) = length chunk" by (simp add: get16be_put16be)
  have e: "data_record chunk @ rest = ?h @ chunk @ rest" by (simp add: data_record_def)
  show "tls_complete (data_record chunk @ rest) = tls_complete rest" unfolding e
    by (subst tls_complete_record [OF _ h]) (simp_all add: l)
  show "tls_plain (data_record chunk @ rest) = chunk @ tls_plain rest" unfolding e
    by (subst tls_plain_record [OF _ h]) (simp_all add: l)
qed

lemma data_records_plain: "tls_complete (data_records p) \<and> tls_plain (data_records p) = p"
proof (induction p rule: data_records.induct)
  case (1 p)
  show ?case
  proof (cases "p = []")
    case True
    then show ?thesis by (simp add: data_records.simps [of "[]"] tls_plain_short)
  next
    case False
    have "length (take tlsRecordLimit p) < 65536" by (simp add: tlsRecordLimit_def)
    from data_record_plain [OF this] 1 [OF False] False show ?thesis
      by (simp add: data_records.simps [of p])
  qed
qed

text \<open>\<open>base\<close>: how much had been written to the connection before the first record.\<close>

definition tls_sent :: "nat \<Rightarrow> tlsConn \<Rightarrow> bytes" where
  "tls_sent base t = tls_plain (drop base (conn_sent (tc_conn t)))"

definition tls_sink_ok :: "nat \<Rightarrow> tlsConn \<Rightarrow> bool" where
  "tls_sink_ok base t \<longleftrightarrow> base \<le> length (conn_sent (tc_conn t)) \<and> tls_complete (drop base (conn_sent (tc_conn t)))"

interpretation tls_out: byte_sink tls_Write "tls_sent base" "tls_sink_ok base" for base
proof (unfold_locales, goal_cases)
  case (1 t p t')
  let ?q = "(if tc_first t then ccs_record else []) @ data_records p"
  have q: "tls_complete ?q" "tls_plain ?q = p"
    using tls_complete_append [OF ccs_record_plain(1), of "data_records p"] data_records_plain [of p] ccs_record_plain(2)
    by simp_all
  from 1(2) obtain c where w: "conn_write ?q (tc_conn t) = (Inr (), c)" "t' = t\<lparr>tc_conn := c, tc_first := False\<rparr>"
    by (auto simp: tls_Write_def split: prod.splits)
  have s: "conn_sent c = conn_sent (tc_conn t) @ ?q" using conn_out.wr_sent [OF _ w(1)] by simp
  have d: "drop base (conn_sent c) = drop base (conn_sent (tc_conn t)) @ ?q"
    using 1(1) by (simp add: s tls_sink_ok_def)
  have o: "tls_complete (drop base (conn_sent (tc_conn t)))" "base \<le> length (conn_sent (tc_conn t))"
    using 1(1) by (simp_all add: tls_sink_ok_def)
  note a = tls_complete_append [OF o(1), of ?q]
  have "tls_plain (drop base (conn_sent c)) = tls_sent base t @ p" unfolding d using a q(2) by (simp add: tls_sent_def)
  moreover have "tls_complete (drop base (conn_sent c))" unfolding d using a q(1) by simp
  moreover have "base \<le> length (conn_sent c)" using o(2) by (simp add: s)
  ultimately show ?case by (simp add: w(2) tls_sink_ok_def tls_sent_def)
qed

text \<open>The obfuscated stream inside the records.\<close>

interpretation obf_tls_in: obf_source tls_ReadFull tls_pend C for C
  by unfold_locales

interpretation obf_tls_out: obf_sink tls_Write "tls_sent start" "tls_sink_ok start" C base for start C base
  by unfold_locales

section \<open>The hello as one record\<close>

lemma put16be_length [simp]: "length (put16be n) = 2"
  by (simp add: put16be_def)

lemma hb_close_scope:
  "hb_close \<lparr>hb_buf = A @ [0, 0] @ X, hb_scopes = length A # S\<rparr> =
     \<lparr>hb_buf = A @ put16be (length X) @ X, hb_scopes = S\<rparr>"
  by (simp add: hb_close_def overwrite_at_def)

text \<open>\<open>appends f x\<close>: the operation adds \<open>x\<close> to the buffer and leaves the scopes.\<close>

definition appends :: "(helloBuilder \<Rightarrow> helloBuilder) \<Rightarrow> bytes \<Rightarrow> bool" where
  "appends f x \<longleftrightarrow> (\<forall>A S. f \<lparr>hb_buf = A, hb_scopes = S\<rparr> = \<lparr>hb_buf = A @ x, hb_scopes = S\<rparr>)"

lemma run_ops_append: "run_ops (fs @ gs) b = run_ops gs (run_ops fs b)"
  by (simp add: run_ops_def)

lemma run_ops_Cons: "run_ops (f # fs) b = run_ops fs (f b)"
  by (simp add: run_ops_def)

lemma appends_Nil: "appends (run_ops []) []"
  by (simp add: appends_def run_ops_def)

lemma appends_put: "appends (hb_put p) p" "appends (grease_pair g i) [g ! i, g ! i]"
  by (simp_all add: appends_def hb_put_def grease_pair_def)

lemma appends_Cons: "appends f x \<Longrightarrow> appends (run_ops fs) y \<Longrightarrow> appends (run_ops (f # fs)) (x @ y)"
  by (simp add: appends_def run_ops_Cons)

lemma appends_append: "appends (run_ops fs) x \<Longrightarrow> appends (run_ops gs) y \<Longrightarrow> appends (run_ops (fs @ gs)) (x @ y)"
  by (simp add: appends_def run_ops_append)

lemma appends_scope:
  "appends (run_ops fs) x \<Longrightarrow> appends (run_ops (hb_open # fs @ [hb_close])) (put16be (length x) @ x)"
  using hb_close_scope [where X = x]
  by (simp add: appends_def run_ops_append run_ops_Cons hb_open_def) (simp add: run_ops_def)

definition sni_bytes :: "bytes \<Rightarrow> bytes" where
  "sni_bytes name =
     [0, 0] @ put16be (length name + 5) @ put16be (length name + 3) @ [0] @ put16be (length name) @ name"

lemma appends_sni: "appends (run_ops (hello_sni name)) (sni_bytes name)"
proof -
  have 1: "appends (run_ops [hb_open, hb_put name, hb_close]) (put16be (length name) @ name)"
    using appends_scope [OF appends_Cons [OF appends_put(1) appends_Nil]] by simp
  have 2: "appends (run_ops ([hb_open, hb_put [0]] @ [hb_open, hb_put name, hb_close] @ [hb_close]))
      (put16be (length name + 3) @ [0] @ put16be (length name) @ name)"
    using appends_scope [OF appends_Cons [OF appends_put(1) [of "[0]"] 1]] by (simp add: eval_nat_numeral)
  have "appends (run_ops ([hb_open] @ ([hb_open, hb_put [0]] @ [hb_open, hb_put name, hb_close] @ [hb_close]) @ [hb_close]))
      (put16be (length name + 5) @ put16be (length name + 3) @ [0] @ put16be (length name) @ name)"
    using appends_scope [OF 2] by (simp add: eval_nat_numeral)
  from appends_Cons [OF appends_put(1) [of "[0, 0]"] this] show ?thesis
    by (simp add: hello_sni_def sni_bytes_def)
qed


lemma appends_list: "list_all2 appends fs xs \<Longrightarrow> appends (run_ops fs) (concat xs)"
  by (induction rule: list_all2_induct) (simp_all add: appends_Nil appends_Cons)

lemma appends_middle: "\<exists>x. length x = 93 \<and> appends (run_ops (hello_middle g)) x"
proof -
  let ?x = "concat
     [[0x00, 0x17, 0x00, 0x00], [0xFF, 0x01, 0x00, 0x01, 0x00], [0x00, 0x0A, 0x00, 0x0A, 0x00, 0x08], [g ! 2, g ! 2],
      [0x00, 0x1D, 0x00, 0x17, 0x00, 0x18], [0x00, 0x0B, 0x00, 0x02, 0x01, 0x00], [0x00, 0x23, 0x00, 0x00],
      [0x00, 0x10, 0x00, 0x0E, 0x00, 0x0C, 0x02, 0x68, 0x32, 0x08, 0x68, 0x74, 0x74, 0x70, 0x2F, 0x31, 0x2E, 0x31],
      [0x00, 0x05, 0x00, 0x05, 0x01, 0x00, 0x00, 0x00, 0x00],
      [0x00, 0x0D, 0x00, 0x12, 0x00, 0x10, 0x04, 0x03, 0x08, 0x04, 0x04, 0x01,
       0x05, 0x03, 0x08, 0x05, 0x05, 0x01, 0x08, 0x06, 0x06, 0x01],
      [0x00, 0x12, 0x00, 0x00], [0x00, 0x1B, 0x00, 0x03, 0x02, 0x00, 0x02]] :: bytes"
  have "appends (run_ops (hello_middle g)) ?x"
    unfolding hello_middle_def by (rule appends_list) (simp only: list_all2_Cons list_all2_Nil appends_put simp_thms)
  moreover have "length ?x = 93" by simp
  ultimately show ?thesis by blast
qed

lemma appends_key_share: "length k = 32 \<Longrightarrow> \<exists>x. length x = 64 \<and> appends (run_ops (hello_key_share g k)) x"
proof -
  assume k: "length k = 32"
  have 1: "appends (run_ops [grease_pair g 3, hb_put [0x00, 0x01, 0x00], hb_put [0x00, 0x1D, 0x00, 0x20], hb_put k])
      (concat [[g ! 3, g ! 3], [0x00, 0x01, 0x00], [0x00, 0x1D, 0x00, 0x20], k])" (is "appends _ ?ks")
    by (rule appends_list) (simp only: list_all2_Cons list_all2_Nil appends_put simp_thms)
  note 2 = appends_scope [OF appends_scope [OF 1]]
  have 3: "appends (run_ops [hb_put [0x00, 0x2D, 0x00, 0x02, 0x01, 0x01], hb_put [0x00, 0x2B, 0x00, 0x07, 0x06],
      grease_pair g 4, hb_put [0x03, 0x04, 0x03, 0x03]])
      (concat [[0x00, 0x2D, 0x00, 0x02, 0x01, 0x01], [0x00, 0x2B, 0x00, 0x07, 0x06], [g ! 4, g ! 4], [0x03, 0x04, 0x03, 0x03]])"
    by (rule appends_list) (simp only: list_all2_Cons list_all2_Nil appends_put simp_thms)
  from appends_Cons [OF appends_put(1) [of "[0x00, 0x33]"] appends_append [OF 2 3]] k show ?thesis
    unfolding hello_key_share_def
    by (intro exI conjI [rotated]) (simp_all only: append.simps, simp)
qed

definition hello_a3 :: "bytes \<Rightarrow> bytes \<Rightarrow> bytes" where
  "hello_a3 g sid = [0x03, 0x03] @ replicate 32 0 @ [0x20] @ sid @ [0x00, 0x20, g ! 0, g ! 0,
      0x13, 0x01, 0x13, 0x02, 0x13, 0x03, 0xC0, 0x2B, 0xC0, 0x2F, 0xC0, 0x2C, 0xC0, 0x30,
      0xCC, 0xA9, 0xCC, 0xA8, 0xC0, 0x13, 0xC0, 0x14, 0x00, 0x9C, 0x00, 0x9D, 0x00, 0x2F,
      0x00, 0x35, 0x01, 0x00]"

lemma length_hello_a3: "length sid = 32 \<Longrightarrow> length (hello_a3 g sid) = 103"
  by (simp add: hello_a3_def)

text \<open>Three open scopes, and closing them after \<open>E\<close> was written into the innermost.\<close>

definition opened3 :: "bytes \<Rightarrow> bytes \<Rightarrow> helloBuilder" where
  "opened3 a3 e = \<lparr>hb_buf = ([0x16, 0x03, 0x01] @ [0, 0] @ [0x01, 0x00]) @ [0, 0] @ a3 @ [0, 0] @ e,
     hb_scopes = [length (([0x16, 0x03, 0x01] @ [0, 0] @ [0x01, 0x00] :: bytes) @ [0, 0] @ a3),
       length ([0x16, 0x03, 0x01] @ [0, 0] @ [0x01, 0x00] :: bytes), length ([0x16, 0x03, 0x01] :: bytes)]\<rparr>"

lemma appends_opened3: "appends f x \<Longrightarrow> f (opened3 a3 e) = opened3 a3 (e @ x)"
  by (simp add: appends_def opened3_def)

definition closed3 :: "bytes \<Rightarrow> bytes \<Rightarrow> bytes" where
  "closed3 a3 e = (let r2 = a3 @ put16be (length e) @ e; r1 = [0x01, 0x00] @ put16be (length r2) @ r2
     in [0x16, 0x03, 0x01] @ put16be (length r1) @ r1)"

lemma hb_close_opened3: "hb_close (hb_close (hb_close (opened3 a3 e))) = \<lparr>hb_buf = closed3 a3 e, hb_scopes = []\<rparr>"
proof -
  have 1: "hb_close (opened3 a3 e) = \<lparr>hb_buf = ([0x16, 0x03, 0x01] @ [0, 0] @ [0x01, 0x00]) @ [0, 0] @ (a3 @ put16be (length e) @ e),
     hb_scopes = [length ([0x16, 0x03, 0x01] @ [0, 0] @ [0x01, 0x00] :: bytes), length ([0x16, 0x03, 0x01] :: bytes)]\<rparr>"
    using hb_close_scope [of "([0x16, 0x03, 0x01] @ [0, 0] @ [0x01, 0x00]) @ [0, 0] @ a3" e] by (simp add: opened3_def)
  define r2 where "r2 = a3 @ put16be (length e) @ e"
  have 2: "hb_close (hb_close (opened3 a3 e)) = \<lparr>hb_buf = [0x16, 0x03, 0x01] @ [0, 0] @ ([0x01, 0x00] @ put16be (length r2) @ r2),
     hb_scopes = [length ([0x16, 0x03, 0x01] :: bytes)]\<rparr>"
    using hb_close_scope [of "[0x16, 0x03, 0x01] @ [0, 0] @ [0x01, 0x00]" r2 "[length ([0x16, 0x03, 0x01] :: bytes)]"]
    unfolding 1 r2_def [symmetric] by simp
  show ?thesis
    unfolding 2 using hb_close_scope [of "[0x16, 0x03, 0x01]" "[0x01, 0x00] @ put16be (length r2) @ r2" "[]"]
    by (simp add: closed3_def r2_def Let_def)
qed

lemma hello_head_opened: "run_ops (hello_head g sid) \<lparr>hb_buf = [], hb_scopes = []\<rparr> = opened3 (hello_a3 g sid) [g ! 1, g ! 1, 0, 0]"
  by (simp add: run_ops_def hello_head_def hb_put_def hb_open_def grease_pair_def opened3_def hello_a3_def)

lemma hb_len_opened3: "hb_len (opened3 a3 e) = 11 + length a3 + length e"
  by (simp add: hb_len_def opened3_def)

lemma hello_padding_opened3:
  "hello_padding (opened3 a3 e) =
     opened3 a3 (e @ (if 11 + length a3 + length e < 513
        then [0x00, 0x15] @ put16be (502 - length a3 - length e) @ replicate (502 - length a3 - length e) 0 else []))"
proof (cases "11 + length a3 + length e < 513")
  case True
  let ?p = "502 - length a3 - length e"
  have "appends (run_ops [hb_put [0x00, 0x15], hb_open, hb_put (replicate ?p 0), hb_close])
      ([0x00, 0x15] @ put16be ?p @ replicate ?p 0)"
    using appends_Cons [OF appends_put(1) [of "[0x00, 0x15]"]
      appends_scope [OF appends_Cons [OF appends_put(1) [of "replicate ?p 0"] appends_Nil]]] by simp
  from appends_opened3 [OF this, of a3 e] True show ?thesis
    by (simp add: hello_padding_def hb_len_opened3 run_ops_def)
qed (simp add: hello_padding_def hb_len_opened3)

lemma hello_body_shape:
  assumes "length sid = 32" "length ks = 32"
  shows "\<exists>e. hello_body name g sid ks = \<lparr>hb_buf = closed3 (hello_a3 g sid) e, hb_scopes = []\<rparr> \<and>
     length e = (if length name < 229 then 403 else 170 + length name)"
proof -
  obtain m where m: "length m = 93" "appends (run_ops (hello_middle g)) m" using appends_middle by blast
  obtain k where k: "length k = 64" "appends (run_ops (hello_key_share g ks)) k" using appends_key_share [OF assms(2)] by blast
  let ?e = "[g ! 1, g ! 1, 0, 0] @ sni_bytes name @ m @ k"
  have le: "length ?e = 170 + length name" using m(1) k(1) by (simp add: sni_bytes_def)
  have r: "run_ops (hello_head g sid @ hello_sni name @ hello_middle g @ hello_key_share g ks) \<lparr>hb_buf = [], hb_scopes = []\<rparr>
      = opened3 (hello_a3 g sid) ?e"
    by (simp only: run_ops_append hello_head_opened appends_opened3 [OF appends_sni] appends_opened3 [OF m(2)]
        appends_opened3 [OF k(2)] append_assoc)
  let ?pad = "if 11 + length (hello_a3 g sid) + length ?e < 513
        then [0x00, 0x15] @ put16be (502 - length (hello_a3 g sid) - length ?e) @ replicate (502 - length (hello_a3 g sid) - length ?e) 0 else []"
  have "hello_body name g sid ks = \<lparr>hb_buf = closed3 (hello_a3 g sid) (?e @ ?pad), hb_scopes = []\<rparr>"
    unfolding hello_body_def r hello_padding_opened3 hb_close_opened3 ..
  moreover have "length (?e @ ?pad) = (if length name < 229 then 403 else 170 + length name)"
    using le length_hello_a3 [OF assms(1), of g] by (simp only: length_append split: if_split) simp
  ultimately show ?thesis by blast
qed

lemma length_closed3: "length (closed3 a3 e) = 11 + length a3 + length e"
  by (simp add: closed3_def Let_def)

lemma closed3_split:
  "\<exists>p q. length p = 11 \<and> closed3 (hello_a3 g sid) e = p @ replicate 32 0 @ q"
proof -
  define t where "t = drop 34 (hello_a3 g sid)"
  have a: "hello_a3 g sid = [0x03, 0x03] @ replicate 32 0 @ t" by (simp add: t_def hello_a3_def)
  define r2 where "r2 = hello_a3 g sid @ put16be (length e) @ e"
  define r1 where "r1 = [0x01, 0x00] @ put16be (length r2) @ r2"
  have "closed3 (hello_a3 g sid) e = ([0x16, 0x03, 0x01] @ put16be (length r1) @ [0x01, 0x00] @ put16be (length r2) @ [0x03, 0x03])
      @ replicate 32 0 @ (t @ put16be (length e) @ e)"
    unfolding closed3_def Let_def r2_def [symmetric] r1_def [symmetric] by (simp add: r1_def r2_def a)
  moreover have "length ([0x16, 0x03, 0x01] @ put16be (length r1) @ [0x01, 0x00] @ put16be (length r2) @ [0x03, 0x03]) = 11"
    by simp
  ultimately show ?thesis by blast
qed

text \<open>The proxy's check of a hello: the digest of the hello with a zeroed random.  It learns
  the client's clock.\<close>

definition proxy_hello :: "crypto \<Rightarrow> bytes \<Rightarrow> bytes \<Rightarrow> u32 option" where
  "proxy_hello C secret hello =
     (let random = slice 11 43 hello; digest = hmacSHA256 C secret (overwrite_at 11 (replicate 32 0) hello)
      in if take 28 random = take 28 digest then Some (get32 (xor_bytes (drop 28 random) (drop 28 digest))) else None)"

lemma overwrite_at_mid: "length p = n \<Longrightarrow> length x = length y \<Longrightarrow> overwrite_at n x (p @ y @ q) = p @ x @ q"
  by (simp add: overwrite_at_def)

lemma splitTLSRecords_single:
  assumes "length hdr = 5" "get16be (Prelude.slice 3 5 hdr) = length payload"
  shows "splitTLSRecords (hdr @ payload @ rest) =
     res_bind (splitTLSRecords rest) (\<lambda>records. Inr ((hdr @ payload) # records))"
proof -
  have s: "Prelude.slice 3 5 (hdr @ payload @ rest) = Prelude.slice 3 5 hdr" by (rule slice_append_left) (simp add: assms(1))
  have "hdr \<noteq> []" using assms(1) by auto
  then show ?thesis using assms
    by (subst splitTLSRecords.simps) (simp add: s Let_def)
qed

lemma splitTLSRecords_Nil [simp]: "splitTLSRecords [] = Inr []"
  by (subst splitTLSRecords.simps) simp

lemma buildClientHello_Inr:
  assumes "buildClientHello C sni secret w = (Inr h, w')"
  obtains name g ks now where "encodeSNI sni = Inr name" "length (ch_sessionID h) = 32" "length ks = 32"
    "ch_random h = client_random (hmacSHA256 C secret (hb_buf (hello_body name g (ch_sessionID h) ks))) (word_of_int (now div 1000000000))"
    "ch_bytes h = overwrite_at 11 (ch_random h) (hb_buf (hello_body name g (ch_sessionID h) ks))"
    "clk w' = now"
proof -
  from assms obtain name g w1 sid w2 ks w3 now where 1: "encodeSNI sni = Inr name" "randomBytes 32 w1 = (Inr sid, w2)"
    "fakeX25519Key w2 = (Inr ks, w3)" "time_now w3 = (Inr now, w')"
    "h = \<lparr>ch_bytes = overwrite_at 11 (client_random (hmacSHA256 C secret (hb_buf (hello_body name g sid ks))) (word_of_int (now div 1000000000)))
        (hb_buf (hello_body name g sid ks)), ch_sessionID = sid,
      ch_random = client_random (hmacSHA256 C secret (hb_buf (hello_body name g sid ks))) (word_of_int (now div 1000000000))\<rparr>"
    by (auto simp: buildClientHello_def io_bind_eq_Inr Let_def hb_overwrite_def random_offset_def)
  have "length ks = 32" using 1(3) by (auto simp: fakeX25519Key_def Let_def io_bind_eq_Inr)
  moreover have "clk w' = now" using 1(4) by (cases "ticks w3") (auto simp: time_now_def)
  ultimately show ?thesis using 1 randomBytes_length [OF 1(2)] that by simp
qed

lemma xor_bytes_swap: "length a = length b \<Longrightarrow> xor_bytes (xor_bytes a b) b = a"
  by (simp add: xor_bytes_cancel)

lemma buildClientHello_ok:
  assumes C: "crypto_ok C" and h: "buildClientHello C sni secret w = (Inr h, w')" and n: "encodeSNI sni = Inr name"
  shows "length (ch_bytes h) = (if length name < 229 then 517 else 284 + length name) \<and>
    Prelude.slice 11 43 (ch_bytes h) = ch_random h \<and>
    splitTLSRecords (ch_bytes h) = Inr [ch_bytes h] \<and>
    proxy_hello C secret (ch_bytes h) = Some (word_of_int (clk w' div 1000000000))"
  using h
proof (cases rule: buildClientHello_Inr)
  case (1 name' g ks now)
  have nm: "name' = name" using n 1(1) by simp
  let ?sid = "ch_sessionID h"
  obtain e where e: "hello_body name' g ?sid ks = \<lparr>hb_buf = closed3 (hello_a3 g ?sid) e, hb_scopes = []\<rparr>"
    "length e = (if length name' < 229 then 403 else 170 + length name')"
    using hello_body_shape [OF 1(2,3)] by blast
  let ?body = "closed3 (hello_a3 g ?sid) e"
  obtain p q where pq: "length p = 11" "?body = p @ replicate 32 0 @ q" using closed3_split by blast
  let ?d = "hmacSHA256 C secret ?body"
  have ld: "length ?d = 32" by (rule length_hmacSHA256 [OF C])
  have r: "ch_random h = client_random ?d (word_of_int (now div 1000000000))" using 1(4) by (simp add: e)
  have lr: "length (ch_random h) = 32" using ld by (simp add: r client_random_def)
  have b: "ch_bytes h = p @ ch_random h @ q"
    using 1(5) overwrite_at_mid [OF pq(1), of "ch_random h" "replicate 32 0" q] lr by (simp add: e pq(2))
  have len: "length (ch_bytes h) = (if length name < 229 then 517 else 284 + length name)"
  proof -
    have "length (ch_bytes h) = length ?body" using lr by (simp add: b pq(2))
    then show ?thesis using e(2) nm length_hello_a3 [OF 1(2), of g] by (simp add: length_closed3)
  qed
  have sl: "Prelude.slice 11 43 (ch_bytes h) = ch_random h"
    unfolding b using pq(1) lr by (intro slice_prefix) simp_all
  have z: "overwrite_at 11 (replicate 32 0) (ch_bytes h) = ?body"
    unfolding b pq(2) using pq(1) lr by (intro overwrite_at_mid) simp_all
  have rec: "splitTLSRecords (ch_bytes h) = Inr [ch_bytes h]"
  proof -
    define r2 where "r2 = hello_a3 g ?sid @ put16be (length e) @ e"
    define r1 where "r1 = [0x01, 0x00] @ put16be (length r2) @ r2"
    have bd: "?body = ([0x16, 0x03, 0x01] @ put16be (length r1)) @ r1"
      by (simp add: closed3_def Let_def r1_def r2_def)
    let ?hdr = "take 5 (ch_bytes h)"
    have "take 5 (ch_bytes h) = take 5 ?body" using pq(1) by (simp add: b pq(2))
    also have "\<dots> = [0x16, 0x03, 0x01] @ put16be (length r1)" unfolding bd by simp
    finally have hd5: "?hdr = [0x16, 0x03, 0x01] @ put16be (length r1)" .
    have lr1: "length r1 = length (drop 5 (ch_bytes h))"
    proof -
      have "length (ch_bytes h) = length ?body" using lr by (simp add: b pq(2))
      then show ?thesis by (simp add: bd)
    qed
    have n255: "length name \<le> 255" using n by (auto simp: encodeSNI_def Let_def split: if_splits)
    have lt: "length r1 < 65536" using lr1 len n255 by (simp split: if_splits)
    have "Prelude.slice 3 5 ?hdr = put16be (length r1)"
      unfolding hd5 using slice_prefix [of "[0x16, 0x03, 0x01] :: bytes" 3 5 "put16be (length r1)" "[]"] by simp
    then have "get16be (Prelude.slice 3 5 ?hdr) = length (drop 5 (ch_bytes h))"
      using lt by (simp only: get16be_put16be lr1)
    moreover have "length ?hdr = 5" unfolding hd5 by simp
    ultimately have "splitTLSRecords (?hdr @ drop 5 (ch_bytes h) @ []) = Inr [?hdr @ drop 5 (ch_bytes h)]"
      using splitTLSRecords_single [of ?hdr "drop 5 (ch_bytes h)" "[]"] by (simp del: append_take_drop_id)
    then show ?thesis by simp
  qed
  have "proxy_hello C secret (ch_bytes h) = Some (word_of_int (clk w' div 1000000000))"
  proof -
    let ?now = "word_of_int (now div 1000000000) :: u32"
    have t: "take 28 (ch_random h) = take 28 ?d" using ld by (simp add: r client_random_def)
    have "drop 28 (ch_random h) = xor_bytes (put32 ?now) (Prelude.slice 28 32 ?d)" using ld by (simp add: r client_random_def)
    moreover have "drop 28 ?d = Prelude.slice 28 32 ?d" using ld by (simp add: slice_def)
    ultimately have "xor_bytes (drop 28 (ch_random h)) (drop 28 ?d) = put32 ?now"
      using ld by (simp add: xor_bytes_cancel)
    then show ?thesis using 1(6) by (simp add: proxy_hello_def sl z t Let_def)
  qed
  with len sl rec show ?thesis by blast
qed

section \<open>The answer\<close>

lemma splitTLSRecords_concat: "splitTLSRecords data = Inr rs \<Longrightarrow> concat rs = data \<and> (\<forall>r \<in> set rs. 5 \<le> length r)"
proof (induction data arbitrary: rs rule: splitTLSRecords.induct)
  case (1 data)
  show ?case
  proof (cases "data = []")
    case True
    with "1.prems" show ?thesis by simp
  next
    case False
    let ?e = "5 + get16be (Prelude.slice 3 5 data)"
    from "1.prems" False obtain rs' where
      r: "\<not> length data < 5" "\<not> ?e > length data" "splitTLSRecords (drop ?e data) = Inr rs'" "rs = take ?e data # rs'"
      by (subst (asm) splitTLSRecords.simps) (auto simp: Let_def res_bind_eq_Inr split: if_splits)
    from "1.IH" [OF False r(1) refl r(2,3)] r show ?thesis by auto
  qed
qed

text \<open>What an accepted ServerHello has: the records, the echoed session and the digest.\<close>

lemma verifyServerHello_sound:
  assumes "verifyServerHello C response secret sid random = Inr ()"
  shows "verify_digest C response secret random"
    "\<exists>hello rest. splitTLSRecords response = Inr (hello # rest) \<and> rest \<noteq> [] \<and> last rest ! 0 = 0x17 \<and>
       (\<forall>r \<in> set rest. r ! 0 = 0x14 \<or> r ! 0 = 0x17) \<and> take 3 hello = [0x16, 0x03, 0x03] \<and>
       hello ! 5 = 0x02 \<and> Prelude.slice 44 (44 + length sid) hello = sid \<and> unat (hello ! 43) = length sid"
proof -
  from assms obtain rs where rs: "splitTLSRecords response = Inr rs" by (auto simp: verifyServerHello_def res_bind_eq_Inr)
  note a = assms [unfolded verifyServerHello_def rs res_bind_simps Let_def]
  show "verify_digest C response secret random" using a by (auto split: if_splits option.splits)
  obtain hello rest where h: "rs = hello # rest" "rest \<noteq> []"
    using a by (cases rs) (auto split: if_splits)
  have b: "\<not> list_ex bad_record rest" "last rest ! 0 = 0x17" "has_prefix hello [0x16, 0x03, 0x03]"
    "39 \<le> length (drop 5 hello)" "drop 5 hello ! 0 = 0x02" "39 + unat (drop 5 hello ! 38) \<le> length (drop 5 hello)"
    "Prelude.slice 39 (39 + unat (drop 5 hello ! 38)) (drop 5 hello) = sid"
    using a h by (auto simp: find_None_iff list_ex_iff split: if_splits option.splits)
  have i: "drop 5 hello ! k = hello ! (k + 5)" if "k < 39" for k
    using b(4) that by (simp add: add.commute)
  have l: "length sid = unat (drop 5 hello ! 38)"
    unfolding b(7) [symmetric] by (subst length_slice [OF b(6)]) (rule add_diff_cancel_left')
  have "Prelude.slice 39 (39 + length sid) (drop 5 hello) = Prelude.slice 44 (44 + length sid) hello"
    by (simp add: slice_def add.commute)
  with b l have "Prelude.slice 44 (44 + length sid) hello = sid" by simp
  moreover have "\<forall>r \<in> set rest. r ! 0 = 0x14 \<or> r ! 0 = 0x17" using b(1) by (auto simp: list_ex_iff bad_record_def)
  moreover have "take 3 hello = [0x16, 0x03, 0x03]" using b(3) by (simp add: has_prefix_take numeral_3_eq_3)
  ultimately show "\<exists>hello rest. splitTLSRecords response = Inr (hello # rest) \<and> rest \<noteq> [] \<and> last rest ! 0 = 0x17 \<and>
       (\<forall>r \<in> set rest. r ! 0 = 0x14 \<or> r ! 0 = 0x17) \<and> take 3 hello = [0x16, 0x03, 0x03] \<and>
       hello ! 5 = 0x02 \<and> Prelude.slice 44 (44 + length sid) hello = sid \<and> unat (hello ! 43) = length sid"
    using rs h b(2,5) l i [of 0] i [of 38] by auto
qed

text \<open>An honest proxy's answer.\<close>

definition server_hello_record :: "bytes \<Rightarrow> bytes \<Rightarrow> bytes \<Rightarrow> bytes" where
  "server_hello_record random sid tail =
     (let body = [0x02, 0x00, 0x00, 0x00, 0x03, 0x03] @ random @ [word_of_nat (length sid)] @ sid @ tail
      in [0x16, 0x03, 0x03] @ put16be (length body) @ body)"

definition server_answer :: "crypto \<Rightarrow> bytes \<Rightarrow> bytes \<Rightarrow> bytes \<Rightarrow> bytes \<Rightarrow> bytes \<Rightarrow> bytes" where
  "server_answer C secret clientRandom sid tail noise =
     (let rest = ccs_record @ data_record noise;
          zeroed = server_hello_record (replicate 32 0) sid tail @ rest
      in server_hello_record (hmacSHA256 C secret (clientRandom @ zeroed)) sid tail @ rest)"

lemma data_record_split: "length noise < 65536 \<Longrightarrow> splitTLSRecords (data_record noise) = Inr [data_record noise]"
proof -
  assume n: "length noise < 65536"
  let ?h = "[0x17, 0x03, 0x03] @ put16be (length noise)"
  have "Prelude.slice 3 5 ?h = put16be (length noise)"
    using slice_prefix [of "[0x17, 0x03, 0x03] :: bytes" 3 5 "put16be (length noise)" "[]"] by simp
  then have "get16be (Prelude.slice 3 5 ?h) = length noise" using n by (simp only: get16be_put16be)
  from splitTLSRecords_single [OF _ this, of "[]"] show ?thesis by (simp add: data_record_def)
qed

lemma ccs_record_split: "splitTLSRecords (ccs_record @ rest) = res_bind (splitTLSRecords rest) (\<lambda>rs. Inr (ccs_record # rs))"
proof -
  have h: "get16be (Prelude.slice 3 5 [0x14, 0x03, 0x03, 0x00, 0x01]) = length [1 :: byte]"
    by (simp add: slice_def get16be_def be_nat_def)
  from splitTLSRecords_single [OF _ h, of rest] show ?thesis by (simp add: ccs_record_def)
qed

lemma hello_record_split:
  assumes "length random = 32" "length sid = 32" "length tail < 1000"
  shows "splitTLSRecords (server_hello_record random sid tail @ rest) =
     res_bind (splitTLSRecords rest) (\<lambda>rs. Inr (server_hello_record random sid tail # rs))"
proof -
  let ?body = "[0x02, 0x00, 0x00, 0x00, 0x03, 0x03] @ random @ [word_of_nat (length sid)] @ sid @ tail"
  let ?h = "[0x16, 0x03, 0x03] @ put16be (length ?body)"
  have "Prelude.slice 3 5 ?h = put16be (length ?body)"
    using slice_prefix [of "[0x16, 0x03, 0x03] :: bytes" 3 5 "put16be (length ?body)" "[]"] by simp
  then have "get16be (Prelude.slice 3 5 ?h) = length ?body" using assms by (simp add: get16be_put16be)
  from splitTLSRecords_single [OF _ this, of rest] show ?thesis by (simp add: server_hello_record_def Let_def)
qed

lemma verifyServerHello_honest:
  assumes C: "crypto_ok C" and len: "length sid = 32" "length tail < 1000" "length noise < 65536"
  shows "verifyServerHello C (server_answer C secret random sid tail noise) secret sid random = Inr ()"
proof -
  let ?rest = "ccs_record @ data_record noise"
  define d where "d = hmacSHA256 C secret (random @ server_hello_record (replicate 32 0) sid tail @ ?rest)"
  have ld: "length d = 32" by (simp add: d_def length_hmacSHA256 [OF C])
  let ?r = "server_hello_record d sid tail"
  have ans: "server_answer C secret random sid tail noise = ?r @ ?rest" by (simp add: server_answer_def Let_def d_def)
  have sp: "splitTLSRecords (?r @ ?rest) = Inr [?r, ccs_record, data_record noise]"
    by (simp add: hello_record_split [OF ld len(1,2)] ccs_record_split data_record_split [OF len(3)])
  let ?n = "length ([0x02, 0x00, 0x00, 0x00, 0x03, 0x03] @ d @ [word_of_nat (length sid) :: byte] @ sid @ tail)"
  have r: "?r = ([0x16, 0x03, 0x03] @ put16be ?n @ [0x02, 0x00, 0x00, 0x00, 0x03, 0x03]) @ d @ ([word_of_nat (length sid)] @ sid @ tail)"
    by (simp add: server_hello_record_def Let_def)
  have z: "overwrite_at 11 (replicate 32 0) (?r @ ?rest) = server_hello_record (replicate 32 0) sid tail @ ?rest"
  proof -
    have "overwrite_at 11 (replicate 32 0) (([0x16, 0x03, 0x03] @ put16be ?n @ [0x02, 0x00, 0x00, 0x00, 0x03, 0x03]) @ d @
        ([word_of_nat (length sid)] @ sid @ tail @ ?rest))
      = ([0x16, 0x03, 0x03] @ put16be ?n @ [0x02, 0x00, 0x00, 0x00, 0x03, 0x03]) @ replicate 32 0 @
        ([word_of_nat (length sid)] @ sid @ tail @ ?rest)"
      by (rule overwrite_at_mid) (simp_all add: ld)
    then show ?thesis by (simp add: r) (simp add: server_hello_record_def Let_def ld)
  qed
  have s: "Prelude.slice 11 43 (?r @ ?rest) = d"
    unfolding r append_assoc
    using slice_prefix [of "[0x16, 0x03, 0x03] @ put16be ?n @ [0x02, 0x00, 0x00, 0x00, 0x03, 0x03]" 11 43 d] ld by simp
  have v: "verify_digest C (?r @ ?rest) secret random" unfolding verify_digest_def z s by (rule d_def)
  have hs: "drop 5 ?r = [0x02, 0x00, 0x00, 0x00, 0x03, 0x03] @ d @ [32] @ sid @ tail"
    unfolding r using len(1) by simp
  have h38: "drop 5 ?r ! 38 = 32" unfolding hs using ld by (simp add: nth_append)
  have hsid: "Prelude.slice 39 71 (drop 5 ?r) = sid"
    unfolding hs using slice_prefix [of "[0x02, 0x00, 0x00, 0x00, 0x03, 0x03] @ d @ [32]" 39 71 sid tail] ld len(1) by simp
  have lh: "length (drop 5 ?r) = 71 + length tail" unfolding hs using ld len(1) by simp
  have h0: "drop 5 ?r ! 0 = 2" unfolding hs by simp
  have p: "has_prefix ?r [0x16, 0x03, 0x03]" unfolding r by (simp add: has_prefix_take)
  have f: "find bad_record [ccs_record, data_record noise] = None"
    by (simp add: bad_record_def ccs_record_def data_record_def)
  have lr: "43 \<le> length (?r @ ?rest)" using lh by simp
  have l17: "data_record noise ! 0 = 0x17" by (simp add: data_record_def)
  have if1: "unat (32 :: byte) = 32" by simp
  show ?thesis
    unfolding ans verifyServerHello_def sp res_bind_simps Let_def
    using v h38 hsid lh h0 p f lr l17 by (simp add: if1 del: drop_drop nth_drop)
qed

lemma read_records_step:
  assumes "incoming c = hdr @ payload @ rest" "length hdr = 5" "get16be (Prelude.slice 3 5 hdr) = length payload"
    "out \<noteq> [] \<or> hdr ! 0 = 0x16" "hdr ! 0 = 0x16 \<or> hdr ! 0 = 0x14 \<or> hdr ! 0 = 0x17"
  shows "\<exists>c'. incoming c' = rest \<and> read_records out c =
     (if hdr ! 0 = 0x17 then (Inr (out @ hdr @ payload), c') else read_records (out @ hdr @ payload) c')"
proof -
  obtain c1 where 1: "conn_read_full 5 c = (Inr hdr, c1)" "incoming c1 = payload @ rest"
    using conn_in.rd_prefix [OF assms(1,2)] by blast
  obtain c2 where 2: "conn_read_full (length payload) c1 = (Inr payload, c2)" "incoming c2 = rest"
    using conn_in.rd_prefix [OF 1(2) refl] by blast
  show ?thesis using assms(3,4,5) 1 2
    by (intro exI [of _ c2]) (auto simp: read_records.simps [of out c])
qed

text \<open>The answer is read off the connection exactly, whatever follows it.\<close>

lemma readServerHello_honest:
  assumes C: "crypto_ok C" and len: "length sid = 32" "length tail < 1000" "length noise < 65536"
    and i: "incoming c = server_answer C secret random sid tail noise @ later"
  shows "\<exists>c'. readServerHello c = (Inr (server_answer C secret random sid tail noise), c') \<and> incoming c' = later"
proof -
  define d where "d = hmacSHA256 C secret (random @ server_hello_record (replicate 32 0) sid tail @ ccs_record @ data_record noise)"
  have ld: "length d = 32" by (simp add: d_def length_hmacSHA256 [OF C])
  let ?body = "[0x02, 0x00, 0x00, 0x00, 0x03, 0x03] @ d @ [word_of_nat (length sid)] @ sid @ tail"
  let ?h1 = "[0x16, 0x03, 0x03] @ put16be (length ?body)"
  let ?h2 = "[0x14, 0x03, 0x03, 0x00, 0x01] :: bytes"
  let ?h3 = "[0x17, 0x03, 0x03] @ put16be (length noise)"
  have ans: "server_answer C secret random sid tail noise = ?h1 @ ?body @ ?h2 @ [1] @ ?h3 @ noise"
    by (simp add: server_answer_def Let_def d_def [symmetric]) (simp add: server_hello_record_def ccs_record_def data_record_def Let_def)
  have sl: "Prelude.slice 3 5 ([a, b, e] @ put16be n) = put16be n" for a b e n
    using slice_prefix [of "[a, b, e]" 3 5 "put16be n" "[]"] by simp
  have g1: "get16be (Prelude.slice 3 5 ?h1) = length ?body" unfolding sl using len ld by (intro get16be_put16be) simp
  have g2: "get16be (Prelude.slice 3 5 ?h2) = length [1 :: byte]" by (simp add: slice_def get16be_def be_nat_def)
  have g3: "get16be (Prelude.slice 3 5 ?h3) = length noise" unfolding sl using len(3) by (rule get16be_put16be)
  have i1: "incoming c = ?h1 @ ?body @ (?h2 @ [1] @ ?h3 @ noise @ later)" unfolding i ans by (simp only: append_assoc)
  obtain c1 where c1: "incoming c1 = ?h2 @ [1] @ (?h3 @ noise @ later)" "read_records [] c = read_records ([] @ ?h1 @ ?body) c1"
    using read_records_step [OF i1 _ g1, of "[]"] by auto
  obtain c2 where c2: "incoming c2 = ?h3 @ noise @ later"
    "read_records ([] @ ?h1 @ ?body) c1 = read_records (([] @ ?h1 @ ?body) @ ?h2 @ [1]) c2"
    using read_records_step [OF c1(1) _ g2, of "[] @ ?h1 @ ?body"] by auto
  obtain c3 where c3: "incoming c3 = later"
    "read_records (([] @ ?h1 @ ?body) @ ?h2 @ [1]) c2 = (Inr ((([] @ ?h1 @ ?body) @ ?h2 @ [1]) @ ?h3 @ noise), c3)"
    using read_records_step [OF c2(1) _ g3, of "([] @ ?h1 @ ?body) @ ?h2 @ [1]"] by auto
  have "readServerHello c = (Inr (server_answer C secret random sid tail noise), c3)"
    unfolding readServerHello_def c1(2) c2(2) c3(2) ans by simp
  with c3(1) show ?thesis by blast
qed

section \<open>Grease\<close>

lemma grease_value: "((b :: byte) AND 0xF0) + 0x0A = (b AND 0xF0) OR 0x0A"
proof -
  have "(b AND 0xF0) AND 0x0A = 0" by (simp add: and.assoc)
  then show ?thesis by (rule disjunctive_add_eq_or)
qed

text \<open>Every value has the low nibble A, and neighbours differ.\<close>

lemma grease_from_spec:
  "(\<forall>x \<in> set (grease_from prev raw). x AND 0x0F = 0x0A) \<and> length (grease_from prev raw) = length raw \<and>
   distinct_adj (grease_from prev raw) \<and> (raw \<noteq> [] \<longrightarrow> prev \<noteq> Some (List.hd (grease_from prev raw)))"
proof (induction prev raw rule: grease_from.induct)
  case (1 prev)
  then show ?case by simp
next
  case (2 prev b raw)
  define v where "v = (b AND 0xF0) + 0x0A"
  define x where "x = (if prev = Some v then v XOR 0x10 else v)"
  have n: "v AND 0x0F = 0x0A"
    unfolding v_def grease_value by (simp add: bit.conj_disj_distrib2 and.assoc)
  then have x: "x AND 0x0F = 0x0A"
    by (simp add: x_def bit.conj_xor_distrib2)
  have "v XOR 0x10 \<noteq> v"
  proof
    assume "v XOR 0x10 = v"
    then have "v XOR (v XOR 0x10) = 0" by simp
    then show False by (simp add: xor.assoc [symmetric])
  qed
  then have p: "prev \<noteq> Some x" by (auto simp: x_def)
  have g: "grease_from prev (b # raw) = x # grease_from (Some x) raw" by (simp add: v_def x_def Let_def)
  from 2 have IH: "\<forall>y \<in> set (grease_from (Some x) raw). y AND 0x0F = 0x0A" "length (grease_from (Some x) raw) = length raw"
    "distinct_adj (grease_from (Some x) raw)" "raw \<noteq> [] \<longrightarrow> Some x \<noteq> Some (List.hd (grease_from (Some x) raw))"
    by (simp_all add: v_def x_def Let_def)
  show ?case unfolding g using x p IH
    by (cases "grease_from (Some x) raw") auto
qed

text \<open>Reading leaves what was written alone.\<close>

lemma tls_fill_frame: "tls_fill buf c = (r, c') \<Longrightarrow> outgoing c' = outgoing c \<and> wleft c' = wleft c"
proof (induction buf c arbitrary: r rule: tls_fill.induct)
  case (1 buf c)
  obtain r1 c1 where h: "conn_read_full 5 c = (r1, c1)" by fastforce
  note f1 = conn_read_full_frame [OF h]
  show ?case
  proof (cases "buf \<noteq> [] \<or> (\<exists>e. r1 = Inl e)")
    case True
    with "1.prems" f1 h show ?thesis by (auto simp: tls_fill.simps [of buf c] split: if_splits)
  next
    case False
    then obtain header where b: "buf = []" "r1 = Inr header" by (cases r1) auto
    obtain r2 c2 where p: "conn_read_full (get16be (Prelude.slice 3 5 header)) c1 = (r2, c2)" by fastforce
    note f2 = conn_read_full_frame [OF p]
    show ?thesis
    proof (cases r2)
      case (Inl e)
      with "1.prems" b h p f1 f2 show ?thesis by (simp add: tls_fill.simps [of "[]" c])
    next
      case (Inr payload)
      note IH = "1.IH" [unfolded b(1), OF _ h [symmetric] b(2) p [symmetric] Inr]
      show ?thesis
        using "1.prems" b h p f1 f2 Inr IH by (auto simp: tls_fill.simps [of "[]" c] split: if_splits)
    qed
  qed
qed

lemma tls_Read_frame:
  "tls_Read n t = (r, t') \<Longrightarrow> outgoing (tc_conn t') = outgoing (tc_conn t) \<and> wleft (tc_conn t') = wleft (tc_conn t)"
  by (auto simp: tls_Read_def split: prod.splits sum.splits dest: tls_fill_frame)

lemma tls_ReadFull_frame:
  "tls_read_loop n got t = (r, t') \<Longrightarrow>
     outgoing (tc_conn t') = outgoing (tc_conn t) \<and> wleft (tc_conn t') = wleft (tc_conn t)"
proof (induction n got t rule: tls_read_loop.induct)
  case (1 n got t)
  show ?case
  proof (cases "n \<le> length got")
    case True
    with "1.prems" show ?thesis by (simp add: tls_read_loop.simps [of n got t])
  next
    case False
    obtain r1 t1 where rd: "tls_Read (n - length got) t = (r1, t1)" by fastforce
    note f = tls_Read_frame [OF rd]
    show ?thesis
    proof (cases r1)
      case (Inl e)
      with "1.prems" False rd f show ?thesis by (simp add: tls_read_loop.simps [of n got t])
    next
      case (Inr p)
      with "1.prems" False rd have "tls_read_loop n (got @ p) t1 = (r, t')" by (simp add: tls_read_loop.simps [of n got t])
      from "1.IH" [OF False rd [symmetric] Inr this] f show ?thesis by simp
    qed
  qed
qed

definition tls_deadline :: "int \<Rightarrow> tlsConn \<Rightarrow> tlsConn" where
  "tls_deadline t c = c\<lparr>tc_conn := conn_set_deadline t (tc_conn c)\<rparr>"

interpretation tls_duplex: duplex tls_ReadFull tls_pend tls_Write "tls_sent start" "tls_sink_ok start"
  "\<lambda>t. wleft (tc_conn t)" tls_deadline for start
proof (unfold_locales, goal_cases)
  case (1 c p)
  obtain c' where "conn_write ((if tc_first c then ccs_record else []) @ data_records p) (tc_conn c) = (Inr (), c')"
    "wleft c' = wleft (tc_conn c) - 1" "incoming c' = incoming (tc_conn c)"
    using conn_duplex.wr_room [OF 1] by blast
  then show ?case by (simp add: tls_Write_def tls_pend_def)
next
  case (2 p c c')
  then show ?case by (auto simp: tls_Write_def tls_pend_def dest: conn_duplex.wr_pend split: prod.splits)
next
  case (3 n c r c')
  then show ?case unfolding tls_ReadFull_def by (rule tls_ReadFull_frame [THEN conjunct2])
next
  case (4 c n r c')
  then have "outgoing (tc_conn c') = outgoing (tc_conn c)"
    unfolding tls_ReadFull_def by (rule_tac tls_ReadFull_frame [THEN conjunct1])
  with 4 show ?case by (simp add: tls_sink_ok_def tls_sent_def conn_sent_def)
qed (simp_all add: tls_deadline_def conn_set_deadline_def tls_pend_def tls_sent_def tls_sink_ok_def conn_sent_def)

interpretation obf_tls: obf_duplex tls_ReadFull tls_pend tls_Write "tls_sent start" "tls_sink_ok start"
  "\<lambda>t. wleft (tc_conn t)" tls_deadline C base for start C base
  by unfold_locales

end
