(* ===== verification/Examples.thy ===== *)
theory Examples
  imports Exchange Api FakeTls
begin

text \<open>
  Concrete inputs: an instance of the cryptographic parameter and worlds in which the
  hypotheses of the properties hold, among them a complete exchange with an honest server
  over an obfuscated connection.
\<close>

text \<open>\<open>flat\<close>: constant hashes and the identity permutation have the shape \<open>crypto_ok\<close> asks for.\<close>

definition flat :: crypto where
  "flat = \<lparr>sha1 = \<lambda>_. replicate 20 0, sha256 = \<lambda>_. replicate 32 0, aes_enc = \<lambda>k b. b, aes_dec = \<lambda>k b. b\<rparr>"

lemma flat_ok: "crypto_ok flat"
  by (simp add: crypto_ok_def flat_def)

lemma flat_simps [simp]: "sha1 flat x = replicate 20 0" "sha256 flat x = replicate 32 0"
  by (simp_all add: flat_def)

definition zeros :: "nat \<Rightarrow> bytes" where "zeros n = replicate n 0"

lemma length_zeros [simp]: "length (zeros n) = n"
  by (simp add: zeros_def)

lemma be_nat_zeros [simp]: "be_nat (zeros n) = 0"
  by (simp add: zeros_def be_nat_def)

lemma be_nat_zeros_append: "be_nat (zeros n @ xs) = be_nat xs"
  by (induction n) (simp_all add: zeros_def)

text \<open>The resPQ of the example: \<open>pq = 6\<close>, and the fingerprint every key has under \<open>flat\<close>.\<close>

lemma flat_selectKey: "\<exists>key. selectKey flat [0] = Inr key \<and> 256 ^ 224 \<le> pk_N key"
proof -
  have fp: "keyFingerprint flat n e = 0" for n e
    by (simp add: keyFingerprint_def Let_def slice_def get64_def)
  show ?thesis
    by (simp add: selectKey_def telegramKeys_def telegramModuli_def fp)
qed

lemma factorize_six: "factorize 6 = Inr (2, 3)"
  by (simp add: factorize_def)

lemma flat_rsa_value: "length dp = 192 \<Longrightarrow> rsa_value flat (zeros 32) dp < 256 ^ 224"
proof -
  assume dp: "length dp = 192"
  then obtain enc where e: "igeEncrypt flat (rev dp @ sha256 flat (zeros 32 @ dp)) (zeros 32) (replicate 32 0) = Inr enc"
    by (simp add: igeEncrypt_def ige_checks_def aes_key_ok_def)
  have "length enc = 224" using igeEncrypt_length [OF flat_ok e] dp by simp
  then have "be_nat enc < 256 ^ 224" using be_nat_bound [of enc] by simp
  moreover have "xor_bytes (zeros 32) (sha256 flat enc) = zeros 32"
    by (simp add: xor_bytes_def zeros_def zip_replicate)
  ultimately show ?thesis
    using e by (simp add: rsa_value_def bigFromBytes_def be_nat_zeros_append)
qed

definition pq_padding :: bytes where
  "pq_padding = zeros (192 - length (pqInnerData 6 2 3 (zeros 16) (zeros 16) (zeros 32) 2))"

lemma demo_honest_pq: "honest_pq flat 2 (zeros 16) (zeros 16) (zeros 32) pq_padding (zeros 32) [6] [0]"
proof -
  obtain key where k: "selectKey flat [0] = Inr key" "256 ^ 224 \<le> pk_N key" using flat_selectKey by blast
  let ?data = "pqInnerData 6 2 3 (zeros 16) (zeros 16) (zeros 32) 2"
  have "length ?data \<le> 108" by (rule pqInnerData_length) simp_all
  then have "length (?data @ pq_padding) = 192" by (simp add: pq_padding_def)
  from flat_rsa_value [OF this] k(2) have "rsa_value flat (zeros 32) (?data @ pq_padding) < pk_N key" by linarith
  moreover have "word_of_nat (bigFromBytes [6]) = (6 :: u64)" by (simp add: bigFromBytes_def be_nat_def)
  ultimately show ?thesis using k(1) factorize_six by (simp add: honest_pq_def pq_padding_def Let_def)
qed

definition demo_prime :: nat where "demo_prime = 2 ^ 2047 + 9"

lemma demo_prime_bits: "bit_len demo_prime = 2048"
proof -
  have "demo_prime < 2 ^ Suc 2047" unfolding demo_prime_def by simp
  moreover have "2 ^ 2047 \<le> demo_prime" by (simp add: demo_prime_def)
  ultimately have "bit_len demo_prime = Suc 2047" by (intro bit_len_eqI)
  then show ?thesis by simp
qed

definition demo_inner :: bytes where
  "demo_inner = server_dh_inner (zeros 16) (zeros 16) 2 (be_bytes 256 demo_prime) (be_bytes 256 (modexp (unat (2 :: u32)) 2 demo_prime)) 0"

definition demo_answer :: bytes where
  "demo_answer = (case igeEncrypt flat (sha1 flat demo_inner @ demo_inner @ zeros 8)
      (fst (dhTempKeys flat (zeros 32) (zeros 16))) (snd (dhTempKeys flat (zeros 32) (zeros 16))) of Inr a \<Rightarrow> a | Inl _ \<Rightarrow> [])"

definition demo_params :: bytes where
  "demo_params = server_dh_params (zeros 16) (zeros 16) demo_answer"

definition demo_genok :: bytes where
  "demo_genok = dh_gen_ok_body flat (zeros 16) (zeros 16) (zeros 32) (be_bytes 256 (modexp (modexp (unat (2 :: u32)) 0 demo_prime) 2 demo_prime))"

lemma demo_honest_dh:
  "honest_dh flat (zeros 16) (zeros 16) (zeros 32) 2 demo_prime 2 0 0 demo_params demo_genok"
proof -
  let ?key = "fst (dhTempKeys flat (zeros 32) (zeros 16))" and ?iv = "snd (dhTempKeys flat (zeros 32) (zeros 16))"
  have li: "length demo_inner = 564" by (simp add: demo_inner_def server_dh_inner_def length_tl_256)
  have "length ?key = 32" "length ?iv = 32" using dhTempKeys_length [OF flat_ok, of "zeros 32" "zeros 16"] by simp_all
  then obtain a where a: "igeEncrypt flat (sha1 flat demo_inner @ demo_inner @ zeros 8) ?key ?iv = Inr a"
    using li by (simp add: igeEncrypt_def ige_checks_def aes_key_ok_def)
  then have "demo_answer = a" by (simp add: demo_answer_def)
  with a show ?thesis
    unfolding honest_dh_def
    by (intro exI [of _ "zeros 8"] exI [of _ a])
      (simp add: Let_def demo_inner_def demo_params_def demo_genok_def dhTempKeys_temp [OF flat_ok] dh_gen_ok_body_def
        ctorDHGenOK_def newNonceHash1_key_hash [OF flat_ok])
qed

definition demo_input :: bytes where
  "demo_input = encodeIntermediate (unencrypted_message 0 (resPQ_body (zeros 16) (zeros 16) [6] [0]))
     @ encodeIntermediate (unencrypted_message 0 demo_params) @ encodeIntermediate (unencrypted_message 0 demo_genok) @ []"

definition demo_ctr :: ctr where
  "demo_ctr = \<lparr>ctr_key = zeros 32, ctr_iv = zeros 16, ctr_pos = 0\<rparr>"

definition demo_conn :: "bytes \<Rightarrow> conn" where
  "demo_conn i = \<lparr>incoming = i, ending = ErrEOF, outgoing = [], wleft = 3, werr = ErrEOF, deadlines = []\<rparr>"

definition demo_stream :: "bytes \<Rightarrow> conn obf stream" where
  "demo_stream input = \<lparr>s_link = obf_link flat,
     s_carrier = \<lparr>o_rw = demo_conn (xor_at (ctr_ks flat (zeros 32) (zeros 16)) 0 input), o_enc = demo_ctr, o_dec = demo_ctr\<rparr>,
     s_tr = Intermediate, s_tagFirst = None, s_perStep = 8000000000, s_until = None, s_sentAt = None, s_recvdAt = None\<rparr>"

definition demo_world :: "conn obf stream world" where
  "demo_world = \<lparr>entropy = zeros 16 @ zeros 32 @ pq_padding @ zeros 32 @ zeros 271, clk = 0, ticks = [],
     primeCache = [], chan = demo_stream demo_input\<rparr>"

lemma demo_obf_stream: "obf_stream flat demo_input 3 demo_world"
  by (simp add: obf_stream_def demo_world_def demo_stream_def demo_ctr_def obf_incoming_def demo_conn_def)

lemma demo_entropy: "entropy demo_world = zeros 16 @ zeros 32 @ pq_padding @ zeros 32 @ zeros 271"
  by (simp add: demo_world_def)

lemma demo_b: "be_nat (take 256 (zeros 271)) = 0"
  by (simp add: zeros_def be_nat_def)

lemma demo_range: "modexp (unat (2 :: u32)) 2 demo_prime = 4" "1 < modexp (unat (2 :: u32)) 2 demo_prime"
  "modexp (unat (2 :: u32)) 2 demo_prime < demo_prime - 1" "2 \<le> unat (2 :: u32)" "unat (2 :: u32) \<le> 7"
proof -
  have "(2::nat) ^ 3 \<le> 2 ^ 2047" by (intro power_increasing) simp_all
  then have p: "4 < demo_prime - 1" "4 < demo_prime" by (simp_all add: demo_prime_def)
  have "unat (2 :: u32) ^ 2 = 4" by simp
  then show v: "modexp (unat (2 :: u32)) 2 demo_prime = 4" using p(2) unfolding modexp_def by (simp only: mod_less)
  show "1 < modexp (unat (2 :: u32)) 2 demo_prime" "modexp (unat (2 :: u32)) 2 demo_prime < demo_prime - 1"
    unfolding v by (simp, rule p(1))
  show "2 \<le> unat (2 :: u32)" "unat (2 :: u32) \<le> 7" by simp_all
qed

lemma demo_in_step: "obf_in_step (s_carrier (chan demo_world))" "lead (chan demo_world) = []"
  by (simp_all add: obf_in_step_def demo_world_def demo_stream_def demo_ctr_def lead_def)

text \<open>The exchange of the example succeeds.\<close>

lemma demo_exchange: "\<exists>ak w'. createAuthKey flat (\<lambda>_. True) 2 demo_world = (Inr ak, w')"
proof -
  have v: "obf_conn.both.view flat demo_world = (encodeIntermediate (unencrypted_message 0 (resPQ_body (zeros 16) (zeros 16) [6] [0]))
       @ encodeIntermediate (unencrypted_message 0 demo_params) @ encodeIntermediate (unencrypted_message 0 demo_genok) @ [],
      Suc (Suc (Suc 0)), zeros 16 @ zeros 32 @ pq_padding @ zeros 32 @ zeros 271, [])"
    using obf_stream_view [OF demo_obf_stream] by (simp add: demo_world_def demo_input_def numeral_3_eq_3)
  have h: "honest_dh flat (zeros 16) (zeros 16) (zeros 32) 2 demo_prime 2 0 (be_nat (take 256 (zeros 271))) demo_params demo_genok"
    unfolding demo_b by (rule demo_honest_dh)
  have "safe_prime_test (\<lambda>_. True) demo_prime" by (simp add: safe_prime_test_def)
  from obf_conn.both.createAuthKey_complete [OF flat_ok demo_honest_pq obf_stream_fits [OF demo_obf_stream] v _ h refl
      demo_range(4,5) demo_prime_bits demo_range(2,3) this] show ?thesis by auto
qed

lemma demo_parsed: "\<exists>key iv g p gA time. parseServerDHParams flat demo_params (zeros 16) (zeros 16) key iv = Inr (g, p, gA, time)"
proof -
  let ?key = "fst (dhTempKeys flat (zeros 32) (zeros 16))" and ?iv = "snd (dhTempKeys flat (zeros 32) (zeros 16))"
  have li: "length demo_inner = 564" by (simp add: demo_inner_def server_dh_inner_def length_tl_256)
  have "length ?key = 32" "length ?iv = 32" using dhTempKeys_length [OF flat_ok, of "zeros 32" "zeros 16"] by simp_all
  then obtain a where a: "igeEncrypt flat (sha1 flat demo_inner @ demo_inner @ zeros 8) ?key ?iv = Inr a"
    using li by (simp add: igeEncrypt_def ige_checks_def aes_key_ok_def)
  then have d: "demo_answer = a" by (simp add: demo_answer_def)
  have "length a = 592" using igeEncrypt_length [OF flat_ok a] li by simp
  then show ?thesis
    using parseServerDHParams_honest [OF flat_ok _ _ _ _ _ demo_inner_def a, of "[]"]
    by (simp add: demo_params_def d) blast
qed

section \<open>A session\<close>

definition demo_auth :: authKey where
  "demo_auth = \<lparr>ak_key = zeros 256, ak_keyID = zeros 8, ak_salt = zeros 8, ak_timeOffset = 0\<rparr>"

definition demo_session :: session where
  "demo_session = \<lparr>ss_auth = demo_auth, ss_id = zeros 8, ss_seqNo = 0, ss_salt = zeros 8\<rparr>"

definition demo_gzip :: gzip where
  "demo_gzip = \<lparr>gz_open = \<lambda>_. None, gz_read = \<lambda>p. (p, None)\<rparr>"

definition demo_result :: bytes where "demo_result = [1, 2, 3, 4]"

definition demo_body :: bytes where
  "demo_body = put32 ctorRPCResult @ put64 (messageID_at 7) @ demo_result"

definition demo_plain :: bytes where
  "demo_plain = zeros 28 @ put32 (word_of_nat (length demo_body)) @ demo_body @ []"

definition demo_reply :: bytes where
  "demo_reply = (case seal flat demo_auth 8 demo_plain of Inr r \<Rightarrow> r | Inl _ \<Rightarrow> [])"

lemma demo_body_length [simp]: "length demo_body = 16"
  by (simp add: demo_body_def demo_result_def)

lemma demo_sealed: "seal flat demo_auth 8 demo_plain = Inr demo_reply"
proof -
  have "length demo_plain mod 16 = 0" by (simp add: demo_plain_def)
  from seal_ok [OF flat_ok this, of demo_auth 8] show ?thesis by (auto simp: demo_reply_def)
qed

lemma demo_opened: "open_body demo_plain = Inr demo_body"
  unfolding open_body_iff demo_plain_def by (intro exI [of _ "zeros 28"] exI [of _ "[]"]) simp

lemma demo_answer_of: "answer_of demo_gzip (messageID_at 7) demo_body demo_result"
proof -
  have "unwrap demo_gzip demo_result = Inr demo_result"
    by (simp add: unwrap_def demo_result_def ctor_of_def ctorGzipPacked_def get32_def)
  then show ?thesis by (auto simp: answer_of_def demo_body_def)
qed

lemma demo_result_plain: "ctor_of demo_result \<noteq> ctorRPCError"
  by (simp add: demo_result_def ctor_of_def ctorRPCError_def get32_def)

lemma demo_reply_of: "reply_of flat demo_gzip demo_auth (messageID_at 7) demo_reply demo_result"
  unfolding reply_of_def using demo_sealed demo_opened demo_answer_of demo_result_plain by blast

lemma demo_reply_length: "length demo_reply = 72"
proof -
  have "open_message flat demo_auth 8 demo_reply = Inr demo_plain"
    using open_message_iff [OF flat_ok, of demo_auth demo_plain 8 demo_reply] demo_sealed
    by (simp add: demo_auth_def demo_plain_def)
  then have "40 \<le> length demo_reply" "igeDecrypt flat (drop 24 demo_reply) (fst (messageKeys flat (zeros 256) (Prelude.slice 8 24 demo_reply) 8))
      (snd (messageKeys flat (zeros 256) (Prelude.slice 8 24 demo_reply) 8)) = Inr demo_plain"
    by (auto simp: open_message_def demo_auth_def split_beta Let_def res_bind_eq_Inr split: if_splits)
  from this(1) igeDecrypt_length [OF flat_ok this(2)] show ?thesis by (simp add: demo_plain_def)
qed

definition demo_session_world :: "conn obf session_world" where
  "demo_session_world = \<lparr>entropy = zeros 27, clk = 0, ticks = [5, 7, 8, 9], primeCache = [],
     chan = demo_stream (encodeIntermediate demo_reply @ []), sess = demo_session\<rparr>"

lemma demo_session_stream: "obf_stream flat (encodeIntermediate demo_reply @ []) 3 demo_session_world"
  by (simp add: obf_stream_def demo_session_world_def demo_stream_def demo_ctr_def obf_incoming_def demo_conn_def)

lemma demo_times:
  "time_now demo_session_world = (Inr 5, demo_session_world\<lparr>clk := 5, ticks := [7, 8, 9]\<rparr>)"
  "time_now (demo_session_world\<lparr>clk := 5, ticks := [7, 8, 9]\<rparr>) = (Inr 7, demo_session_world\<lparr>clk := 7, ticks := [8, 9]\<rparr>)"
  "9 \<le> T \<Longrightarrow> by_then T (demo_session_world\<lparr>clk := 7, ticks := [8, 9]\<rparr>)"
  by (simp_all add: time_now_def demo_session_world_def by_then_def)

lemma demo_invoke: "\<exists>w'. invoke flat demo_gzip 9 [] 1000 demo_session_world = (Inr demo_result, w')"
proof -
  have v: "obf_conn.both.view flat demo_session_world = (encodeIntermediate demo_reply @ [], Suc 2, zeros 27, [])"
    using obf_stream_view [OF demo_session_stream] by (simp add: demo_session_world_def)
  have a: "ss_auth (sess demo_session_world) = demo_auth" "length (ak_keyID demo_auth) = 8"
    by (simp_all add: demo_session_world_def demo_session_def demo_auth_def)
  have t: "by_then (5 + 1000) (demo_session_world\<lparr>clk := 7, ticks := [8, 9]\<rparr>)" by (rule demo_times(3)) simp
  have l: "length demo_reply \<le> maxPacketLen" by (simp add: demo_reply_length maxPacketLen_def)
  show ?thesis
    by (rule obf_conn.both.invoke_complete [OF flat_ok a demo_times(1,2) t obf_stream_fits [OF demo_session_stream] v _ demo_reply_of l]) simp
qed

text \<open>A gzip object that unpacks to itself.\<close>

definition bomb_body :: bytes where "bomb_body = put32 ctorGzipPacked @ tl_bytes []"

definition bomb_gzip :: gzip where
  "bomb_gzip = \<lparr>gz_open = \<lambda>_. None, gz_read = \<lambda>_. (bomb_body, None)\<rparr>"

lemma bomb: "4 \<le> length bomb_body" "ctor_of bomb_body = ctorGzipPacked" "unwrap bomb_gzip bomb_body = Inr bomb_body"
proof -
  show l: "4 \<le> length bomb_body" and c: "ctor_of bomb_body = ctorGzipPacked" by (simp_all add: bomb_body_def ctor_of_def)
  have "cursor_bytes (cur (put32 ctorGzipPacked) (tl_bytes [])) = ([], cur (put32 ctorGzipPacked @ tl_bytes []) [])"
    using cursor_bytes_cur [of "[]" "put32 ctorGzipPacked" "[]"] by simp
  moreover have "drop 4 bomb_body = tl_bytes []" by (simp add: bomb_body_def)
  moreover have "length bomb_body \<le> gzip_limit"
    using length_tl_bytes_le [of "[]"] by (simp add: bomb_body_def gzip_limit_def)
  ultimately show "unwrap bomb_gzip bomb_body = Inr bomb_body"
    using l c by (simp add: unwrap_def first_uint32 bomb_gzip_def)
qed

section \<open>A header\<close>

definition demo_header :: bytes where "demo_header = replicate 64 1"

definition demo_header_world :: "conn world" where
  "demo_header_world = \<lparr>entropy = demo_header, clk = 0, ticks = [], primeCache = [], chan = demo_conn []\<rparr>"

lemma demo_drawn: "draw_header demo_header = Some (demo_header, [])"
proof -
  have "(Prelude.slice 4 8 demo_header) = [1, 1, 1, 1]" "demo_header ! 0 = 1" "take 4 demo_header = [1, 1, 1, 1]"
    by (simp_all add: demo_header_def slice_def eval_nat_numeral)
  then have "header_accepted demo_header"
    by (simp add: header_accepted_def forbidden_def get32_def str_bytes_def)
  then show ?thesis
    by (subst draw_header.simps) (simp add: demo_header_def)
qed

lemma demo_newObfConn:
  "\<exists>enc dec w'. newObfConn flat conn_write [] (tr_tag Intermediate) 2 demo_header_world = (Inr (enc, dec), w')"
  by (simp add: newObfConn_def obfuscationHeader_def demo_header_world_def demo_drawn io_bind_def Let_def XORKeyStream_def
      aes_key_ok_def on_chan_def conn_write_def demo_conn_def numeral_3_eq_3)

definition demo_hello_world :: env where
  "demo_hello_world = \<lparr>entropy = zeros 5 @ zeros 32 @ zeros 32, clk = 0, ticks = [], primeCache = []\<rparr>"

lemma demo_sni: "encodeSNI ''ab'' = Inr (str_bytes ''ab'')"
  by (simp add: encodeSNI_def to_lower_def trim_space_def trim_chars_def trim_right_def lower_char_def is_space_def Let_def)

lemma demo_hello: "\<exists>h w'. buildClientHello flat ''ab'' [] demo_hello_world = (Inr h, w')"
proof -
  have bl: "bit_len (2 ^ 255 - 19 - 1) = 255"
  proof -
    have "bit_len (2 ^ 255 - 19 - 1) = Suc 254" by (rule bit_len_eqI) simp_all
    then show ?thesis by simp
  qed
  have m: "mask_top k (zeros n) = zeros n" for k n
    by (cases n) (simp_all add: mask_top_def zeros_def)
  have z: "take 32 (zeros 32) = zeros 32" "drop 32 (zeros 32) = zeros 0" by (simp_all add: zeros_def)
  have gen: "rand_int_from mx (zeros 32) = Some (0, zeros 0)" if "bit_len (mx - 1) = 255" "0 < mx" for mx
    using that by (subst rand_int_from.simps) (simp add: Let_def z m)
  have "rand_int_from (2 ^ 255 - 19) (zeros 32) = Some (0, zeros 0)" by (rule gen [OF bl]) simp
  then show ?thesis
    by (simp add: buildClientHello_def demo_sni demo_hello_world_def makeGrease_def randomBytes_def fakeX25519Key_def
        rand_int_def io_bind_def Let_def time_now_def)
qed

section \<open>A pong\<close>

definition demo_pong :: bytes where "demo_pong = put32 ctorPong @ put64 0 @ zeros 8 @ []"

definition demo_pong_plain :: bytes where
  "demo_pong_plain = zeros 28 @ put32 (word_of_nat (length demo_pong)) @ demo_pong @ zeros 12"

definition demo_pong_reply :: bytes where
  "demo_pong_reply = (case seal flat demo_auth 8 demo_pong_plain of Inr r \<Rightarrow> r | Inl _ \<Rightarrow> [])"

lemma demo_pong_length: "length demo_pong = 20"
  by (simp add: demo_pong_def)

lemma demo_pong_sealed: "seal flat demo_auth 8 demo_pong_plain = Inr demo_pong_reply"
proof -
  have "length demo_pong_plain mod 16 = 0" by (simp add: demo_pong_plain_def demo_pong_length)
  from seal_ok [OF flat_ok this, of demo_auth 8] show ?thesis by (auto simp: demo_pong_reply_def)
qed

lemma demo_pong_opened: "open_body demo_pong_plain = Inr demo_pong"
  unfolding open_body_iff demo_pong_plain_def
  by (intro exI [of _ "zeros 28"] exI [of _ "zeros 12"]) (simp add: demo_pong_length)

lemma demo_pong_found: "containsPong (zeros 8) demo_pong = Inr True"
  unfolding demo_pong_def by (subst containsPong_pong) simp_all

lemma seal_length: "seal C auth x plain = Inr packet \<Longrightarrow> crypto_ok C \<Longrightarrow>
    length packet = length (ak_keyID auth) + 16 + length plain"
  by (auto simp: seal_def Let_def split_beta res_bind_eq_Inr messageKey_length igeEncrypt_length)

definition demo_ping_world :: "conn obf session_world" where
  "demo_ping_world = \<lparr>entropy = zeros 8 @ zeros 27, clk = 0, ticks = [], primeCache = [],
     chan = demo_stream (encodeIntermediate demo_pong_reply @ []), sess = demo_session\<rparr>"

lemma demo_ping: "\<exists>w'. ping flat demo_ping_world = (Inr 0, w')"
proof -
  have st: "obf_stream flat (encodeIntermediate demo_pong_reply @ []) 3 demo_ping_world"
    by (simp add: obf_stream_def demo_ping_world_def demo_stream_def demo_ctr_def obf_incoming_def demo_conn_def)
  have v: "obf_conn.both.view flat demo_ping_world = (encodeIntermediate demo_pong_reply @ [], Suc 2, zeros 8 @ zeros 27, [])"
    using obf_stream_view [OF st] by (simp add: demo_ping_world_def)
  have s: "stands 0 demo_ping_world" by (simp add: stands_def demo_ping_world_def)
  have l: "length demo_pong_reply \<le> maxPacketLen"
    using seal_length [OF demo_pong_sealed flat_ok]
    by (simp add: demo_auth_def demo_pong_plain_def demo_pong_length maxPacketLen_def)
  show ?thesis
    by (rule obf_conn.both.ping_complete [OF flat_ok _ _ s obf_stream_fits [OF st] v _ _ demo_pong_sealed demo_pong_opened demo_pong_found l])
      (simp_all add: demo_ping_world_def demo_session_def demo_auth_def)
qed

lemma demo_series: "\<exists>st w'. pingSeries flat 1 0 demo_ping_world = (Inr st, w')"
proof -
  obtain w' where p: "ping flat demo_ping_world = (Inr 0, w')" using demo_ping by blast
  have "ping_loop flat 0 True (Suc 0) [] 0 demo_ping_world = (Inr ([0], 1), w')"
    using p by (simp add: arm_ping_def io_seq_def io_bind_def io_try_def)
  then show ?thesis by (simp add: pingSeries_def io_bind_def)
qed

end
