(* ===== verification/Frame.thy ===== *)
theory Frame
  imports Text Effects
begin

text \<open>
  \<open>internal/webproxy/frame.go\<close>: the frames of the WEB proxy protocol, a type byte, a 24-bit
  stream number, a 32-bit payload length and the payload.  The main lemma states what
  \<open>decodeFrames\<close> accepts: exactly the concatenated encodings of frames whose payload is at most
  1 MiB.
\<close>

definition frameOpen :: byte where "frameOpen = 0x01"
definition frameData :: byte where "frameData = 0x02"
definition frameClose :: byte where "frameClose = 0x03"
definition frameWindow :: byte where "frameWindow = 0x04"
definition framePing :: byte where "framePing = 0x05"
definition framePong :: byte where "framePong = 0x06"
definition frameHello :: byte where "frameHello = 0x10"
definition frameWelcome :: byte where "frameWelcome = 0x11"
definition frameBye :: byte where "frameBye = 0x1F"

definition frameHeaderLen :: nat where "frameHeaderLen = 8"
definition maxPayload :: nat where "maxPayload = 1048576"

record frame =
  fr_kind :: byte
  fr_stream :: u32
  fr_payload :: bytes

definition encodeFrame :: "byte \<Rightarrow> u32 \<Rightarrow> bytes \<Rightarrow> bytes" where
  "encodeFrame kd stream payload =
     [kd, ucast (drop_bit 16 stream), ucast (drop_bit 8 stream), ucast stream]
     @ be_bytes 4 (length payload) @ payload"

function decodeFrames :: "bytes \<Rightarrow> goerr + frame list" where
  "decodeFrames body =
     (if body = [] then Inr []
      else if length body < frameHeaderLen then Inl (ErrText ''truncated frame header'')
      else let payloadLen = be_nat (slice 4 8 body) in
        if payloadLen > maxPayload
        then Inl (ErrText (''frame payload of '' @ dec_nat payloadLen @ '' bytes exceeds the 1 MiB limit''))
        else if frameHeaderLen + payloadLen > length body then Inl (ErrText ''truncated frame payload'')
        else res_bind (decodeFrames (drop (frameHeaderLen + payloadLen) body)) (\<lambda>frames.
          Inr (\<lparr>fr_kind = body ! 0,
                fr_stream = push_bit 16 (ucast (body ! 1)) OR push_bit 8 (ucast (body ! 2)) OR ucast (body ! 3),
                fr_payload = slice frameHeaderLen (frameHeaderLen + payloadLen) body\<rparr> # frames)))"
  by pat_completeness auto
termination by (relation "measure length") (auto simp: frameHeaderLen_def)

declare decodeFrames.simps [simp del]

definition frameName :: "byte \<Rightarrow> string" where
  "frameName kd =
     (if kd = frameOpen then ''OPEN'' else if kd = frameData then ''DATA'' else if kd = frameClose then ''CLOSE''
      else if kd = frameWindow then ''WINDOW'' else if kd = framePing then ''PING'' else if kd = framePong then ''PONG''
      else if kd = frameHello then ''HELLO'' else if kd = frameWelcome then ''WELCOME'' else if kd = frameBye then ''BYE''
      else ''0x'' @ hex_byte kd)"

section \<open>What the decoder accepts\<close>

definition frame_ok :: "frame \<Rightarrow> bool" where
  "frame_ok f \<longleftrightarrow> unat (fr_stream f) < 2 ^ 24 \<and> length (fr_payload f) \<le> maxPayload"

definition frame_bytes :: "frame \<Rightarrow> bytes" where
  "frame_bytes f = encodeFrame (fr_kind f) (fr_stream f) (fr_payload f)"

lemma length_frame_bytes: "length (frame_bytes f) = 8 + length (fr_payload f)"
  by (simp add: frame_bytes_def encodeFrame_def)

lemma stream_split:
  "unat (s :: u32) < 2 ^ 24 \<Longrightarrow>
     push_bit 16 (ucast (ucast (drop_bit 16 s) :: byte)) OR push_bit 8 (ucast (ucast (drop_bit 8 s) :: byte)) OR ucast (ucast s :: byte) = s"
proof -
  assume s: "unat s < 2 ^ 24"
  have high: "\<not> bit s n" if "24 \<le> n" for n
  proof -
    have "take_bit 24 s = s" using s by (simp add: word_unat_eq_iff unsigned_take_bit_eq take_bit_nat_eq_self)
    then show ?thesis using that by (metis bit_take_bit_iff leD)
  qed
  show ?thesis
    by (rule bit_word_eqI)
      (auto simp: bit_or_iff bit_push_bit_iff bit_ucast_iff bit_drop_bit_eq high not_le not_less
        dest: high intro: ccontr)
qed

lemma stream_join:
  fixes a b c :: byte
  defines "s \<equiv> push_bit 16 (ucast a) OR push_bit 8 (ucast b) OR (ucast c :: u32)"
  shows "ucast (drop_bit 16 s) = a" "ucast (drop_bit 8 s) = b" "ucast s = c" "unat s < 2 ^ 24"
proof -
  have low: "bit (s :: u32) n \<Longrightarrow> n < 24" for n
    by (auto simp: s_def bit_or_iff bit_push_bit_iff bit_ucast_iff dest!: bit_imp_le_length)
  then have "take_bit 24 s = s" by (intro bit_word_eqI) (auto simp: bit_take_bit_iff)
  then show "unat s < 2 ^ 24"
    by (metis take_bit_nat_less_exp unsigned_take_bit_eq)
  show "ucast (drop_bit 16 s) = a" "ucast (drop_bit 8 s) = b" "ucast s = c"
    by (rule bit_word_eqI; auto simp: s_def bit_or_iff bit_push_bit_iff bit_ucast_iff bit_drop_bit_eq dest: bit_imp_le_length)+
qed


text \<open>One frame off the front of a body: \<open>head_frame\<close> is the frame the decoder reads there.\<close>

definition head_frame :: "bytes \<Rightarrow> nat \<Rightarrow> frame" where
  "head_frame body n = \<lparr>fr_kind = body ! 0,
     fr_stream = push_bit 16 (ucast (body ! 1)) OR push_bit 8 (ucast (body ! 2)) OR ucast (body ! 3),
     fr_payload = slice 8 (8 + n) body\<rparr>"

lemma decode_step:
  "be_nat (slice 4 8 body) = n \<Longrightarrow> n \<le> maxPayload \<Longrightarrow> 8 + n \<le> length body \<Longrightarrow>
     decodeFrames body = res_bind (decodeFrames (drop (8 + n) body)) (\<lambda>frames. Inr (head_frame body n # frames))"
  by (subst decodeFrames.simps) (auto simp: frameHeaderLen_def Let_def head_frame_def)

lemma decode_Inr_cases:
  assumes "decodeFrames body = Inr frames" and "body \<noteq> []"
  obtains n rest where "be_nat (slice 4 8 body) = n" "n \<le> maxPayload" "8 + n \<le> length body"
    "decodeFrames (drop (8 + n) body) = Inr rest" "frames = head_frame body n # rest"
  using assms by (subst (asm) decodeFrames.simps)
    (auto simp: frameHeaderLen_def Let_def head_frame_def res_bind_eq_Inr split: if_splits)

lemma head_frame_encoded:
  assumes "frame_ok f"
  shows "be_nat (slice 4 8 (frame_bytes f @ rest)) = length (fr_payload f)"
    "head_frame (frame_bytes f @ rest) (length (fr_payload f)) = f"
proof -
  show "be_nat (slice 4 8 (frame_bytes f @ rest)) = length (fr_payload f)"
    using assms by (simp add: frame_bytes_def encodeFrame_def slice_def be_nat_be_bytes frame_ok_def maxPayload_def)
  have p: "slice 8 (8 + length (fr_payload f)) (frame_bytes f @ rest) = fr_payload f"
    by (simp add: frame_bytes_def encodeFrame_def slice_def)
  have n: "(frame_bytes f @ rest) ! 0 = fr_kind f"
    "(frame_bytes f @ rest) ! 1 = ucast (drop_bit 16 (fr_stream f))"
    "(frame_bytes f @ rest) ! 2 = ucast (drop_bit 8 (fr_stream f))" "(frame_bytes f @ rest) ! 3 = ucast (fr_stream f)"
    by (simp_all add: frame_bytes_def encodeFrame_def)
  have s: "unat (fr_stream f) < 2 ^ 24" using assms by (simp add: frame_ok_def)
  show "head_frame (frame_bytes f @ rest) (length (fr_payload f)) = f"
    unfolding head_frame_def n p stream_split [OF s] by simp
qed

lemma decode_frame:
  "frame_ok f \<Longrightarrow> decodeFrames (frame_bytes f @ rest) = res_bind (decodeFrames rest) (\<lambda>frames. Inr (f # frames))"
  by (subst decode_step [OF head_frame_encoded(1)])
    (simp_all add: head_frame_encoded length_frame_bytes, simp add: frame_ok_def)

lemma decodeFrames_Nil [simp]: "decodeFrames [] = Inr []"
  by (subst decodeFrames.simps) simp

lemma decode_encoded: "list_all frame_ok frames \<Longrightarrow> decodeFrames (concat (map frame_bytes frames)) = Inr frames"
  by (induction frames) (simp_all add: decode_frame)

lemma head_frame_ok:
  assumes "be_nat (slice 4 8 body) = n" "n \<le> maxPayload" "8 + n \<le> length body"
  shows "frame_ok (head_frame body n)" "body = frame_bytes (head_frame body n) @ drop (8 + n) body"
proof -
  show "frame_ok (head_frame body n)"
    using assms stream_join(4) by (auto simp: frame_ok_def head_frame_def)
  have "be_bytes 4 n = slice 4 8 body"
    using be_bytes_be_nat [of "slice 4 8 body"] assms by simp
  moreover have "take 4 body = [body ! 0, body ! 1, body ! 2, body ! 3]"
    using assms(3) by (intro nth_equalityI) (auto simp: less_Suc_eq numeral_eq_Suc)
  moreover have "take (8 + n) body = take 4 body @ slice 4 8 body @ slice 8 (8 + n) body"
    using assms(3) take_add [of 4 "4 + n" body] take_add [of 4 n "drop 4 body"] by (simp add: slice_def)
  moreover have "frame_bytes (head_frame body n) = [body ! 0, body ! 1, body ! 2, body ! 3] @ be_bytes 4 n @ slice 8 (8 + n) body"
    using assms(3) unfolding frame_bytes_def encodeFrame_def head_frame_def frame.simps stream_join by simp
  ultimately have "take (8 + n) body = frame_bytes (head_frame body n)" by simp
  then show "body = frame_bytes (head_frame body n) @ drop (8 + n) body"
    by (metis append_take_drop_id)
qed

lemma decode_accepted: "decodeFrames body = Inr frames \<Longrightarrow> list_all frame_ok frames \<and> body = concat (map frame_bytes frames)"
proof (induction body arbitrary: frames rule: length_induct)
  case (1 body)
  show ?case
  proof (cases "body = []")
    case True
    with 1 show ?thesis by simp
  next
    case False
    from decode_Inr_cases [OF 1(2) False] obtain n rest where
      n: "be_nat (slice 4 8 body) = n" "n \<le> maxPayload" "8 + n \<le> length body"
      and r: "decodeFrames (drop (8 + n) body) = Inr rest" "frames = head_frame body n # rest" .
    have "length (drop (8 + n) body) < length body" using n(3) by simp
    from 1(1) [rule_format, OF this r(1)] head_frame_ok [OF n] r(2) show ?thesis by simp
  qed
qed

lemma decodeFrames_iff:
  "decodeFrames body = Inr frames \<longleftrightarrow> list_all frame_ok frames \<and> body = concat (map frame_bytes frames)"
  using decode_accepted decode_encoded by blast

lemma frame_bytes_encode:
  "frame_bytes \<lparr>fr_kind = kd, fr_stream = s, fr_payload = p\<rparr> = encodeFrame kd s p"
  by (simp add: frame_bytes_def)

end
