(* ===== verification/Hold.thy ===== *)
theory Hold
  imports Api
begin

text \<open>
  \<open>hold\<close> of \<open>internal/mtproto/audit.go\<close>: keeping a session alive for a while with periodic
  pings.  \<open>time.Sleep\<close> moves the clock: every later reading lies behind the pause.  The
  lemmas show that on a clock that does not run backwards the loop ends within the fuel of
  the model, and what its figures mean.
\<close>

definition time_sleep :: "int \<Rightarrow> ('z env_scheme, unit) io" where
  "time_sleep d = io_modify (\<lambda>w. let t = clk w + max d 0 in w\<lparr>clk := t, ticks := map (max t) (ticks w)\<rparr>)"

record stabilityStats =
  sb_Seconds :: rat
  sb_Pings :: nat
  sb_Lost :: nat
  sb_DriftMS :: rat
  sb_Survived :: bool

text \<open>The loop: the pings sent so far, and the first and the last round trip.  Fuel counts the
  turns; \<open>hold\<close> gives it one for every interval that fits, and two more.\<close>

fun hold_loop ::
  "nat \<Rightarrow> crypto \<Rightarrow> int \<Rightarrow> int \<Rightarrow> int \<Rightarrow> nat \<Rightarrow> int \<Rightarrow> int \<Rightarrow> (('c, 'z) session_world_scheme, nat \<times> nat \<times> int \<times> int) io" where
  "hold_loop 0 C interval perPing deadline pings first latest = io_fail (ErrPanic ''fuel'')"
| "hold_loop (Suc n) C interval perPing deadline pings first latest =
     io_bind time_now (\<lambda>now.
     if \<not> now < deadline then io_return (pings, 0, first, latest)
     else io_bind time_now (\<lambda>now2.
       let remaining = deadline - now2; sleep = (if remaining < interval then remaining else interval) in
       io_seq (time_sleep sleep)
       (io_seq (arm_ping perPing)
       (io_bind (io_try (ping C)) (\<lambda>r. case r of
          Inl err \<Rightarrow> io_return (Suc pings, 1, first, latest)
        | Inr rtt \<Rightarrow> hold_loop n C interval perPing deadline (Suc pings) (if first = 0 then rtt else first) rtt)))))"

definition hold_fuel :: "int \<Rightarrow> int \<Rightarrow> nat" where
  "hold_fuel duration interval = nat (duration div interval) + 3"

definition hold :: "crypto \<Rightarrow> int \<Rightarrow> int \<Rightarrow> int \<Rightarrow> (('c, 'z) session_world_scheme, stabilityStats) io" where
  "hold C duration interval0 perPing =
     (let interval = (if interval0 \<le> 0 then 5000000000 else interval0) in
      io_bind time_now (\<lambda>now.
      io_bind (hold_loop (hold_fuel duration interval) C interval perPing (now + duration) 0 0 0) (\<lambda>(pings, lost, first, latest).
      io_return \<lparr>sb_Seconds = round3 (of_int duration / 1000000000), sb_Pings = pings, sb_Lost = lost,
        sb_DriftMS = (if first > 0 \<and> latest > 0 then round1 (of_int (ms latest - ms first) / 1000) else 0),
        sb_Survived = (lost = 0)\<rparr>)))"

section \<open>A clock that does not run backwards\<close>

definition clock_from :: "int \<Rightarrow> 'z env_scheme \<Rightarrow> bool" where
  "clock_from t w \<longleftrightarrow> sorted (clk w # ticks w) \<and> t \<le> clk w"

named_theorems clock_intros "computations that keep the clock running forwards"

lemma clock_from_frame: "clk w' = clk w \<Longrightarrow> ticks w' = ticks w \<Longrightarrow> clock_from t w \<Longrightarrow> clock_from t w'"
  by (simp add: clock_from_def)

lemma clock_time_now: "time_now w = (r, w') \<Longrightarrow> clock_from t w \<Longrightarrow> clock_from t w' \<and> r = Inr (clk w')"
  by (cases "ticks w") (auto simp: time_now_def clock_from_def)

lemma clock_time_now_inv [clock_intros]: "io_inv (clock_from t) time_now"
  unfolding io_inv_def using clock_time_now by (metis prod.collapse)

lemma clock_basic [clock_intros]:
  "io_inv (clock_from t) (io_return x)" "io_inv (clock_from t) (io_fail e)" "io_inv (clock_from t) (io_lift y)"
  "io_inv (clock_from t) (io_gets f)"
  by (simp_all add: io_inv_def)

lemma clock_random [clock_intros]:
  "io_inv (clock_from t) (randomBytes n)" "io_inv (clock_from t) (rand_int n)"
  by (auto simp: io_inv_def randomBytes_def rand_int_def clock_from_def split: option.splits)

lemma clock_chan [clock_intros]:
  "io_inv (clock_from t) (on_carrier m)" "io_inv (clock_from t) (io_modify (\<lambda>w. w\<lparr>chan := h w\<rparr>))"
  "io_inv (clock_from t) (io_modify (\<lambda>w. w\<lparr>sess := g w\<rparr>))"
  by (simp_all add: io_inv_def on_carrier_def clock_from_def split: prod.splits)

lemma clock_map_err [clock_intros]: "io_inv P m \<Longrightarrow> io_inv P (io_map_err g m)"
  by (auto simp: io_inv_def io_map_err_def split_beta split: sum.splits)

lemma clock_try [clock_intros]: "io_inv P m \<Longrightarrow> io_inv P (io_try m)"
  by (auto simp: io_inv_def io_try_def split_beta)

lemma clock_if [clock_intros]: "io_inv P m \<Longrightarrow> io_inv P n \<Longrightarrow> io_inv P (if b then m else n)"
  by simp

declare io_inv_bind [clock_intros] io_inv_seq [clock_intros] io_inv_prod [clock_intros]

lemma clock_encode [clock_intros]: "io_inv (clock_from t) (encode tr p)"
  by (cases tr) (auto simp: encodePaddedIntermediate_def Let_def intro!: clock_intros)

lemma clock_stream [clock_intros]:
  "io_inv (clock_from t) stream_step" "io_inv (clock_from t) stamp_sent" "io_inv (clock_from t) (setDeadline d)"
  "io_inv (clock_from t) (arm_ping perPing)" "io_inv (clock_from t) messageID"
  unfolding stream_step_def stamp_sent_def setDeadline_def arm_ping_def messageID_def by (intro clock_intros)+

lemma clock_send [clock_intros]: "io_inv (clock_from t) (sendRaw p)" "io_inv (clock_from t) recvRaw"
  unfolding sendRaw_def recvRaw_def by (intro clock_intros)+

lemma clock_encrypt [clock_intros]: "io_inv (clock_from t) (encrypt C body)"
  unfolding encrypt_def Let_def by (intro clock_intros)

lemma clock_await [clock_intros]: "io_inv (clock_from t) (await_pong C pingID n)"
  by (induction n) (auto simp: recv_plain_def simp del: io_fail_app simp flip: io_fail_def intro!: clock_intros)

lemma clock_ping [clock_intros]: "io_inv (clock_from t) (ping C)"
  unfolding ping_def by (intro clock_intros)

section \<open>Holding a session ends\<close>

lemma clock_sleep: "clock_from t w \<Longrightarrow> time_sleep d w = (r, w') \<Longrightarrow> clock_from (clk w + max d 0) w' \<and> r = Inr ()"
proof -
  assume "clock_from t w" "time_sleep d w = (r, w')"
  moreover from this have "sorted (map (max (clk w + max d 0)) (ticks w))"
    by (auto simp: clock_from_def sorted_map intro: sorted_wrt_mono_rel [of "ticks w" "(\<le>)"])
  ultimately show ?thesis by (auto simp: time_sleep_def clock_from_def Let_def)
qed

lemma hold_loop_returns:
  assumes "0 < interval"
  shows "clock_from t w \<Longrightarrow> deadline \<le> t + int n * interval \<Longrightarrow>
     \<exists>k lost a b w'. hold_loop (Suc n) C interval perPing deadline pings first latest w = (Inr (k, lost, a, b), w') \<and>
       lost \<le> 1 \<and> pings + lost \<le> k \<and> k \<le> pings + n"
proof (induction n arbitrary: t w pings first latest)
  case (0 t w)
  obtain r w1 where n: "time_now w = (r, w1)" by fastforce
  from clock_time_now [OF n 0(1)] have "r = Inr (clk w1)" "t \<le> clk w1" by (simp_all add: clock_from_def)
  with 0 n show ?case by (simp add: io_bind_Inr)
next
  case (Suc n t w)
  obtain r w1 where n1: "time_now w = (r, w1)" by fastforce
  from clock_time_now [OF n1 Suc.prems(1)] have c1: "r = Inr (clk w1)" "clock_from t w1" by simp_all
  show ?case
  proof (cases "clk w1 < deadline")
    case False
    with n1 c1 show ?thesis by (simp add: io_bind_Inr)
  next
    case True
    obtain q w2 where n2: "time_now w1 = (q, w2)" by fastforce
    from clock_time_now [OF n2 c1(2)] have c2: "q = Inr (clk w2)" "clock_from t w2" by simp_all
    define sleep where "sleep = (if deadline - clk w2 < interval then deadline - clk w2 else interval)"
    obtain u w3 where s: "time_sleep sleep w2 = (u, w3)" by fastforce
    from clock_sleep [OF c2(2) s] have c3: "u = Inr ()" "clock_from (clk w2 + max sleep 0) w3" by simp_all
    define t' where "t' = clk w2 + max sleep 0"
    have "t \<le> clk w2" using c2(2) by (simp add: clock_from_def)
    then have d: "deadline \<le> t' + int n * interval"
    proof -
      have "0 \<le> int n * interval" "int (Suc n) * interval = int n * interval + interval" using assms by (simp_all add: algebra_simps)
      then show ?thesis using \<open>t \<le> clk w2\<close> Suc.prems(2) assms unfolding t'_def sleep_def by (simp only: max_def split: if_splits) linarith
    qed
    obtain v w4 where a: "arm_ping perPing w3 = (v, w4)" by fastforce
    have c4: "clock_from t' w4" using io_invD [OF clock_stream(4) c3(2) a] by (simp add: t'_def)
    have v: "v = Inr ()"
      using a time_now_total [of w3] by (auto simp: arm_ping_def setDeadline_def io_bind_def split: if_splits prod.splits sum.splits)
    obtain p w5 where p: "ping C w4 = (p, w5)" by fastforce
    have c5: "clock_from t' w5" by (rule io_invD [OF clock_ping c4 p])
    have l: "hold_loop (Suc (Suc n)) C interval perPing deadline pings first latest w =
        (case p of Inl err \<Rightarrow> (Inr (Suc pings, 1, first, latest), w5)
         | Inr rtt \<Rightarrow> hold_loop (Suc n) C interval perPing deadline (Suc pings) (if first = 0 then rtt else first) rtt w5)"
      using n1 c1(1) True n2 c2(1) s c3(1) a v p
      by (subst hold_loop.simps) (simp add: io_bind_Inr io_seq_def sleep_def [symmetric] io_try_def split: sum.splits)
    show ?thesis
    proof (cases p)
      case (Inl err)
      then show ?thesis unfolding l by simp
    next
      case (Inr rtt)
      from Suc.IH [OF c5 d, of "Suc pings" "if first = 0 then rtt else first" rtt] show ?thesis
        unfolding l Inr by fastforce
    qed
  qed
qed

lemma hold_returns:
  assumes "clock_from t w"
  shows "\<exists>st w'. hold C duration interval perPing w = (Inr st, w') \<and> sb_Lost st \<le> 1 \<and> sb_Lost st \<le> sb_Pings st \<and>
     (sb_Survived st \<longleftrightarrow> sb_Lost st = 0) \<and>
     int (sb_Pings st) \<le> max 0 (duration div (if interval \<le> 0 then 5000000000 else interval)) + 2"
proof -
  define i where "i = (if interval \<le> 0 then 5000000000 else interval)"
  have i: "0 < i" by (simp add: i_def)
  obtain r w1 where n: "time_now w = (r, w1)" by fastforce
  from clock_time_now [OF n assms] have c: "r = Inr (clk w1)" "clock_from (clk w1) w1" by (simp_all add: clock_from_def)
  have "duration div i * i + duration mod i = duration" by simp
  moreover have "duration mod i < i" using i by simp
  moreover have "duration div i * i \<le> int (nat (duration div i)) * i"
    by (rule mult_right_mono) (use i in simp_all)
  moreover have "int (nat (duration div i) + 2) * i = int (nat (duration div i)) * i + 2 * i" by (simp add: algebra_simps)
  ultimately have "clk w1 + duration \<le> clk w1 + int (nat (duration div i) + 2) * i" using i by linarith
  from hold_loop_returns [OF i c(2) this, of C perPing 0 0 0] obtain k lost a b w' where
    h: "hold_loop (hold_fuel duration i) C i perPing (clk w1 + duration) 0 0 0 w1 = (Inr (k, lost, a, b), w')"
      "lost \<le> 1" "lost \<le> k" "k \<le> nat (duration div i) + 2"
    by (auto simp: hold_fuel_def numeral_3_eq_3 numeral_2_eq_2)
  then show ?thesis using n c(1) unfolding hold_def i_def [symmetric] Let_def
    by (simp add: io_bind_Inr)
qed

end
