(* ===== verification/Url.thy ===== *)
theory Url
  imports Effects Text
begin

text \<open>
  The parts of Go's \<open>net/url\<close> and \<open>net\<close> that proxy links go through: \<open>url.Parse\<close>,
  \<open>Query\<close>, \<open>QueryEscape\<close>, \<open>Hostname\<close> and \<open>Port\<close> of a URL, \<open>net.SplitHostPort\<close> and
  \<open>net.JoinHostPort\<close>, as in the standard library of Go 1.24.  The main lemmas are that
  unescaping undoes escaping and that a query built from escaped pairs is read back.
\<close>

section \<open>Escaping\<close>

datatype esc_mode = EscPath | EscUserinfo | EscHost | EscZone | EscQuery | EscFragment

text \<open>\<open>shouldEscape(c, encodeHost)\<close>, the same for a zone.\<close>

definition host_escape :: "char \<Rightarrow> bool" where
  "host_escape ch \<longleftrightarrow> \<not> (is_alpha ch \<or> is_digit ch \<or> ch \<in> set ''!$&()*+,;=:[]<>-_.~'' \<or> (of_char ch :: nat) \<in> {34, 39})"

text \<open>\<open>unescape\<close>: percent escapes, restricted in hosts and zones, and \<open>+\<close> in queries.\<close>

definition esc_allowed :: "esc_mode \<Rightarrow> nat \<Rightarrow> bool" where
  "esc_allowed m v =
     (case m of
        EscHost \<Rightarrow> 128 \<le> v \<or> v = 37
      | EscZone \<Rightarrow> v = 37 \<or> v = 32 \<or> \<not> host_escape (char_of v)
      | _ \<Rightarrow> True)"

fun unescape :: "esc_mode \<Rightarrow> string \<Rightarrow> string option" where
  "unescape m [] = Some []"
| "unescape m (ch # rest) =
     (if ch = CHR ''%'' then
        (case rest of
           a # b # rest' \<Rightarrow>
             (case (unhex a, unhex b) of
                (Some x, Some y) \<Rightarrow>
                  if esc_allowed m (16 * x + y) then map_option ((#) (char_of (16 * x + y))) (unescape m rest') else None
              | _ \<Rightarrow> None)
         | _ \<Rightarrow> None)
      else if ch = CHR ''+'' \<and> m = EscQuery then map_option ((#) CHR '' '') (unescape m rest)
      else if m \<in> {EscHost, EscZone} \<and> (of_char ch :: nat) < 128 \<and> host_escape ch then None
      else map_option ((#) ch) (unescape m rest))"

definition query_plain :: "char \<Rightarrow> bool" where
  "query_plain ch \<longleftrightarrow> is_alpha ch \<or> is_digit ch \<or> ch \<in> set ''-_.~''"

definition upper_hex :: "nat \<Rightarrow> char" where
  "upper_hex n = (if n < 10 then char_of (48 + n) else char_of (55 + n))"

definition query_escape_char :: "char \<Rightarrow> string" where
  "query_escape_char ch =
     (if query_plain ch then [ch] else if ch = CHR '' '' then ''+''
      else let n = of_char ch :: nat in [CHR ''%'', upper_hex (n div 16), upper_hex (n mod 16)])"

definition query_escape :: "string \<Rightarrow> string" where
  "query_escape s = concat (map query_escape_char s)"

section \<open>URLs\<close>

record url =
  u_Scheme :: string
  u_Opaque :: string
  u_User :: "(string \<times> string option) option"
  u_Host :: string
  u_Path :: string
  u_RawQuery :: string

fun scheme_from :: "string \<Rightarrow> string \<Rightarrow> string \<Rightarrow> (string \<times> string) option" where
  "scheme_from raw acc [] = Some ([], raw)"
| "scheme_from raw acc (ch # rest) =
     (if is_alpha ch then scheme_from raw (acc @ [ch]) rest
      else if is_digit ch \<or> ch \<in> set ''+-.'' then (if acc = [] then Some ([], raw) else scheme_from raw (acc @ [ch]) rest)
      else if ch = CHR '':'' then (if acc = [] then None else Some (acc, rest))
      else Some ([], raw))"

definition getScheme :: "string \<Rightarrow> (string \<times> string) option" where
  "getScheme raw = scheme_from raw [] raw"

definition validOptionalPort :: "string \<Rightarrow> bool" where
  "validOptionalPort p = (case p of [] \<Rightarrow> True | ch # ds \<Rightarrow> ch = CHR '':'' \<and> list_all is_digit ds)"

definition validUserinfo :: "string \<Rightarrow> bool" where
  "validUserinfo s = list_all (\<lambda>ch. is_alpha ch \<or> is_digit ch \<or> ch \<in> set ''-._:~!$&()*+,;=%@'' \<or> (of_char ch :: nat) = 39) s"

definition parseHost :: "string \<Rightarrow> string option" where
  "parseHost host =
     (if has_prefix host ''['' then
        (case last_index CHR '']'' host of
           None \<Rightarrow> None
         | Some i \<Rightarrow>
             if \<not> validOptionalPort (drop (Suc i) host) then None
             else (case index_of ''%25'' (take i host) of
                 Some z \<Rightarrow>
                   (case (unescape EscHost (take z host), unescape EscZone (slice z i host), unescape EscHost (drop i host)) of
                      (Some a, Some b, Some c) \<Rightarrow> Some (a @ b @ c) | _ \<Rightarrow> None)
               | None \<Rightarrow> unescape EscHost host))
      else (case last_index CHR '':'' host of
          Some i \<Rightarrow> if validOptionalPort (drop i host) then unescape EscHost host else None
        | None \<Rightarrow> unescape EscHost host))"

definition parseUserinfo :: "string \<Rightarrow> (string \<times> string option) option" where
  "parseUserinfo info =
     (if \<not> validUserinfo info then None
      else if CHR '':'' \<notin> set info then map_option (\<lambda>u. (u, None)) (unescape EscUserinfo info)
      else case cut CHR '':'' info of (name, password) \<Rightarrow>
        (case (unescape EscUserinfo name, unescape EscUserinfo password) of
           (Some u, Some p) \<Rightarrow> Some (u, Some p) | _ \<Rightarrow> None))"

definition parseAuthority :: "string \<Rightarrow> ((string \<times> string option) option \<times> string) option" where
  "parseAuthority authority =
     (case last_index CHR ''@'' authority of
        None \<Rightarrow> map_option (Pair None) (parseHost authority)
      | Some i \<Rightarrow>
          (case (parseHost (drop (Suc i) authority), parseUserinfo (take i authority)) of
             (Some host, Some user) \<Rightarrow> Some (Some user, host) | _ \<Rightarrow> None))"

text \<open>\<open>parse\<close> after the fragment is cut off; a query of just \<open>?\<close> at the end is empty.\<close>

definition split_query :: "string \<Rightarrow> string \<times> string" where
  "split_query rest = cut CHR ''?'' rest"

definition parse_no_fragment :: "string \<Rightarrow> url option" where
  "parse_no_fragment raw =
     (if list_ex (\<lambda>ch. (of_char ch :: nat) < 32 \<or> (of_char ch :: nat) = 127) raw then None
      else if raw = ''*'' then Some \<lparr>u_Scheme = [], u_Opaque = [], u_User = None, u_Host = [], u_Path = raw, u_RawQuery = []\<rparr>
      else case getScheme raw of
        None \<Rightarrow> None
      | Some (scheme, rest0) \<Rightarrow>
          (case split_query rest0 of (rest, query) \<Rightarrow>
           let u = \<lparr>u_Scheme = to_lower scheme, u_Opaque = [], u_User = None, u_Host = [], u_Path = [], u_RawQuery = query\<rparr> in
           if \<not> has_prefix rest ''/'' \<and> scheme \<noteq> [] then Some (u\<lparr>u_Opaque := rest\<rparr>)
           else if \<not> has_prefix rest ''/'' \<and> CHR '':'' \<in> set (fst (cut CHR ''/'' rest)) then None
           else if (scheme \<noteq> [] \<or> \<not> has_prefix rest ''///'') \<and> has_prefix rest ''//'' then
             (let after = drop 2 rest; authority = takeWhile (\<lambda>ch. ch \<noteq> CHR ''/'') after in
              case (parseAuthority authority, unescape EscPath (drop (length authority) after)) of
                (Some (user, host), Some path) \<Rightarrow> Some (u\<lparr>u_User := user, u_Host := host, u_Path := path\<rparr>)
              | _ \<Rightarrow> None)
           else map_option (\<lambda>path. u\<lparr>u_Path := path\<rparr>) (unescape EscPath rest)))"

definition url_parse :: "string \<Rightarrow> url option" where
  "url_parse raw =
     (case cut CHR ''#'' raw of (s, frag) \<Rightarrow>
        (case (parse_no_fragment s, unescape EscFragment frag) of
           (Some u, Some _) \<Rightarrow> Some u | _ \<Rightarrow> None))"

text \<open>\<open>Hostname\<close> and \<open>Port\<close> of a URL's host.\<close>

definition split_host_port :: "string \<Rightarrow> string \<times> string" where
  "split_host_port hp =
     (let (host, port) = (case last_index CHR '':'' hp of
            Some i \<Rightarrow> if validOptionalPort (drop i hp) then (take i hp, drop (Suc i) hp) else (hp, [])
          | None \<Rightarrow> (hp, []))
      in (if has_prefix host ''['' \<and> host \<noteq> [] \<and> last host = CHR '']'' then slice 1 (length host - 1) host else host, port))"

definition u_Hostname :: "url \<Rightarrow> string" where "u_Hostname u = fst (split_host_port (u_Host u))"
definition u_Port :: "url \<Rightarrow> string" where "u_Port u = snd (split_host_port (u_Host u))"

text \<open>\<open>ParseQuery\<close> without its error: malformed pairs are left out.\<close>

definition query_pair :: "string \<Rightarrow> (string \<times> string) option" where
  "query_pair part =
     (if CHR '';'' \<in> set part \<or> part = [] then None
      else case cut CHR ''='' part of (key, v) \<Rightarrow>
        (case (unescape EscQuery key, unescape EscQuery v) of
           (Some k, Some v') \<Rightarrow> Some (k, v') | _ \<Rightarrow> None))"

definition parse_query :: "string \<Rightarrow> (string \<times> string) list" where
  "parse_query query = List.map_filter query_pair (split_on CHR ''&'' query)"

definition query_get :: "string \<Rightarrow> (string \<times> string) list \<Rightarrow> string" where
  "query_get key q = (case map_of q key of Some v \<Rightarrow> v | None \<Rightarrow> [])"

section \<open>Host and port\<close>

definition addr_error :: "string \<Rightarrow> string \<Rightarrow> goerr" where
  "addr_error hostport why = ErrNet False (if hostport = [] then why else ''address '' @ hostport @ '': '' @ why) None"

definition SplitHostPort :: "string \<Rightarrow> goerr + string \<times> string" where
  "SplitHostPort hp =
     (case last_index CHR '':'' hp of
        None \<Rightarrow> Inl (addr_error hp ''missing port in address'')
      | Some i \<Rightarrow>
          if hp ! 0 = CHR ''['' then
            (case first_index CHR '']'' hp of
               None \<Rightarrow> Inl (addr_error hp (''missing '' @ char_of (39 :: nat) # '']'' @ char_of (39 :: nat) # '' in address''))
             | Some e \<Rightarrow>
                 if Suc e = length hp then Inl (addr_error hp ''missing port in address'')
                 else if Suc e \<noteq> i then
                   Inl (addr_error hp (if hp ! Suc e = CHR '':'' then ''too many colons in address'' else ''missing port in address''))
                 else if CHR ''['' \<in> set (drop 1 hp) then Inl (addr_error hp (''unexpected '' @ char_of (39 :: nat) # ''['' @ char_of (39 :: nat) # '' in address''))
                 else if CHR '']'' \<in> set (drop (Suc e) hp) then Inl (addr_error hp (''unexpected '' @ char_of (39 :: nat) # '']'' @ char_of (39 :: nat) # '' in address''))
                 else Inr (slice 1 e hp, drop (Suc i) hp))
          else if CHR '':'' \<in> set (take i hp) then Inl (addr_error hp ''too many colons in address'')
          else if CHR ''['' \<in> set hp then Inl (addr_error hp (''unexpected '' @ char_of (39 :: nat) # ''['' @ char_of (39 :: nat) # '' in address''))
          else if CHR '']'' \<in> set hp then Inl (addr_error hp (''unexpected '' @ char_of (39 :: nat) # '']'' @ char_of (39 :: nat) # '' in address''))
          else Inr (take i hp, drop (Suc i) hp))"

definition JoinHostPort :: "string \<Rightarrow> string \<Rightarrow> string" where
  "JoinHostPort host port = (if CHR '':'' \<in> set host then ''['' @ host @ '']:'' @ port else host @ '':'' @ port)"

section \<open>IP addresses\<close>

text \<open>\<open>net.ParseIP\<close> gives 16 bytes, an IPv4 address mapped; \<open>To4\<close> recognises those.\<close>

definition octet :: "string \<Rightarrow> byte option" where
  "octet s = (if s \<noteq> [] \<and> list_all is_digit s \<and> (s ! 0 = CHR ''0'' \<longrightarrow> length s = 1) \<and> digits_nat s \<le> 255
     then Some (word_of_nat (digits_nat s)) else None)"

definition parse_ipv4 :: "string \<Rightarrow> bytes option" where
  "parse_ipv4 s = (case map octet (split_on CHR ''.'' s) of
      [Some a, Some b, Some c, Some d] \<Rightarrow> Some [a, b, c, d] | _ \<Rightarrow> None)"

text \<open>The groups of an IPv6 address from position \<open>length acc\<close> on; \<open>gap\<close> is the position of the
  ellipsis, and the fuel the number of groups that fit.\<close>

fun ipv6_groups :: "nat \<Rightarrow> nat option \<Rightarrow> bytes \<Rightarrow> string \<Rightarrow> (bytes \<times> nat option) option" where
  "ipv6_groups 0 gap acc s = (if s = [] then Some (acc, gap) else None)"
| "ipv6_groups (Suc n) gap acc s =
     (let ds = takeWhile (\<lambda>ch. unhex ch \<noteq> None) s; rest = drop (length ds) s;
          v = foldl (\<lambda>v ch. 16 * v + the (unhex ch)) 0 ds; acc' = acc @ [word_of_nat (v div 256), word_of_nat v] in
      if ds = [] \<or> length ds > 4 then None
      else case rest of
        [] \<Rightarrow> Some (acc', gap)
      | ch # later \<Rightarrow>
          if ch = CHR ''.'' then
            (if gap = None \<and> length acc \<noteq> 12 \<or> length acc > 12 then None
             else map_option (\<lambda>v4. (acc @ v4, gap)) (parse_ipv4 s))
          else if ch \<noteq> CHR '':'' \<or> later = [] then None
          else if hd later = CHR '':'' then
            (if gap \<noteq> None then None
             else if tl later = [] then Some (acc', Some (length acc'))
             else ipv6_groups n (Some (length acc')) acc' (tl later))
          else ipv6_groups n gap acc' later)"

definition parse_ipv6 :: "string \<Rightarrow> bytes option" where
  "parse_ipv6 s =
     (let lead = has_prefix s ''::''; body = (if lead then drop 2 s else s) in
      if lead \<and> body = [] then Some (replicate 16 0)
      else case ipv6_groups 8 (if lead then Some 0 else None) [] body of
        None \<Rightarrow> None
      | Some (ip, gap) \<Rightarrow> (case gap of
            None \<Rightarrow> if length ip = 16 then Some ip else None
          | Some g \<Rightarrow> if length ip < 16 then Some (take g ip @ replicate (16 - length ip) 0 @ drop g ip) else None))"

definition ParseIP :: "string \<Rightarrow> bytes option" where
  "ParseIP s =
     (case find (\<lambda>ch. ch \<in> set ''.:%'') s of
        Some ch \<Rightarrow> if ch = CHR ''.'' then map_option ((@) (replicate 10 0 @ [0xFF, 0xFF])) (parse_ipv4 s)
                   else if ch = CHR '':'' then parse_ipv6 s else None
      | None \<Rightarrow> None)"

definition ip_To4 :: "bytes \<Rightarrow> bytes option" where
  "ip_To4 ip = (if take 12 ip = replicate 10 0 @ [0xFF, 0xFF] then Some (drop 12 ip) else None)"

section \<open>Lemmas\<close>

subsection \<open>Cutting and splitting\<close>

lemma cut_append: "c \<notin> set a \<Longrightarrow> cut c (a @ c # b) = (a, b)"
  by (induction a) auto

lemma cut_absent: "c \<notin> set a \<Longrightarrow> cut c a = (a, [])"
  by (induction a) auto

lemma split_on_append: "c \<notin> set a \<Longrightarrow> split_on c (a @ c # b) = a # split_on c b"
  by (induction a) auto

lemma split_on_absent: "c \<notin> set a \<Longrightarrow> split_on c a = [a]"
  by (induction a) auto

lemma last_index_absent: "c \<notin> set a \<Longrightarrow> last_index c a = None"
  by (induction a) auto

lemma last_index_append: "c \<notin> set b \<Longrightarrow> last_index c (a @ c # b) = Some (length a)"
  by (induction a) (auto simp: last_index_absent)

subsection \<open>Escaping\<close>

definition esc_safe :: "char \<Rightarrow> bool" where
  "esc_safe ch \<longleftrightarrow> query_plain ch \<or> ch = CHR ''+'' \<or> ch = CHR ''%''"

lemma unhex_upper_hex: "n < 16 \<Longrightarrow> unhex (upper_hex n) = Some n"
  by (auto simp: unhex_def upper_hex_def Let_def)

lemma upper_hex_plain: "n < 16 \<Longrightarrow> query_plain (upper_hex n)"
  by (auto simp: query_plain_def is_alpha_def is_digit_def upper_hex_def Let_def)

lemma char_nibbles: "(of_char ch :: nat) div 16 < 16" "(of_char ch :: nat) mod 16 < 16"
  using of_char_lt_256 [of ch] by (simp_all add: less_mult_imp_div_less)

lemma query_plain_not: "query_plain ch \<Longrightarrow> ch \<noteq> CHR ''%'' \<and> ch \<noteq> CHR ''+''"
  by (auto simp: query_plain_def is_alpha_def is_digit_def)

lemma unescape_char: "unescape EscQuery (query_escape_char ch @ t) = map_option ((#) ch) (unescape EscQuery t)"
proof (cases "query_plain ch \<or> ch = CHR '' ''")
  case True
  then show ?thesis by (auto simp: query_escape_char_def dest: query_plain_not)
next
  case False
  then have "query_escape_char ch = [CHR ''%'', upper_hex (of_char ch div 16), upper_hex (of_char ch mod 16)]"
    by (simp add: query_escape_char_def Let_def)
  then show ?thesis by (simp add: unhex_upper_hex char_nibbles esc_allowed_def)
qed

lemma unescape_append: "unescape EscQuery (query_escape s @ t) = map_option ((@) s) (unescape EscQuery t)"
  by (induction s) (simp_all add: query_escape_def unescape_char option.map_comp o_def option.map_ident)

lemma unescape_query_escape [simp]: "unescape EscQuery (query_escape s) = Some s"
  using unescape_append [of s "[]"] by simp

lemma unescape_plain: "list_all query_plain s \<Longrightarrow> unescape EscQuery s = Some s"
  by (induction s) (auto dest: query_plain_not)

lemma query_escape_safe: "ch \<in> set (query_escape s) \<Longrightarrow> esc_safe ch"
  by (auto simp: query_escape_def query_escape_char_def esc_safe_def Let_def upper_hex_plain char_nibbles split: if_splits)

lemma query_escape_Nil [simp]: "query_escape s = [] \<longleftrightarrow> s = []"
  by (cases s) (auto simp: query_escape_def query_escape_char_def Let_def)

lemma esc_safe_not: "\<not> esc_safe CHR ''&''" "\<not> esc_safe CHR ''=''" "\<not> esc_safe CHR '';''" "\<not> esc_safe CHR ''?''"
  "\<not> esc_safe CHR ''#''" "\<not> esc_safe CHR ''/''" "\<not> esc_safe CHR '':''"
  by (simp_all add: esc_safe_def query_plain_def is_alpha_def is_digit_def Let_def)

lemma esc_safe_printable: "esc_safe ch \<Longrightarrow> \<not> is_space ch \<and> 32 < (of_char ch :: nat) \<and> (of_char ch :: nat) \<noteq> 127"
  by (auto simp: esc_safe_def query_plain_def is_alpha_def is_digit_def is_space_def Let_def)

subsection \<open>Queries\<close>

lemma query_pair_escaped:
  assumes "list_all query_plain key" and "key \<noteq> []"
  shows "query_pair (key @ ''='' @ query_escape v) = Some (key, v)"
proof -
  have k: "ch \<in> set key \<Longrightarrow> esc_safe ch" for ch using assms(1) by (auto simp: esc_safe_def list_all_iff)
  have "CHR '';'' \<notin> set (key @ ''='' @ query_escape v)" using k query_escape_safe esc_safe_not by auto
  moreover have "cut CHR ''='' (key @ CHR ''='' # query_escape v) = (key, query_escape v)"
    using k esc_safe_not by (intro cut_append) blast
  ultimately show ?thesis using assms by (simp add: query_pair_def unescape_plain)
qed

lemma parse_query_pair:
  assumes "list_all query_plain key" and "key \<noteq> []"
  shows "parse_query (key @ ''='' @ query_escape v) = [(key, v)]"
    and "parse_query (key @ ''='' @ query_escape v @ CHR ''&'' # q) = (key, v) # parse_query q"
proof -
  have k: "ch \<in> set key \<Longrightarrow> esc_safe ch" for ch using assms(1) by (auto simp: esc_safe_def list_all_iff)
  have n: "CHR ''&'' \<notin> set (key @ ''='' @ query_escape v)" using k query_escape_safe esc_safe_not by auto
  note s = split_on_append [OF n, of q] split_on_absent [OF n]
  show "parse_query (key @ ''='' @ query_escape v) = [(key, v)]"
    unfolding parse_query_def s(2) by (simp only: List.map_filter_simps query_pair_escaped [OF assms] option.case)
  show "parse_query (key @ ''='' @ query_escape v @ CHR ''&'' # q) = (key, v) # parse_query q"
    using s(1) unfolding parse_query_def append_assoc by (simp only: List.map_filter_simps query_pair_escaped [OF assms] option.case)
qed

end
