(* ===== verification/Relay.thy ===== *)
theory Relay
  imports Frame Hold Url
begin

text \<open>
  The dialling half of \<open>internal/webproxy/carrier.go\<close> and the HTTP client it runs on: the
  bridge capability, the bridge page with its token and carrier mode, and the creation of a
  relay session.  The server is the environment: the answers it will give, for each method
  and URL; the client keeps the requests with the answers they got.
\<close>

section \<open>The HTTP client\<close>

text \<open>A reply as \<open>http.Client.Do\<close> returns it: redirects are not followed, the body is what its
  reader yields before the end or an error.\<close>

record reply =
  rp_StatusCode :: int
  rp_Status :: string
  rp_Header :: "(string \<times> string) list"
  rp_Body :: "bytes \<times> goerr option"

record request =
  rq_Method :: string
  rq_URL :: string
  rq_Header :: "(string \<times> string) list"
  rq_Body :: "bytes option"

record client =
  cl_answers :: "string \<Rightarrow> string \<Rightarrow> (goerr + reply) list"
  cl_log :: "(request \<times> (goerr + reply)) list"
  cl_sockets :: "(goerr + goerr option \<times> conn) list"

definition header_get :: "reply \<Rightarrow> string \<Rightarrow> string" where
  "header_get rp key = (case map_of (rp_Header rp) key of Some v \<Rightarrow> v | None \<Rightarrow> [])"

definition client_do :: "request \<Rightarrow> (client, reply) io" where
  "client_do req = (\<lambda>c. case cl_answers c (rq_Method req) (rq_URL req) of
       [] \<Rightarrow> (Inl (ErrNet False ''EOF'' (Some ErrEOF)), c)
     | r # rs \<Rightarrow> (r, c\<lparr>cl_answers := (cl_answers c)(rq_Method req := (cl_answers c (rq_Method req))(rq_URL req := rs)),
                      cl_log := cl_log c @ [(req, r)]\<rparr>))"

text \<open>\<open>http.NewRequestWithContext\<close> fails on a URL that does not parse.\<close>

definition new_request :: "string \<Rightarrow> string \<Rightarrow> bytes option \<Rightarrow> goerr + request" where
  "new_request verb url body =
     (if url_parse url = None then Inl (ErrText (''parse '' @ quote url))
      else Inr \<lparr>rq_Method = verb, rq_URL = url, rq_Header = [], rq_Body = body\<rparr>)"

definition maxBodyBytes :: nat where "maxBodyBytes = 8388608"

text \<open>\<open>io.ReadAll(io.LimitReader(resp.Body, maxBodyBytes))\<close>.\<close>

definition read_body :: "reply \<Rightarrow> goerr + bytes" where
  "read_body rp = (case rp_Body rp of
       (out, Some e) \<Rightarrow> if length out < maxBodyBytes then Inl e else Inr (take maxBodyBytes out)
     | (out, None) \<Rightarrow> Inr (take maxBodyBytes out))"

section \<open>Unpadded and padded base64\<close>

definition b64_char :: "bool \<Rightarrow> nat \<Rightarrow> char" where
  "b64_char url n =
     (if n < 26 then char_of (n + 65) else if n < 52 then char_of (n + 71) else if n < 62 then char_of (n - 4)
      else if n = 62 then (if url then CHR ''-'' else CHR ''+'') else (if url then CHR ''_'' else CHR ''/''))"

fun b64_values :: "bytes \<Rightarrow> nat list" where
  "b64_values [] = []"
| "b64_values [a] = [unat a div 4, unat a mod 4 * 16]"
| "b64_values [a, b] = [unat a div 4, unat a mod 4 * 16 + unat b div 16, unat b mod 16 * 4]"
| "b64_values (a # b # c # rest) =
     unat a div 4 # (unat a mod 4 * 16 + unat b div 16) # (unat b mod 16 * 4 + unat c div 64) # unat c mod 64 # b64_values rest"

definition b64_raw_encode :: "bool \<Rightarrow> bytes \<Rightarrow> string" where
  "b64_raw_encode url bs = map (b64_char url) (b64_values bs)"

definition b64_encode :: "bool \<Rightarrow> bytes \<Rightarrow> string" where
  "b64_encode url bs = b64_raw_encode url bs @ replicate ((3 - length bs mod 3) mod 3) (CHR ''='')"

section \<open>The relay session\<close>

definition bridgeLabel :: string where "bridgeLabel = ''tdesktop-web-proxy-bridge-v1'' @ [CHR 0x0A]"
definition streamID :: u32 where "streamID = 1"

definition userAgent :: string where
  "userAgent = ''Mozilla/5.0 (X11; Linux x86_64) AppleWebKit/537.36 (KHTML, like Gecko) Chrome/126.0.0.0 Safari/537.36''"

definition Capability :: "crypto \<Rightarrow> string \<Rightarrow> bytes \<Rightarrow> string" where
  "Capability C host secret = b64_raw_encode True (hmacSHA256 C secret (str_bytes (bridgeLabel @ to_lower host)))"

definition failure :: "web_stage \<Rightarrow> goerr \<Rightarrow> goerr" where
  "failure st e = ErrCarrier st e"

text \<open>\<open>bootstrapPattern\<close> and \<open>carrierPattern\<close>: the leftmost match of an attribute.\<close>

definition token_char :: "char \<Rightarrow> bool" where
  "token_char ch \<longleftrightarrow> is_alpha ch \<or> is_digit ch \<or> ch = CHR ''_'' \<or> ch = CHR ''-''"

definition mode_char :: "char \<Rightarrow> bool" where
  "mode_char ch \<longleftrightarrow> 97 \<le> (of_char ch :: nat) \<and> (of_char ch :: nat) \<le> 122 \<or> ch = CHR ''-''"

definition bootstrap_here :: "string \<Rightarrow> string option" where
  "bootstrap_here s =
     (let t = drop 11 s; token = take 43 t in
      if has_prefix s (''bootstrap='' @ [CHR 0x22]) \<and> length token = 43 \<and> list_all token_char token \<and> take 1 (drop 43 t) = [CHR 0x22]
      then Some token else None)"

definition carrier_here :: "string \<Rightarrow> string option" where
  "carrier_here s =
     (let t = drop 13 s; m = takeWhile mode_char t in
      if has_prefix s (''carrierMode='' @ [CHR 0x22]) \<and> m \<noteq> [] \<and> take 1 (dropWhile mode_char t) = [CHR 0x22]
      then Some m else None)"

fun find_match :: "(string \<Rightarrow> string option) \<Rightarrow> string \<Rightarrow> string option" where
  "find_match f [] = f []"
| "find_match f (x # xs) = (case f (x # xs) of Some m \<Rightarrow> Some m | None \<Rightarrow> find_match f xs)"

record relay =
  rl_client :: client
  rl_origin :: string
  rl_host :: string
  rl_session :: string
  rl_mode :: string
  rl_timeout :: int

definition on_client :: "(client, 'a) io \<Rightarrow> ('r relay_scheme, 'a) io" where
  "on_client m = (\<lambda>c. case m (rl_client c) of (r, cl) \<Rightarrow> (r, c\<lparr>rl_client := cl\<rparr>))"

definition newAPIRequest :: "'r relay_scheme \<Rightarrow> string \<Rightarrow> string \<Rightarrow> string \<Rightarrow> bytes option \<Rightarrow> goerr + request" where
  "newAPIRequest c verb path bearer body =
     res_bind (new_request verb (rl_origin c @ path) body) (\<lambda>req.
     Inr (req\<lparr>rq_Header := [(''Authorization'', ''Bearer '' @ bearer), (''Origin'', rl_origin c), (''User-Agent'', userAgent)]
       @ (case body of None \<Rightarrow> [] | Some b \<Rightarrow> [(''Content-Type'', ''application/octet-stream'')])\<rparr>))"

definition fetchBridge :: "string \<Rightarrow> ('r relay_scheme, string \<times> string) io" where
  "fetchBridge capability =
     io_bind (io_gets rl_origin) (\<lambda>origin.
     io_bind (io_map_err (\<lambda>e. failure WebBridge (ErrWrap [] e)) (io_lift (new_request ''GET'' (origin @ ''/?bridge='' @ capability) None))) (\<lambda>req.
     io_bind (io_map_err (\<lambda>e. failure WebBridge (ErrWrap [] e)) (on_client (client_do (req\<lparr>rq_Header := [(''User-Agent'', userAgent)]\<rparr>)))) (\<lambda>resp.
     io_bind (io_map_err (\<lambda>e. failure WebBridge (ErrWrap ''reading the bridge page: '' e)) (io_lift (read_body resp))) (\<lambda>body.
     if rp_StatusCode resp \<noteq> 200 then io_fail (failure WebBridge (ErrText (''bridge answered '' @ rp_Status resp)))
     else case find_match bootstrap_here (bytes_str body) of
       None \<Rightarrow> io_fail (failure WebBridge (ErrText ''no bootstrap token in the page: the secret does not match this host''))
     | Some token \<Rightarrow> io_return (token, case find_match carrier_here (bytes_str body) of Some m \<Rightarrow> m | None \<Rightarrow> ''https'')))))"

definition describeFrames :: "frame list \<Rightarrow> string" where
  "describeFrames frames = (if frames = [] then ''nothing'' else join '', '' (map (frameName \<circ> fr_kind) frames))"

definition createSession :: "string \<Rightarrow> ('r relay_scheme, unit) io" where
  "createSession bootstrap =
     io_bind (io_gets (\<lambda>c. newAPIRequest c ''POST'' ''/api/v1/session'' bootstrap (Some (encodeFrame frameHello 0 [1])))) (\<lambda>built.
     io_bind (io_map_err (\<lambda>e. failure WebSession (ErrWrap [] e)) (io_lift built)) (\<lambda>req.
     io_bind (io_map_err (\<lambda>e. failure WebSession (ErrWrap [] e)) (on_client (client_do req))) (\<lambda>resp.
     io_bind (io_map_err (\<lambda>e. failure WebSession (ErrWrap ''reading the session answer: '' e)) (io_lift (read_body resp))) (\<lambda>body.
     if rp_StatusCode resp \<noteq> 200 then io_fail (failure WebSession (ErrText (''session creation answered '' @ rp_Status resp)))
     else let session = header_get resp ''X-Session-Token'' in
     if session = [] then io_fail (failure WebSession (ErrText ''no X-Session-Token in the answer''))
     else io_seq (io_modify (\<lambda>c. c\<lparr>rl_session := session,
            rl_mode := (if header_get resp ''X-Carrier-Mode'' \<noteq> [] then header_get resp ''X-Carrier-Mode'' else rl_mode c)\<rparr>))
     (io_bind (io_map_err (\<lambda>e. failure WebSession (ErrWrap ''malformed session answer: '' e)) (io_lift (decodeFrames body))) (\<lambda>frames.
      if length frames \<noteq> 1 \<or> fr_kind (frames ! 0) \<noteq> frameWelcome
      then io_fail (failure WebSession (ErrText (''expected WELCOME, got '' @ describeFrames frames)))
      else io_return ()))))))"

text \<open>\<open>deleteSession\<close>: the answer does not matter.\<close>

definition deleteSession :: "('r relay_scheme, unit) io" where
  "deleteSession =
     io_bind (io_gets rl_session) (\<lambda>session.
     if session = [] then io_return ()
     else io_bind (io_gets (\<lambda>c. newAPIRequest c ''DELETE'' ''/api/v1/session'' session None)) (\<lambda>built. case built of
        Inl e \<Rightarrow> io_return ()
      | Inr req \<Rightarrow> io_bind (io_try (on_client (client_do req))) (\<lambda>_. io_return ())))"

end
