(* ===== verification/Carrier.thy ===== *)
theory Carrier
  imports Relay
begin

text \<open>
  The \<open>Carrier\<close> of \<open>internal/webproxy/carrier.go\<close>: a byte stream on top of a relay session,
  carried by frames that a transport sends and collects in batches.  A transport is the
  record \<open>ops\<close> of its operations; the carrier's \<open>t\<close> is its state.  \<open>ct_left\<close> bounds
  the batches the environment still answers, which is what ends the polling loop of \<open>Read\<close>.
\<close>

definition windowGrantMin :: nat where "windowGrantMin = 262144"
definition chunkSize :: nat where "chunkSize = 65536"

record 't carrier = relay +
  cr_lanes :: bool
  cr_deadline :: "int option"
  cr_opened :: bool
  cr_closed :: bool
  cr_readBuf :: bytes
  cr_eof :: bool
  cr_windowDebt :: u32
  cr_transport :: 't

type_synonym 't cworld = "'t carrier world"

record 't ops =
  ct_send :: "int \<Rightarrow> bytes \<Rightarrow> ('t cworld, unit) io"
  ct_receive :: "int \<Rightarrow> ('t cworld, bytes) io"
  ct_close :: "('t cworld, unit) io"
  ct_left :: "'t carrier \<Rightarrow> nat"

definition get_c :: "('t carrier \<Rightarrow> 'a) \<Rightarrow> ('t cworld, 'a) io" where
  "get_c f = io_gets (\<lambda>w. f (chan w))"

definition upd_c :: "('t carrier \<Rightarrow> 't carrier) \<Rightarrow> ('t cworld, unit) io" where
  "upd_c f = on_chan (io_modify f)"

text \<open>\<open>requestContext\<close>: its deadline.\<close>

definition requestContext :: "('t cworld, int) io" where
  "requestContext =
     io_bind time_now (\<lambda>now.
     get_c (\<lambda>c. let deadline = now + rl_timeout c in
       case cr_deadline c of Some d \<Rightarrow> if d < deadline then d else deadline | None \<Rightarrow> deadline))"

definition net_closed :: goerr where
  "net_closed = ErrText ''use of closed network connection''"

section \<open>Writing\<close>

definition takeWindowGrant :: "u32 \<Rightarrow> ('t cworld, bytes) io" where
  "takeWindowGrant minimum =
     io_bind (get_c cr_windowDebt) (\<lambda>debt.
     if debt \<le> minimum then io_return []
     else let delta = [ucast (drop_bit 24 debt), ucast (drop_bit 16 debt), ucast (drop_bit 8 debt), ucast debt] in
       io_seq (upd_c (\<lambda>c. c\<lparr>cr_windowDebt := 0\<rparr>)) (io_return (encodeFrame frameWindow streamID delta)))"

text \<open>The DATA frames of a write, at most \<open>chunkSize\<close> bytes each.\<close>

function data_frames :: "bytes \<Rightarrow> bytes" where
  "data_frames p = (if p = [] then [] else encodeFrame frameData streamID (take chunkSize p) @ data_frames (drop chunkSize p))"
  by pat_completeness auto
termination by (relation "measure length") (auto simp: chunkSize_def)

declare data_frames.simps [simp del]

definition carrier_Write :: "'t ops \<Rightarrow> bytes \<Rightarrow> ('t cworld, unit) io" where
  "carrier_Write T p =
     io_bind (get_c cr_closed) (\<lambda>closed.
     if closed then io_fail net_closed
     else io_bind (get_c cr_opened) (\<lambda>opened.
       io_seq (upd_c (\<lambda>c. c\<lparr>cr_opened := True\<rparr>))
       (io_bind (takeWindowGrant 0) (\<lambda>grant.
        io_bind requestContext (\<lambda>deadline.
        ct_send T deadline ((if opened then [] else encodeFrame frameOpen streamID []) @ grant @ data_frames p))))))"

text \<open>\<open>sendControl\<close>: the result of the send is dropped.\<close>

definition sendControl :: "'t ops \<Rightarrow> bytes \<Rightarrow> ('t cworld, unit) io" where
  "sendControl T batch =
     io_bind (get_c cr_closed) (\<lambda>closed.
     if batch = [] \<or> closed then io_return ()
     else io_bind requestContext (\<lambda>deadline.
       io_bind (io_try (ct_send T deadline batch)) (\<lambda>_. io_return ())))"

definition grantWindow :: "'t ops \<Rightarrow> ('t cworld, unit) io" where
  "grantWindow T = io_bind (takeWindowGrant 0) (\<lambda>grant. if grant = [] then io_return () else sendControl T grant)"

section \<open>Reading\<close>

definition trimReason :: "bytes \<Rightarrow> string" where
  "trimReason payload =
     (let reason = trim_space (bytes_str payload) in
      if reason = [] then ''no reason given'' else quote (if length reason > 120 then take 120 reason else reason))"

fun handle_frames :: "'t ops \<Rightarrow> frame list \<Rightarrow> ('t cworld, unit) io" where
  "handle_frames T [] = io_return ()"
| "handle_frames T (f # frames) =
     (if fr_kind f = frameData then
        io_seq (upd_c (\<lambda>c. if fr_stream f = streamID then c\<lparr>cr_readBuf := cr_readBuf c @ fr_payload f\<rparr> else c)) (handle_frames T frames)
      else if fr_kind f = frameClose then
        io_seq (upd_c (\<lambda>c. if fr_stream f = streamID then c\<lparr>cr_eof := True\<rparr> else c)) (handle_frames T frames)
      else if fr_kind f = framePing then
        io_seq (sendControl T (encodeFrame framePong 0 (fr_payload f))) (handle_frames T frames)
      else if fr_kind f = frameBye then
        io_seq (upd_c (\<lambda>c. c\<lparr>cr_eof := True\<rparr>))
          (io_fail (ErrText (''relay closed the session: '' @ trimReason (fr_payload f))))
      else handle_frames T frames)"

definition pump :: "'t ops \<Rightarrow> ('t cworld, unit) io" where
  "pump T =
     io_bind requestContext (\<lambda>deadline.
     io_bind (ct_receive T deadline) (\<lambda>body.
     if body = [] then io_return ()
     else io_bind (io_lift (decodeFrames body)) (handle_frames T)))"

text \<open>\<open>Read\<close> polls until something arrives: one turn per batch.\<close>

fun fill_loop :: "nat \<Rightarrow> 't ops \<Rightarrow> ('t cworld, unit) io" where
  "fill_loop fuel T =
     io_bind (get_c cr_readBuf) (\<lambda>buf.
     if buf \<noteq> [] then io_return ()
     else io_bind (get_c cr_eof) (\<lambda>eof.
     if eof then io_fail ErrEOF
     else io_bind (get_c cr_closed) (\<lambda>closed.
     if closed then io_fail net_closed
     else case fuel of 0 \<Rightarrow> io_fail (ErrPanic ''fuel'')
       | Suc fuel \<Rightarrow> io_seq (pump T) (fill_loop fuel T))))"

declare fill_loop.simps [simp del]

definition carrier_Read :: "'t ops \<Rightarrow> nat \<Rightarrow> ('t cworld, bytes) io" where
  "carrier_Read T n =
     io_bind (get_c (ct_left T)) (\<lambda>fuel.
     io_seq (fill_loop (Suc fuel) T)
     (io_bind (get_c cr_readBuf) (\<lambda>buf.
      io_seq (upd_c (\<lambda>c. c\<lparr>cr_readBuf := drop n buf, cr_windowDebt := cr_windowDebt c + word_of_nat (min n (length buf))\<rparr>))
      (io_bind (get_c cr_windowDebt) (\<lambda>debt.
       io_seq (if unat debt \<ge> windowGrantMin then grantWindow T else io_return ()) (io_return (take n buf)))))))"

text \<open>\<open>io.ReadFull\<close> on a carrier: reads until \<open>n\<close> bytes are there.  Every read that returns
  gives at least one byte, so \<open>n\<close> turns are enough.\<close>

fun read_full_loop :: "nat \<Rightarrow> 't ops \<Rightarrow> bytes \<Rightarrow> nat \<Rightarrow> ('t cworld, bytes) io" where
  "read_full_loop fuel T got n =
     (if length got \<ge> n then io_return got
      else case fuel of 0 \<Rightarrow> io_fail (ErrPanic ''fuel'')
        | Suc fuel \<Rightarrow> io_bind (io_try (carrier_Read T (n - length got))) (\<lambda>r. case r of
            Inl e \<Rightarrow> io_fail (if e = ErrEOF \<and> got \<noteq> [] then ErrUnexpectedEOF else e)
          | Inr p \<Rightarrow> read_full_loop fuel T (got @ p) n))"

declare read_full_loop.simps [simp del]

definition carrier_ReadFull :: "'t ops \<Rightarrow> nat \<Rightarrow> ('t cworld, bytes) io" where
  "carrier_ReadFull T n = read_full_loop n T [] n"

section \<open>Closing\<close>

definition carrier_Close :: "'t ops \<Rightarrow> ('t cworld, unit) io" where
  "carrier_Close T =
     io_bind (get_c cr_closed) (\<lambda>closed.
     if closed then io_return ()
     else io_bind (get_c cr_opened) (\<lambda>opened.
       io_seq (if opened then sendControl T (encodeFrame frameClose streamID []) else io_return ())
       (io_seq (upd_c (\<lambda>c. c\<lparr>cr_closed := True\<rparr>))
       (io_seq (ct_close T) (on_chan deleteSession)))))"

definition carrier_SetDeadline :: "int \<Rightarrow> 't carrier \<Rightarrow> 't carrier" where
  "carrier_SetDeadline t c = c\<lparr>cr_deadline := Some t\<rparr>"

text \<open>The link that the MTProto code runs over.\<close>

definition carrier_link :: "'t ops \<Rightarrow> 't cworld link" where
  "carrier_link T = \<lparr>lk_read = carrier_ReadFull T, lk_write = carrier_Write T,
     lk_deadline = Some (\<lambda>t w. w\<lparr>chan := carrier_SetDeadline t (chan w)\<rparr>)\<rparr>"

section \<open>The stream behind the frames\<close>

text \<open>What the frames of a batch carry for the stream, and the bytes a sequence of batches will
  deliver: up to a batch that does not decode or says BYE, or behind which the stream ends.
  The flag of a batch tells that its transport reported the lane as closed.\<close>

definition data_of :: "frame list \<Rightarrow> bytes" where
  "data_of frames = concat (map fr_payload (filter (\<lambda>f. fr_kind f = frameData \<and> fr_stream f = streamID) frames))"

definition says_bye :: "frame list \<Rightarrow> bool" where
  "says_bye frames \<longleftrightarrow> list_ex (\<lambda>f. fr_kind f = frameBye) frames"

definition ends_stream :: "frame list \<Rightarrow> bool" where
  "ends_stream frames \<longleftrightarrow> list_ex (\<lambda>f. fr_kind f = frameClose \<and> fr_stream f = streamID) frames"

fun arrivals :: "(bytes \<times> bool) list \<Rightarrow> bytes" where
  "arrivals [] = []"
| "arrivals ((body, lane) # rest) = (case decodeFrames body of
      Inl e \<Rightarrow> []
    | Inr frames \<Rightarrow> if says_bye frames then []
        else data_of frames @ (if lane \<or> ends_stream frames then [] else arrivals rest))"

definition batch_data :: "bytes \<Rightarrow> bytes" where
  "batch_data body = (case decodeFrames body of Inl e \<Rightarrow> [] | Inr frames \<Rightarrow> data_of frames)"

definition stream_part :: "'t carrier \<Rightarrow> bool \<times> bool \<times> bytes \<times> bool \<times> u32" where
  "stream_part c = (cr_opened c, cr_closed c, cr_readBuf c, cr_eof c, cr_windowDebt c)"

lemma data_of_simps [simp]:
  "data_of [] = []"
  "data_of (f # frames) = (if fr_kind f = frameData \<and> fr_stream f = streamID then fr_payload f else []) @ data_of frames"
  "data_of (fs @ gs) = data_of fs @ data_of gs"
  by (simp_all add: data_of_def)

lemma says_bye_simps [simp]: "\<not> says_bye []" "says_bye (f # frames) \<longleftrightarrow> fr_kind f = frameBye \<or> says_bye frames"
  by (simp_all add: says_bye_def)

lemma ends_stream_simps [simp]:
  "\<not> ends_stream []" "ends_stream (f # frames) \<longleftrightarrow> fr_kind f = frameClose \<and> fr_stream f = streamID \<or> ends_stream frames"
  by (simp_all add: ends_stream_def)

lemma frame_kinds_distinct [simp]:
  "frameData \<noteq> frameClose" "frameData \<noteq> framePing" "frameData \<noteq> frameBye" "frameClose \<noteq> framePing" "frameClose \<noteq> frameBye"
  "framePing \<noteq> frameBye" "framePong \<noteq> frameData" "frameOpen \<noteq> frameData" "frameWindow \<noteq> frameData" "frameClose \<noteq> frameData"
  "framePing \<noteq> frameData" "frameBye \<noteq> frameData" "framePing \<noteq> frameClose" "frameBye \<noteq> frameClose" "frameBye \<noteq> framePing"
  by (simp_all add: frameData_def frameClose_def framePing_def frameBye_def framePong_def frameOpen_def frameWindow_def)

text \<open>Batches built from encoded frames.\<close>

lemma batch_data_frames: "list_all frame_ok frames \<Longrightarrow> batch_data (concat (map frame_bytes frames)) = data_of frames"
  by (simp add: batch_data_def decode_encoded)

lemma batch_data_append:
  assumes "list_all frame_ok frames"
  shows "batch_data (concat (map frame_bytes frames) @ rest) =
     (case decodeFrames rest of Inl e \<Rightarrow> [] | Inr later \<Rightarrow> data_of frames @ data_of later)"
proof -
  have "decodeFrames (concat (map frame_bytes frames) @ rest) = res_bind (decodeFrames rest) (\<lambda>later. Inr (frames @ later))"
    using assms
  proof (induction frames)
    case Nil
    then show ?case by (cases "decodeFrames rest") simp_all
  next
    case (Cons f frames)
    then show ?case by (cases "decodeFrames rest") (simp_all add: decode_frame)
  qed
  then show ?thesis by (cases "decodeFrames rest") (simp_all add: batch_data_def)
qed

definition one_frame :: "byte \<Rightarrow> bytes \<Rightarrow> frame" where
  "one_frame kd p = \<lparr>fr_kind = kd, fr_stream = streamID, fr_payload = p\<rparr>"

lemma one_frame_ok: "length p \<le> maxPayload \<Longrightarrow> frame_ok (one_frame kd p)"
  by (simp add: frame_ok_def one_frame_def streamID_def)

lemma frame_bytes_one: "frame_bytes (one_frame kd p) = encodeFrame kd streamID p"
  by (simp add: one_frame_def frame_bytes_def)

text \<open>The DATA frames of a write carry exactly what was written, in chunks within the limit.\<close>

fun chunks :: "nat \<Rightarrow> bytes \<Rightarrow> frame list" where
  "chunks 0 p = []"
| "chunks (Suc n) p = (if p = [] then [] else one_frame frameData (take chunkSize p) # chunks n (drop chunkSize p))"

lemma data_frames_chunks: "length p \<le> n \<Longrightarrow> data_frames p = concat (map frame_bytes (chunks n p))"
proof (induction n arbitrary: p)
  case 0
  then show ?case by (simp add: data_frames.simps)
next
  case (Suc n)
  have "length (drop chunkSize p) \<le> n" if "p \<noteq> []" using Suc.prems that by (cases p) (auto simp: chunkSize_def)
  with Suc.IH [of "drop chunkSize p"] show ?case by (subst data_frames.simps) (simp add: frame_bytes_one)
qed

lemma chunks_ok: "list_all frame_ok (chunks n p)"
  by (induction n arbitrary: p) (simp_all add: one_frame_ok chunkSize_def maxPayload_def)

lemma chunks_data: "length p \<le> n \<Longrightarrow> data_of (chunks n p) = p"
proof (induction n arbitrary: p)
  case (Suc n)
  have "length (drop chunkSize p) \<le> n" if "p \<noteq> []" using Suc.prems that by (cases p) (auto simp: chunkSize_def)
  with Suc.IH [of "drop chunkSize p"] show ?case by (auto simp: one_frame_def)
qed simp

section \<open>The contract of a transport\<close>

text \<open>The stream a carrier stands for: the bytes still to be read, and those the relay has.\<close>

definition relay_pending :: "('t carrier \<Rightarrow> (bytes \<times> bool) list) \<Rightarrow> 't cworld \<Rightarrow> bytes" where
  "relay_pending inbox w = cr_readBuf (chan w) @ (if cr_eof (chan w) then [] else arrivals (inbox (chan w)))"

definition relay_sent :: "('t carrier \<Rightarrow> bytes list) \<Rightarrow> 't cworld \<Rightarrow> bytes" where
  "relay_sent uploads w = concat (map batch_data (uploads (chan w)))"

text \<open>\<open>inbox\<close> is what the transport will still deliver as long as its calls succeed, \<open>uploads\<close>
  the batches the relay has taken.\<close>

locale batch_transport =
  fixes T :: "'t ops" and inbox :: "'t carrier \<Rightarrow> (bytes \<times> bool) list" and uploads :: "'t carrier \<Rightarrow> bytes list"
  assumes receive_next: "ct_receive T d w = (Inr body, w') \<Longrightarrow>
      \<exists>lane. inbox (chan w) = (body, lane) # inbox (chan w') \<and> uploads (chan w') = uploads (chan w) \<and>
        stream_part (chan w') = stream_part ((chan w)\<lparr>cr_eof := cr_eof (chan w) \<or> lane\<rparr>)"
    and send_frame: "ct_send T d p w = (r, w') \<Longrightarrow> inbox (chan w') = inbox (chan w) \<and> stream_part (chan w') = stream_part (chan w)"
    and send_ok: "ct_send T d p w = (Inr (), w') \<Longrightarrow> uploads (chan w') = uploads (chan w) @ (if p = [] then [] else [p])"
    and send_failed: "ct_send T d p w = (Inl e, w') \<Longrightarrow> uploads (chan w') = uploads (chan w)"
    and left_receive: "ct_receive T d w = (Inr body, w') \<Longrightarrow> ct_left T (chan w') < ct_left T (chan w)"
    and left_send: "ct_send T d p w = (r, w') \<Longrightarrow> ct_left T (chan w') = ct_left T (chan w)"
    and stream_part_free:
      "inbox (c\<lparr>cr_opened := oa, cr_closed := ca, cr_readBuf := ra, cr_eof := ea, cr_windowDebt := da\<rparr>) = inbox c"
      "uploads (c\<lparr>cr_opened := oa, cr_closed := ca, cr_readBuf := ra, cr_eof := ea, cr_windowDebt := da\<rparr>) = uploads c"
      "ct_left T (c\<lparr>cr_opened := oa, cr_closed := ca, cr_readBuf := ra, cr_eof := ea, cr_windowDebt := da\<rparr>) = ct_left T c"
begin

definition carrier_pend :: "'t cworld \<Rightarrow> bytes" where
  "carrier_pend w = cr_readBuf (chan w) @ (if cr_eof (chan w) then [] else arrivals (inbox (chan w)))"

definition carrier_sent :: "'t cworld \<Rightarrow> bytes" where
  "carrier_sent w = concat (map batch_data (uploads (chan w)))"

lemma free_one [simp]:
  "inbox (c\<lparr>cr_opened := oa\<rparr>) = inbox c" "inbox (c\<lparr>cr_closed := ca\<rparr>) = inbox c" "inbox (c\<lparr>cr_readBuf := ra\<rparr>) = inbox c"
  "inbox (c\<lparr>cr_eof := ea\<rparr>) = inbox c" "inbox (c\<lparr>cr_windowDebt := da\<rparr>) = inbox c"
  "uploads (c\<lparr>cr_opened := oa\<rparr>) = uploads c" "uploads (c\<lparr>cr_closed := ca\<rparr>) = uploads c" "uploads (c\<lparr>cr_readBuf := ra\<rparr>) = uploads c"
  "uploads (c\<lparr>cr_eof := ea\<rparr>) = uploads c" "uploads (c\<lparr>cr_windowDebt := da\<rparr>) = uploads c"
  "ct_left T (c\<lparr>cr_opened := oa\<rparr>) = ct_left T c" "ct_left T (c\<lparr>cr_closed := ca\<rparr>) = ct_left T c" "ct_left T (c\<lparr>cr_readBuf := ra\<rparr>) = ct_left T c"
  "ct_left T (c\<lparr>cr_eof := ea\<rparr>) = ct_left T c" "ct_left T (c\<lparr>cr_windowDebt := da\<rparr>) = ct_left T c"
  using stream_part_free [where c = c and oa = oa and ca = "cr_closed c" and ra = "cr_readBuf c" and ea = "cr_eof c" and da = "cr_windowDebt c"]
    stream_part_free [where c = c and oa = "cr_opened c" and ca = ca and ra = "cr_readBuf c" and ea = "cr_eof c" and da = "cr_windowDebt c"]
    stream_part_free [where c = c and oa = "cr_opened c" and ca = "cr_closed c" and ra = ra and ea = "cr_eof c" and da = "cr_windowDebt c"]
    stream_part_free [where c = c and oa = "cr_opened c" and ca = "cr_closed c" and ra = "cr_readBuf c" and ea = ea and da = "cr_windowDebt c"]
    stream_part_free [where c = c and oa = "cr_opened c" and ca = "cr_closed c" and ra = "cr_readBuf c" and ea = "cr_eof c" and da = da]
  by simp_all

end

lemma get_c_app [simp]: "get_c f w = (Inr (f (chan w)), w)"
  by (simp add: get_c_def)

lemma upd_c_app [simp]: "upd_c f w = (Inr (), w\<lparr>chan := f (chan w)\<rparr>)"
  by (simp add: upd_c_def on_chan_def)

lemma io_bind_get_c [simp]: "io_bind (get_c f) k w = k (f (chan w)) w"
  by (simp add: io_bind_Inr)

lemma io_seq_upd_c [simp]: "io_seq (upd_c f) k w = k (w\<lparr>chan := f (chan w)\<rparr>)"
  by (simp add: io_seq_def io_bind_Inr)

lemma requestContext_ok: "\<exists>d w'. requestContext w = (Inr d, w') \<and> chan w' = chan w"
proof -
  have "\<exists>now w'. time_now w = (Inr now, w') \<and> chan w' = chan w"
    by (cases "ticks w") (simp_all add: time_now_def)
  then show ?thesis by (auto simp: requestContext_def io_bind_Inr)
qed

text \<open>A window grant is one WINDOW frame, or nothing.\<close>

lemma takeWindowGrant_ok:
  obtains g where "takeWindowGrant k w = (Inr (concat (map frame_bytes g)), w\<lparr>chan := (chan w)\<lparr>cr_windowDebt := cr_windowDebt (chan w)\<rparr>\<rparr>)"
      "g = []"
  | g where "takeWindowGrant k w = (Inr (concat (map frame_bytes g)), w\<lparr>chan := (chan w)\<lparr>cr_windowDebt := 0\<rparr>\<rparr>)"
      "list_all frame_ok g" "data_of g = []"
proof (cases "cr_windowDebt (chan w) \<le> k")
  case True
  then have "takeWindowGrant k w = (Inr (concat (map frame_bytes [])), w\<lparr>chan := (chan w)\<lparr>cr_windowDebt := cr_windowDebt (chan w)\<rparr>\<rparr>)"
    by (simp add: takeWindowGrant_def)
  then show ?thesis using that(1) by blast
next
  case False
  let ?d = "cr_windowDebt (chan w)"
  let ?g = "one_frame frameWindow [ucast (drop_bit 24 ?d), ucast (drop_bit 16 ?d), ucast (drop_bit 8 ?d), ucast ?d]"
  have "takeWindowGrant k w = (Inr (concat (map frame_bytes [?g])), w\<lparr>chan := (chan w)\<lparr>cr_windowDebt := 0\<rparr>\<rparr>)"
    using False by (simp add: takeWindowGrant_def Let_def frame_bytes_one)
  moreover have "list_all frame_ok [?g]" by (simp add: one_frame_ok maxPayload_def)
  moreover have "data_of [?g] = []" by (simp add: one_frame_def)
  ultimately show ?thesis using that(2) by blast
qed

context batch_transport
begin

text \<open>\<open>calm w w'\<close>: nothing of the stream has changed but the window debt, and no data has been
  uploaded.\<close>

definition calm :: "'t cworld \<Rightarrow> 't cworld \<Rightarrow> bool" where
  "calm w w' \<longleftrightarrow> inbox (chan w') = inbox (chan w) \<and> cr_readBuf (chan w') = cr_readBuf (chan w) \<and> cr_eof (chan w') = cr_eof (chan w)
     \<and> cr_opened (chan w') = cr_opened (chan w) \<and> cr_closed (chan w') = cr_closed (chan w)
     \<and> ct_left T (chan w') = ct_left T (chan w) \<and> carrier_sent w' = carrier_sent w"

lemma calm_refl [simp]: "calm w w"
  by (simp add: calm_def)

lemma calm_chan: "chan w' = chan w \<Longrightarrow> calm w w'"
  by (simp add: calm_def carrier_sent_def)

lemma calm_trans: "calm w w' \<Longrightarrow> calm w' w2 \<Longrightarrow> calm w w2"
  by (simp add: calm_def)

lemma calm_debt: "calm w (w\<lparr>chan := (chan w)\<lparr>cr_windowDebt := d\<rparr>\<rparr>)"
  by (simp add: calm_def carrier_sent_def)

lemma send_calm: "ct_send T d p w = (r, w') \<Longrightarrow> batch_data p = [] \<Longrightarrow> calm w w'"
proof -
  assume s: "ct_send T d p w = (r, w')" and b: "batch_data p = []"
  have "carrier_sent w' = carrier_sent w"
    using send_ok [of d p w w'] send_failed [of d p w _ w'] s b by (cases r) (auto simp: carrier_sent_def)
  with send_frame [OF s] left_send [OF s] show ?thesis by (simp add: calm_def stream_part_def)
qed

lemma sendControl_calm: "batch_data p = [] \<Longrightarrow> \<exists>w'. sendControl T p w = (Inr (), w') \<and> calm w w'"
proof (cases "p = [] \<or> cr_closed (chan w)")
  case True
  then show ?thesis by (auto simp: sendControl_def)
next
  case False
  assume b: "batch_data p = []"
  obtain d w1 where 1: "requestContext w = (Inr d, w1)" "chan w1 = chan w" using requestContext_ok by blast
  obtain r w2 where 2: "ct_send T d p w1 = (r, w2)" by fastforce
  have "sendControl T p w = (Inr (), w2)" using False 1 2 by (simp add: sendControl_def io_bind_Inr io_try_def io_bind_def)
  moreover have "calm w w2" using calm_chan [OF 1(2)] send_calm [OF 2 b] calm_trans by blast
  ultimately show ?thesis by blast
qed

lemma grantWindow_calm: "\<exists>w'. grantWindow T w = (Inr (), w') \<and> calm w w'"
proof (rule takeWindowGrant_ok [of 0 w])
  fix g assume t: "takeWindowGrant 0 w = (Inr (concat (map frame_bytes g)), w\<lparr>chan := (chan w)\<lparr>cr_windowDebt := cr_windowDebt (chan w)\<rparr>\<rparr>)" "g = []"
  then show ?thesis by (simp add: grantWindow_def io_bind_Inr)
next
  fix g assume t: "takeWindowGrant 0 w = (Inr (concat (map frame_bytes g)), w\<lparr>chan := (chan w)\<lparr>cr_windowDebt := 0\<rparr>\<rparr>)"
    and g: "list_all frame_ok g" "data_of g = []"
  let ?w1 = "w\<lparr>chan := (chan w)\<lparr>cr_windowDebt := 0\<rparr>\<rparr>"
  have "batch_data (concat (map frame_bytes g)) = []" using g by (simp add: batch_data_frames)
  from sendControl_calm [OF this, of ?w1] obtain w2 where
    s: "sendControl T (concat (map frame_bytes g)) ?w1 = (Inr (), w2)" "calm ?w1 w2" by blast
  show ?thesis
  proof (cases "concat (map frame_bytes g) = []")
    case True
    then have "grantWindow T w = (Inr (), ?w1)" using t by (simp only: grantWindow_def io_bind_Inr) simp
    then show ?thesis using calm_debt by blast
  next
    case False
    then have "grantWindow T w = (Inr (), w2)" using t s(1) by (simp only: grantWindow_def io_bind_Inr) simp
    then show ?thesis using calm_trans [OF calm_debt s(2)] by blast
  qed
qed

text \<open>Filing away the frames of a batch.\<close>

lemma pong_no_data: "length p \<le> maxPayload \<Longrightarrow> batch_data (encodeFrame framePong 0 p) = []"
  using batch_data_frames [of "[\<lparr>fr_kind = framePong, fr_stream = 0, fr_payload = p\<rparr>]"]
  by (simp add: frame_ok_def frame_bytes_encode)

lemma handle_frames_reads:
  "handle_frames T frames w = (Inr (), w') \<Longrightarrow> list_all frame_ok frames \<Longrightarrow>
     \<not> says_bye frames \<and> inbox (chan w') = inbox (chan w) \<and> cr_readBuf (chan w') = cr_readBuf (chan w) @ data_of frames
     \<and> cr_eof (chan w') = (cr_eof (chan w) \<or> ends_stream frames) \<and> ct_left T (chan w') = ct_left T (chan w)
     \<and> cr_opened (chan w') = cr_opened (chan w) \<and> cr_closed (chan w') = cr_closed (chan w) \<and> carrier_sent w' = carrier_sent w"
proof (induction frames arbitrary: w)
  case Nil
  then show ?case by simp
next
  case (Cons f frames)
  consider "fr_kind f = frameData" | "fr_kind f = frameClose" | "fr_kind f = framePing" | "fr_kind f = frameBye"
    | "fr_kind f \<noteq> frameData" "fr_kind f \<noteq> frameClose" "fr_kind f \<noteq> framePing" "fr_kind f \<noteq> frameBye" by blast
  then show ?case
  proof cases
    case 3
    have "length (fr_payload f) \<le> maxPayload" using Cons.prems(2) by (simp add: frame_ok_def)
    then obtain w1 where 1: "sendControl T (encodeFrame framePong 0 (fr_payload f)) w = (Inr (), w1)" "calm w w1"
      using sendControl_calm [OF pong_no_data] by blast
    then have "handle_frames T frames w1 = (Inr (), w')" using Cons.prems(1) 3 by (simp add: io_seq_def io_bind_Inr)
    from Cons.IH [OF this] Cons.prems(2) 1(2) 3 show ?thesis by (simp add: calm_def)
  next
    case 4
    with Cons.prems(1) show ?thesis by simp
  next
    case 1
    then have "handle_frames T frames (w\<lparr>chan := (if fr_stream f = streamID then (chan w)\<lparr>cr_readBuf := cr_readBuf (chan w) @ fr_payload f\<rparr> else chan w)\<rparr>) = (Inr (), w')"
      using Cons.prems(1) by simp
    from Cons.IH [OF this] Cons.prems(2) 1 show ?thesis by (auto simp: carrier_sent_def split: if_splits)
  next
    case 2
    then have "handle_frames T frames (w\<lparr>chan := (if fr_stream f = streamID then (chan w)\<lparr>cr_eof := True\<rparr> else chan w)\<rparr>) = (Inr (), w')"
      using Cons.prems(1) by simp
    from Cons.IH [OF this] Cons.prems(2) 2 show ?thesis by (auto simp: carrier_sent_def split: if_splits)
  next
    case 5
    with Cons.prems(1) have "handle_frames T frames w = (Inr (), w')" by simp
    from Cons.IH [OF this] Cons.prems(2) 5 show ?thesis by simp
  qed
qed

text \<open>One turn of the polling loop of an open, not yet ended stream with an empty buffer.\<close>

lemma pump_reads:
  assumes "pump T w = (Inr (), w')" and "cr_readBuf (chan w) = []" "\<not> cr_eof (chan w)"
  shows "carrier_pend w' = carrier_pend w \<and> ct_left T (chan w') < ct_left T (chan w) \<and> carrier_sent w' = carrier_sent w"
proof -
  obtain d w1 where 1: "requestContext w = (Inr d, w1)" "chan w1 = chan w" using requestContext_ok by blast
  obtain body w2 where 2: "ct_receive T d w1 = (Inr body, w2)"
    and rest: "(if body = [] then io_return () else io_bind (io_lift (decodeFrames body)) (handle_frames T)) w2 = (Inr (), w')"
    using assms(1) 1 by (auto simp: pump_def io_bind_eq_Inr io_bind_Inr)
  from receive_next [OF 2] obtain lane where r: "inbox (chan w) = (body, lane) # inbox (chan w2)" "uploads (chan w2) = uploads (chan w)"
    "stream_part (chan w2) = stream_part ((chan w)\<lparr>cr_eof := cr_eof (chan w) \<or> lane\<rparr>)" using 1(2) by auto
  have l: "ct_left T (chan w2) < ct_left T (chan w)" using left_receive [OF 2] 1(2) by simp
  obtain frames where f: "decodeFrames body = Inr frames" "handle_frames T frames w2 = (Inr (), w')"
    using rest by (cases "body = []") (auto simp: io_bind_eq_Inr)
  have "list_all frame_ok frames" using decode_accepted [OF f(1)] by simp
  from handle_frames_reads [OF f(2) this] r l f(1) assms(2,3) show ?thesis
    by (auto simp: carrier_pend_def stream_part_def carrier_sent_def)
qed

lemma fill_loop_reads:
  "fill_loop fuel T w = (Inr (), w') \<Longrightarrow>
     cr_readBuf (chan w') \<noteq> [] \<and> carrier_pend w' = carrier_pend w \<and> carrier_sent w' = carrier_sent w"
proof (induction fuel arbitrary: w)
  case 0
  then show ?case by (auto simp: fill_loop.simps split: if_splits)
next
  case (Suc fuel)
  show ?case
  proof (cases "cr_readBuf (chan w) \<noteq> []")
    case True
    with Suc.prems show ?thesis by (simp add: fill_loop.simps [of "Suc fuel"])
  next
    case False
    then have e: "\<not> cr_eof (chan w)" and "\<not> cr_closed (chan w)"
      using Suc.prems by (auto simp: fill_loop.simps [of "Suc fuel"] split: if_splits)
    with False Suc.prems obtain w1 where 1: "pump T w = (Inr (), w1)" "fill_loop fuel T w1 = (Inr (), w')"
      by (auto simp: fill_loop.simps [of "Suc fuel"] io_seq_def io_bind_eq_Inr)
    from pump_reads [OF 1(1)] False e Suc.IH [OF 1(2)] show ?thesis by simp
  qed
qed

end

context batch_transport
begin

lemma carrier_Read_reads:
  assumes "carrier_Read T n w = (Inr p, w')"
  shows "carrier_pend w = p @ carrier_pend w' \<and> length p \<le> n \<and> (0 < n \<longrightarrow> p \<noteq> []) \<and> carrier_sent w' = carrier_sent w"
proof -
  obtain w1 where 1: "fill_loop (Suc (ct_left T (chan w))) T w = (Inr (), w1)"
    using assms by (auto simp: carrier_Read_def io_seq_def io_bind_eq_Inr)
  note f = fill_loop_reads [OF 1]
  let ?buf = "cr_readBuf (chan w1)"
  let ?w2 = "w1\<lparr>chan := (chan w1)\<lparr>cr_readBuf := drop n ?buf, cr_windowDebt := cr_windowDebt (chan w1) + word_of_nat (min n (length ?buf))\<rparr>\<rparr>"
  obtain w3 where g: "grantWindow T ?w2 = (Inr (), w3)" "calm ?w2 w3" using grantWindow_calm by blast
  have "carrier_pend w1 = take n ?buf @ carrier_pend ?w2" "carrier_sent ?w2 = carrier_sent w1"
    by (simp_all add: carrier_pend_def carrier_sent_def)
  moreover have "p = take n ?buf \<and> (w' = ?w2 \<or> w' = w3)"
    using assms 1 g(1) by (auto simp: carrier_Read_def io_seq_def io_bind_Inr split: if_splits)
  moreover have "carrier_pend w3 = carrier_pend ?w2" "carrier_sent w3 = carrier_sent ?w2"
    using g(2) by (simp_all only: calm_def carrier_pend_def)
  ultimately show ?thesis using f by auto
qed

lemma read_full_reads:
  "read_full_loop fuel T got n w = (Inr p, w') \<Longrightarrow> length got \<le> n \<Longrightarrow>
     got @ carrier_pend w = p @ carrier_pend w' \<and> length p = n \<and> carrier_sent w' = carrier_sent w"
proof (induction fuel arbitrary: got w)
  case 0
  then show ?case by (auto simp: read_full_loop.simps split: if_splits)
next
  case (Suc fuel)
  show ?case
  proof (cases "length got \<ge> n")
    case True
    with Suc.prems show ?thesis by (simp add: read_full_loop.simps [of "Suc fuel"])
  next
    case False
    obtain r w1 where r: "carrier_Read T (n - length got) w = (r, w1)" by fastforce
    with Suc.prems(1) False obtain q where 1: "carrier_Read T (n - length got) w = (Inr q, w1)"
      "read_full_loop fuel T (got @ q) n w1 = (Inr p, w')"
      by (cases r) (auto simp: read_full_loop.simps [of "Suc fuel"] io_try_def io_bind_def)
    note r = carrier_Read_reads [OF 1(1)]
    have "length (got @ q) \<le> n" using r False by (simp add: not_le) linarith
    from Suc.IH [OF 1(2) this] r show ?thesis by simp
  qed
qed

text \<open>The carrier reads the stream behind the frames, and its writes append to the data the relay
  has taken.\<close>

sublocale reader: byte_reader "carrier_ReadFull T" carrier_pend
  by unfold_locales (auto simp: carrier_ReadFull_def dest: read_full_reads)

lemma carrier_Write_sent:
  assumes "carrier_Write T p w = (Inr (), w')"
  shows "carrier_sent w' = carrier_sent w @ p"
proof -
  let ?open = "if cr_opened (chan w) then [] else [one_frame frameOpen []]"
  let ?w1 = "w\<lparr>chan := (chan w)\<lparr>cr_opened := True\<rparr>\<rparr>"
  obtain g d where t: "takeWindowGrant 0 ?w1 = (Inr (concat (map frame_bytes g)), ?w1\<lparr>chan := (chan ?w1)\<lparr>cr_windowDebt := d\<rparr>\<rparr>)"
    and g: "list_all frame_ok g" "data_of g = []"
    by (rule takeWindowGrant_ok [of 0 ?w1]) fastforce+
  let ?w2 = "?w1\<lparr>chan := (chan ?w1)\<lparr>cr_windowDebt := d\<rparr>\<rparr>"
  obtain dl w3 where c: "requestContext ?w2 = (Inr dl, w3)" "chan w3 = chan ?w2" using requestContext_ok by blast
  let ?fs = "?open @ g @ chunks (length p) p"
  define batch where "batch = concat (map frame_bytes ?fs)"
  have fs: "list_all frame_ok ?fs" "data_of ?fs = p"
    using g chunks_ok chunks_data [of p "length p"]
    by (auto simp: one_frame_ok maxPayload_def one_frame_def frame_ok_def streamID_def)
  have "ct_send T dl batch w3 = (Inr (), w')"
    using assms t c data_frames_chunks [of p "length p"]
    by (auto simp: carrier_Write_def io_bind_Inr frame_bytes_one batch_def split: if_splits)
  from send_ok [OF this] have u: "uploads (chan w') = uploads (chan w) @ (if batch = [] then [] else [batch])"
    using c(2) by simp
  have "batch_data batch = p" using batch_data_frames [OF fs(1)] fs(2) by (simp add: batch_def)
  moreover have "batch_data [] = []" by (simp add: batch_data_def)
  then have "batch = [] \<Longrightarrow> p = []" using \<open>batch_data batch = p\<close> by simp
  ultimately show ?thesis unfolding carrier_sent_def u by (cases "batch = []") simp_all
qed

sublocale writer: byte_sink "carrier_Write T" carrier_sent "\<lambda>_. True"
  by unfold_locales (simp add: carrier_Write_sent)

text \<open>The polling loop never runs out of turns: with a turn for every batch that is left, more
  turns change nothing.\<close>

lemma calm_left: "calm w w' \<Longrightarrow> ct_left T (chan w') = ct_left T (chan w)"
  by (simp add: calm_def)

lemma fill_loop_fuel: "ct_left T (chan w) < fuel \<Longrightarrow> fill_loop (Suc fuel) T w = fill_loop fuel T w"
proof (induction fuel arbitrary: w)
  case 0
  then show ?case by simp
next
  case (Suc fuel)
  show ?case
  proof (cases "cr_readBuf (chan w) = [] \<and> \<not> cr_eof (chan w) \<and> \<not> cr_closed (chan w)")
    case False
    then show ?thesis by (auto simp: fill_loop.simps [of "Suc (Suc fuel)"] fill_loop.simps [of "Suc fuel"])
  next
    case True
    obtain r w1 where 1: "pump T w = (r, w1)" by fastforce
    show ?thesis
    proof (cases r)
      case (Inl e)
      with True 1 show ?thesis by (simp add: fill_loop.simps [of "Suc (Suc fuel)"] fill_loop.simps [of "Suc fuel"] io_seq_def io_bind_Inl)
    next
      case (Inr u)
      with True 1 pump_reads [of w w1] have "ct_left T (chan w1) < ct_left T (chan w)" by simp
      with Suc.prems have "ct_left T (chan w1) < fuel" by linarith
      from Suc.IH [OF this] True 1 Inr show ?thesis
        by (simp add: fill_loop.simps [of "Suc (Suc fuel)"] fill_loop.simps [of "Suc fuel"] io_seq_def io_bind_Inr)
    qed
  qed
qed

lemma fill_loop_enough: "ct_left T (chan w) < fuel \<Longrightarrow> fill_loop (fuel + k) T w = fill_loop fuel T w"
  by (induction k) (simp_all add: fill_loop_fuel)

lemma read_full_fuel: "n - length got \<le> fuel \<Longrightarrow> read_full_loop (Suc fuel) T got n w = read_full_loop fuel T got n w"
proof (induction fuel arbitrary: got w)
  case 0
  then show ?case by (simp add: read_full_loop.simps)
next
  case (Suc fuel)
  show ?case
  proof (cases "length got \<ge> n")
    case True
    then show ?thesis by (simp add: read_full_loop.simps [of "Suc (Suc fuel)"] read_full_loop.simps [of "Suc fuel"])
  next
    case False
    obtain r w1 where 1: "carrier_Read T (n - length got) w = (r, w1)" by fastforce
    show ?thesis
    proof (cases r)
      case (Inl e)
      with 1 False show ?thesis
        by (simp add: read_full_loop.simps [of "Suc (Suc fuel)"] read_full_loop.simps [of "Suc fuel"] io_try_def io_bind_def)
    next
      case (Inr q)
      have "q \<noteq> []" using carrier_Read_reads [OF 1 [unfolded Inr]] False by auto
      then have "n - length (got @ q) \<le> fuel" using Suc.prems by (cases q) auto
      from Suc.IH [OF this] 1 Inr False show ?thesis
        by (simp add: read_full_loop.simps [of "Suc (Suc fuel)"] read_full_loop.simps [of "Suc fuel"] io_try_def io_bind_def)
    qed
  qed
qed

end

section \<open>A transport that answers\<close>

text \<open>\<open>ready\<close>: every batch of the inbox will be delivered when asked for.\<close>

locale prompt_transport = batch_transport T inbox uploads
  for T :: "'t ops" and inbox :: "'t carrier \<Rightarrow> (bytes \<times> bool) list" and uploads :: "'t carrier \<Rightarrow> bytes list" +
  fixes ready :: "'t carrier \<Rightarrow> bool"
  assumes receive_ready: "ready (chan w) \<Longrightarrow> inbox (chan w) = (body, lane) # rest \<Longrightarrow>
      \<exists>w'. ct_receive T d w = (Inr body, w') \<and> ready (chan w')"
    and send_ready: "ready (chan w) \<Longrightarrow> ct_send T d p w = (r, w') \<Longrightarrow> ready (chan w')"
    and ready_free: "ready (c\<lparr>cr_opened := oa, cr_closed := ca, cr_readBuf := ra, cr_eof := ea, cr_windowDebt := da\<rparr>) = ready c"
begin

lemma ready_one [simp]:
  "ready (c\<lparr>cr_readBuf := ra\<rparr>) = ready c" "ready (c\<lparr>cr_eof := ea\<rparr>) = ready c" "ready (c\<lparr>cr_windowDebt := da\<rparr>) = ready c"
  "ready (c\<lparr>cr_readBuf := ra, cr_windowDebt := da\<rparr>) = ready c"
  using ready_free [where c = c and oa = "cr_opened c" and ca = "cr_closed c" and ra = ra and ea = "cr_eof c" and da = "cr_windowDebt c"]
    ready_free [where c = c and oa = "cr_opened c" and ca = "cr_closed c" and ra = "cr_readBuf c" and ea = ea and da = "cr_windowDebt c"]
    ready_free [where c = c and oa = "cr_opened c" and ca = "cr_closed c" and ra = "cr_readBuf c" and ea = "cr_eof c" and da = da]
    ready_free [where c = c and oa = "cr_opened c" and ca = "cr_closed c" and ra = ra and ea = "cr_eof c" and da = da]
  by simp_all

definition open_ready :: "'t cworld \<Rightarrow> bool" where
  "open_ready w \<longleftrightarrow> ready (chan w) \<and> \<not> cr_closed (chan w)"

lemma send_open_ready: "open_ready w \<Longrightarrow> ct_send T d p w = (r, w') \<Longrightarrow> open_ready w'"
  using send_ready [of w d p r w'] send_frame [of d p w r w'] by (simp add: open_ready_def stream_part_def)

lemma sendControl_ready: "open_ready w \<Longrightarrow> sendControl T p w = (r, w') \<Longrightarrow> open_ready w' \<and> r = Inr ()"
proof -
  assume o: "open_ready w" and s: "sendControl T p w = (r, w')"
  show ?thesis
  proof (cases "p = [] \<or> cr_closed (chan w)")
    case True
    with o s show ?thesis by (auto simp: sendControl_def)
  next
    case False
    obtain d w1 where 1: "requestContext w = (Inr d, w1)" "chan w1 = chan w" using requestContext_ok by blast
    obtain q w2 where 2: "ct_send T d p w1 = (q, w2)" by fastforce
    have "open_ready w1" using o 1(2) by (simp add: open_ready_def)
    from send_open_ready [OF this 2] False s 1 2 show ?thesis
      by (simp add: sendControl_def io_bind_Inr io_try_def io_bind_def)
  qed
qed

lemma grantWindow_ready: "open_ready w \<Longrightarrow> grantWindow T w = (r, w') \<Longrightarrow> open_ready w'"
proof (rule takeWindowGrant_ok [of 0 w])
  fix g assume o: "open_ready w" and s: "grantWindow T w = (r, w')"
    and t: "takeWindowGrant 0 w = (Inr (concat (map frame_bytes g)), w\<lparr>chan := (chan w)\<lparr>cr_windowDebt := cr_windowDebt (chan w)\<rparr>\<rparr>)" "g = []"
  then show ?thesis by (simp add: grantWindow_def io_bind_Inr)
next
  fix g assume o: "open_ready w" and s: "grantWindow T w = (r, w')"
    and t: "takeWindowGrant 0 w = (Inr (concat (map frame_bytes g)), w\<lparr>chan := (chan w)\<lparr>cr_windowDebt := 0\<rparr>\<rparr>)"
  let ?w1 = "w\<lparr>chan := (chan w)\<lparr>cr_windowDebt := 0\<rparr>\<rparr>"
  have o1: "open_ready ?w1" using o by (simp add: open_ready_def)
  have "(if concat (map frame_bytes g) = [] then io_return () else sendControl T (concat (map frame_bytes g))) ?w1 = (r, w')"
    using s t by (simp only: grantWindow_def io_bind_Inr)
  then show ?thesis using o1 sendControl_ready [OF o1] by (auto split: if_splits)
qed

lemma handle_frames_ready:
  "open_ready w \<Longrightarrow> \<not> says_bye frames \<Longrightarrow> \<exists>w'. handle_frames T frames w = (Inr (), w') \<and> open_ready w'"
proof (induction frames arbitrary: w)
  case Nil
  then show ?case by simp
next
  case (Cons f frames)
  have nb: "fr_kind f \<noteq> frameBye" "\<not> says_bye frames" using Cons.prems(2) by auto
  have r: "open_ready (w\<lparr>chan := (if fr_stream f = streamID then (chan w)\<lparr>cr_readBuf := cr_readBuf (chan w) @ fr_payload f\<rparr> else chan w)\<rparr>)"
    "open_ready (w\<lparr>chan := (if fr_stream f = streamID then (chan w)\<lparr>cr_eof := True\<rparr> else chan w)\<rparr>)"
    using Cons.prems(1) by (simp_all add: open_ready_def)
  obtain q w1 where 1: "sendControl T (encodeFrame framePong 0 (fr_payload f)) w = (q, w1)" by fastforce
  with sendControl_ready [OF Cons.prems(1) 1] have q: "q = Inr ()" "open_ready w1" by auto
  show ?case
    using nb Cons.IH [OF r(1) nb(2)] Cons.IH [OF r(2) nb(2)] Cons.IH [OF q(2) nb(2)] Cons.IH [OF Cons.prems(1) nb(2)] 1 q
    by (simp add: io_seq_def [of "sendControl T p" for p] io_bind_Inr)
qed

lemma pump_ready:
  assumes "open_ready w" "cr_readBuf (chan w) = []" "carrier_pend w \<noteq> []"
  shows "\<exists>w'. pump T w = (Inr (), w') \<and> open_ready w'"
proof -
  obtain d w1 where 1: "requestContext w = (Inr d, w1)" "chan w1 = chan w" using requestContext_ok by blast
  have a: "\<not> cr_eof (chan w)" "arrivals (inbox (chan w)) \<noteq> []" using assms(2,3) by (auto simp: carrier_pend_def split: if_splits)
  then obtain body lane rest where i: "inbox (chan w) = (body, lane) # rest" by (cases "inbox (chan w)") auto
  obtain frames where f: "decodeFrames body = Inr frames" "\<not> says_bye frames"
    using a(2) i by (auto split: sum.splits if_splits)
  obtain w2 where 2: "ct_receive T d w1 = (Inr body, w2)" "ready (chan w2)"
    using receive_ready [of w1 body lane rest d] assms(1) 1(2) i by (auto simp: open_ready_def)
  have "\<not> cr_closed (chan w2)" using receive_next [OF 2(1)] assms(1) 1(2) by (auto simp: open_ready_def stream_part_def)
  with 2(2) have "open_ready w2" by (simp add: open_ready_def)
  from handle_frames_ready [OF this f(2)] f this 1 2 show ?thesis
    by (cases "body = []") (simp_all add: pump_def io_bind_Inr)
qed

lemma fill_loop_ready:
  "open_ready w \<Longrightarrow> carrier_pend w \<noteq> [] \<Longrightarrow> ct_left T (chan w) < fuel \<Longrightarrow> \<exists>w'. fill_loop fuel T w = (Inr (), w') \<and> open_ready w'"
proof (induction fuel arbitrary: w)
  case 0
  then show ?case by simp
next
  case (Suc fuel)
  show ?case
  proof (cases "cr_readBuf (chan w) = []")
    case False
    with Suc.prems show ?thesis by (simp add: fill_loop.simps [of "Suc fuel"])
  next
    case True
    obtain w1 where 1: "pump T w = (Inr (), w1)" "open_ready w1" using pump_ready [OF Suc.prems(1) True Suc.prems(2)] by blast
    have e: "\<not> cr_eof (chan w)" using Suc.prems(2) True by (auto simp: carrier_pend_def)
    from pump_reads [OF 1(1) True e] Suc.prems have "carrier_pend w1 \<noteq> []" "ct_left T (chan w1) < fuel" by auto
    from Suc.IH [OF 1(2) this] 1(1) True e Suc.prems(1) show ?thesis
      by (simp add: fill_loop.simps [of "Suc fuel"] io_seq_def io_bind_Inr open_ready_def)
  qed
qed

lemma carrier_Read_ready:
  assumes "open_ready w" "carrier_pend w \<noteq> []"
  shows "\<exists>p w'. carrier_Read T n w = (Inr p, w') \<and> open_ready w'"
proof -
  obtain w1 where 1: "fill_loop (Suc (ct_left T (chan w))) T w = (Inr (), w1)" "open_ready w1"
    using fill_loop_ready [OF assms lessI] by blast
  let ?buf = "cr_readBuf (chan w1)"
  let ?w2 = "w1\<lparr>chan := (chan w1)\<lparr>cr_readBuf := drop n ?buf, cr_windowDebt := cr_windowDebt (chan w1) + word_of_nat (min n (length ?buf))\<rparr>\<rparr>"
  have o2: "open_ready ?w2" using 1(2) by (simp add: open_ready_def)
  obtain w3 where g: "grantWindow T ?w2 = (Inr (), w3)" using grantWindow_calm by blast
  from grantWindow_ready [OF o2 g] o2 1(1) g show ?thesis
    by (auto simp: carrier_Read_def io_seq_def io_bind_Inr)
qed

lemma read_full_ready:
  "open_ready w \<Longrightarrow> n \<le> length got + length (carrier_pend w) \<Longrightarrow> n \<le> fuel + length got \<Longrightarrow>
     \<exists>p w'. read_full_loop fuel T got n w = (Inr p, w') \<and> open_ready w'"
proof (induction fuel arbitrary: got w)
  case 0
  then show ?case by (auto simp: read_full_loop.simps)
next
  case (Suc fuel)
  show ?case
  proof (cases "length got \<ge> n")
    case True
    with Suc.prems show ?thesis by (simp add: read_full_loop.simps [of "Suc fuel"])
  next
    case False
    then have "carrier_pend w \<noteq> []" using Suc.prems(2) by auto
    from carrier_Read_ready [OF Suc.prems(1) this] obtain q w1 where
      1: "carrier_Read T (n - length got) w = (Inr q, w1)" "open_ready w1" by blast
    from carrier_Read_reads [OF 1(1)] False have r: "carrier_pend w = q @ carrier_pend w1" "q \<noteq> []" by auto
    have "n \<le> length (got @ q) + length (carrier_pend w1)" using Suc.prems(2) r(1) by simp
    moreover have "n \<le> fuel + length (got @ q)" using Suc.prems(3) r(2) by (cases q) auto
    ultimately obtain p w' where "read_full_loop fuel T (got @ q) n w1 = (Inr p, w')" "open_ready w'" using Suc.IH [OF 1(2)] by blast
    with 1(1) False show ?thesis
      by (simp add: read_full_loop.simps [of "Suc fuel"] io_try_def io_bind_def)
  qed
qed

lemma carrier_ReadFull_ready:
  assumes "open_ready w" "n \<le> length (carrier_pend w)"
  shows "\<exists>w'. carrier_ReadFull T n w = (Inr (take n (carrier_pend w)), w') \<and> carrier_pend w' = drop n (carrier_pend w) \<and> open_ready w'"
proof -
  obtain p w' where r: "carrier_ReadFull T n w = (Inr p, w')" "open_ready w'"
    using read_full_ready [of w n "[]" n] assms by (auto simp: carrier_ReadFull_def)
  from reader.reads [OF r(1)] r show ?thesis by auto
qed

end

end
