(* ===== verification/Https.thy ===== *)
theory Https
  imports Carrier
begin

text \<open>
  \<open>internal/webproxy/https.go\<close>: the HTTPS modes of the carrier.  An upload is repeated while
  the relay answers 503, with a pause that honours \<open>Retry-After\<close> and must end before the
  deadline of the request; a download returns the next batch and moves the cursor.
\<close>

record httpCarrier =
  hc_upSeq :: int
  hc_cursor :: string

type_synonym hworld = "httpCarrier cworld"

definition newHTTPCarrier :: httpCarrier where
  "newHTTPCarrier = \<lparr>hc_upSeq = 0, hc_cursor = ''0''\<rparr>"

definition errUnexpectedStatus :: goerr where
  "errUnexpectedStatus = ErrText ''unexpected carrier status''"

text \<open>The pause before attempt \<open>attempt + 1\<close>, in nanoseconds, and \<open>sleepRetry\<close>: the timer
  against the deadline of the context.\<close>

definition retryDelay :: "string \<Rightarrow> nat \<Rightarrow> int" where
  "retryDelay retryAfter attempt =
     (case atoi retryAfter of
        Inr seconds \<Rightarrow> if seconds > 0 \<and> seconds \<le> 5 then seconds * 1000000000 else (int attempt + 1) * 250000000
      | Inl e \<Rightarrow> (int attempt + 1) * 250000000)"

definition sleepRetry :: "int \<Rightarrow> string \<Rightarrow> nat \<Rightarrow> ('z env_scheme, bool) io" where
  "sleepRetry deadline retryAfter attempt =
     (let delay = retryDelay retryAfter attempt in
      io_bind time_now (\<lambda>now.
      if now + delay < deadline then io_seq (time_sleep delay) (io_return True)
      else io_seq (time_sleep (deadline - now)) (io_return False)))"

definition lane_header :: "'t carrier \<Rightarrow> (string \<times> string) list" where
  "lane_header c = (if cr_lanes c then [(''X-Lane-ID'', dec_nat (unat streamID))] else [])"

definition upd_h :: "(httpCarrier \<Rightarrow> httpCarrier) \<Rightarrow> (hworld, unit) io" where
  "upd_h f = upd_c (\<lambda>c. c\<lparr>cr_transport := f (cr_transport c)\<rparr>)"

definition up_request :: "httpCarrier carrier \<Rightarrow> bytes \<Rightarrow> goerr + request" where
  "up_request c frames = res_bind (newAPIRequest c ''POST'' ''/api/v1/up'' (rl_session c) (Some frames)) (\<lambda>req.
     Inr (req\<lparr>rq_Header := rq_Header req @ [(''X-Up-Seq'', dec_int (hc_upSeq (cr_transport c)))] @ lane_header c\<rparr>))"

text \<open>\<open>attempt\<close> counts up to four, \<open>left\<close> is what remains of them.\<close>

fun send_attempts :: "nat \<Rightarrow> nat \<Rightarrow> int \<Rightarrow> bytes \<Rightarrow> (hworld, unit) io" where
  "send_attempts 0 attempt deadline frames =
     io_fail (ErrWrap ''relay kept refusing the uplink batch: '' errUnexpectedStatus)"
| "send_attempts (Suc left) attempt deadline frames =
     io_bind (get_c (\<lambda>c. up_request c frames)) (\<lambda>built.
     io_bind (io_lift built) (\<lambda>req.
     io_bind (on_chan (on_client (client_do req))) (\<lambda>resp.
     if rp_StatusCode resp = 204 \<or> rp_StatusCode resp = 200 then io_return ()
     else if rp_StatusCode resp = 503 then
       io_bind (sleepRetry deadline (header_get resp ''Retry-After'') attempt) (\<lambda>ok.
       if ok then send_attempts left (Suc attempt) deadline frames else io_fail ErrDeadlineExceeded)
     else io_fail (ErrWrap (''uplink answered '' @ rp_Status resp @ '': '') errUnexpectedStatus))))"

definition http_send :: "int \<Rightarrow> bytes \<Rightarrow> (hworld, unit) io" where
  "http_send deadline frames =
     (if frames = [] then io_return ()
      else io_seq (upd_h (\<lambda>h. h\<lparr>hc_upSeq := hc_upSeq h + 1\<rparr>)) (send_attempts 4 0 deadline frames))"

definition down_request :: "httpCarrier carrier \<Rightarrow> goerr + request" where
  "down_request c =
     res_bind (newAPIRequest c ''POST'' ''/api/v1/down'' (rl_session c) None) (\<lambda>req.
     Inr (req\<lparr>rq_Header := rq_Header req @ [(''X-Down-Cursor'', hc_cursor (cr_transport c))] @ lane_header c\<rparr>))"

definition http_receive :: "int \<Rightarrow> (hworld, bytes) io" where
  "http_receive deadline =
     io_bind (get_c down_request) (\<lambda>built.
     io_bind (io_lift built) (\<lambda>req.
     io_bind (on_chan (on_client (client_do req))) (\<lambda>resp.
     io_bind (io_lift (read_body resp)) (\<lambda>body.
     let cursor = header_get resp ''X-Down-Cursor'' in
     io_seq (upd_h (\<lambda>h. if cursor \<noteq> [] then h\<lparr>hc_cursor := cursor\<rparr> else h))
     (io_seq (upd_c (\<lambda>c. if header_get resp ''X-Lane-Closed'' = ''1'' then c\<lparr>cr_eof := True\<rparr> else c))
     (if rp_StatusCode resp = 200 \<or> rp_StatusCode resp = 204 then io_return body
      else if rp_StatusCode resp = 503 then
        io_bind (sleepRetry deadline (header_get resp ''Retry-After'') 0) (\<lambda>ok.
        if ok then io_return [] else io_fail ErrDeadlineExceeded)
      else io_fail (ErrWrap (''downlink answered '' @ rp_Status resp @ '': '') errUnexpectedStatus)))))))"

text \<open>The downloads the relay will still answer, and the transport.\<close>

definition down_answers :: "'t carrier \<Rightarrow> (goerr + reply) list" where
  "down_answers c = cl_answers (rl_client c) ''POST'' (rl_origin c @ ''/api/v1/down'')"

definition https_ops :: "httpCarrier ops" where
  "https_ops = \<lparr>ct_send = http_send, ct_receive = http_receive, ct_close = io_return (),
     ct_left = (\<lambda>c. length (down_answers c))\<rparr>"

section \<open>The contract of the HTTPS transport\<close>

text \<open>The batches the answers to \<open>/api/v1/down\<close> hold, up to the first that makes \<open>receive\<close> fail
  for its content, and the batches taken by \<open>/api/v1/up\<close>.\<close>

definition lane_closed :: "reply \<Rightarrow> bool" where
  "lane_closed rp \<longleftrightarrow> header_get rp ''X-Lane-Closed'' = ''1''"

fun http_batches :: "(goerr + reply) list \<Rightarrow> (bytes \<times> bool) list" where
  "http_batches [] = []"
| "http_batches (Inl e # rest) = []"
| "http_batches (Inr rp # rest) = (case read_body rp of
      Inl e \<Rightarrow> []
    | Inr body \<Rightarrow>
        if rp_StatusCode rp = 200 \<or> rp_StatusCode rp = 204 then (body, lane_closed rp) # http_batches rest
        else if rp_StatusCode rp = 503 then ([], lane_closed rp) # http_batches rest
        else [])"

definition http_inbox :: "httpCarrier carrier \<Rightarrow> (bytes \<times> bool) list" where
  "http_inbox c = http_batches (down_answers c)"

definition upload_url :: "'t carrier \<Rightarrow> string" where
  "upload_url c = rl_origin c @ ''/api/v1/up''"

definition taken :: "string \<Rightarrow> request \<times> (goerr + reply) \<Rightarrow> bytes list" where
  "taken url entry = (case entry of (req, Inr rp) \<Rightarrow>
       if rq_Method req = ''POST'' \<and> rq_URL req = url \<and> (rp_StatusCode rp = 204 \<or> rp_StatusCode rp = 200)
       then (case rq_Body req of Some b \<Rightarrow> [b] | None \<Rightarrow> []) else []
     | (req, Inl e) \<Rightarrow> [])"

definition http_uploads :: "httpCarrier carrier \<Rightarrow> bytes list" where
  "http_uploads c = concat (map (taken (upload_url c)) (cl_log (rl_client c)))"

text \<open>\<open>http_same c c'\<close>: only the transport's own counters have moved.\<close>

definition http_same :: "httpCarrier carrier \<Rightarrow> httpCarrier carrier \<Rightarrow> bool" where
  "http_same c c' \<longleftrightarrow> stream_part c' = stream_part c \<and> rl_origin c' = rl_origin c \<and> down_answers c' = down_answers c"

lemma http_same_trans: "http_same a b \<Longrightarrow> http_same b c \<Longrightarrow> http_same a c"
  by (simp add: http_same_def)

lemma time_sleep_chan: "time_sleep d w = (r, w') \<Longrightarrow> chan w' = chan w"
  by (auto simp: time_sleep_def Let_def)

lemma sleepRetry_ok: "\<exists>ok w'. sleepRetry deadline ra attempt w = (Inr ok, w') \<and> chan w' = chan w"
proof -
  have "\<exists>now w'. time_now w = (Inr now, w') \<and> chan w' = chan w"
    by (cases "ticks w") (simp_all add: time_now_def)
  then show ?thesis
    by (auto simp: sleepRetry_def Let_def io_bind_Inr io_seq_def time_sleep_def)
qed

lemma client_do_cases:
  obtains "cl_answers c (rq_Method req) (rq_URL req) = []" "\<exists>e. client_do req c = (Inl e, c)"
  | r rs where "cl_answers c (rq_Method req) (rq_URL req) = r # rs"
      "client_do req c = (r, c\<lparr>cl_answers := (cl_answers c)(rq_Method req := (cl_answers c (rq_Method req))(rq_URL req := rs)),
         cl_log := cl_log c @ [(req, r)]\<rparr>)"
  by (cases "cl_answers c (rq_Method req) (rq_URL req)") (simp_all add: client_do_def)

text \<open>One request of an upload.\<close>

lemma up_request_Inr: "up_request c frames = Inr req \<Longrightarrow>
    rq_Method req = ''POST'' \<and> rq_URL req = upload_url c \<and> rq_Body req = Some frames"
  by (auto simp: up_request_def newAPIRequest_def new_request_def res_bind_eq_Inr upload_url_def split: if_splits)

lemma up_exchange:
  assumes "up_request (chan w) frames = Inr req" and "on_chan (on_client (client_do req)) w = (r, w')"
  shows "http_same (chan w) (chan w') \<and> http_uploads (chan w') = http_uploads (chan w) @
     (case r of Inr rp \<Rightarrow> if rp_StatusCode rp = 204 \<or> rp_StatusCode rp = 200 then [frames] else [] | Inl e \<Rightarrow> [])"
proof -
  let ?c = "chan w"
  note q = up_request_Inr [OF assms(1)]
  have d: "upload_url ?c \<noteq> rl_origin ?c @ ''/api/v1/down''" by (simp add: upload_url_def)
  obtain cl where cl: "client_do req (rl_client ?c) = (r, cl)" "w' = w\<lparr>chan := ?c\<lparr>rl_client := cl\<rparr>\<rparr>"
    using assms(2) by (auto simp: on_chan_def on_client_def split: prod.splits)
  show ?thesis
    using client_do_cases [of "rl_client ?c" req]
  proof cases
    case 1
    with cl show ?thesis by (auto simp: http_same_def stream_part_def down_answers_def http_uploads_def upload_url_def)
  next
    case (2 r' rs)
    with cl have "cl = (rl_client ?c)\<lparr>cl_answers := (cl_answers (rl_client ?c))(''POST'' := (cl_answers (rl_client ?c) ''POST'')(upload_url ?c := rs)),
         cl_log := cl_log (rl_client ?c) @ [(req, r)]\<rparr>" using q by auto
    with cl q d show ?thesis
      by (auto simp: http_same_def stream_part_def down_answers_def http_uploads_def upload_url_def taken_def split: sum.splits)
  qed
qed

lemma send_attempts_effect:
  "send_attempts left attempt deadline frames w = (r, w') \<Longrightarrow> http_same (chan w) (chan w') \<and>
     http_uploads (chan w') = http_uploads (chan w) @ (if r = Inr () then [frames] else [])"
proof (induction left arbitrary: attempt w)
  case 0
  then show ?case by (auto simp: http_same_def)
next
  case (Suc left)
  show ?case
  proof (cases "up_request (chan w) frames")
    case (Inl e)
    then show ?thesis using Suc.prems by (auto simp: io_bind_Inl http_same_def)
  next
    case (Inr req)
    obtain q w1 where 1: "on_chan (on_client (client_do req)) w = (q, w1)" by fastforce
    note x = up_exchange [OF Inr 1]
    have step: "send_attempts (Suc left) attempt deadline frames w = (case q of Inl e \<Rightarrow> (Inl e, w1)
        | Inr resp \<Rightarrow> (if rp_StatusCode resp = 204 \<or> rp_StatusCode resp = 200 then io_return ()
            else if rp_StatusCode resp = 503 then io_bind (sleepRetry deadline (header_get resp ''Retry-After'') attempt) (\<lambda>ok.
               if ok then send_attempts left (Suc attempt) deadline frames else io_fail ErrDeadlineExceeded)
            else io_fail (ErrWrap (''uplink answered '' @ rp_Status resp @ '': '') errUnexpectedStatus)) w1)"
      using Inr 1 by (cases q) (auto simp: io_bind_Inr io_bind_def)
    show ?thesis
    proof (cases q)
      case (Inl e)
      with x Suc.prems step show ?thesis by auto
    next
      case (Inr resp)
      show ?thesis
      proof (cases "rp_StatusCode resp = 503")
        case True
        obtain ok w2 where 2: "sleepRetry deadline (header_get resp ''Retry-After'') attempt w1 = (Inr ok, w2)" "chan w2 = chan w1"
          using sleepRetry_ok by blast
        with Suc.prems step Inr True have "(if ok then send_attempts left (Suc attempt) deadline frames else io_fail ErrDeadlineExceeded) w2 = (r, w')"
          by (simp add: io_bind_Inr)
        with Suc.IH [of "Suc attempt" w2] x 2(2) Inr True show ?thesis
          by (auto simp: http_same_def split: if_splits)
      next
        case False
        with Suc.prems step Inr x show ?thesis by (auto split: if_splits)
      qed
    qed
  qed
qed


lemma http_send_effect:
  assumes "http_send d p w = (r, w')"
  shows "http_same (chan w) (chan w') \<and> http_uploads (chan w') = http_uploads (chan w) @ (if r = Inr () \<and> p \<noteq> [] then [p] else [])"
proof (cases "p = []")
  case True
  with assms show ?thesis by (simp add: http_send_def http_same_def)
next
  case False
  let ?w1 = "w\<lparr>chan := (chan w)\<lparr>cr_transport := (cr_transport (chan w))\<lparr>hc_upSeq := hc_upSeq (cr_transport (chan w)) + 1\<rparr>\<rparr>\<rparr>"
  have "send_attempts 4 0 d p ?w1 = (r, w')" using assms False by (simp add: http_send_def upd_h_def)
  from send_attempts_effect [OF this] False show ?thesis
    by (auto simp: http_same_def stream_part_def down_answers_def http_uploads_def upload_url_def)
qed

lemma down_request_Inr: "down_request c = Inr req \<Longrightarrow> rq_Method req = ''POST'' \<and> rq_URL req = rl_origin c @ ''/api/v1/down''"
  by (auto simp: down_request_def newAPIRequest_def new_request_def res_bind_eq_Inr split: if_splits)

text \<open>A batch that is received is the first of the inbox.\<close>

lemma http_receive_next:
  assumes "http_receive d w = (Inr body, w')"
  shows "\<exists>lane. http_inbox (chan w) = (body, lane) # http_inbox (chan w') \<and> http_uploads (chan w') = http_uploads (chan w)
     \<and> stream_part (chan w') = stream_part ((chan w)\<lparr>cr_eof := cr_eof (chan w) \<or> lane\<rparr>)
     \<and> length (down_answers (chan w')) < length (down_answers (chan w))"
proof -
  let ?c = "chan w"
  obtain req resp w1 body1 where req: "down_request ?c = Inr req" and 1: "on_chan (on_client (client_do req)) w = (Inr resp, w1)"
    and b: "read_body resp = Inr body1"
    and rest: "(let cursor = header_get resp ''X-Down-Cursor'' in
     io_seq (upd_h (\<lambda>h. if cursor \<noteq> [] then h\<lparr>hc_cursor := cursor\<rparr> else h))
     (io_seq (upd_c (\<lambda>c. if header_get resp ''X-Lane-Closed'' = ''1'' then c\<lparr>cr_eof := True\<rparr> else c))
     (if rp_StatusCode resp = 200 \<or> rp_StatusCode resp = 204 then io_return body1
      else if rp_StatusCode resp = 503 then
        io_bind (sleepRetry d (header_get resp ''Retry-After'') 0) (\<lambda>ok. if ok then io_return [] else io_fail ErrDeadlineExceeded)
      else io_fail (ErrWrap (''downlink answered '' @ rp_Status resp @ '': '') errUnexpectedStatus)))) w1 = (Inr body, w')"
    using assms by (auto simp: http_receive_def io_bind_eq_Inr)
  note q = down_request_Inr [OF req]
  obtain cl where cl: "client_do req (rl_client ?c) = (Inr resp, cl)" "w1 = w\<lparr>chan := ?c\<lparr>rl_client := cl\<rparr>\<rparr>"
    using 1 by (auto simp: on_chan_def on_client_def split: prod.splits)
  obtain rs where a: "down_answers ?c = Inr resp # rs"
    and cl': "cl = (rl_client ?c)\<lparr>cl_answers := (cl_answers (rl_client ?c))(''POST'' := (cl_answers (rl_client ?c) ''POST'')(rl_origin ?c @ ''/api/v1/down'' := rs)),
         cl_log := cl_log (rl_client ?c) @ [(req, Inr resp)]\<rparr>"
    using client_do_cases [of "rl_client ?c" req] cl(1) q by (auto simp: down_answers_def)
  have d: "rl_origin ?c @ ''/api/v1/down'' \<noteq> upload_url ?c" by (simp add: upload_url_def)
  define c2 where "c2 = (let c1 = (chan w1)\<lparr>cr_transport := (let h = cr_transport (chan w1) in
      if header_get resp ''X-Down-Cursor'' \<noteq> [] then h\<lparr>hc_cursor := header_get resp ''X-Down-Cursor''\<rparr> else h)\<rparr> in
    if lane_closed resp then c1\<lparr>cr_eof := True\<rparr> else c1)"
  have c2: "down_answers c2 = rs" "http_uploads c2 = http_uploads ?c"
    "stream_part c2 = stream_part (?c\<lparr>cr_eof := cr_eof ?c \<or> lane_closed resp\<rparr>)"
    using q d unfolding c2_def Let_def cl(2) cl'
    by (auto simp: down_answers_def http_uploads_def upload_url_def taken_def stream_part_def)
  have fin: "(if rp_StatusCode resp = 200 \<or> rp_StatusCode resp = 204 then io_return body1
      else if rp_StatusCode resp = 503 then
        io_bind (sleepRetry d (header_get resp ''Retry-After'') 0) (\<lambda>ok. if ok then io_return [] else io_fail ErrDeadlineExceeded)
      else io_fail (ErrWrap (''downlink answered '' @ rp_Status resp @ '': '') errUnexpectedStatus)) (w1\<lparr>chan := c2\<rparr>) = (Inr body, w')"
    using rest by (simp add: Let_def upd_h_def c2_def lane_closed_def cong: if_cong)
  obtain ok w3 where 3: "sleepRetry d (header_get resp ''Retry-After'') 0 (w1\<lparr>chan := c2\<rparr>) = (Inr ok, w3)" "chan w3 = c2"
    using sleepRetry_ok [of d "header_get resp ''Retry-After''" 0 "w1\<lparr>chan := c2\<rparr>"] by auto
  have "chan w' = c2 \<and> (if rp_StatusCode resp = 200 \<or> rp_StatusCode resp = 204 then body = body1 else rp_StatusCode resp = 503 \<and> body = [])"
  proof (cases "rp_StatusCode resp = 200 \<or> rp_StatusCode resp = 204")
    case True
    with fin show ?thesis by (simp only: if_P) (use True in auto)
  next
    case False
    note fin' = fin [unfolded if_not_P [OF False]]
    show ?thesis
    proof (cases "rp_StatusCode resp = 503")
      case True
      with fin' 3 show ?thesis using False by (cases ok) (simp_all add: io_bind_Inr)
    next
      case other: False
      with fin' show ?thesis by simp
    qed
  qed
  then show ?thesis using c2 a b by (auto simp: http_inbox_def split: if_splits)
qed

interpretation hc: batch_transport https_ops http_inbox http_uploads
proof (unfold_locales, goal_cases)
  case (1 d w body w')
  then show ?case using http_receive_next [of d w body w'] by (auto simp: https_ops_def)
next
  case (2 d p w r w')
  then show ?case using http_send_effect [of d p w r w'] by (simp add: https_ops_def http_same_def http_inbox_def)
next
  case (3 d p w w')
  then show ?case using http_send_effect [of d p w "Inr ()" w'] by (simp add: https_ops_def)
next
  case (4 d p w e w')
  then show ?case using http_send_effect [of d p w "Inl e" w'] by (simp add: https_ops_def)
next
  case (5 d w body w')
  then show ?case using http_receive_next [of d w body w'] by (auto simp: https_ops_def)
next
  case (6 d p w r w')
  then show ?case using http_send_effect [of d p w r w'] by (simp add: https_ops_def http_same_def)
qed (simp_all add: https_ops_def http_inbox_def down_answers_def http_uploads_def upload_url_def)

text \<open>MTProto runs on it through the obfuscation layer.\<close>

interpretation obf_https: obf_reader "carrier_ReadFull https_ops" hc.carrier_pend C for C
  by unfold_locales

text \<open>Over HTTPS: the URL of the origin parses and every answer to a download is a 200 or 204 with
  a body that reads.\<close>

definition answers_well :: "goerr + reply \<Rightarrow> bool" where
  "answers_well a \<longleftrightarrow> (case a of Inl e \<Rightarrow> False
     | Inr rp \<Rightarrow> (rp_StatusCode rp = 200 \<or> rp_StatusCode rp = 204) \<and> (case read_body rp of Inl e \<Rightarrow> False | Inr body \<Rightarrow> True))"

definition http_ready :: "httpCarrier carrier \<Rightarrow> bool" where
  "http_ready c \<longleftrightarrow> url_parse (rl_origin c @ ''/api/v1/down'') \<noteq> None \<and> list_all answers_well (down_answers c)"


lemma http_receive_ready:
  assumes "http_ready (chan w)" "http_inbox (chan w) = (body, lane) # rest"
  shows "\<exists>w'. http_receive d w = (Inr body, w') \<and> http_ready (chan w')"
proof -
  let ?c = "chan w"
  obtain req where req: "down_request ?c = Inr req"
    using assms(1) by (auto simp: http_ready_def down_request_def newAPIRequest_def new_request_def)
  note q = down_request_Inr [OF req]
  obtain resp rs where a: "down_answers ?c = Inr resp # rs" and ok: "rp_StatusCode resp = 200 \<or> rp_StatusCode resp = 204"
    and b: "read_body resp = Inr body" and rs: "list_all answers_well rs"
  proof (cases "down_answers ?c")
    case Nil
    with assms(2) show ?thesis by (simp add: http_inbox_def)
  next
    case (Cons x xs)
    with assms show ?thesis using that
      by (cases x) (auto simp: http_ready_def answers_well_def http_inbox_def split: sum.splits if_splits)
  qed
  obtain w1 where 1: "on_chan (on_client (client_do req)) w = (Inr resp, w1)"
    using a q by (simp add: on_chan_def on_client_def client_do_def down_answers_def)
  have "\<exists>w'. http_receive d w = (Inr body, w')"
    using req 1 b ok by (simp add: http_receive_def io_bind_Inr Let_def upd_h_def)
  then obtain w' where w': "http_receive d w = (Inr body, w')" by blast
  have "rl_origin (chan w') = rl_origin ?c \<and> down_answers (chan w') = rs"
    using w' req a q ok b by (auto simp: http_receive_def io_bind_Inr Let_def upd_h_def on_chan_def on_client_def client_do_def down_answers_def)
  with rs assms(1) w' show ?thesis by (auto simp: http_ready_def)
qed

interpretation prompt_https: prompt_transport https_ops http_inbox http_uploads http_ready
proof (unfold_locales, goal_cases)
  case (1 w body lane rest d)
  then show ?case using http_receive_ready by (simp add: https_ops_def)
next
  case (2 w d p r w')
  then show ?case using http_send_effect [of d p w r w'] by (simp add: https_ops_def http_same_def http_ready_def)
qed (simp add: http_ready_def down_answers_def)

text \<open>The stream of the specification.\<close>

lemma https_stream: "hc.carrier_pend = relay_pending http_inbox" "hc.carrier_sent = relay_sent http_uploads"
  by (rule ext, simp only: hc.carrier_pend_def hc.carrier_sent_def relay_pending_def relay_sent_def)+

end
