(* ===== verification/Websocket.thy ===== *)
theory Websocket
  imports Carrier
begin

text \<open>
  \<open>internal/webproxy/websocket.go\<close>: the minimal RFC 6455 client, masked frames towards the
  relay, messages with control frames in between from it, and the upgrade handshake.
  \<open>http.ReadResponse\<close> is a parameter \<open>readResponse\<close> on the connection.
\<close>

definition wsGUID :: string where "wsGUID = ''258EAFA5-E914-47DA-95CA-C5AB0DC85B11''"

definition opContinuation :: byte where "opContinuation = 0x0"
definition opText :: byte where "opText = 0x1"
definition opBinary :: byte where "opBinary = 0x2"
definition opClose :: byte where "opClose = 0x8"
definition opPing :: byte where "opPing = 0x9"
definition opPong :: byte where "opPong = 0xA"

record wsCarrier =
  ws_conn :: conn
  ws_timeout :: int

section \<open>Frames\<close>

definition ws_mask :: "bytes \<Rightarrow> bytes \<Rightarrow> bytes" where
  "ws_mask mkey payload = map (\<lambda>i. payload ! i XOR mkey ! (i mod 4)) [0..<length payload]"

definition ws_header :: "byte \<Rightarrow> nat \<Rightarrow> bytes" where
  "ws_header opcode n =
     (0x80 OR opcode) #
     (if n < 126 then [0x80 OR word_of_nat n]
      else if n \<le> 0xFFFF then (0x80 OR 126) # be_bytes 2 n
      else (0x80 OR 127) # be_bytes 8 n)"

definition on_socket :: "(conn, 'a) io \<Rightarrow> (wsCarrier cworld, 'a) io" where
  "on_socket m = (\<lambda>w. let c = chan w; s = cr_transport c in
     case m (ws_conn s) of (r, conn) \<Rightarrow> (r, w\<lparr>chan := c\<lparr>cr_transport := s\<lparr>ws_conn := conn\<rparr>\<rparr>\<rparr>))"

definition writeMessage :: "byte \<Rightarrow> bytes \<Rightarrow> (wsCarrier cworld, unit) io" where
  "writeMessage opcode payload =
     io_bind (randomBytes 4) (\<lambda>mkey.
     on_socket (conn_write (ws_header opcode (length payload) @ mkey @ ws_mask mkey payload)))"

definition ws_length :: "byte \<Rightarrow> (conn, nat) io" where
  "ws_length second =
     (let n = unat (second AND 0x7F) in
      if n = 126 then io_bind (conn_read_full 2) (\<lambda>extended. io_return (be_nat extended))
      else if n = 127 then io_bind (conn_read_full 8) (\<lambda>extended. io_return (be_nat extended))
      else io_return n)"

definition readFrame :: "(conn, byte \<times> bytes \<times> bool) io" where
  "readFrame =
     io_bind (conn_read_full 2) (\<lambda>header.
     let final = (header ! 0 AND 0x80 \<noteq> 0); opcode = header ! 0 AND 0x0F; masked = (header ! 1 AND 0x80 \<noteq> 0) in
     io_bind (ws_length (header ! 1)) (\<lambda>n.
     if n > maxBodyBytes then io_fail (ErrText (''WebSocket message of '' @ dec_nat n @ '' bytes is too large''))
     else io_bind (if masked then conn_read_full 4 else io_return [0, 0, 0, 0]) (\<lambda>mkey.
       io_bind (conn_read_full n) (\<lambda>payload.
       io_return (opcode, if masked then ws_mask mkey payload else payload, final)))))"

section \<open>Messages\<close>

definition applyDeadline :: "int \<Rightarrow> (wsCarrier cworld, unit) io" where
  "applyDeadline deadline = on_socket (io_modify (conn_set_deadline deadline))"

definition ws_send :: "int \<Rightarrow> bytes \<Rightarrow> (wsCarrier cworld, unit) io" where
  "ws_send deadline frames =
     (if frames = [] then io_return ()
      else io_seq (applyDeadline deadline) (writeMessage opBinary frames))"

text \<open>The loop of \<open>receive\<close>: every turn reads one frame off the input, so its length is
  fuel enough.\<close>

fun receive_loop :: "nat \<Rightarrow> bytes \<Rightarrow> (wsCarrier cworld, bytes) io" where
  "receive_loop 0 message = io_fail (ErrPanic ''fuel'')"
| "receive_loop (Suc fuel) message =
     io_bind (on_socket readFrame) (\<lambda>(opcode, payload, final).
     if opcode = opPing then io_seq (writeMessage opPong payload) (receive_loop fuel message)
     else if opcode = opPong then receive_loop fuel message
     else if opcode = opClose then io_fail ErrEOF
     else if opcode = opText then io_fail (ErrText ''relay sent a text message'')
     else if final then io_return (message @ payload)
     else receive_loop fuel (message @ payload))"

definition ws_incoming :: "wsCarrier carrier \<Rightarrow> bytes" where
  "ws_incoming c = incoming (ws_conn (cr_transport c))"

definition ws_receive :: "int \<Rightarrow> (wsCarrier cworld, bytes) io" where
  "ws_receive deadline =
     io_seq (applyDeadline deadline)
     (io_bind (get_c ws_incoming) (\<lambda>input. receive_loop (Suc (length input)) []))"

definition ws_close :: "(wsCarrier cworld, unit) io" where
  "ws_close = io_bind (io_try (writeMessage opClose [0x03, 0xE8])) (\<lambda>_. io_return ())"

definition websocket_ops :: "wsCarrier ops" where
  "websocket_ops = \<lparr>ct_send = ws_send, ct_receive = ws_receive, ct_close = ws_close,
     ct_left = (\<lambda>c. length (ws_incoming c))\<rparr>"

section \<open>The upgrade\<close>

definition acceptKey :: "crypto \<Rightarrow> string \<Rightarrow> string" where
  "acceptKey C nonce = b64_encode False (sha1 C (str_bytes (nonce @ wsGUID)))"

definition crlf :: string where "crlf = [CHR 0x0D, CHR 0x0A]"

text \<open>The next socket of the environment: a refused dial, or a connection with the outcome of its
  TLS handshake.\<close>

definition next_socket :: "('r relay_scheme, goerr option \<times> conn) io" where
  "next_socket = (\<lambda>c. case cl_sockets (rl_client c) of
       [] \<Rightarrow> (Inl (ErrNet False ''network is unreachable'' None), c)
     | s # ss \<Rightarrow> (s, c\<lparr>rl_client := (rl_client c)\<lparr>cl_sockets := ss\<rparr>\<rparr>))"

definition run_on :: "'c \<Rightarrow> ('c, 'a) io \<Rightarrow> ('w, 'a \<times> 'c) io" where
  "run_on c m = io_lift (case m c of (Inl e, c') \<Rightarrow> Inl e | (Inr x, c') \<Rightarrow> Inr (x, c'))"

definition subprotocol :: "'r relay_scheme \<Rightarrow> string" where
  "subprotocol c =
     (if rl_mode c = ''websocket-lanes'' then ''tproxy-lane-v1.'' @ rl_session c @ ''.'' @ dec_nat (unat streamID)
      else ''tproxy-v1.'' @ rl_session c)"

definition upgrade_request :: "'r relay_scheme \<Rightarrow> string \<Rightarrow> string" where
  "upgrade_request c nonce = join crlf
     [''GET /api/v1/ws HTTP/1.1'', ''Host: '' @ rl_host c, ''Upgrade: websocket'', ''Connection: Upgrade'',
      ''Sec-WebSocket-Key: '' @ nonce, ''Sec-WebSocket-Version: 13'', ''Sec-WebSocket-Protocol: '' @ subprotocol c,
      ''Origin: '' @ rl_origin c, ''User-Agent: '' @ userAgent, [], []]"

definition dialWebSocket :: "crypto \<Rightarrow> (conn, reply) io \<Rightarrow> (('r relay_scheme) world, wsCarrier) io" where
  "dialWebSocket C readResponse =
     (let fail1 = (\<lambda>e. failure WebSession (ErrWrap [] e)) in
      io_bind (io_map_err fail1 (on_chan next_socket)) (\<lambda>(tls, conn).
      io_seq (io_map_err (\<lambda>e. failure WebSession (ErrWrap ''TLS handshake: '' e)) (io_lift (case tls of None \<Rightarrow> Inr () | Some e \<Rightarrow> Inl e)))
     (io_bind (io_gets chan) (\<lambda>c.
      io_bind time_now (\<lambda>now.
      io_bind (io_map_err fail1 (randomBytes 16)) (\<lambda>key.
      let nonce = b64_encode False key in
      io_bind (io_map_err fail1 (run_on (conn_set_deadline (now + rl_timeout c) conn) (conn_write (str_bytes (upgrade_request c nonce))))) (\<lambda>(_, conn).
      io_bind (io_map_err (\<lambda>e. failure WebSession (ErrWrap ''reading the upgrade answer: '' e)) (run_on conn readResponse)) (\<lambda>(resp, conn).
      if rp_StatusCode resp \<noteq> 101 then io_fail (failure WebSession (ErrText (''WebSocket upgrade answered '' @ rp_Status resp)))
      else if header_get resp ''Sec-Websocket-Accept'' \<noteq> acceptKey C nonce
      then io_fail (failure WebSession (ErrText ''wrong Sec-WebSocket-Accept''))
      else if header_get resp ''Sec-Websocket-Protocol'' \<noteq> subprotocol c
      then io_fail (failure WebSession (ErrText (''relay echoed subprotocol '' @ quote (header_get resp ''Sec-Websocket-Protocol''))))
      else io_return \<lparr>ws_conn = conn, ws_timeout = rl_timeout c\<rparr>))))))))"

section \<open>Frames on the wire\<close>

text \<open>A frame as either side may write it: final or not, masked with a key or not.\<close>

definition ws_wire :: "bool \<Rightarrow> byte \<Rightarrow> bytes option \<Rightarrow> bytes \<Rightarrow> bytes" where
  "ws_wire final opcode key payload =
     ((if final then 0x80 OR opcode else opcode) #
      (let m = (case key of None \<Rightarrow> 0 | Some k \<Rightarrow> 0x80); n = length payload in
       if n < 126 then [m OR word_of_nat n] else if n \<le> 0xFFFF then (m OR 126) # be_bytes 2 n else (m OR 127) # be_bytes 8 n)
      @ (case key of None \<Rightarrow> payload | Some k \<Rightarrow> k @ ws_mask k payload))"

lemma length_ws_mask [simp]: "length (ws_mask k p) = length p"
  by (simp add: ws_mask_def)

lemma ws_mask_involution: "ws_mask k (ws_mask k p) = p"
  by (rule nth_equalityI) (simp_all add: ws_mask_def xor.assoc)

lemma writeMessage_wire:
  "ws_header opcode (length p) @ k @ ws_mask k p = ws_wire True opcode (Some k) p"
  by (simp add: ws_header_def ws_wire_def Let_def)

text \<open>The second byte of a frame: the mask bit and seven bits of length.\<close>

lemma high_bit: obtains h :: byte where "0x80 = h" "\<And>i. bit h i \<longleftrightarrow> i = 7"
proof
  show "0x80 = (push_bit 7 1 :: byte)" by simp
  show "bit (push_bit 7 1 :: byte) i \<longleftrightarrow> i = 7" for i
    by (auto simp only: bit_push_bit_iff bit_1_iff) auto
qed

lemma low_mask: "(x :: byte) AND 0x7F = take_bit 7 x" "x AND 0x0F = take_bit 4 x"
  by (simp_all add: take_bit_eq_mask mask_eq_exp_minus_1)

lemma second_byte:
  assumes "n < 128" and "m = 0 \<or> m = 0x80"
  shows "unat ((m OR word_of_nat n :: byte) AND 0x7F) = n" "((m OR word_of_nat n :: byte) AND 0x80 \<noteq> 0) = (m = 0x80)"
proof -
  define v where "v = (word_of_nat n :: byte)"
  have u: "unat v = n" using assms(1) by (simp add: v_def unat_of_nat)
  then have "take_bit 7 v = v"
    using assms(1) by (simp add: word_unat_eq_iff unsigned_take_bit_eq take_bit_nat_eq_self)
  then have hb: "i < 7" if "bit v i" for i using that by (metis bit_take_bit_iff)
  obtain h :: byte where h: "0x80 = h" "\<And>i. bit h i \<longleftrightarrow> i = 7" using high_bit by blast
  have m: "m = 0 \<or> m = h" using assms(2) by (simp only: h(1))
  have "take_bit 7 (m OR v) = v"
    using m h(2) by (intro bit_word_eqI) (auto simp: bit_take_bit_iff bit_or_iff dest: hb)
  then show "unat ((m OR word_of_nat n :: byte) AND 0x7F) = n" using u unfolding low_mask v_def [symmetric] by (simp only:)
  have n7: "\<not> bit v 7" using hb [of 7] by auto
  have "v AND h = 0" "(h OR v) AND h = h"
    using h(2) n7 by (auto intro!: bit_word_eqI simp: bit_and_iff bit_or_iff)
  moreover have "h \<noteq> 0" using h(2) [of 7] by auto
  ultimately show "((m OR word_of_nat n :: byte) AND 0x80 \<noteq> 0) = (m = 0x80)"
    using m unfolding h(1) v_def [symmetric] by auto
qed

lemma first_byte:
  assumes "unat (opcode :: byte) < 16"
  shows "(if final then 0x80 OR opcode else opcode) AND 0x0F = opcode" "((if final then 0x80 OR opcode else opcode) AND 0x80 \<noteq> 0) = final"
proof -
  have "take_bit 4 opcode = opcode"
    using assms by (simp add: word_unat_eq_iff unsigned_take_bit_eq take_bit_nat_eq_self)
  then have hb: "i < 4" if "bit opcode i" for i using that by (metis bit_take_bit_iff)
  obtain h :: byte where h: "0x80 = h" "\<And>i. bit h i \<longleftrightarrow> i = 7" using high_bit by blast
  have "take_bit 4 (if final then h OR opcode else opcode) = opcode"
    using h(2) by (intro bit_word_eqI) (auto simp: bit_take_bit_iff bit_or_iff dest: hb)
  then show "(if final then 0x80 OR opcode else opcode) AND 0x0F = opcode" by (simp only: low_mask h(1))
  have n7: "\<not> bit opcode 7" using hb [of 7] by auto
  have "opcode AND h = 0" "(h OR opcode) AND h = h"
    using h(2) n7 by (auto intro!: bit_word_eqI simp: bit_and_iff bit_or_iff)
  moreover have "h \<noteq> 0" using h(2) [of 7] by auto
  ultimately show "((if final then 0x80 OR opcode else opcode) AND 0x80 \<noteq> 0) = final" unfolding h(1) by auto
qed

lemma conn_read_prefix: "incoming c = p @ rest \<Longrightarrow> n = length p \<Longrightarrow> conn_read_full n c = (Inr p, c\<lparr>incoming := rest\<rparr>)"
  by (simp add: conn_read_full_def)

lemma ws_length_reads:
  assumes "incoming c = (if n < 126 then [] else if n \<le> 0xFFFF then be_bytes 2 n else be_bytes 8 n) @ rest" "n < 2 ^ 64" "m = 0 \<or> m = 0x80"
  shows "ws_length (m OR (if n < 126 then word_of_nat n else if n \<le> 0xFFFF then 126 else 127)) c = (Inr n, c\<lparr>incoming := rest\<rparr>)"
proof -
  consider "n < 126" | "\<not> n < 126" "n \<le> 0xFFFF" | "\<not> n < 126" "\<not> n \<le> 0xFFFF" by blast
  then show ?thesis
  proof cases
    case 1
    with assms(1) have i: "c\<lparr>incoming := rest\<rparr> = c" by simp
    have "unat ((m OR word_of_nat n) AND 0x7F) = n" using second_byte(1) [of n m] 1 assms(3) by simp
    with 1 i show ?thesis by (simp add: ws_length_def)
  next
    case 2
    have u: "unat ((m OR 126) AND 0x7F) = 126" using second_byte(1) [of 126 m] assms(3) by simp
    have "incoming c = be_bytes 2 n @ rest" using 2 assms(1) by simp
    from conn_read_prefix [OF this, of 2] 2 u show ?thesis by (simp add: ws_length_def io_bind_Inr be_nat_be_bytes)
  next
    case 3
    have u: "unat ((m OR 127) AND 0x7F) = 127" using second_byte(1) [of 127 m] assms(3) by simp
    have "incoming c = be_bytes 8 n @ rest" using 3 assms(1) by simp
    from conn_read_prefix [OF this, of 8] 3 u assms(2) show ?thesis by (simp add: ws_length_def io_bind_Inr be_nat_be_bytes)
  qed
qed

lemma readFrame_wire:
  assumes "incoming c = ws_wire final opcode key p @ rest" and "unat opcode < 16" "length p \<le> maxBodyBytes"
    and "\<And>k. key = Some k \<Longrightarrow> length k = 4"
  shows "readFrame c = (Inr (opcode, p, final), c\<lparr>incoming := rest\<rparr>)"
proof -
  let ?n = "length p"
  define m where "m = (case key of None \<Rightarrow> (0 :: byte) | Some k \<Rightarrow> 0x80)"
  define b0 where "b0 = (if final then 0x80 OR opcode else opcode)"
  define b1 where "b1 = m OR (if ?n < 126 then word_of_nat ?n else if ?n \<le> 0xFFFF then 126 else 127)"
  define ext where "ext = (if ?n < 126 then [] else if ?n \<le> 0xFFFF then be_bytes 2 ?n else be_bytes 8 ?n)"
  define body where "body = (case key of None \<Rightarrow> p | Some k \<Rightarrow> k @ ws_mask k p)"
  have m: "m = 0 \<or> m = 0x80" "m = 0x80 \<longleftrightarrow> key \<noteq> None" by (auto simp: m_def split: option.splits)
  have "incoming c = [b0, b1] @ ext @ body @ rest"
    using assms(1) by (auto simp: ws_wire_def Let_def b0_def b1_def ext_def body_def m_def)
  then have 1: "conn_read_full 2 c = (Inr [b0, b1], c\<lparr>incoming := ext @ body @ rest\<rparr>)" by (rule conn_read_prefix) simp
  have "?n < 2 ^ 64" using assms(3) by (simp add: maxBodyBytes_def)
  then have 2: "ws_length b1 (c\<lparr>incoming := ext @ body @ rest\<rparr>) = (Inr ?n, c\<lparr>incoming := body @ rest\<rparr>)"
    using ws_length_reads [of "c\<lparr>incoming := ext @ body @ rest\<rparr>" ?n "body @ rest" m] m(1) by (simp add: b1_def ext_def)
  have b1: "(b1 AND 0x80 \<noteq> 0) = (key \<noteq> None)"
    using second_byte(2) [of "if ?n < 126 then ?n else if ?n \<le> 0xFFFF then 126 else 127" m] m by (auto simp: b1_def split: if_splits)
  have b0: "b0 AND 0x0F = opcode" "(b0 AND 0x80 \<noteq> 0) = final" unfolding b0_def by (rule first_byte [OF assms(2)])+
  show ?thesis
  proof (cases key)
    case None
    have "conn_read_full ?n (c\<lparr>incoming := p @ rest\<rparr>) = (Inr p, c\<lparr>incoming := rest\<rparr>)"
      using conn_read_prefix [of "c\<lparr>incoming := p @ rest\<rparr>" p rest] by simp
    with 1 2 b0 b1 None assms(3) show ?thesis by (simp add: readFrame_def io_bind_Inr body_def Let_def)
  next
    case (Some k)
    have "conn_read_full 4 (c\<lparr>incoming := k @ ws_mask k p @ rest\<rparr>) = (Inr k, c\<lparr>incoming := ws_mask k p @ rest\<rparr>)"
      using conn_read_prefix [of "c\<lparr>incoming := k @ ws_mask k p @ rest\<rparr>" k] assms(4) [OF Some] by simp
    moreover have "conn_read_full ?n (c\<lparr>incoming := ws_mask k p @ rest\<rparr>) = (Inr (ws_mask k p), c\<lparr>incoming := rest\<rparr>)"
      using conn_read_prefix [of "c\<lparr>incoming := ws_mask k p @ rest\<rparr>" "ws_mask k p" rest] by simp
    ultimately show ?thesis using 1 2 b0 b1 Some assms(3)
      by (simp add: readFrame_def io_bind_Inr body_def Let_def ws_mask_involution)
  qed
qed

section \<open>The messages of an input\<close>

text \<open>A computation that looks at nothing of a connection but its input.\<close>

definition input_only :: "(conn, 'a) io \<Rightarrow> bool" where
  "input_only m \<longleftrightarrow> (\<forall>c (c2 :: conn) x c'. m c = (Inr x, c') \<and> incoming c2 = incoming c \<longrightarrow> m c2 = (Inr x, c2\<lparr>incoming := incoming c'\<rparr>))"

lemma input_onlyD: fixes c c2 :: conn shows "input_only m \<Longrightarrow> m c = (Inr x, c') \<Longrightarrow> incoming c2 = incoming c \<Longrightarrow> m c2 = (Inr x, c2\<lparr>incoming := incoming c'\<rparr>)"
  unfolding input_only_def by blast

named_theorems input_intros "computations on the input of a connection"

lemma input_basic [input_intros]: "input_only (io_return x)" "input_only (io_fail e)"
  by (auto simp: input_only_def)

lemma input_read [input_intros]: "input_only (conn_read_full n)"
  by (auto simp: input_only_def conn_read_full_def split: if_splits)

lemma input_bind [input_intros]:
  assumes "input_only m" "\<And>x. input_only (k x)"
  shows "input_only (io_bind m k)"
  unfolding input_only_def
proof (intro allI impI, elim conjE)
  fix c c2 :: conn and y c' assume b: "io_bind m k c = (Inr y, c')" and i: "incoming c2 = incoming c"
  then obtain x c1 where m: "m c = (Inr x, c1)" "k x c1 = (Inr y, c')" by (auto simp: io_bind_eq_Inr)
  have "m c2 = (Inr x, c2\<lparr>incoming := incoming c1\<rparr>)" by (rule input_onlyD [OF assms(1) m(1) i])
  moreover have "k x (c2\<lparr>incoming := incoming c1\<rparr>) = (Inr y, c2\<lparr>incoming := incoming c'\<rparr>)"
    using input_onlyD [OF assms(2) m(2), of "c2\<lparr>incoming := incoming c1\<rparr>"] by simp
  ultimately show "io_bind m k c2 = (Inr y, c2\<lparr>incoming := incoming c'\<rparr>)" by (simp add: io_bind_Inr)
qed

lemma input_if [input_intros]: "input_only m \<Longrightarrow> input_only n \<Longrightarrow> input_only (if b then m else n)"
  by simp

lemma readFrame_input: "input_only readFrame"
  unfolding readFrame_def ws_length_def Let_def by (intro input_intros)

lemma readFrame_shortens: "readFrame c = (Inr x, c') \<Longrightarrow> length (incoming c') < length (incoming c)"
proof -
  assume r: "readFrame c = (Inr x, c')"
  have mono: "length (incoming c2) \<le> length (incoming c1)" if "conn_read_full n c1 = (Inr y, c2)" for n y and c1 c2 :: conn
    using conn_read_full_length [OF that] .
  from r obtain h c1 where 1: "conn_read_full 2 c = (Inr h, c1)" by (auto simp: readFrame_def io_bind_eq_Inr)
  have s: "length (incoming c1) < length (incoming c)"
    using 1 by (auto simp: conn_read_full_def split: if_splits)
  obtain n c2 where 2: "ws_length (h ! 1) c1 = (Inr n, c2)" using r 1
    by (auto simp: readFrame_def io_bind_eq_Inr io_bind_Inr Let_def)
  have l2: "length (incoming c2) \<le> length (incoming c1)"
    using 2 by (auto simp: ws_length_def Let_def io_bind_eq_Inr split: if_splits dest!: mono)
  obtain k c3 where 3: "(if h ! 1 AND 0x80 \<noteq> 0 then conn_read_full 4 else io_return [0, 0, 0, 0]) c2 = (Inr k, c3)"
    and 4: "\<exists>p. conn_read_full n c3 = (Inr p, c')"
    using r 1 2 by (auto simp: readFrame_def io_bind_eq_Inr io_bind_Inr Let_def split: if_splits)
  have "length (incoming c3) \<le> length (incoming c2)" using 3 by (auto split: if_splits dest: mono)
  with 4 s l2 show ?thesis by (auto dest!: mono)
qed

text \<open>The first frame of an input, and the messages it holds.\<close>

definition input_conn :: "bytes \<Rightarrow> conn" where
  "input_conn bs = \<lparr>incoming = bs, ending = ErrEOF, outgoing = [], wleft = 0, werr = ErrEOF, deadlines = []\<rparr>"

definition ws_parse :: "bytes \<Rightarrow> ((byte \<times> bytes \<times> bool) \<times> bytes) option" where
  "ws_parse bs = (case readFrame (input_conn bs) of (Inr x, c') \<Rightarrow> Some (x, incoming c') | (Inl e, c') \<Rightarrow> None)"

lemma ws_parse_shortens: "ws_parse bs = Some (x, rest) \<Longrightarrow> length rest < length bs"
  by (auto simp: ws_parse_def input_conn_def split: prod.splits sum.splits dest: readFrame_shortens)

lemma readFrame_parse: "readFrame c = (Inr x, c') \<Longrightarrow> ws_parse (incoming c) = Some (x, incoming c') \<and> c' = c\<lparr>incoming := incoming c'\<rparr>"
proof -
  assume r: "readFrame c = (Inr x, c')"
  have "readFrame (input_conn (incoming c)) = (Inr x, (input_conn (incoming c))\<lparr>incoming := incoming c'\<rparr>)"
    by (rule input_onlyD [OF readFrame_input r]) (simp add: input_conn_def)
  then have "ws_parse (incoming c) = Some (x, incoming c')" by (simp add: ws_parse_def)
  moreover have "readFrame c = (Inr x, c\<lparr>incoming := incoming c'\<rparr>)" by (rule input_onlyD [OF readFrame_input r refl])
  ultimately show ?thesis using r by simp
qed

function ws_messages :: "bytes \<Rightarrow> bytes \<Rightarrow> bytes list" where
  "ws_messages message bs = (case ws_parse bs of
      None \<Rightarrow> []
    | Some ((opcode, payload, final), rest) \<Rightarrow>
        if opcode = opPing \<or> opcode = opPong then ws_messages message rest
        else if opcode = opClose \<or> opcode = opText then []
        else if final then (message @ payload) # ws_messages [] rest
        else ws_messages (message @ payload) rest)"
  by pat_completeness auto
termination by (relation "measure (length \<circ> snd)") (auto dest: ws_parse_shortens)

declare ws_messages.simps [simp del]

definition ws_inbox :: "wsCarrier carrier \<Rightarrow> (bytes \<times> bool) list" where
  "ws_inbox c = map (\<lambda>m. (m, False)) (ws_messages [] (ws_incoming c))"

text \<open>The binary messages among the writes.\<close>

definition ws_taken :: "bytes \<Rightarrow> bytes list" where
  "ws_taken written = (case written of
      a # b # rest \<Rightarrow>
        if a = 0x82 then
          let n = unat (b AND 0x7F); body = drop (if n = 126 then 2 else if n = 127 then 8 else 0) rest
          in [ws_mask (take 4 body) (drop 4 body)]
        else []
    | _ \<Rightarrow> [])"

definition ws_uploads :: "wsCarrier carrier \<Rightarrow> bytes list" where
  "ws_uploads c = concat (map ws_taken (outgoing (ws_conn (cr_transport c))))"

lemma ws_taken_wire:
  assumes "length k = 4" "unat opcode < 16"
  shows "ws_taken (ws_header opcode (length p) @ k @ ws_mask k p) = (if opcode = opBinary then [p] else [])"
proof -
  let ?n = "length p"
  have "(0x80 OR opcode = 0x82) = (opcode = opBinary)"
  proof
    assume "0x80 OR opcode = 0x82"
    then have "(0x80 OR opcode) AND 0x0F = 0x82 AND 0x0F" by simp
    then show "opcode = opBinary" using first_byte(1) [OF assms(2), of True] by (simp add: opBinary_def)
  qed (simp add: opBinary_def)
  moreover have "unat ((0x80 OR word_of_nat (if ?n < 126 then ?n else if ?n \<le> 0xFFFF then 126 else 127) :: byte) AND 0x7F)
      = (if ?n < 126 then ?n else if ?n \<le> 0xFFFF then 126 else 127)"
    by (rule second_byte(1)) auto
  ultimately show ?thesis using assms(1)
    by (auto simp: ws_taken_def ws_header_def Let_def ws_mask_involution split: if_splits)
qed

lemma opcodes_small: "unat opBinary < 16" "unat opPong < 16" "unat opClose < 16" "opPong \<noteq> opBinary"
  by (simp_all add: opBinary_def opPong_def opClose_def)

definition ws_same :: "wsCarrier carrier \<Rightarrow> wsCarrier carrier \<Rightarrow> bool" where
  "ws_same c c' \<longleftrightarrow> stream_part c' = stream_part c \<and> ws_incoming c' = ws_incoming c"

lemma writeMessage_effect:
  assumes "writeMessage opcode p w = (r, w')" "unat opcode < 16"
  shows "ws_same (chan w) (chan w') \<and> ws_uploads (chan w') = ws_uploads (chan w) @ (if r = Inr () \<and> opcode = opBinary then [p] else [])"
proof (cases "4 \<le> length (entropy w)")
  case False
  with assms(1) have "chan w' = chan w \<and> r \<noteq> Inr ()" by (auto simp: writeMessage_def randomBytes_def io_bind_def)
  then show ?thesis by (simp add: ws_same_def)
next
  case True
  let ?k = "take 4 (entropy w)" and ?w1 = "w\<lparr>entropy := drop 4 (entropy w)\<rparr>"
  have r: "randomBytes 4 w = (Inr ?k, ?w1)" using True by (rule randomBytes_ok)
  let ?m = "ws_header opcode (length p) @ ?k @ ws_mask ?k p"
  obtain q conn where c: "conn_write ?m (ws_conn (cr_transport (chan w))) = (q, conn)" by fastforce
  have w': "r = q" "chan w' = (chan w)\<lparr>cr_transport := (cr_transport (chan w))\<lparr>ws_conn := conn\<rparr>\<rparr>"
    using assms(1) r c by (auto simp: writeMessage_def io_bind_Inr on_socket_def Let_def)
  have t: "ws_taken ?m = (if opcode = opBinary then [p] else [])" using True by (intro ws_taken_wire assms(2)) simp
  from w' c conn_write_frame [OF c] t show ?thesis
    by (cases "wleft (ws_conn (cr_transport (chan w)))")
      (auto simp: ws_same_def stream_part_def ws_incoming_def ws_uploads_def conn_write_def)
qed

lemma applyDeadline_effect:
  "\<exists>w'. applyDeadline d w = (Inr (), w') \<and> ws_same (chan w) (chan w') \<and> ws_uploads (chan w') = ws_uploads (chan w)"
  by (simp add: applyDeadline_def on_socket_def Let_def ws_same_def stream_part_def ws_incoming_def ws_uploads_def conn_set_deadline_def)

lemma ws_send_effect:
  assumes "ws_send d p w = (r, w')"
  shows "ws_same (chan w) (chan w') \<and> ws_uploads (chan w') = ws_uploads (chan w) @ (if r = Inr () \<and> p \<noteq> [] then [p] else [])"
proof (cases "p = []")
  case True
  with assms show ?thesis by (simp add: ws_send_def ws_same_def)
next
  case False
  obtain w1 where 1: "applyDeadline d w = (Inr (), w1)" "ws_same (chan w) (chan w1)" "ws_uploads (chan w1) = ws_uploads (chan w)"
    using applyDeadline_effect by blast
  then have "writeMessage opBinary p w1 = (r, w')" using assms False by (simp add: ws_send_def io_seq_def io_bind_Inr)
  from writeMessage_effect [OF this opcodes_small(1)] 1 False show ?thesis by (simp add: ws_same_def)
qed

lemma receive_loop_next:
  "receive_loop fuel message w = (Inr body, w') \<Longrightarrow>
     ws_messages message (ws_incoming (chan w)) = body # ws_messages [] (ws_incoming (chan w'))
     \<and> stream_part (chan w') = stream_part (chan w) \<and> ws_uploads (chan w') = ws_uploads (chan w)
     \<and> length (ws_incoming (chan w')) < length (ws_incoming (chan w))"
proof (induction fuel arbitrary: message w)
  case 0
  then show ?case by simp
next
  case (Suc fuel)
  obtain opcode payload final w1 where 1: "on_socket readFrame w = (Inr (opcode, payload, final), w1)"
    and rest: "(if opcode = opPing then io_seq (writeMessage opPong payload) (receive_loop fuel message)
     else if opcode = opPong then receive_loop fuel message
     else if opcode = opClose then io_fail ErrEOF
     else if opcode = opText then io_fail (ErrText ''relay sent a text message'')
     else if final then io_return (message @ payload)
     else receive_loop fuel (message @ payload)) w1 = (Inr body, w')"
    using Suc.prems by (auto simp: io_bind_eq_Inr)
  obtain conn where c: "readFrame (ws_conn (cr_transport (chan w))) = (Inr (opcode, payload, final), conn)"
    "w1 = w\<lparr>chan := (chan w)\<lparr>cr_transport := (cr_transport (chan w))\<lparr>ws_conn := conn\<rparr>\<rparr>\<rparr>"
    using 1 by (auto simp: on_socket_def Let_def split: prod.splits)
  from readFrame_parse [OF c(1)] have p: "ws_parse (ws_incoming (chan w)) = Some ((opcode, payload, final), ws_incoming (chan w1))"
    and cc: "conn = (ws_conn (cr_transport (chan w)))\<lparr>incoming := incoming conn\<rparr>" by (simp_all add: c(2) ws_incoming_def)
  have "outgoing conn = outgoing (ws_conn (cr_transport (chan w)))" using cc by (metis conn.select_convs(3) conn.surjective conn.update_convs(1))
  then have s: "stream_part (chan w1) = stream_part (chan w)" "ws_uploads (chan w1) = ws_uploads (chan w)"
    by (simp_all add: c(2) stream_part_def ws_uploads_def)
  have len: "length (ws_incoming (chan w1)) < length (ws_incoming (chan w))" by (rule ws_parse_shortens [OF p])
  note m = ws_messages.simps [of message "ws_incoming (chan w)", unfolded p option.case prod.case]
  consider "opcode = opPing" | "opcode \<noteq> opPing" "opcode = opPong" | "opcode \<noteq> opPing" "opcode \<noteq> opPong" "opcode = opClose \<or> opcode = opText"
    | "opcode \<noteq> opPing" "opcode \<noteq> opPong" "\<not> (opcode = opClose \<or> opcode = opText)" "final"
    | "opcode \<noteq> opPing" "opcode \<noteq> opPong" "\<not> (opcode = opClose \<or> opcode = opText)" "\<not> final" by blast
  then show ?case
  proof cases
    case 1
    obtain w2 where 2: "writeMessage opPong payload w1 = (Inr (), w2)" "receive_loop fuel message w2 = (Inr body, w')"
      using rest 1 by (auto simp: io_seq_def io_bind_eq_Inr)
    note e = writeMessage_effect [OF 2(1) opcodes_small(2)]
    from Suc.IH [OF 2(2)] e m 1 s len opcodes_small(4) show ?thesis by (simp add: ws_same_def)
  next
    case 2
    with rest have "receive_loop fuel message w1 = (Inr body, w')" by simp
    from Suc.IH [OF this] m 2 s len show ?thesis by simp
  next
    case 3
    with rest show ?thesis by (auto split: if_splits)
  next
    case 4
    with rest have "body = message @ payload" "w' = w1" by auto
    with m 4 s len show ?thesis by simp
  next
    case 5
    with rest have "receive_loop fuel (message @ payload) w1 = (Inr body, w')" by simp
    from Suc.IH [OF this] m 5 s len show ?thesis by simp
  qed
qed

lemma ws_receive_next:
  assumes "ws_receive d w = (Inr body, w')"
  shows "ws_inbox (chan w) = (body, False) # ws_inbox (chan w') \<and> ws_uploads (chan w') = ws_uploads (chan w)
     \<and> stream_part (chan w') = stream_part (chan w) \<and> length (ws_incoming (chan w')) < length (ws_incoming (chan w))"
proof -
  obtain w1 where 1: "applyDeadline d w = (Inr (), w1)" "ws_same (chan w) (chan w1)" "ws_uploads (chan w1) = ws_uploads (chan w)"
    using applyDeadline_effect by blast
  have "receive_loop (Suc (length (ws_incoming (chan w1)))) [] w1 = (Inr body, w')"
    using assms 1 by (simp add: ws_receive_def io_seq_def io_bind_Inr del: receive_loop.simps)
  from receive_loop_next [OF this] 1 show ?thesis by (simp add: ws_same_def ws_inbox_def)
qed

interpretation wsc: batch_transport websocket_ops ws_inbox ws_uploads
proof (unfold_locales, goal_cases)
  case (1 d w body w')
  then show ?case using ws_receive_next [of d w body w'] by (auto simp: websocket_ops_def stream_part_def)
next
  case (2 d p w r w')
  then show ?case using ws_send_effect [of d p w r w'] by (simp add: websocket_ops_def ws_same_def ws_inbox_def)
next
  case (3 d p w w')
  then show ?case using ws_send_effect [of d p w "Inr ()" w'] by (simp add: websocket_ops_def)
next
  case (4 d p w e w')
  then show ?case using ws_send_effect [of d p w "Inl e" w'] by (simp add: websocket_ops_def)
next
  case (5 d w body w')
  then show ?case using ws_receive_next [of d w body w'] by (simp add: websocket_ops_def)
next
  case (6 d p w r w')
  then show ?case using ws_send_effect [of d p w r w'] by (simp add: websocket_ops_def ws_same_def)
qed (simp_all add: websocket_ops_def ws_inbox_def ws_incoming_def ws_uploads_def)

text \<open>MTProto runs on it through the obfuscation layer.\<close>

interpretation obf_wsc: obf_reader "carrier_ReadFull websocket_ops" wsc.carrier_pend C for C
  by unfold_locales

text \<open>The stream of the specification.\<close>

lemma websocket_stream: "wsc.carrier_pend = relay_pending ws_inbox" "wsc.carrier_sent = relay_sent ws_uploads"
  by (rule ext, simp only: wsc.carrier_pend_def wsc.carrier_sent_def relay_pending_def relay_sent_def)+

end
