(* ===== verification/Target.thy ===== *)
theory Target
  imports Url
begin

text \<open>
  \<open>internal/proxy/target.go\<close>: proxy links.  \<open>Parse\<close> reads a link or a \<open>host:port\<close> into a
  \<open>target\<close>, \<open>Canonical\<close> writes it back, \<open>Key\<close> identifies a proxy, and the secret
  functions tell mode, key and FakeTLS domain of a decoded secret.  The lemmas show the round
  trip through the canonical link, the shape of every accepted secret, and that the domain
  of a secret is always one the ClientHello can carry.
\<close>

datatype proxy_kind = KindMTProto | KindSocks5 | KindWebProxy | KindTCP
datatype secret_mode = ModePlain | ModeSecure | ModeFakeTLS | ModeNone

fun proxy_kind_text :: "proxy_kind \<Rightarrow> string" where
  "proxy_kind_text KindMTProto = ''mtproto''"
| "proxy_kind_text KindSocks5 = ''socks5''"
| "proxy_kind_text KindWebProxy = ''webproxy''"
| "proxy_kind_text KindTCP = ''tcp''"

fun secret_mode_text :: "secret_mode \<Rightarrow> string" where
  "secret_mode_text ModePlain = ''plain''"
| "secret_mode_text ModeSecure = ''secure''"
| "secret_mode_text ModeFakeTLS = ''fake_tls''"
| "secret_mode_text ModeNone = ''none''"

definition DefaultSNI :: string where "DefaultSNI = ''www.google.com''"

record target =
  t_Raw :: string
  t_Kind :: proxy_kind
  t_Host :: string
  t_Port :: int
  t_Secret :: string
  t_Username :: string
  t_Password :: string
  t_Title :: string
  t_secret :: bytes

section \<open>Secrets\<close>

definition decodeBase64 :: "string \<Rightarrow> bytes option" where
  "decodeBase64 s0 =
     (let s = trim_right (\<lambda>ch. ch = CHR ''='') s0 in
      case b64_raw_decode True s of Some raw \<Rightarrow> Some raw | None \<Rightarrow> b64_raw_decode False s)"

definition DecodeSecret :: "string \<Rightarrow> goerr + bytes" where
  "DecodeSecret secret =
     (let s = trim_space secret in
      if s = [] then Inl (ErrText ''missing MTProto secret'')
      else case (case hex_decode s of Some raw \<Rightarrow> Some raw | None \<Rightarrow> decodeBase64 s) of
        None \<Rightarrow> Inl (ErrText (''secret is neither hex nor base64: '' @ quote secret))
      | Some raw \<Rightarrow>
          if length raw < 16
          then Inl (ErrText (''MTProto secret must be at least 16 bytes, got '' @ dec_nat (length raw)))
          else Inr raw)"

definition secretMode :: "bytes \<Rightarrow> secret_mode" where
  "secretMode secret =
     (if length secret = 0 then ModeNone
      else if length secret \<ge> 17 \<and> secret ! 0 = 0xEE then ModeFakeTLS
      else if length secret \<ge> 17 \<and> secret ! 0 = 0xDD then ModeSecure
      else ModePlain)"

definition secretKey :: "bytes \<Rightarrow> bytes" where
  "secretKey secret =
     (if length secret \<ge> 17 \<and> (secret ! 0 = 0xDD \<or> secret ! 0 = 0xEE) then slice 1 17 secret
      else if length secret \<ge> 16 then take 16 secret
      else [])"

definition isHostByte :: "byte \<Rightarrow> bool" where
  "isHostByte c \<longleftrightarrow>
     0x61 \<le> c \<and> c \<le> 0x7A \<or> 0x41 \<le> c \<and> c \<le> 0x5A \<or> 0x30 \<le> c \<and> c \<le> 0x39 \<or> c = 0x2E \<or> c = 0x2D"

definition secretSNI :: "bytes \<Rightarrow> string" where
  "secretSNI secret =
     (if length secret \<le> 17 then DefaultSNI
      else let name = to_lower (trim_chars (\<lambda>ch. ch \<in> set ''.-'') (bytes_str (takeWhile isHostByte (drop 17 secret))))
           in if CHR ''.'' \<notin> set name \<or> length name < 4 then DefaultSNI else name)"

section \<open>Targets\<close>

definition Addr :: "target \<Rightarrow> string" where
  "Addr t = JoinHostPort (t_Host t) (dec_int (t_Port t))"

definition Mode :: "target \<Rightarrow> secret_mode" where "Mode t = secretMode (t_secret t)"
definition SecretKey :: "target \<Rightarrow> bytes" where "SecretKey t = secretKey (t_secret t)"
definition SNI :: "target \<Rightarrow> string" where "SNI t = secretSNI (t_secret t)"

definition Key :: "target \<Rightarrow> string" where
  "Key t = proxy_kind_text (t_Kind t) @ ''|'' @ Addr t @ ''|'' @ to_lower (t_Secret t) @ ''|'' @ t_Username t"

definition Canonical :: "target \<Rightarrow> string" where
  "Canonical t =
     (let params = [''server='' @ query_escape (t_Host t), ''port='' @ dec_int (t_Port t)] in
      case t_Kind t of
        KindMTProto \<Rightarrow> ''tg://proxy?'' @ join ''&'' (params @ [''secret='' @ query_escape (t_Secret t)])
      | KindWebProxy \<Rightarrow> ''tg://webproxy?server='' @ query_escape (t_Host t) @ ''&secret='' @ query_escape (t_Secret t)
      | KindSocks5 \<Rightarrow>
          ''tg://socks?'' @ join ''&'' (params
            @ (if t_Username t \<noteq> [] then [''user='' @ query_escape (t_Username t)] else [])
            @ (if t_Password t \<noteq> [] then [''pass='' @ query_escape (t_Password t)] else []))
      | KindTCP \<Rightarrow> Addr t)"

section \<open>Parsing\<close>

definition asURL :: "string \<Rightarrow> url option" where
  "asURL s =
     (let accept = (\<lambda>candidate. case url_parse candidate of
            None \<Rightarrow> None
          | Some u \<Rightarrow> if u_Host u = [] \<and> u_Opaque u = [] then None else Some u)
      in if contains s ''://'' then accept s
         else if \<not> has_prefix (to_lower s) ''t.me/'' \<and> \<not> has_prefix (to_lower s) ''telegram.me/'' then None
         else accept (''https://'' @ s))"

fun firstNonEmpty :: "string list \<Rightarrow> string" where
  "firstNonEmpty [] = []"
| "firstNonEmpty (v # vs) = (if v \<noteq> [] then v else firstNonEmpty vs)"

definition parsePort :: "string \<Rightarrow> goerr + int" where
  "parsePort text =
     (if text = [] then Inl (ErrText ''missing port'')
      else case atoi text of
        Inl _ \<Rightarrow> Inl (ErrText (''invalid port: '' @ quote text))
      | Inr port \<Rightarrow>
          if port < 1 \<or> port > 65535 then Inl (ErrText (''port out of range: '' @ dec_int port)) else Inr port)"

definition finish :: "target \<Rightarrow> goerr + target" where
  "finish t =
     (if t_Kind t \<noteq> KindMTProto \<and> t_Kind t \<noteq> KindWebProxy then Inr t
      else res_bind (DecodeSecret (t_Secret t)) (\<lambda>secret. Inr (t\<lparr>t_secret := secret\<rparr>)))"

text \<open>The path of a link, or its host when the path is empty, in lower case.\<close>

definition link_path :: "url \<Rightarrow> string" where
  "link_path u =
     (let path = trim_chars (\<lambda>ch. ch = CHR ''/'') (u_Path u) in to_lower (if path = [] then u_Host u else path))"

definition link_kind :: "string \<Rightarrow> string \<Rightarrow> string \<Rightarrow> proxy_kind" where
  "link_kind path scheme secret =
     (if path = ''socks'' \<or> has_prefix scheme ''socks'' then KindSocks5
      else if path = ''webproxy'' then KindWebProxy
      else if secret \<noteq> [] then KindMTProto
      else KindTCP)"

definition fromURL :: "string \<Rightarrow> url \<Rightarrow> goerr + target" where
  "fromURL raw u =
     (let q = parse_query (u_RawQuery u);
          scheme = to_lower (u_Scheme u);
          path = link_path u;
          user = firstNonEmpty [query_get ''user'' q, query_get ''username'' q];
          pass = firstNonEmpty [query_get ''pass'' q, query_get ''password'' q];
          secret = trim_space (query_get ''secret'' q);
          host0 = trim_space (firstNonEmpty [query_get ''server'' q, query_get ''host'' q]);
          own = (host0 = [] \<and> u_Hostname u \<noteq> [] \<and> path \<noteq> ''proxy'' \<and> path \<noteq> ''socks'');
          host = (if own then u_Hostname u else host0);
          portText0 = (if own then u_Port u else trim_space (query_get ''port'' q));
          username = (case u_User u of Some (name, _) \<Rightarrow> if own then name else user | None \<Rightarrow> user);
          password = (case u_User u of Some (_, Some pw) \<Rightarrow> if own then pw else pass | _ \<Rightarrow> pass);
          kind = link_kind path scheme secret
      in if host = [] then Inl (ErrText ''missing server'')
         else let portText = (if kind = KindWebProxy \<and> portText0 = [] then ''443'' else portText0)
              in res_bind (parsePort portText) (\<lambda>port.
                 finish \<lparr>t_Raw = raw, t_Kind = kind, t_Host = host, t_Port = port, t_Secret = secret, t_Username = username,
                   t_Password = password, t_Title = query_get ''title'' q, t_secret = []\<rparr>))"

definition fromHostPort :: "string \<Rightarrow> goerr + target" where
  "fromHostPort s =
     (case SplitHostPort s of
        Inl _ \<Rightarrow> Inl (ErrText (''not a proxy link and not host:port: '' @ quote s))
      | Inr (host, portText) \<Rightarrow>
          res_bind (parsePort portText) (\<lambda>port.
            if host = [] then Inl (ErrText ''missing server'')
            else finish \<lparr>t_Raw = s, t_Kind = KindTCP, t_Host = host, t_Port = port, t_Secret = [], t_Username = [],
                   t_Password = [], t_Title = [], t_secret = []\<rparr>))"

definition Parse :: "string \<Rightarrow> goerr + target" where
  "Parse raw =
     (let s = trim_space raw in
      if s = [] then Inl (ErrText ''empty proxy link'')
      else case asURL s of
        Some u \<Rightarrow> fromURL s u
      | None \<Rightarrow> fromHostPort s)"

section \<open>Canonical links are read back\<close>

definition link_char :: "char \<Rightarrow> bool" where
  "link_char ch \<longleftrightarrow> esc_safe ch \<or> ch = CHR ''&'' \<or> ch = CHR ''=''"

lemma link_char_not: "\<not> link_char CHR ''?''" "\<not> link_char CHR ''#''" "\<not> link_char CHR ''/''" "\<not> link_char CHR '':''"
  by (simp_all add: link_char_def esc_safe_not)

lemma link_char_printable: "link_char ch \<Longrightarrow> \<not> is_space ch \<and> 32 < (of_char ch :: nat) \<and> (of_char ch :: nat) \<noteq> 127"
  using esc_safe_printable by (auto simp: link_char_def is_space_def)

lemma trim_right_id: "s \<noteq> [] \<Longrightarrow> \<not> P (last s) \<Longrightarrow> trim_right P s = s"
  by (cases s rule: rev_cases) (simp_all add: trim_right_def)

lemma trim_space_id: "s \<noteq> [] \<Longrightarrow> \<not> is_space (hd s) \<Longrightarrow> \<not> is_space (last s) \<Longrightarrow> trim_space s = s"
  by (cases s) (simp_all add: trim_space_def trim_chars_def trim_right_id)

lemma tg_url:
  assumes h: "h \<in> {''proxy'', ''webproxy'', ''socks''}" and q: "list_all link_char q"
  shows "url_parse (''tg://'' @ h @ ''?'' @ q)
     = Some \<lparr>u_Scheme = ''tg'', u_Opaque = [], u_User = None, u_Host = h, u_Path = [], u_RawQuery = q\<rparr>"
proof -
  let ?s = "''tg://'' @ h @ ''?'' @ q"
  have n: "CHR ''#'' \<notin> set q" "CHR ''?'' \<notin> set q" using q link_char_not by (auto simp: list_all_iff)
  have "CHR ''#'' \<notin> set ?s" using n(1) h by auto
  then have c: "cut CHR ''#'' ?s = (?s, [])" by (rule cut_absent)
  have ctl: "\<not> list_ex (\<lambda>ch. (of_char ch :: nat) < 32 \<or> (of_char ch :: nat) = 127) ?s"
  proof -
    have "\<not> list_ex (\<lambda>ch. (of_char ch :: nat) < 32 \<or> (of_char ch :: nat) = 127) q"
      using q link_char_printable by (fastforce simp: list_all_iff list_ex_iff)
    then show ?thesis using h by auto
  qed
  have sc: "getScheme ?s = Some (''tg'', ''//'' @ h @ ''?'' @ q)"
    by (simp add: getScheme_def is_alpha_def is_digit_def Let_def)
  have qs: "split_query (''//'' @ h @ CHR ''?'' # q) = (''//'' @ h, q)"
    unfolding split_query_def append_assoc [symmetric] by (rule cut_append) (use h in auto)
  have au: "parseAuthority h = Some (None, h)"
    using h by (auto simp: parseAuthority_def parseHost_def host_escape_def is_alpha_def)
  have low: "to_lower ''tg'' = ''tg''" by (simp add: to_lower_def lower_char_def Let_def)
  have tk: "takeWhile (\<lambda>ch. ch \<noteq> CHR ''/'') h = h" using h by auto
  have "parse_no_fragment ?s = Some \<lparr>u_Scheme = ''tg'', u_Opaque = [], u_User = None, u_Host = h, u_Path = [], u_RawQuery = q\<rparr>"
    unfolding parse_no_fragment_def if_not_P [OF ctl] sc using qs by (simp add: low au tk)
  then show ?thesis unfolding url_parse_def c by simp
qed

lemma Parse_link:
  assumes h: "h \<in> {''proxy'', ''webproxy'', ''socks''}" and q: "list_all link_char q" "q \<noteq> []"
  shows "Parse (''tg://'' @ h @ ''?'' @ q) = fromURL (''tg://'' @ h @ ''?'' @ q)
     \<lparr>u_Scheme = ''tg'', u_Opaque = [], u_User = None, u_Host = h, u_Path = [], u_RawQuery = q\<rparr>"
proof -
  have l: "\<not> is_space (last q)" using q link_char_printable by (auto simp: list_all_iff)
  have t: "trim_space (''tg://'' @ h @ ''?'' @ q) = ''tg://'' @ h @ ''?'' @ q"
    by (rule trim_space_id) (use l q in \<open>auto simp: is_space_def\<close>)
  have c: "contains (''tg://'' @ h @ ''?'' @ q) ''://''" by simp
  have "h \<noteq> []" using h by auto
  then have "asURL (''tg://'' @ h @ ''?'' @ q)
      = Some \<lparr>u_Scheme = ''tg'', u_Opaque = [], u_User = None, u_Host = h, u_Path = [], u_RawQuery = q\<rparr>"
    unfolding asURL_def Let_def if_P [OF c] tg_url [OF assms(1,2)] by simp
  then show ?thesis unfolding Parse_def t Let_def by simp
qed

lemma query_escape_plain: "list_all query_plain s \<Longrightarrow> query_escape s = s"
  by (induction s) (simp_all add: query_escape_def query_escape_char_def)

lemma dec_nat_digits: "list_all is_digit (dec_nat n)"
proof (induction n rule: dec_nat.induct)
  case (1 n)
  have "n mod 10 \<le> 9" using mod_less_divisor [of 10 n] by linarith
  then have "is_digit (char_of (48 + n mod 10))" "n < 10 \<Longrightarrow> is_digit (char_of (48 + n))" by (simp_all add: is_digit_def)
  with 1 show ?case by (subst dec_nat.simps) simp
qed

lemma digits_nat_snoc: "digits_nat (s @ [ch]) = 10 * digits_nat s + (of_char ch - 48)"
  by (simp add: digits_nat_def)

lemma digits_nat_dec [simp]: "digits_nat (dec_nat n) = n"
proof (induction n rule: dec_nat.induct)
  case (1 n)
  then show ?case
  proof (cases "n < 10")
    case True
    then show ?thesis by (subst dec_nat.simps) (simp add: digits_nat_def)
  next
    case False
    with 1 show ?thesis by (subst dec_nat.simps) (simp add: digits_nat_snoc)
  qed
qed

lemma atoi_dec_nat:
  assumes "n < 9223372036854775808"
  shows "atoi (dec_nat n) = Inr (int n)"
proof -
  obtain ch rest where d: "dec_nat n = ch # rest" by (cases "dec_nat n") auto
  have "is_digit ch" using dec_nat_digits [of n] d by simp
  then have "ch \<noteq> CHR ''-''" "ch \<noteq> CHR ''+''" by (auto simp: is_digit_def)
  moreover have "digits_nat (ch # rest) = n" "list_all is_digit (ch # rest)"
    using dec_nat_digits [of n] digits_nat_dec [of n] d by simp_all
  ultimately show ?thesis using assms unfolding d atoi_def by (simp add: Let_def)
qed

lemma parsePort_dec: "1 \<le> p \<Longrightarrow> p \<le> 65535 \<Longrightarrow> parsePort (dec_int p) = Inr p"
  using atoi_dec_nat [of "nat p"] by (simp add: parsePort_def dec_int_def)

lemma dec_int_digits: "0 \<le> p \<Longrightarrow> list_all is_digit (dec_int p)"
  by (simp add: dec_int_def dec_nat_digits)

lemma query_escape_dec: "0 \<le> p \<Longrightarrow> query_escape (dec_int p) = dec_int p"
  by (rule query_escape_plain) (use dec_int_digits [of p] in \<open>auto simp: list_all_iff query_plain_def\<close>)

lemma trim_right_nonspace: "trim_right P s = [] \<or> \<not> P (last (trim_right P s))"
  by (induction s rule: rev_induct) (simp_all add: trim_right_def)

lemma hd_trim_right: "s \<noteq> [] \<Longrightarrow> \<not> P (hd s) \<Longrightarrow> hd (trim_right P s) = hd s \<and> trim_right P s \<noteq> []"
proof (induction s rule: rev_induct)
  case (snoc x xs)
  then show ?case by (cases xs) (auto simp: trim_right_def)
qed simp

lemma trim_chars_ends: "trim_chars P s = [] \<or> \<not> P (hd (trim_chars P s)) \<and> \<not> P (last (trim_chars P s))"
proof (cases "dropWhile P s")
  case Nil
  then show ?thesis unfolding trim_chars_def Nil by (simp add: trim_right_def)
next
  case (Cons x xs)
  then have "\<not> P x" by (simp add: dropWhile_eq_Cons_conv)
  with Cons have "hd (trim_chars P s) = x" using hd_trim_right [of "dropWhile P s" P] by (simp add: trim_chars_def)
  with \<open>\<not> P x\<close> show ?thesis using trim_right_nonspace [of P "dropWhile P s"] by (simp add: trim_chars_def)
qed

lemma trim_space_idem [simp]: "trim_space (trim_space s) = trim_space s"
proof (cases "trim_space s = []")
  case True
  have "trim_space [] = []" by (simp add: trim_space_def trim_chars_def trim_right_def)
  with True show ?thesis by (simp only:)
next
  case False
  then show ?thesis using trim_chars_ends [of is_space s] trim_space_id [of "trim_space s"]
    by (simp only: trim_space_def simp_thms)
qed

text \<open>What every parsed target satisfies.\<close>

definition target_ok :: "target \<Rightarrow> bool" where
  "target_ok t \<longleftrightarrow> t_Host t \<noteq> [] \<and> 1 \<le> t_Port t \<and> t_Port t \<le> 65535 \<and> trim_space (t_Secret t) = t_Secret t \<and>
     (if t_Kind t = KindMTProto \<or> t_Kind t = KindWebProxy then DecodeSecret (t_Secret t) = Inr (t_secret t)
      else t_secret t = [])"

lemma parsePort_range: "parsePort text = Inr p \<Longrightarrow> 1 \<le> p \<and> p \<le> 65535"
  by (auto simp: parsePort_def split: if_splits sum.splits)

lemma finish_ok:
  assumes "finish t = Inr t'" "t_Host t \<noteq> []" "1 \<le> t_Port t" "t_Port t \<le> 65535" "trim_space (t_Secret t) = t_Secret t" "t_secret t = []"
  shows "target_ok t'"
  using assms by (auto simp: finish_def target_ok_def res_bind_def split: if_splits sum.splits)

lemma fromURL_ok: "fromURL raw u = Inr t \<Longrightarrow> target_ok t"
  unfolding fromURL_def Let_def res_bind_def
  by (auto split: if_splits sum.splits dest!: finish_ok parsePort_range)

lemma Parse_ok: "Parse raw = Inr t \<Longrightarrow> target_ok t"
  by (auto simp: Parse_def Let_def fromHostPort_def res_bind_def trim_space_def trim_chars_def trim_right_def
      split: if_splits option.splits sum.splits dest!: finish_ok parsePort_range fromURL_ok)

lemma target_okD:
  assumes "target_ok t"
  shows "t_Host t \<noteq> []" "parsePort (dec_int (t_Port t)) = Inr (t_Port t)" "query_escape (dec_int (t_Port t)) = dec_int (t_Port t)"
    "list_all link_char (dec_int (t_Port t))" "trim_space (dec_int (t_Port t)) = dec_int (t_Port t)" "trim_space (t_Secret t) = t_Secret t"
proof -
  have p: "0 \<le> t_Port t" using assms by (simp add: target_ok_def)
  note d = dec_int_digits [OF p]
  show "t_Host t \<noteq> []" "parsePort (dec_int (t_Port t)) = Inr (t_Port t)" "query_escape (dec_int (t_Port t)) = dec_int (t_Port t)"
    "trim_space (t_Secret t) = t_Secret t"
    using assms p by (simp_all add: target_ok_def parsePort_dec query_escape_dec)
  show "list_all link_char (dec_int (t_Port t))"
    using d by (auto simp: list_all_iff link_char_def esc_safe_def query_plain_def)
  have n: "dec_int (t_Port t) \<noteq> []" by (simp add: dec_int_def)
  have "\<not> is_space ch" if "ch \<in> set (dec_int (t_Port t))" for ch
    using d that by (auto simp: list_all_iff is_digit_def is_space_def)
  with n show "trim_space (dec_int (t_Port t)) = dec_int (t_Port t)"
    by (intro trim_space_id) auto
qed

lemma link_char_escape: "list_all link_char (query_escape s)"
  using query_escape_safe by (auto simp: list_all_iff link_char_def)

lemma param_plain: "list_all query_plain ''server''" "list_all query_plain ''port''" "list_all query_plain ''secret''"
  "list_all query_plain ''user''" "list_all query_plain ''pass''"
  by (simp_all add: query_plain_def is_alpha_def)

lemmas link_params = parse_query_pair [OF param_plain(1)] parse_query_pair [OF param_plain(2)]
  parse_query_pair [OF param_plain(3)] parse_query_pair [OF param_plain(4)] parse_query_pair [OF param_plain(5)]

lemma link_char_param: "list_all link_char ''server=''" "list_all link_char ''port=''" "list_all link_char ''secret=''"
  "list_all link_char ''user=''" "list_all link_char ''pass=''" "link_char CHR ''&''"
  by (simp_all add: link_char_def esc_safe_def query_plain_def is_alpha_def)

text \<open>The result of a canonical link, with the query already read.\<close>

lemma fromURL_canonical:
  assumes "parse_query q = ps" "h \<in> {''proxy'', ''webproxy'', ''socks''}"
    and "trim_space host = host" "query_get ''server'' ps = host" "host \<noteq> []"
  shows "fromURL raw \<lparr>u_Scheme = ''tg'', u_Opaque = [], u_User = None, u_Host = h, u_Path = [], u_RawQuery = q\<rparr> =
     (let kind = link_kind h ''tg'' (trim_space (query_get ''secret'' ps));
          portText = (if kind = KindWebProxy \<and> trim_space (query_get ''port'' ps) = [] then ''443'' else trim_space (query_get ''port'' ps))
      in res_bind (parsePort portText) (\<lambda>port.
        finish \<lparr>t_Raw = raw, t_Kind = kind, t_Host = host, t_Port = port, t_Secret = trim_space (query_get ''secret'' ps),
          t_Username = firstNonEmpty [query_get ''user'' ps, query_get ''username'' ps],
          t_Password = firstNonEmpty [query_get ''pass'' ps, query_get ''password'' ps],
          t_Title = query_get ''title'' ps, t_secret = []\<rparr>))"
proof -
  have p: "link_path \<lparr>u_Scheme = ''tg'', u_Opaque = [], u_User = None, u_Host = h, u_Path = [], u_RawQuery = q\<rparr> = h"
    using assms(2) by (auto simp: link_path_def trim_chars_def trim_right_def to_lower_def lower_char_def Let_def)
  have l: "to_lower ''tg'' = ''tg''" by (simp add: to_lower_def lower_char_def Let_def)
  have f: "trim_space (firstNonEmpty [query_get ''server'' ps, query_get ''host'' ps]) = host" using assms by simp
  show ?thesis unfolding fromURL_def p by (simp add: assms(1,5) f l Let_def del: firstNonEmpty.simps)
qed

lemma DecodeSecret_nonempty: "DecodeSecret s = Inr raw \<Longrightarrow> s \<noteq> []"
  by (auto simp: DecodeSecret_def trim_space_def trim_chars_def trim_right_def)

text \<open>Canonical links read back.  A WEB proxy link has no port: it reads back with 443.\<close>

lemma canonical_mtproto:
  assumes "target_ok t" "t_Kind t = KindMTProto" "trim_space (t_Host t) = t_Host t"
  shows "\<exists>t'. Parse (Canonical t) = Inr t' \<and> t_Kind t' = KindMTProto \<and> t_Host t' = t_Host t \<and> t_Port t' = t_Port t \<and>
     t_Secret t' = t_Secret t \<and> t_secret t' = t_secret t"
proof -
  note k = target_okD [OF assms(1)]
  have d: "DecodeSecret (t_Secret t) = Inr (t_secret t)" using assms(1,2) by (simp add: target_ok_def)
  note s = d DecodeSecret_nonempty [OF d]
  let ?q = "''server='' @ query_escape (t_Host t) @ ''&port='' @ query_escape (dec_int (t_Port t)) @ ''&secret='' @ query_escape (t_Secret t)"
  let ?ps = "[(''server'', t_Host t), (''port'', dec_int (t_Port t)), (''secret'', t_Secret t)]"
  have c: "Canonical t = ''tg://'' @ ''proxy'' @ ''?'' @ ?q" by (simp add: Canonical_def assms(2) Let_def k(3))
  have q: "parse_query ?q = ?ps" using link_params by simp
  have l: "list_all link_char ?q" using link_char_param link_char_escape by simp
  have r: "fromURL raw \<lparr>u_Scheme = ''tg'', u_Opaque = [], u_User = None, u_Host = ''proxy'', u_Path = [], u_RawQuery = ?q\<rparr>
      = Inr \<lparr>t_Raw = raw, t_Kind = KindMTProto, t_Host = t_Host t, t_Port = t_Port t, t_Secret = t_Secret t, t_Username = [],
          t_Password = [], t_Title = [], t_secret = t_secret t\<rparr>" for raw
    by (subst fromURL_canonical [OF q _ assms(3) _ k(1)])
      (simp_all add: query_get_def k s link_kind_def finish_def res_bind_def)
  show ?thesis unfolding c by (subst Parse_link [OF _ l]) (simp_all add: r del: append.simps)
qed

lemma canonical_webproxy:
  assumes "target_ok t" "t_Kind t = KindWebProxy" "trim_space (t_Host t) = t_Host t"
  shows "\<exists>t'. Parse (Canonical t) = Inr t' \<and> t_Kind t' = KindWebProxy \<and> t_Host t' = t_Host t \<and> t_Port t' = 443 \<and>
     t_Secret t' = t_Secret t \<and> t_secret t' = t_secret t"
proof -
  note k = target_okD [OF assms(1)]
  have d: "DecodeSecret (t_Secret t) = Inr (t_secret t)" using assms(1,2) by (simp add: target_ok_def)
  note s = d DecodeSecret_nonempty [OF d]
  have p: "parsePort ''443'' = Inr 443"
    by (simp add: parsePort_def atoi_def is_digit_def digits_nat_def Let_def)
  let ?q = "''server='' @ query_escape (t_Host t) @ ''&secret='' @ query_escape (t_Secret t)"
  let ?ps = "[(''server'', t_Host t), (''secret'', t_Secret t)]"
  have c: "Canonical t = ''tg://'' @ ''webproxy'' @ ''?'' @ ?q" by (simp add: Canonical_def assms(2) Let_def)
  have q: "parse_query ?q = ?ps" using link_params by simp
  have l: "list_all link_char ?q" using link_char_param link_char_escape by simp
  have e: "trim_space [] = []" by (simp add: trim_space_def trim_chars_def trim_right_def)
  have r: "fromURL raw \<lparr>u_Scheme = ''tg'', u_Opaque = [], u_User = None, u_Host = ''webproxy'', u_Path = [], u_RawQuery = ?q\<rparr>
      = Inr \<lparr>t_Raw = raw, t_Kind = KindWebProxy, t_Host = t_Host t, t_Port = 443, t_Secret = t_Secret t, t_Username = [],
          t_Password = [], t_Title = [], t_secret = t_secret t\<rparr>" for raw
    by (subst fromURL_canonical [OF q _ assms(3) _ k(1)])
      (simp_all add: query_get_def k s p e link_kind_def finish_def res_bind_def)
  show ?thesis unfolding c by (subst Parse_link [OF _ l]) (simp_all add: r del: append.simps)
qed

lemma canonical_socks:
  assumes "target_ok t" "t_Kind t = KindSocks5" "trim_space (t_Host t) = t_Host t"
  shows "\<exists>t'. Parse (Canonical t) = Inr t' \<and> t_Kind t' = KindSocks5 \<and> t_Host t' = t_Host t \<and> t_Port t' = t_Port t \<and>
     t_Username t' = t_Username t \<and> t_Password t' = t_Password t"
proof -
  note k = target_okD [OF assms(1)]
  let ?user = "if t_Username t \<noteq> [] then ''&user='' @ query_escape (t_Username t) else []"
  let ?pass = "if t_Password t \<noteq> [] then ''&pass='' @ query_escape (t_Password t) else []"
  let ?q = "''server='' @ query_escape (t_Host t) @ ''&port='' @ query_escape (dec_int (t_Port t)) @ ?user @ ?pass"
  let ?ps = "[(''server'', t_Host t), (''port'', dec_int (t_Port t))]
    @ (if t_Username t \<noteq> [] then [(''user'', t_Username t)] else []) @ (if t_Password t \<noteq> [] then [(''pass'', t_Password t)] else [])"
  have c: "Canonical t = ''tg://'' @ ''socks'' @ ''?'' @ ?q" by (simp add: Canonical_def assms(2) Let_def k(3))
  have q: "parse_query ?q = ?ps" using link_params by simp
  have l: "list_all link_char ?q" using link_char_param link_char_escape by simp
  have e: "trim_space [] = []" by (simp add: trim_space_def trim_chars_def trim_right_def)
  have r: "fromURL raw \<lparr>u_Scheme = ''tg'', u_Opaque = [], u_User = None, u_Host = ''socks'', u_Path = [], u_RawQuery = ?q\<rparr>
      = Inr \<lparr>t_Raw = raw, t_Kind = KindSocks5, t_Host = t_Host t, t_Port = t_Port t, t_Secret = [], t_Username = t_Username t,
          t_Password = t_Password t, t_Title = [], t_secret = []\<rparr>" for raw
    by (subst fromURL_canonical [OF q _ assms(3) _ k(1)])
      (simp_all add: query_get_def k e link_kind_def finish_def res_bind_def)
  show ?thesis unfolding c by (subst Parse_link [OF _ l]) (simp_all add: r del: append.simps)
qed

text \<open>An address without a slash and brackets in its host is split where it was joined.\<close>

lemma first_index_append: "c \<notin> set a \<Longrightarrow> first_index c (a @ c # b) = Some (length a)"
  by (induction a) auto

lemma SplitHostPort_Join:
  assumes "host \<noteq> []" "CHR ''['' \<notin> set host" "CHR '']'' \<notin> set host" "list_all is_digit port"
  shows "SplitHostPort (JoinHostPort host port) = Inr (host, port)"
proof -
  have p: "CHR '':'' \<notin> set port" "CHR ''['' \<notin> set port" "CHR '']'' \<notin> set port"
    using assms(4) by (auto simp: list_all_iff is_digit_def)
  show ?thesis
  proof (cases "CHR '':'' \<in> set host")
    case True
    let ?hp = "CHR ''['' # host @ CHR '']'' # CHR '':'' # port"
    have l: "last_index CHR '':'' ?hp = Some (length host + 2)"
      using last_index_append [OF p(1), of "CHR ''['' # host @ '']''"] by simp
    have f: "first_index CHR '']'' ?hp = Some (Suc (length host))"
      using first_index_append [OF assms(3), of "CHR '':'' # port"] by simp
    have e: "JoinHostPort host port = ?hp" using True by (simp add: JoinHostPort_def)
    show ?thesis unfolding e SplitHostPort_def l f option.case
      using assms(2,3) p by (simp add: Prelude.slice_def)
  next
    case False
    have l: "last_index CHR '':'' (host @ CHR '':'' # port) = Some (length host)" by (rule last_index_append [OF p(1)])
    have "(host @ CHR '':'' # port) ! 0 \<noteq> CHR ''[''" using assms(1,2) by (cases host) auto
    then show ?thesis using False assms(2,3) p by (simp add: JoinHostPort_def SplitHostPort_def l)
  qed
qed

lemma contains_elem: "contains s p \<Longrightarrow> set p \<subseteq> set s"
proof (induction s p rule: contains.induct)
  case (2 x xs p)
  have "has_prefix (x # xs) p \<Longrightarrow> set p \<subseteq> set (x # xs)" by (metis has_prefix_take set_take_subset)
  with 2 show ?case by auto
qed simp

lemma lower_char_slash: "lower_char ch = CHR ''/'' \<Longrightarrow> ch = CHR ''/''"
proof -
  assume l: "lower_char ch = CHR ''/''"
  define n where "n = (of_char ch :: nat)"
  have e: "lower_char ch = (if 65 \<le> n \<and> n \<le> 90 then char_of (n + 32) else ch)" unfolding lower_char_def Let_def n_def ..
  show ?thesis
  proof (cases "65 \<le> n \<and> n \<le> 90")
    case True
    then have "char_of (n + 32) = CHR ''/''" using l e by (simp only: simp_thms if_True)
    then have "(of_char (char_of (n + 32) :: char) :: nat) = of_char CHR ''/''" by (rule arg_cong)
    moreover have "(of_char (char_of (n + 32) :: char) :: nat) = (n + 32) mod 256" by (rule of_char_of)
    moreover have "(of_char CHR ''/'' :: nat) = 47" by simp
    ultimately have "(n + 32) mod 256 = 47" by (simp only:)
    moreover have "(n + 32) mod 256 = n + 32" using True by simp
    ultimately have False using True by linarith
    then show ?thesis ..
  next
    case False
    with l e show ?thesis by (simp only: if_False)
  qed
qed

lemma canonical_tcp:
  assumes "target_ok t" "t_Kind t = KindTCP" "trim_space (t_Host t) = t_Host t"
    and "set (t_Host t) \<inter> {CHR ''/'', CHR ''['', CHR '']''} = {}"
  shows "\<exists>t'. Parse (Canonical t) = Inr t' \<and> t_Kind t' = KindTCP \<and> t_Host t' = t_Host t \<and> t_Port t' = t_Port t"
proof -
  note k = target_okD [OF assms(1)]
  let ?port = "dec_int (t_Port t)" and ?s = "Addr t"
  have p: "0 \<le> t_Port t" using assms(1) by (simp add: target_ok_def)
  note d = dec_int_digits [OF p]
  have n: "?port \<noteq> []" by (simp add: dec_int_def)
  have "last ?port \<in> set ?port" using n by simp
  then have ls: "\<not> is_space (last ?port)" using d by (auto simp: list_all_iff is_digit_def is_space_def)
  have hs: "\<not> is_space (hd (t_Host t))" using trim_chars_ends [of is_space "t_Host t"] assms(3) k(1) by (simp add: trim_space_def)
  have "?s \<noteq> []" "hd ?s = hd (t_Host t) \<or> hd ?s = CHR ''[''" "last ?s = last ?port"
    using k(1) n by (auto simp: Addr_def JoinHostPort_def)
  then have t: "trim_space ?s = ?s" using hs ls by (intro trim_space_id) (auto simp: is_space_def)
  have sl: "CHR ''/'' \<notin> set ?s" using assms(4) d by (auto simp: Addr_def JoinHostPort_def list_all_iff is_digit_def)
  then have "\<not> contains ?s ''://''" using contains_elem [of ?s "''://''"] by auto
  moreover have "\<not> has_prefix (to_lower ?s) ''t.me/''" "\<not> has_prefix (to_lower ?s) ''telegram.me/''"
  proof -
    have "CHR ''/'' \<notin> set (to_lower ?s)" using sl lower_char_slash by (fastforce simp: to_lower_def)
    then have "\<not> contains (to_lower ?s) q" if "CHR ''/'' \<in> set q" for q using that contains_elem [of "to_lower ?s" q] by auto
    then show "\<not> has_prefix (to_lower ?s) ''t.me/''" "\<not> has_prefix (to_lower ?s) ''telegram.me/''"
      by (auto dest!: contains_has_prefix)
  qed
  ultimately have u: "asURL ?s = None" by (simp add: asURL_def)
  have sp: "SplitHostPort ?s = Inr (t_Host t, ?port)"
    unfolding Addr_def by (rule SplitHostPort_Join) (use k(1) assms(4) d in auto)
  have "Parse (Canonical t) = fromHostPort ?s"
    using \<open>?s \<noteq> []\<close> by (simp add: Canonical_def assms(2) Let_def Parse_def t u)
  also have "\<dots> = Inr \<lparr>t_Raw = ?s, t_Kind = KindTCP, t_Host = t_Host t, t_Port = t_Port t, t_Secret = [], t_Username = [],
                   t_Password = [], t_Title = [], t_secret = []\<rparr>"
    by (simp add: fromHostPort_def sp k res_bind_def finish_def)
  finally show ?thesis by simp
qed

end
