(* ===== verification/Socks5.thy ===== *)
theory Socks5
  imports Conn Target
begin

text \<open>
  \<open>internal/mtproto/socks5.go\<close>: the SOCKS5 client (RFC 1928, RFC 1929) on a connection:
  greeting, optional password authentication, CONNECT request and reply.  The lemmas give
  the exact set of server transcripts that are accepted, what is sent meanwhile, and that
  the bytes after the reply are left for the protocol on top.
\<close>

definition telegramDCs :: "(int \<times> string) list" where
  "telegramDCs =
     [(2, ''149.154.167.51:443''), (1, ''149.154.175.53:443''), (4, ''149.154.167.91:443''),
      (3, ''149.154.175.100:443''), (5, ''91.108.56.130:443'')]"

definition socksReplyText :: "byte \<Rightarrow> string" where
  "socksReplyText code =
     (if code = 0x01 then ''general failure''
      else if code = 0x02 then ''connection not allowed''
      else if code = 0x03 then ''network unreachable''
      else if code = 0x04 then ''host unreachable''
      else if code = 0x05 then ''connection refused''
      else if code = 0x06 then ''TTL expired''
      else if code = 0x07 then ''command not supported''
      else if code = 0x08 then ''address type not supported''
      else ''code '' @ dec_nat (unat code))"

definition socks5ConnectRequest :: "string \<Rightarrow> goerr + bytes" where
  "socks5ConnectRequest dstAddr =
     res_bind (SplitHostPort dstAddr) (\<lambda>(host, portText).
     res_bind (atoi portText) (\<lambda>port.
       Inr ([0x05, 0x01, 0x00]
         @ (case ParseIP host of
              None \<Rightarrow> [0x03, word_of_nat (length host)] @ str_bytes host
            | Some ip \<Rightarrow> (case ip_To4 ip of Some v4 \<Rightarrow> [0x01] @ v4 | None \<Rightarrow> [0x04] @ ip))
         @ [word_of_int (port div 256), word_of_int port])))"

definition socks5Auth :: "string \<Rightarrow> string \<Rightarrow> (conn, unit) io" where
  "socks5Auth username password =
     (if length username > 255 \<or> length password > 255
      then io_fail (failAs StageHandshake KindSocksAuth (ErrText ''SOCKS5 username or password is longer than 255 bytes''))
      else io_seq (io_map_err (fail StageHandshake)
             (conn_write ([0x01, word_of_nat (length username)] @ str_bytes username
                @ [word_of_nat (length password)] @ str_bytes password)))
        (io_bind (io_map_err (\<lambda>e. fail StageHandshake (ErrWrap ''no SOCKS5 auth reply: '' e)) (conn_read_full 2)) (\<lambda>reply.
           if reply ! 0 \<noteq> 0x01 \<or> reply ! 1 \<noteq> 0x00
           then io_fail (failAs StageHandshake KindSocksAuth (ErrText ''SOCKS5 credentials rejected''))
           else io_return ())))"

text \<open>How many bytes of a reply follow its first four.\<close>

definition reply_address :: "byte \<Rightarrow> (conn, nat) io" where
  "reply_address atyp =
     (if atyp = 0x01 then io_return (4 + 2)
      else if atyp = 0x04 then io_return (16 + 2)
      else if atyp = 0x03 then
        io_bind (io_map_err (fail StageProtocol) (conn_read_full 1)) (\<lambda>len. io_return (unat (len ! 0) + 2))
      else io_fail (fail StageProtocol (ErrText (''unexpected SOCKS5 address type 0x'' @ hex_byte atyp))))"

definition socks5ReadReply :: "(conn, unit) io" where
  "socks5ReadReply =
     io_bind (io_map_err (\<lambda>e. fail StageProtocol (ErrWrap ''no SOCKS5 CONNECT reply: '' e)) (conn_read_full 4)) (\<lambda>head.
       if head ! 0 \<noteq> 0x05
       then io_fail (fail StageProtocol (ErrText (''bad SOCKS5 reply version '' @ dec_nat (unat (head ! 0)))))
       else if head ! 1 \<noteq> 0x00
       then io_fail (failAs StageProtocol KindSocksRejected (ErrText (''SOCKS5 CONNECT rejected: '' @ socksReplyText (head ! 1))))
       else io_bind (reply_address (head ! 3)) (\<lambda>skip.
              io_seq (io_map_err (fail StageProtocol) (conn_read_full skip)) (io_return ())))"

definition greeting :: "string \<Rightarrow> string \<Rightarrow> bytes" where
  "greeting username password = [0x05, 0x01, if username \<noteq> [] \<or> password \<noteq> [] then 0x02 else 0x00]"

definition choose_method :: "string \<Rightarrow> string \<Rightarrow> byte \<Rightarrow> (conn, unit) io" where
  "choose_method username password m =
     (if m = 0x00 then io_return ()
      else if m = 0x02 then socks5Auth username password
      else if m = 0xFF
      then io_fail (failAs StageHandshake KindSocksAuth (ErrText ''SOCKS5 server rejected all auth methods''))
      else io_fail (fail StageHandshake (ErrText (''unsupported SOCKS5 auth method 0x'' @ hex_byte m))))"

definition socks5Connect :: "string \<Rightarrow> string \<Rightarrow> string \<Rightarrow> (conn, unit) io" where
  "socks5Connect username password dstAddr =
     io_seq (io_map_err (fail StageHandshake) (conn_write (greeting username password)))
     (io_bind (io_map_err (\<lambda>e. fail StageHandshake (ErrWrap ''no SOCKS5 greeting reply: '' e)) (conn_read_full 2)) (\<lambda>reply.
        if reply ! 0 \<noteq> 0x05
        then io_fail (fail StageHandshake (ErrText (''not a SOCKS5 server (version '' @ dec_nat (unat (reply ! 0)) @ '')'')))
        else io_seq (choose_method username password (reply ! 1))
          (io_bind (io_map_err (fail StageProtocol) (io_lift (socks5ConnectRequest dstAddr))) (\<lambda>request.
           io_seq (io_map_err (fail StageProtocol) (conn_write request)) socks5ReadReply))))"

section \<open>The transcripts that are accepted\<close>

text \<open>The server's side: method choice, authentication answer, and the reply to CONNECT with a
  bound address of one of the three types.\<close>

definition auth_answer :: "byte \<Rightarrow> bytes" where
  "auth_answer m = (if m = 0x02 then [0x01, 0x00] else [])"

inductive bound_address :: "bytes \<Rightarrow> bool" where
  v4: "length a = 6 \<Longrightarrow> bound_address (0x01 # a)"
| v6: "length a = 18 \<Longrightarrow> bound_address (0x04 # a)"
| domain: "length a = unat n + 2 \<Longrightarrow> bound_address (0x03 # n # a)"

definition server_transcript :: "byte \<Rightarrow> byte \<Rightarrow> bytes \<Rightarrow> bytes" where
  "server_transcript m rsv addr = [0x05, m] @ auth_answer m @ [0x05, 0x00, rsv] @ addr"

definition auth_request :: "byte \<Rightarrow> string \<Rightarrow> string \<Rightarrow> bytes list" where
  "auth_request m username password =
     (if m = 0x02 then [[0x01, word_of_nat (length username)] @ str_bytes username
                @ [word_of_nat (length password)] @ str_bytes password] else [])"

lemma conn_write_ok: "conn_write p c = (Inr (), c') \<longleftrightarrow> (\<exists>k. wleft c = Suc k \<and> c' = c\<lparr>wleft := k, outgoing := outgoing c @ [p]\<rparr>)"
  by (auto simp: conn_write_def split: nat.splits)

lemma conn_read_iff: "conn_read_full n c = (Inr p, c') \<longleftrightarrow> length p = n \<and> (\<exists>rest. incoming c = p @ rest \<and> c' = c\<lparr>incoming := rest\<rparr>)"
  by (auto simp: conn_read_full_def intro: exI [of _ "drop n (incoming c)"])

lemma read_then:
  "io_bind (io_map_err g (conn_read_full n)) f c = (Inr y, c') \<longleftrightarrow>
     (\<exists>p rest. length p = n \<and> incoming c = p @ rest \<and> f p (c\<lparr>incoming := rest\<rparr>) = (Inr y, c'))"
  by (auto simp: io_bind_eq_Inr conn_read_iff)

lemma read_one:
  "io_bind (io_map_err g (conn_read_full 1)) f c = (Inr y, c') \<longleftrightarrow>
     (\<exists>a rest. incoming c = a # rest \<and> f [a] (c\<lparr>incoming := rest\<rparr>) = (Inr y, c'))"
  by (auto simp: read_then length_Suc_conv)

lemma read_two:
  "io_bind (io_map_err g (conn_read_full 2)) f c = (Inr y, c') \<longleftrightarrow>
     (\<exists>a b rest. incoming c = a # b # rest \<and> f [a, b] (c\<lparr>incoming := rest\<rparr>) = (Inr y, c'))" (is "?l = ?r")
proof
  assume ?l
  then show ?r by (auto simp: read_then length_Suc_conv numeral_2_eq_2)
next
  assume ?r
  then obtain a b rest where "incoming c = a # b # rest" "f [a, b] (c\<lparr>incoming := rest\<rparr>) = (Inr y, c')" by blast
  then show ?l unfolding read_then by (intro exI [of _ "[a, b]"] exI [of _ rest]) simp
qed

lemma read_four:
  "io_bind (io_map_err g (conn_read_full 4)) f c = (Inr y, c') \<longleftrightarrow>
     (\<exists>a b x d rest. incoming c = a # b # x # d # rest \<and> f [a, b, x, d] (c\<lparr>incoming := rest\<rparr>) = (Inr y, c'))" (is "?l = ?r")
proof
  assume ?l
  moreover have "length p = 4 \<Longrightarrow> \<exists>a b x d. p = [a, b, x, d]" for p :: bytes
    by (auto simp: length_Suc_conv numeral_eq_Suc)
  ultimately show ?r unfolding read_then by fastforce
next
  assume ?r
  then obtain a b x d rest where "incoming c = a # b # x # d # rest" "f [a, b, x, d] (c\<lparr>incoming := rest\<rparr>) = (Inr y, c')" by blast
  then show ?l unfolding read_then by (intro exI [of _ "[a, b, x, d]"] exI [of _ rest]) simp
qed

lemma write_then:
  "io_seq (io_map_err g (conn_write p)) m c = (Inr y, c') \<longleftrightarrow>
     (\<exists>k. wleft c = Suc k \<and> m (c\<lparr>wleft := k, outgoing := outgoing c @ [p]\<rparr>) = (Inr y, c'))"
  by (auto simp: io_seq_def io_bind_eq_Inr conn_write_ok)

lemma socks5Auth_iff:
  "socks5Auth username password c = (Inr (), c') \<longleftrightarrow>
     length username \<le> 255 \<and> length password \<le> 255 \<and>
       (\<exists>k rest. wleft c = Suc k \<and> incoming c = [0x01, 0x00] @ rest \<and>
          c' = c\<lparr>wleft := k, outgoing := outgoing c @ auth_request 0x02 username password, incoming := rest\<rparr>)"
  by (auto simp: socks5Auth_def write_then read_two auth_request_def)

lemma choose_method_iff:
  "choose_method username password m c = (Inr (), c') \<longleftrightarrow>
     m = 0x00 \<and> c' = c \<or> m = 0x02 \<and> socks5Auth username password c = (Inr (), c')"
  by (auto simp: choose_method_def)

lemma read_skip:
  "io_seq (io_map_err g (conn_read_full n)) (io_return ()) c = (Inr (), c') \<longleftrightarrow>
     (\<exists>p rest. length p = n \<and> incoming c = p @ rest \<and> c' = c\<lparr>incoming := rest\<rparr>)"
  by (auto simp: io_seq_def read_then)

lemma reply_address_then:
  "io_bind (reply_address atyp) (\<lambda>n. io_seq (io_map_err g (conn_read_full n)) (io_return ())) c = (Inr (), c') \<longleftrightarrow>
     (\<exists>addr rest. bound_address (atyp # addr) \<and> incoming c = addr @ rest \<and> c' = c\<lparr>incoming := rest\<rparr>)"
    (is "?l \<longleftrightarrow> _")
proof -
  consider "atyp = 0x01" | "atyp = 0x04" | "atyp = 0x03" | "atyp \<notin> {0x01, 0x04, 0x03}" by blast
  then show ?thesis
  proof cases
    case 3
    have e: "io_bind (reply_address 0x03) (\<lambda>n. io_seq (io_map_err g (conn_read_full n)) (io_return ())) c =
        io_bind (io_map_err (fail StageProtocol) (conn_read_full 1)) (\<lambda>len. io_seq (io_map_err g (conn_read_full (unat (len ! 0) + 2))) (io_return ())) c"
      by (simp add: reply_address_def io_bind_def io_map_err_def split: prod.splits sum.splits)
    have "?l \<longleftrightarrow> (\<exists>n p rest. length p = unat n + 2 \<and> incoming c = (n # p) @ rest \<and> c' = c\<lparr>incoming := rest\<rparr>)"
      unfolding 3 e read_one read_skip by simp blast
    also have "\<dots> \<longleftrightarrow> (\<exists>addr rest. (\<exists>n p. addr = n # p \<and> length p = unat n + 2) \<and> incoming c = addr @ rest \<and> c' = c\<lparr>incoming := rest\<rparr>)"
      by blast
    finally have l: "?l \<longleftrightarrow> (\<exists>addr rest. (\<exists>n p. addr = n # p \<and> length p = unat n + 2) \<and> incoming c = addr @ rest \<and> c' = c\<lparr>incoming := rest\<rparr>)" .
    have "bound_address (atyp # addr) \<longleftrightarrow> (\<exists>n p. addr = n # p \<and> length p = unat n + 2)" for addr
      unfolding 3 by (auto simp: bound_address.simps)
    then show ?thesis unfolding l by (simp only:)
  qed (auto simp: reply_address_def read_skip bound_address.simps)
qed

lemma socks5ReadReply_iff:
  "socks5ReadReply c = (Inr (), c') \<longleftrightarrow>
     (\<exists>rsv addr rest. bound_address addr \<and> incoming c = [0x05, 0x00, rsv] @ addr @ rest \<and> c' = c\<lparr>incoming := rest\<rparr>)"
proof -
  have "socks5ReadReply c = (Inr (), c') \<longleftrightarrow>
      (\<exists>rsv atyp addr rest. bound_address (atyp # addr) \<and> incoming c = [0x05, 0x00, rsv] @ (atyp # addr) @ rest \<and> c' = c\<lparr>incoming := rest\<rparr>)"
    unfolding socks5ReadReply_def read_four by (simp add: reply_address_then) blast
  moreover have "bound_address addr \<Longrightarrow> \<exists>atyp tail. addr = atyp # tail" for addr by (auto elim: bound_address.cases)
  ultimately show ?thesis by blast
qed

text \<open>What a successful negotiation has read and written.\<close>

definition client_writes :: "byte \<Rightarrow> string \<Rightarrow> string \<Rightarrow> bytes \<Rightarrow> bytes list" where
  "client_writes m username password request = [greeting username password] @ auth_request m username password @ [request]"

theorem socks5Connect_iff:
  "socks5Connect username password dst c = (Inr (), c') \<longleftrightarrow>
     (\<exists>m rsv addr request rest.
        (m = 0x00 \<or> m = 0x02 \<and> length username \<le> 255 \<and> length password \<le> 255) \<and> bound_address addr \<and>
        socks5ConnectRequest dst = Inr request \<and> incoming c = server_transcript m rsv addr @ rest \<and>
        length (client_writes m username password request) \<le> wleft c \<and>
        c' = c\<lparr>incoming := rest, wleft := wleft c - length (client_writes m username password request),
               outgoing := outgoing c @ client_writes m username password request\<rparr>)"
    (is "?l = ?r")
proof -
  have "?l \<longleftrightarrow> (\<exists>m k rest1 request. wleft c = Suc k \<and> incoming c = [0x05, m] @ rest1 \<and> socks5ConnectRequest dst = Inr request \<and>
      (\<exists>c2. choose_method username password m (c\<lparr>wleft := k, outgoing := outgoing c @ [greeting username password], incoming := rest1\<rparr>) = (Inr (), c2) \<and>
        io_seq (io_map_err (fail StageProtocol) (conn_write request)) socks5ReadReply c2 = (Inr (), c')))"
    unfolding socks5Connect_def write_then read_two
    by (auto simp: io_seq_def [of "choose_method username password m" for m] io_bind_eq_Inr write_then)
  also have "\<dots> \<longleftrightarrow> ?r"
  proof
    assume "\<exists>m k rest1 request. wleft c = Suc k \<and> incoming c = [0x05, m] @ rest1 \<and> socks5ConnectRequest dst = Inr request \<and>
      (\<exists>c2. choose_method username password m (c\<lparr>wleft := k, outgoing := outgoing c @ [greeting username password], incoming := rest1\<rparr>) = (Inr (), c2) \<and>
        io_seq (io_map_err (fail StageProtocol) (conn_write request)) socks5ReadReply c2 = (Inr (), c'))"
    then obtain m k rest1 request c2 rsv addr rest j where *: "wleft c = Suc k" "incoming c = [0x05, m] @ rest1"
      "socks5ConnectRequest dst = Inr request"
      "choose_method username password m (c\<lparr>wleft := k, outgoing := outgoing c @ [greeting username password], incoming := rest1\<rparr>) = (Inr (), c2)"
      "wleft c2 = Suc j" "bound_address addr" "incoming c2 = [0x05, 0x00, rsv] @ addr @ rest"
      "c' = c2\<lparr>wleft := j, outgoing := outgoing c2 @ [request], incoming := rest\<rparr>"
      unfolding write_then socks5ReadReply_iff by auto
    from *(4) consider "m = 0x00" "c2 = c\<lparr>wleft := k, outgoing := outgoing c @ [greeting username password], incoming := rest1\<rparr>"
      | k' rest2 where "m = 0x02" "length username \<le> 255" "length password \<le> 255" "k = Suc k'" "rest1 = [0x01, 0x00] @ rest2"
        "c2 = c\<lparr>wleft := k', outgoing := outgoing c @ [greeting username password] @ auth_request 0x02 username password, incoming := rest2\<rparr>"
      unfolding choose_method_iff socks5Auth_iff by auto
    then show ?r
    proof cases
      case 1
      with * show ?thesis
        by (intro exI [of _ m] exI [of _ rsv] exI [of _ addr] exI [of _ request] exI [of _ rest])
          (simp add: server_transcript_def client_writes_def auth_answer_def auth_request_def)
    next
      case 2
      with * show ?thesis
        by (intro exI [of _ m] exI [of _ rsv] exI [of _ addr] exI [of _ request] exI [of _ rest])
          (simp add: server_transcript_def client_writes_def auth_answer_def auth_request_def)
    qed
  next
    assume ?r
    then obtain m rsv addr request rest where r: "m = 0x00 \<or> m = 0x02 \<and> length username \<le> 255 \<and> length password \<le> 255"
      "bound_address addr" "socks5ConnectRequest dst = Inr request" "incoming c = server_transcript m rsv addr @ rest"
      "length (client_writes m username password request) \<le> wleft c"
      "c' = c\<lparr>incoming := rest, wleft := wleft c - length (client_writes m username password request),
               outgoing := outgoing c @ client_writes m username password request\<rparr>" by blast
    let ?k = "wleft c - 1" and ?rest1 = "auth_answer m @ [0x05, 0x00, rsv] @ addr @ rest"
    let ?c1 = "c\<lparr>wleft := ?k, outgoing := outgoing c @ [greeting username password], incoming := ?rest1\<rparr>"
    let ?c2 = "?c1\<lparr>wleft := ?k - length (auth_request m username password), incoming := [0x05, 0x00, rsv] @ addr @ rest,
        outgoing := outgoing ?c1 @ auth_request m username password\<rparr>"
    have "wleft c = Suc ?k" "incoming c = [0x05, m] @ ?rest1" using r by (auto simp: server_transcript_def client_writes_def)
    moreover have "choose_method username password m ?c1 = (Inr (), ?c2)"
      using r(1,5) unfolding choose_method_iff socks5Auth_iff
      by (auto simp: auth_answer_def auth_request_def client_writes_def intro!: exI [of _ "wleft c - 2"])
    moreover have "io_seq (io_map_err (fail StageProtocol) (conn_write request)) socks5ReadReply ?c2 = (Inr (), c')"
      unfolding write_then socks5ReadReply_iff using r
      by (intro exI [of _ "wleft ?c2 - 1"] conjI exI [of _ rsv] exI [of _ addr] exI [of _ rest])
        (auto simp: client_writes_def)
    ultimately show "\<exists>m k rest1 request. wleft c = Suc k \<and> incoming c = [0x05, m] @ rest1 \<and> socks5ConnectRequest dst = Inr request \<and>
      (\<exists>c2. choose_method username password m (c\<lparr>wleft := k, outgoing := outgoing c @ [greeting username password], incoming := rest1\<rparr>) = (Inr (), c2) \<and>
        io_seq (io_map_err (fail StageProtocol) (conn_write request)) socks5ReadReply c2 = (Inr (), c'))"
      using r(3) by blast
  qed
  finally show ?thesis .
qed

end
