(* ===== verification/Probe.thy ===== *)
theory Probe
  imports FakeTls Socks5 Hold
begin

text \<open>
  \<open>internal/mtproto/probe.go\<close>, the probing half of socks5.go and webproxy.go: dialling a
  target, the FakeTLS handshake, the obfuscated or direct MTProto handshake of the chosen
  depth, and the loops over datacenters and transports.  A probe runs in a \<open>net\<close> world:
  the environment together with the outcomes of the next dials, the answers of the
  context, and the outcomes of \<open>webproxy.Dial\<close>.
\<close>

section \<open>Settings, routes and outcomes\<close>

datatype depth = DepthQuick | DepthFull

definition DefaultPings :: int where "DefaultPings = 3"

record checker =
  ck_Timeout :: int
  ck_MaxCandidates :: int
  ck_Depth :: depth
  ck_Pings :: int
  ck_APIID :: int
  ck_Inspect :: bool
  ck_Speedtest :: bool
  ck_Hold :: int

definition New :: "int \<Rightarrow> checker" where
  "New timeout = \<lparr>ck_Timeout = timeout, ck_MaxCandidates = 6, ck_Depth = DepthQuick, ck_Pings = DefaultPings,
     ck_APIID = 0, ck_Inspect = False, ck_Speedtest = False, ck_Hold = 0\<rparr>"

record route =
  rt_Protocol :: string
  rt_DC :: int
  rt_Transport :: string
  rt_Via :: string
  rt_Depth :: "depth option"
  rt_Skew :: int

record timings =
  tm_ConnectMS :: int
  tm_HandshakeMS :: int
  tm_RespQMS :: int

record stageResults =
  sr_skew :: int
  sr_respq :: int
  sr_ping :: "pingStats option"
  sr_nearest :: "nearestDC option"
  sr_config :: "configInfo option"
  sr_speed :: "speedStats option"
  sr_stability :: "stabilityStats option"

definition noResults :: stageResults where
  "noResults = \<lparr>sr_skew = 0, sr_respq = 0, sr_ping = None, sr_nearest = None, sr_config = None, sr_speed = None, sr_stability = None\<rparr>"

record probe_outcome =
  oc_Route :: route
  oc_Timings :: timings
  oc_Stages :: stageResults

definition budget :: "checker \<Rightarrow> int" where
  "budget c =
     (if ck_Depth c \<noteq> DepthFull then ck_Timeout c
      else 4 * ck_Timeout c + (if ck_Inspect c then 2 * ck_Timeout c else 0)
             + (if ck_Speedtest c then 2 * ck_Timeout c else 0) + ck_Hold c)"

definition candidateWindow :: "checker \<Rightarrow> int" where
  "candidateWindow c = (if ck_Depth c = DepthFull then 3 * ck_Timeout c else 2 * ck_Timeout c)"

definition TotalBudget :: "checker \<Rightarrow> int" where
  "TotalBudget c = candidateWindow c + budget c + ck_Timeout c"

definition pings :: "checker \<Rightarrow> int" where
  "pings c = (if ck_Pings c \<le> 0 then DefaultPings else ck_Pings c)"

section \<open>The world of a probe\<close>

text \<open>Each dial either fails or gives a connection, whose \<open>SetDeadline\<close> may fail; a dial beyond
  the list fails.  \<open>ctxErrs\<close> are the answers \<open>ctx.Err()\<close> will give.\<close>

record net = env +
  dials :: "(goerr + conn \<times> goerr option) list"
  ctxErrs :: "goerr option list"

definition next_dial :: "(('z) net_scheme, conn \<times> goerr option) io" where
  "next_dial = (\<lambda>w. case dials w of
       [] \<Rightarrow> (Inl (ErrNet False ''network is unreachable'' None), w)
     | d # ds \<Rightarrow> (d, w\<lparr>dials := ds\<rparr>))"

definition ctx_err :: "(('z) net_scheme, goerr option) io" where
  "ctx_err = (\<lambda>w. case ctxErrs w of [] \<Rightarrow> (Inr None, w) | e # es \<Rightarrow> (Inr e, w\<lparr>ctxErrs := es\<rparr>))"

text \<open>Running a computation on a channel, which is closed afterwards, inside another world, and
  one on a session inside a stream's world.\<close>

definition on_new :: "'c \<Rightarrow> ('c world, 'a) io \<Rightarrow> ('z env_scheme, 'a) io" where
  "on_new c m = (\<lambda>w. case m \<lparr>entropy = entropy w, clk = clk w, ticks = ticks w, primeCache = primeCache w, chan = c\<rparr> of
       (r, v) \<Rightarrow> (r, w\<lparr>entropy := entropy v, clk := clk v, ticks := ticks v, primeCache := primeCache v\<rparr>))"

definition in_session :: "session \<Rightarrow> ('c session_world, 'a) io \<Rightarrow> ('c stream world, 'a) io" where
  "in_session s m = (\<lambda>w. case m \<lparr>entropy = entropy w, clk = clk w, ticks = ticks w, primeCache = primeCache w, chan = chan w, sess = s\<rparr> of
       (r, v) \<Rightarrow> (r, \<lparr>entropy = entropy v, clk = clk v, ticks = ticks v, primeCache = primeCache v, chan = chan v\<rparr>))"

text \<open>A call whose error is inspected; a panic below it is no error and is not caught.\<close>

definition panics :: "goerr \<Rightarrow> bool" where
  "panics e \<longleftrightarrow> list_ex (\<lambda>e. case e of ErrPanic _ \<Rightarrow> True | _ \<Rightarrow> False) (err_chain e)"

definition io_catch :: "('w, 'a) io \<Rightarrow> ('w, goerr + 'a) io" where
  "io_catch m = (\<lambda>w. case m w of
       (Inr x, w') \<Rightarrow> (Inr (Inr x), w')
     | (Inl e, w') \<Rightarrow> (if panics e then Inl e else Inr (Inl e), w'))"

text \<open>\<open>err == nil\<close> keeps the value, an error is dropped.\<close>

definition io_option :: "('w, 'a) io \<Rightarrow> ('w, 'a option) io" where
  "io_option m = io_bind (io_catch m) (\<lambda>r. io_return (case r of Inr x \<Rightarrow> Some x | Inl _ \<Rightarrow> None))"

section \<open>The handshake\<close>

text \<open>The parameters of the model, in one record: primitives, primality test, gzip and its stack.\<close>

record params =
  P_crypto :: crypto
  P_prime :: "nat \<Rightarrow> bool"
  P_gzip :: gzip
  P_stack :: nat

definition session_stages :: "params \<Rightarrow> checker \<Rightarrow> stageResults \<Rightarrow> ('c session_world, stageResults) io" where
  "session_stages P c out =
     (let C = P_crypto P; G = P_gzip P; st = P_stack P in
      io_bind (io_map_err (fail StageProtocol) (pingSeries C (pings c) (ck_Timeout c))) (\<lambda>ping.
      io_bind (if ck_Inspect c \<and> ck_APIID c \<noteq> 0
         then io_bind (io_map_err (\<lambda>e. fail StageProtocol (ErrWrap ''help.getNearestDc: '' e)) (getNearestDC C G st (ck_APIID c) (ck_Timeout c))) (\<lambda>nearest.
              io_bind (io_option (getConfig C G st (ck_APIID c) (ck_Timeout c))) (\<lambda>config. io_return (Some nearest, config)))
         else io_return (None, None)) (\<lambda>(nearest, config).
      io_bind (if ck_Speedtest c \<and> ck_APIID c \<noteq> 0
         then io_option (measureDownload C G st (ck_APIID c) (2 * ck_Timeout c)) else io_return None) (\<lambda>speed.
      io_bind (if ck_Hold c > 0
         then io_bind (hold C (ck_Hold c) 5000000000 (ck_Timeout c)) (\<lambda>s. io_return (Some s)) else io_return None) (\<lambda>stability.
      io_return (out\<lparr>sr_ping := Some ping, sr_nearest := nearest, sr_config := config, sr_speed := speed, sr_stability := stability\<rparr>))))))"

definition fullHandshake :: "params \<Rightarrow> checker \<Rightarrow> int \<Rightarrow> ('c stream world, stageResults) io" where
  "fullHandshake P c dcID =
     io_bind (io_map_err (fail StageProtocol) (createAuthKey (P_crypto P) (P_prime P) dcID)) (\<lambda>auth.
     io_bind (io_gets (\<lambda>w. firstRoundTrip (chan w))) (\<lambda>respq.
     io_bind (io_map_err (fail StageProtocol) (newSession auth)) (\<lambda>s.
     in_session s (session_stages P c (noResults\<lparr>sr_skew := ak_timeOffset auth, sr_respq := respq\<rparr>)))))"

definition quick_stage :: "('c stream world, stageResults) io" where
  "quick_stage =
     io_seq (io_map_err (fail StageProtocol) quickCheck)
     (io_bind (io_gets (\<lambda>w. firstRoundTrip (chan w))) (\<lambda>respq. io_return (noResults\<lparr>sr_respq := respq\<rparr>)))"

definition stages :: "params \<Rightarrow> checker \<Rightarrow> int \<Rightarrow> ('c stream world, stageResults) io" where
  "stages P c dcID = (if ck_Depth c = DepthFull then fullHandshake P c dcID else quick_stage)"

text \<open>The stream over a carrier, before the first message.\<close>

definition new_stream :: "'c link \<Rightarrow> 'c \<Rightarrow> transport \<Rightarrow> bytes option \<Rightarrow> int \<Rightarrow> 'c stream" where
  "new_stream l carrier tr tag perStep = \<lparr>s_link = l, s_carrier = carrier, s_tr = tr, s_tagFirst = tag, s_perStep = perStep,
     s_until = None, s_sentAt = None, s_recvdAt = None\<rparr>"

definition obf_over :: "crypto \<Rightarrow> 'c link \<Rightarrow> 'c obf link" where
  "obf_over C l = \<lparr>lk_read = obf_ReadFull C (lk_read l), lk_write = obf_write C (lk_write l),
     lk_deadline = map_option obf_deadline (lk_deadline l)\<rparr>"

definition handshake ::
  "params \<Rightarrow> checker \<Rightarrow> 'c link \<Rightarrow> bytes \<Rightarrow> int \<times> transport \<Rightarrow> ('c world, stageResults) io" where
  "handshake P c l key cand =
     io_bind (io_map_err (fail StageProtocol) (newObfConn (P_crypto P) (lk_write l) key (tr_tag (snd cand)) (fst cand))) (\<lambda>(enc, dec).
     io_bind (io_gets chan) (\<lambda>carrier.
       on_new (new_stream (obf_over (P_crypto P) l) \<lparr>o_rw = carrier, o_enc = enc, o_dec = dec\<rparr> (snd cand) None (ck_Timeout c))
         (stages P c (fst cand))))"

definition conn_link :: "conn link" where
  "conn_link = \<lparr>lk_read = conn_read_full, lk_write = conn_write, lk_deadline = Some conn_set_deadline\<rparr>"

definition tls_link :: "tlsConn link" where
  "tls_link = \<lparr>lk_read = tls_ReadFull, lk_write = tls_Write, lk_deadline = Some tls_deadline\<rparr>"

definition fakeTLSHandshake :: "crypto \<Rightarrow> target \<Rightarrow> (conn world, unit) io" where
  "fakeTLSHandshake C t =
     io_bind (io_map_err (fail StageHandshake) (buildClientHello C (SNI t) (SecretKey t))) (\<lambda>hello.
     io_seq (io_map_err (fail StageHandshake) (on_chan (conn_write (ch_bytes hello))))
     (io_bind (io_map_err (\<lambda>e. fail StageHandshake (ErrWrap ''no FakeTLS ServerHello: '' e)) (on_chan readServerHello)) (\<lambda>response.
      io_map_err (failAs StageHandshake KindSecretRejected)
        (io_lift (verifyServerHello C response (SecretKey t) (ch_sessionID hello) (ch_random hello))))))"

section \<open>Dialling\<close>

definition dial :: "checker \<Rightarrow> (('z) net_scheme, conn \<times> int) io" where
  "dial c =
     io_bind time_now (\<lambda>started.
     io_bind (io_map_err (fail StageDial) next_dial) (\<lambda>(conn, refused).
     io_bind time_now (\<lambda>connected.
     io_bind time_now (\<lambda>now. case refused of
        Some e \<Rightarrow> io_fail (fail StageDial e)
      | None \<Rightarrow> io_return (conn_set_deadline (now + budget c) conn, connected - started)))))"

definition zero_timings :: timings where
  "zero_timings = \<lparr>tm_ConnectMS = 0, tm_HandshakeMS = 0, tm_RespQMS = 0\<rparr>"

definition probeTCP :: "checker \<Rightarrow> (('z) net_scheme, probe_outcome) io" where
  "probeTCP c =
     io_bind (dial c) (\<lambda>(conn, connectTime).
     on_new conn
       (io_seq (io_map_err (fail StageHandshake) (on_chan (conn_write (replicate 8 0))))
       (io_bind time_now (\<lambda>now.
        io_seq (on_chan (io_modify (conn_set_deadline (now + 500000000))))
        (io_bind (io_try (on_chan (conn_read_full 1))) (\<lambda>r.
         if (case r of Inl err \<Rightarrow> as_net_timeout err | Inr _ \<Rightarrow> True)
         then io_return \<lparr>oc_Route = \<lparr>rt_Protocol = ''tcp'', rt_DC = 0, rt_Transport = [], rt_Via = [], rt_Depth = None, rt_Skew = 0\<rparr>,
                oc_Timings = zero_timings\<lparr>tm_ConnectMS := ms connectTime\<rparr>, oc_Stages = noResults\<rparr>
         else io_fail (failAs StageHandshake KindClosed (ErrWrap ''connection closed after TCP probe: '' (projl r)))))))))"

section \<open>MTProto proxies\<close>

text \<open>What an attempt reports once its handshake is done.\<close>

definition outcome_of :: "checker \<Rightarrow> string \<Rightarrow> int \<times> transport \<Rightarrow> string \<Rightarrow> timings \<Rightarrow> stageResults \<Rightarrow> probe_outcome" where
  "outcome_of c protocol cand via tm st =
     \<lparr>oc_Route = \<lparr>rt_Protocol = protocol, rt_DC = fst cand, rt_Transport = tr_name (snd cand), rt_Via = via,
        rt_Depth = Some (ck_Depth c), rt_Skew = sr_skew st\<rparr>,
      oc_Timings = tm\<lparr>tm_RespQMS := ms (sr_respq st)\<rparr>, oc_Stages = st\<rparr>"

text \<open>The carrier of an attempt: the connection, or a FakeTLS stream once its handshake is done,
  with the time that took.\<close>

definition attemptMTProto :: "params \<Rightarrow> checker \<Rightarrow> target \<Rightarrow> bool \<Rightarrow> int \<times> transport \<Rightarrow> (('z) net_scheme, probe_outcome) io" where
  "attemptMTProto P c t fakeTLS cand =
     io_bind (dial c) (\<lambda>(conn, connectTime).
     on_new conn
       (if fakeTLS
        then io_bind time_now (\<lambda>started.
             io_seq (fakeTLSHandshake (P_crypto P) t)
             (io_bind time_now (\<lambda>done.
              io_bind (io_gets chan) (\<lambda>carrier.
              io_bind (on_new (newTLSConn carrier) (handshake P c tls_link (SecretKey t) cand)) (\<lambda>st.
              io_return (outcome_of c ''faketls'' cand [] (zero_timings\<lparr>tm_ConnectMS := ms connectTime, tm_HandshakeMS := ms (done - started)\<rparr>) st))))))
        else io_bind (handshake P c conn_link (SecretKey t) cand) (\<lambda>st.
             io_return (outcome_of c ''mtproto'' cand [] (zero_timings\<lparr>tm_ConnectMS := ms connectTime\<rparr>) st))))"

definition dcOrder :: "int list" where "dcOrder = [2, 1, 4, 3, 5]"

definition candidate_list :: "checker \<Rightarrow> secret_mode \<Rightarrow> (int \<times> transport) list" where
  "candidate_list c mode =
     (let order = (if mode = ModeFakeTLS \<or> mode = ModeSecure then [PaddedIntermediate, Intermediate, Abridged]
                   else [Intermediate, Abridged, PaddedIntermediate]);
          candidates = concat (map (\<lambda>dc. map (Pair dc) order) dcOrder)
      in if ck_MaxCandidates c > 0 \<and> int (length candidates) > ck_MaxCandidates c
         then take (nat (ck_MaxCandidates c)) candidates else candidates)"

definition summarize :: "string list \<Rightarrow> nat \<Rightarrow> string" where
  "summarize problems keep =
     (if problems = [] then ''no valid resPQ from Telegram''
      else join ''; '' (if length problems > keep then take keep problems else problems))"

definition candidate_problem :: "int \<times> transport \<Rightarrow> goerr \<Rightarrow> string" where
  "candidate_problem cand err = ''dc'' @ dec_int (fst cand) @ ''/'' @ tr_name (snd cand) @ '': '' @ err_text err"

text \<open>The loops over candidates give up at once on an error of stage \<open>final\<close>; otherwise they note
  it and go on unless the context is done.\<close>

definition give_up :: "string list \<Rightarrow> nat \<Rightarrow> goerr option \<Rightarrow> goerr" where
  "give_up problems keep lastErr = failAs StageProtocol (KindOf lastErr) (ErrText (summarize problems keep))"

fun try_candidates ::
  "(int \<times> transport \<Rightarrow> (('z) net_scheme, probe_outcome) io) \<Rightarrow> int \<Rightarrow> bool \<Rightarrow> (int \<times> transport) list \<Rightarrow> string list \<Rightarrow> goerr option \<Rightarrow>
   (('z) net_scheme, probe_outcome) io" where
  "try_candidates attempt deadline first [] problems lastErr = io_fail (give_up problems 3 lastErr)"
| "try_candidates attempt deadline first (cand # cands) problems lastErr =
     io_bind (if first then io_return False else io_bind time_now (\<lambda>now. io_return (now > deadline))) (\<lambda>expired.
     if expired then io_fail (give_up (problems @ [''candidate budget exhausted'']) 3 lastErr)
     else io_bind (io_catch (attempt cand)) (\<lambda>r. case r of
       Inr outcome \<Rightarrow> io_return outcome
     | Inl err \<Rightarrow>
         if (case as_probe err of Some (st, _) \<Rightarrow> st \<noteq> StageProtocol | None \<Rightarrow> False) then io_fail err
         else io_bind ctx_err (\<lambda>done. case done of
             Some e \<Rightarrow> io_fail (fail StageDial e)
           | None \<Rightarrow> try_candidates attempt deadline False cands (problems @ [candidate_problem cand err]) (Some err))))"

definition probeMTProto :: "params \<Rightarrow> checker \<Rightarrow> target \<Rightarrow> (('z) net_scheme, probe_outcome) io" where
  "probeMTProto P c t =
     io_bind time_now (\<lambda>now.
     try_candidates (attemptMTProto P c t (Mode t = ModeFakeTLS)) (now + candidateWindow c) True (candidate_list c (Mode t)) [] None)"

section \<open>SOCKS5 proxies\<close>

definition directMTProto :: "params \<Rightarrow> checker \<Rightarrow> transport \<Rightarrow> int \<Rightarrow> (conn world, stageResults) io" where
  "directMTProto P c tr dcID =
     io_bind (io_gets chan) (\<lambda>conn.
     on_new (new_stream conn_link conn tr (Some (tr_directTag tr)) (ck_Timeout c)) (stages P c dcID))"

definition socks5Attempt :: "params \<Rightarrow> checker \<Rightarrow> target \<Rightarrow> int \<times> string \<Rightarrow> int \<Rightarrow> (conn world, probe_outcome) io" where
  "socks5Attempt P c t dc connectTime =
     io_bind time_now (\<lambda>started.
     io_seq (on_chan (socks5Connect (t_Username t) (t_Password t) (snd dc)))
     (io_bind time_now (\<lambda>done.
      io_bind (directMTProto P c Intermediate (fst dc)) (\<lambda>st.
      io_return (outcome_of c ''socks5'' (fst dc, Intermediate) (snd dc)
        (zero_timings\<lparr>tm_ConnectMS := ms connectTime, tm_HandshakeMS := ms (done - started)\<rparr>) st)))))"

fun try_dcs :: "params \<Rightarrow> checker \<Rightarrow> target \<Rightarrow> (int \<times> string) list \<Rightarrow> string list \<Rightarrow> goerr option \<Rightarrow> (('z) net_scheme, probe_outcome) io" where
  "try_dcs P c t [] problems lastErr = io_fail (give_up problems 3 lastErr)"
| "try_dcs P c t (dc # dcs) problems lastErr =
     io_bind (dial c) (\<lambda>(conn, connectTime).
     io_bind (io_catch (on_new conn (socks5Attempt P c t dc connectTime))) (\<lambda>r. case r of
       Inr outcome \<Rightarrow> io_return outcome
     | Inl err \<Rightarrow>
         if (case as_probe err of Some (st, _) \<Rightarrow> st = StageHandshake | None \<Rightarrow> False) then io_fail err
         else io_bind ctx_err (\<lambda>done. case done of
             Some e \<Rightarrow> io_fail (fail StageDial e)
           | None \<Rightarrow> try_dcs P c t dcs (problems @ [snd dc @ '': '' @ err_text err]) (Some err))))"

definition probeSocks5 :: "params \<Rightarrow> checker \<Rightarrow> target \<Rightarrow> (('z) net_scheme, probe_outcome) io" where
  "probeSocks5 P c t = try_dcs P c t telegramDCs [] None"

section \<open>How many connections a probe makes\<close>

lemma time_now_dials [keeps_intros]: "io_keeps dials time_now"
  unfolding io_keeps_def by (intro allI, rename_tac w, case_tac "ticks w") (simp_all add: time_now_def)

lemma on_new_dials [keeps_intros]: "io_keeps dials (on_new c m)"
  by (simp add: io_keeps_def on_new_def split: prod.splits)

lemma ctx_err_dials [keeps_intros]: "io_keeps dials ctx_err"
  by (simp add: io_keeps_def ctx_err_def split: list.splits)

text \<open>What follows a dial does not dial again, so the whole takes one outcome off the world.\<close>

lemma one_dial:
  fixes m :: "(('z) net_scheme, 'a) io"
  assumes m: "\<And>w r w'. m w = (r, w') \<Longrightarrow> dials w' = tl (dials w)"
    and k: "\<And>x. io_keeps dials (k x)" and b: "io_bind m k w = (r, w')"
  shows "dials w' = tl (dials w)"
proof -
  obtain q w1 where 1: "m w = (q, w1)" by fastforce
  show ?thesis
  proof (cases q)
    case (Inl e)
    with 1 b have "w' = w1" by (simp add: io_bind_Inl)
    with m [OF 1] show ?thesis by simp
  next
    case (Inr x)
    then have "k x w1 = (r, w')" using 1 b by (simp add: io_bind_Inr)
    from io_keepsD [OF k this] m [OF 1] show ?thesis by simp
  qed
qed

lemma next_dial_dials: "io_map_err g next_dial w = (r, w') \<Longrightarrow> dials w' = tl (dials w)"
  by (auto simp: io_map_err_def next_dial_def split: list.splits prod.splits sum.splits)

lemma dial_dials: 
  assumes "dial c w = (r, w')" shows "dials w' = tl (dials w)"
proof -
  obtain t w1 where 1: "time_now w = (Inr t, w1)" using time_now_total by blast
  have "dials w1 = dials w" by (rule io_keepsD [OF time_now_dials 1])
  moreover have "io_bind (io_map_err (fail StageDial) next_dial) (\<lambda>(conn, refused).
     io_bind time_now (\<lambda>connected.
     io_bind time_now (\<lambda>now. case refused of
        Some e \<Rightarrow> io_fail (fail StageDial e)
      | None \<Rightarrow> io_return (conn_set_deadline (now + budget c) conn, connected - t)))) w1 = (r, w')"
    using assms 1 by (simp add: dial_def io_bind_Inr)
  then have "dials w' = tl (dials w1)"
    by (rule one_dial [rotated 2]) (erule next_dial_dials, intro keeps_intros)
  ultimately show ?thesis by simp
qed

lemma attempt_dials: "attemptMTProto P c t tls cand w = (r, w') \<Longrightarrow> dials w' = tl (dials w)"
  unfolding attemptMTProto_def by (rule one_dial [rotated 2]) (assumption, erule dial_dials, intro keeps_intros)

text \<open>The route of an attempt that succeeds is the candidate it tried.\<close>

lemma on_new_Inr: "on_new c m w = (Inr x, w') \<Longrightarrow> \<exists>v v'. m v = (Inr x, v')"
  by (auto simp: on_new_def split: prod.splits)

lemma outcome_bind: "io_bind m (\<lambda>st. io_return (outcome_of c p cand via tm st)) v = (Inr out, v') \<Longrightarrow>
    rt_DC (oc_Route out) = fst cand \<and> rt_Transport (oc_Route out) = tr_name (snd cand) \<and> rt_Depth (oc_Route out) = Some (ck_Depth c)"
  unfolding io_bind_eq_Inr by (auto simp: outcome_of_def)

lemma attempt_route:
  assumes "attemptMTProto P c t tls cand w = (Inr out, w')"
  shows "rt_DC (oc_Route out) = fst cand \<and> rt_Transport (oc_Route out) = tr_name (snd cand) \<and> rt_Depth (oc_Route out) = Some (ck_Depth c)"
proof (cases tls)
  case True
  obtain conn ct w1 where "(\<lambda>(conn, connectTime). on_new conn (io_bind time_now (\<lambda>started.
             io_seq (fakeTLSHandshake (P_crypto P) t)
             (io_bind time_now (\<lambda>done.
              io_bind (io_gets chan) (\<lambda>carrier.
              io_bind (on_new (newTLSConn carrier) (handshake P c tls_link (SecretKey t) cand)) (\<lambda>st.
              io_return (outcome_of c ''faketls'' cand [] (zero_timings\<lparr>tm_ConnectMS := ms connectTime, tm_HandshakeMS := ms (done - started)\<rparr>) st)))))))) (conn, ct) w1 = (Inr out, w')"
    using assms True unfolding attemptMTProto_def if_True io_bind_eq_Inr [of "dial c"] by auto
  then obtain v v' where "(io_bind time_now (\<lambda>started.
             io_seq (fakeTLSHandshake (P_crypto P) t)
             (io_bind time_now (\<lambda>done.
              io_bind (io_gets chan) (\<lambda>carrier.
              io_bind (on_new (newTLSConn carrier) (handshake P c tls_link (SecretKey t) cand)) (\<lambda>st.
              io_return (outcome_of c ''faketls'' cand [] (zero_timings\<lparr>tm_ConnectMS := ms ct, tm_HandshakeMS := ms (done - started)\<rparr>) st))))))) v = (Inr out, v')"
    unfolding prod.case by (blast dest: on_new_Inr)
  then show ?thesis unfolding io_seq_def io_bind_eq_Inr [of time_now] io_bind_eq_Inr [of "io_gets chan"]
      io_bind_eq_Inr [of "fakeTLSHandshake (P_crypto P) t"] by (blast dest: outcome_bind)
next
  case False
  obtain conn ct w1 where "(\<lambda>(conn, connectTime). on_new conn (io_bind (handshake P c conn_link (SecretKey t) cand) (\<lambda>st.
             io_return (outcome_of c ''mtproto'' cand [] (zero_timings\<lparr>tm_ConnectMS := ms connectTime\<rparr>) st)))) (conn, ct) w1 = (Inr out, w')"
    using assms False unfolding attemptMTProto_def if_False io_bind_eq_Inr [of "dial c"] by auto
  then show ?thesis unfolding prod.case by (blast dest: on_new_Inr outcome_bind)
qed

text \<open>The loop over candidates, for any attempt that makes one dial.\<close>

definition is_final :: "goerr \<Rightarrow> bool" where
  "is_final err \<longleftrightarrow> (case as_probe err of Some (st, _) \<Rightarrow> st \<noteq> StageProtocol | None \<Rightarrow> False)"

lemma try_candidates_unfold:
  fixes attempt :: "int \<times> transport \<Rightarrow> (('z) net_scheme, probe_outcome) io"
  obtains expired w1 q w2 d w3 where "dials w1 = dials w" "first \<Longrightarrow> \<not> expired \<and> w1 = w"
    "attempt cand w1 = (q, w2)" "ctx_err w2 = (Inr d, w3)"
    "try_candidates attempt deadline first (cand # cands) problems lastErr w =
      (if expired then (Inl (give_up (problems @ [''candidate budget exhausted'']) 3 lastErr), w1)
       else (case q of Inr outcome \<Rightarrow> (Inr outcome, w2)
         | Inl err \<Rightarrow> if panics err \<or> is_final err then (Inl err, w2)
            else (case d of Some e \<Rightarrow> (Inl (fail StageDial e), w3)
               | None \<Rightarrow> try_candidates attempt deadline False cands (problems @ [candidate_problem cand err]) (Some err) w3)))"
proof -
  obtain t w0 where t: "time_now w = (Inr t, w0)" using time_now_total by blast
  have k0: "dials w0 = dials w" by (rule io_keepsD [OF time_now_dials t])
  define w1 where "w1 = (if first then w else w0)"
  obtain q w2 where 2: "attempt cand w1 = (q, w2)" by fastforce
  obtain d w3 where 3: "ctx_err w2 = (Inr d, w3)" by (cases "ctxErrs w2") (simp_all add: ctx_err_def)
  show ?thesis
  proof (rule that [of w1 "\<not> first \<and> t > deadline"])
    show "dials w1 = dials w" using k0 by (simp add: w1_def)
    show "attempt cand w1 = (q, w2)" by (rule 2)
    show "ctx_err w2 = (Inr d, w3)" by (rule 3)
    show "try_candidates attempt deadline first (cand # cands) problems lastErr w =
      (if \<not> first \<and> t > deadline then (Inl (give_up (problems @ [''candidate budget exhausted'']) 3 lastErr), w1)
       else (case q of Inr outcome \<Rightarrow> (Inr outcome, w2)
         | Inl err \<Rightarrow> if panics err \<or> is_final err then (Inl err, w2)
            else (case d of Some e \<Rightarrow> (Inl (fail StageDial e), w3)
               | None \<Rightarrow> try_candidates attempt deadline False cands (problems @ [candidate_problem cand err]) (Some err) w3)))"
      using t 2 3 by (cases first; cases q; cases d)
        (auto simp: io_bind_Inr io_bind_def io_catch_def is_final_def w1_def split: option.splits)
  qed (simp_all add: w1_def)
qed

lemma try_candidates_dials:
  fixes attempt :: "int \<times> transport \<Rightarrow> (('z) net_scheme, probe_outcome) io"
  assumes "\<And>cand w r w'. attempt cand w = (r, w') \<Longrightarrow> dials w' = tl (dials w)"
  shows "try_candidates attempt deadline first cands problems lastErr w = (r, w') \<Longrightarrow>
     \<exists>k \<le> length cands. dials w' = drop k (dials w)"
proof (induction cands arbitrary: first problems lastErr w)
  case Nil
  then show ?case by simp
next
  case (Cons cand cands)
  obtain expired w1 q w2 d w3 where k1: "dials w1 = dials w" and 2: "attempt cand w1 = (q, w2)" and 3: "ctx_err w2 = (Inr d, w3)"
    and e: "try_candidates attempt deadline first (cand # cands) problems lastErr w =
      (if expired then (Inl (give_up (problems @ [''candidate budget exhausted'']) 3 lastErr), w1)
       else (case q of Inr outcome \<Rightarrow> (Inr outcome, w2)
         | Inl err \<Rightarrow> if panics err \<or> is_final err then (Inl err, w2)
            else (case d of Some e \<Rightarrow> (Inl (fail StageDial e), w3)
               | None \<Rightarrow> try_candidates attempt deadline False cands (problems @ [candidate_problem cand err]) (Some err) w3)))"
    by (rule try_candidates_unfold)
  have k2: "dials w2 = drop 1 (dials w)" using assms [OF 2] k1 by (simp add: drop_Suc)
  have k3: "dials w3 = drop 1 (dials w)" using io_keepsD [OF ctx_err_dials 3] k2 by simp
  show ?case
  proof (cases "\<not> expired \<and> d = None \<and> (\<exists>err. q = Inl err \<and> \<not> panics err \<and> \<not> is_final err)")
    case True
    then obtain err where "try_candidates attempt deadline False cands (problems @ [candidate_problem cand err]) (Some err) w3 = (r, w')"
      using Cons.prems e by auto
    from Cons.IH [OF this] k3 obtain k where "k \<le> length cands" "dials w' = drop (Suc k) (dials w)" by (auto simp: drop_drop)
    then show ?thesis by (auto intro!: exI [of _ "Suc k"])
  next
    case False
    have "w' = w1 \<or> w' = w2 \<or> w' = w3"
      using Cons.prems False unfolding e by (auto split: if_splits sum.splits option.splits)
    then have "dials w' = drop 0 (dials w) \<or> dials w' = drop 1 (dials w)" using k1 k2 k3 by auto
    then show ?thesis by (auto intro: exI [of _ 0] exI [of _ "1::nat"])
  qed
qed


lemma try_candidates_route:
  fixes attempt :: "int \<times> transport \<Rightarrow> (('z) net_scheme, probe_outcome) io"
  assumes "\<And>cand w out w'. attempt cand w = (Inr out, w') \<Longrightarrow> Q cand out"
  shows "try_candidates attempt deadline first cands problems lastErr w = (Inr out, w') \<Longrightarrow>
     \<exists>cand \<in> set cands. Q cand out"
proof (induction cands arbitrary: first problems lastErr w)
  case (Cons cand cands)
  show ?case
    by (rule try_candidates_unfold [of w first attempt cand deadline cands problems lastErr])
      (use Cons.prems in \<open>auto split: if_splits sum.splits option.splits dest: assms Cons.IH\<close>)
qed simp

text \<open>A failed dial or a rejected FakeTLS handshake ends the loop: the same connection would fail
  for every candidate.\<close>

lemma try_candidates_final:
  assumes "attempt cand w = (Inl e, w')" and "is_final e"
  shows "try_candidates attempt deadline True (cand # cands) problems lastErr w = (Inl e, w')"
  by (rule try_candidates_unfold [of w True attempt cand deadline cands problems lastErr]) (use assms in auto)

lemma concat_pairs: "concat (map (\<lambda>x. map (Pair x) ys) xs) = List.product xs ys"
  by (induction xs) simp_all

lemma length_pairs: "length (List.product dcOrder [a, b, c]) = 15"
  by (simp add: dcOrder_def)

lemma candidate_list_length:
  "length (candidate_list c mode) = (if 0 < ck_MaxCandidates c then min 15 (nat (ck_MaxCandidates c)) else 15)"
proof -
  have l: "length (List.product dcOrder (if b then [x, y, z] else [x', y', z'])) = 15" for b and x y z x' y' z' :: transport
    by (simp only: if_distrib [of "List.product dcOrder"] if_distrib [of length] length_pairs if_cancel)
  show ?thesis unfolding candidate_list_def Let_def concat_pairs by (auto simp: l simp del: length_product)
qed

lemma candidate_list_distinct: "distinct (candidate_list c mode)"
proof -
  have "distinct (List.product dcOrder ys)" if "distinct ys" for ys :: "transport list"
    using that by (intro distinct_product) (simp_all add: dcOrder_def)
  then show ?thesis by (simp add: candidate_list_def Let_def concat_pairs)
qed

lemma probeMTProto_eq: "probeMTProto P c t w = (r, w') \<Longrightarrow> \<exists>now w1. time_now w = (Inr now, w1) \<and>
    try_candidates (attemptMTProto P c t (Mode t = ModeFakeTLS)) (now + candidateWindow c) True (candidate_list c (Mode t)) [] None w1 = (r, w')"
  using time_now_total [of w] by (auto simp: probeMTProto_def io_bind_Inr)

lemma probeMTProto_dials:
  fixes w :: "('z) net_scheme"
  assumes "probeMTProto P c t w = (r, w')"
  shows "\<exists>k \<le> length (candidate_list c (Mode t)). dials w' = drop k (dials w)"
proof -
  from probeMTProto_eq [OF assms] obtain now w1 where 1: "time_now w = (Inr now, w1)"
    and l: "try_candidates (attemptMTProto P c t (Mode t = ModeFakeTLS)) (now + candidateWindow c) True (candidate_list c (Mode t)) [] None w1 = (r, w')"
    by blast
  from try_candidates_dials [OF attempt_dials l] io_keepsD [OF time_now_dials 1] show ?thesis by simp
qed

lemma probeMTProto_route:
  assumes "probeMTProto P c t w = (Inr out, w')"
  shows "\<exists>(dc, tr) \<in> set (candidate_list c (Mode t)). rt_DC (oc_Route out) = dc \<and> rt_Transport (oc_Route out) = tr_name tr"
proof -
  from probeMTProto_eq [OF assms] obtain now w1 where
    l: "try_candidates (attemptMTProto P c t (Mode t = ModeFakeTLS)) (now + candidateWindow c) True (candidate_list c (Mode t)) [] None w1 = (Inr out, w')"
    by blast
  have "\<exists>cand \<in> set (candidate_list c (Mode t)). rt_DC (oc_Route out) = fst cand \<and> rt_Transport (oc_Route out) = tr_name (snd cand)"
    by (rule try_candidates_route [OF _ l]) (blast dest: attempt_route)
  then show ?thesis by auto
qed

lemma candidate_list_first: "\<exists>tr cs. candidate_list c mode = (2, tr) # cs"
proof -
  have "candidate_list c mode \<noteq> []" using candidate_list_length [of c mode] by (auto split: if_splits)
  then show ?thesis by (auto simp: candidate_list_def Let_def dcOrder_def take_Cons' split: if_splits)
qed

text \<open>A dial that fails is reported as such after that single dial.\<close>

lemma dial_refused:
  assumes "dials w = Inl e # ds"
  shows "\<exists>w'. dial c w = (Inl (fail StageDial e), w')"
proof -
  obtain t w1 where 1: "time_now w = (Inr t, w1)" using time_now_total by blast
  have "dials w1 = Inl e # ds" using io_keepsD [OF time_now_dials 1] assms by simp
  then show ?thesis using 1 by (simp add: dial_def io_bind_Inr io_bind_def io_map_err_def next_dial_def)
qed

lemma probeMTProto_refused:
  fixes w :: "('z) net_scheme"
  assumes "dials w = Inl e # ds"
  shows "\<exists>w'. probeMTProto P c t w = (Inl (fail StageDial e), w') \<and> dials w' = ds"
proof -
  obtain t0 w1 where 1: "time_now w = (Inr t0, w1)" using time_now_total by blast
  have d1: "dials w1 = Inl e # ds" using io_keepsD [OF time_now_dials 1] assms by simp
  obtain w2 where 2: "dial c w1 = (Inl (fail StageDial e), w2)" using dial_refused [OF d1] by blast
  obtain tr cs where cl: "candidate_list c (Mode t) = (2, tr) # cs" using candidate_list_first by blast
  have "attemptMTProto P c t b cand w1 = (Inl (fail StageDial e), w2)" for b cand
    using 2 by (simp add: attemptMTProto_def io_bind_Inl)
  then have f: "try_candidates (attemptMTProto P c t b) deadline True ((2, tr) # cs) [] None w1 = (Inl (fail StageDial e), w2)" for b deadline
    by (rule try_candidates_final) (simp add: is_final_def)
  have "probeMTProto P c t w = (Inl (fail StageDial e), w2)"
    unfolding probeMTProto_def cl by (subst io_bind_Inr [where m = time_now, OF 1]) (rule f)
  then show ?thesis using dial_dials [OF 2] d1 by auto
qed

end
