(* ===== verification/Webproxy.thy ===== *)
theory Webproxy
  imports Https Websocket Probe
begin

text \<open>
  \<open>Dial\<close> of \<open>internal/webproxy/carrier.go\<close>, \<open>internal/mtproto/webproxy.go\<close> and the dispatcher
  \<open>Probe\<close> of probe.go.  Each relay that is dialled is an environment of its own: its
  HTTP client with the answers to come, and the clock and randomness its carrier draws on.
\<close>

section \<open>Dialling a relay\<close>

datatype dialed = OverHTTPS "httpCarrier cworld" | OverWebSocket "wsCarrier cworld"

record web_params = params +
  P_readResponse :: "(conn, reply) io"

definition new_carrier :: "relay \<Rightarrow> bool \<Rightarrow> 't \<Rightarrow> 't carrier" where
  "new_carrier c lanes tr = \<lparr>rl_client = rl_client c, rl_origin = rl_origin c, rl_host = rl_host c, rl_session = rl_session c,
     rl_mode = rl_mode c, rl_timeout = rl_timeout c, cr_lanes = lanes, cr_deadline = None, cr_opened = False, cr_closed = False,
     cr_readBuf = [], cr_eof = False, cr_windowDebt = 0, cr_transport = tr\<rparr>"

definition open_relay :: "crypto \<Rightarrow> (conn, reply) io \<Rightarrow> bytes \<Rightarrow> (relay world, dialed) io" where
  "open_relay C readResponse secret =
     io_bind (io_gets (\<lambda>w. rl_host (chan w))) (\<lambda>host.
     io_bind (on_chan (fetchBridge (Capability C host secret))) (\<lambda>(bootstrap, mode).
     io_seq (on_chan (io_modify (\<lambda>c. c\<lparr>rl_mode := mode\<rparr>)))
     (io_seq (on_chan (createSession bootstrap))
     (io_bind (io_gets (\<lambda>w. rl_mode (chan w))) (\<lambda>mode.
      if mode = ''https'' \<or> mode = ''https-lanes'' then
        io_gets (\<lambda>w. OverHTTPS (with_chan w (new_carrier (chan w) (mode = ''https-lanes'') newHTTPCarrier)))
      else if mode = ''websocket'' \<or> mode = ''websocket-lanes'' then
        io_bind (dialWebSocket C readResponse) (\<lambda>socket.
        io_gets (\<lambda>w. OverWebSocket (with_chan w (new_carrier (chan w) (mode = ''websocket-lanes'') socket))))
      else io_fail (failure WebSession (ErrText (''unsupported carrier mode '' @ quote mode))))))))"

definition new_relay :: "client \<Rightarrow> string \<Rightarrow> int \<Rightarrow> relay" where
  "new_relay cl host timeout = \<lparr>rl_client = cl, rl_origin = ''https://'' @ host, rl_host = host, rl_session = [], rl_mode = [], rl_timeout = timeout\<rparr>"

record webnet = net +
  relays :: "client world list"

definition no_relay :: "client world" where
  "no_relay = \<lparr>entropy = [], clk = 0, ticks = [], primeCache = [], chan = \<lparr>cl_answers = (\<lambda>_ _. []), cl_log = [], cl_sockets = []\<rparr>\<rparr>"

definition Dial :: "web_params \<Rightarrow> string \<Rightarrow> bytes \<Rightarrow> int \<Rightarrow> (('z) webnet_scheme, dialed) io" where
  "Dial P host0 secret timeout0 =
     (let timeout = (if timeout0 \<le> 0 then 10000000000 else timeout0); host = to_lower (trim_space host0) in
      if host = [] then io_fail (failure WebBridge (ErrText ''missing host''))
      else (\<lambda>w. let (r, rest) = (case relays w of [] \<Rightarrow> (no_relay, []) | r # rs \<Rightarrow> (r, rs)) in
        (fst (open_relay (P_crypto P) (P_readResponse P) secret (with_chan r (new_relay (chan r) host timeout))), w\<lparr>relays := rest\<rparr>)))"

section \<open>Probing a WEB proxy\<close>

definition isSecretRejection :: "goerr \<Rightarrow> bool" where
  "isSecretRejection err \<longleftrightarrow> contains (err_text err) ''secret does not match''"

definition webProxyError :: "goerr \<Rightarrow> goerr" where
  "webProxyError err = (case as_carrier err of
       None \<Rightarrow> fail StageDial err
     | Some (st, carrierErr) \<Rightarrow> (case st of
           WebBridge \<Rightarrow> if isSecretRejection carrierErr then failAs StageHandshake KindSecretRejected err else fail StageDial err
         | WebSession \<Rightarrow> failAs StageHandshake KindHandshake err
         | WebStream \<Rightarrow> fail StageProtocol err))"

definition io_finally :: "('w, 'a) io \<Rightarrow> ('w, unit) io \<Rightarrow> ('w, 'a) io" where
  "io_finally m f = (\<lambda>w. case m w of (r, w1) \<Rightarrow> (r, snd (f w1)))"

definition over_carrier ::
  "web_params \<Rightarrow> checker \<Rightarrow> target \<Rightarrow> int \<times> transport \<Rightarrow> int \<Rightarrow> int \<Rightarrow> 't ops \<Rightarrow> 't cworld \<Rightarrow> (('z) env_scheme, probe_outcome) io" where
  "over_carrier P c t cand took deadline T cw =
     on_new (cw\<lparr>chan := carrier_SetDeadline deadline (chan cw)\<rparr>)
       (io_bind (io_finally (handshake (params.truncate P) c (carrier_link T) (SecretKey t) cand) (on_chan (carrier_Close T))) (\<lambda>st.
        io_return (outcome_of c ''webproxy'' cand (rl_mode (chan cw)) (zero_timings\<lparr>tm_HandshakeMS := ms took\<rparr>) st)))"

definition attemptWebProxy :: "web_params \<Rightarrow> checker \<Rightarrow> target \<Rightarrow> int \<times> transport \<Rightarrow> (('z) webnet_scheme, probe_outcome) io" where
  "attemptWebProxy P c t cand =
     io_bind time_now (\<lambda>started.
     io_bind (io_map_err webProxyError (Dial P (t_Host t) (t_secret t) (ck_Timeout c))) (\<lambda>dialed.
     io_bind time_now (\<lambda>done.
     io_bind time_now (\<lambda>now. case dialed of
        OverHTTPS cw \<Rightarrow> over_carrier P c t cand (done - started) (now + budget c) https_ops cw
      | OverWebSocket cw \<Rightarrow> over_carrier P c t cand (done - started) (now + budget c) websocket_ops cw))))"

fun try_webs :: "(int \<times> transport \<Rightarrow> (('z) webnet_scheme, probe_outcome) io) \<Rightarrow> transport list \<Rightarrow> string list \<Rightarrow> goerr option \<Rightarrow>
   (('z) webnet_scheme, probe_outcome) io" where
  "try_webs attempt [] problems lastErr = io_fail (give_up problems 2 lastErr)"
| "try_webs attempt (tr # trs) problems lastErr =
     io_bind (io_catch (attempt (hd dcOrder, tr))) (\<lambda>r. case r of
       Inr outcome \<Rightarrow> io_return outcome
     | Inl err \<Rightarrow>
         if (case as_probe err of Some (st, _) \<Rightarrow> st \<noteq> StageProtocol | None \<Rightarrow> False) then io_fail err
         else io_bind ctx_err (\<lambda>done. case done of
             Some e \<Rightarrow> io_fail (fail StageDial e)
           | None \<Rightarrow> try_webs attempt trs (problems @ [tr_name tr @ '': '' @ err_text err]) (Some err)))"

definition web_order :: "target \<Rightarrow> transport list" where
  "web_order t = take (min 3 2)
     (if Mode t = ModeSecure then [PaddedIntermediate, Intermediate, Abridged] else [Intermediate, Abridged, PaddedIntermediate])"

definition probeWebProxy :: "web_params \<Rightarrow> checker \<Rightarrow> target \<Rightarrow> (('z) webnet_scheme, probe_outcome) io" where
  "probeWebProxy P c t = try_webs (attemptWebProxy P c t) (web_order t) [] None"

section \<open>Dispatch\<close>

definition Probe :: "web_params \<Rightarrow> checker \<Rightarrow> target \<Rightarrow> (('z) webnet_scheme, probe_outcome) io" where
  "Probe P c t = (case t_Kind t of
       KindWebProxy \<Rightarrow> probeWebProxy P c t
     | KindSocks5 \<Rightarrow> probeSocks5 (params.truncate P) c t
     | KindMTProto \<Rightarrow> probeMTProto (params.truncate P) c t
     | _ \<Rightarrow> probeTCP c)"

section \<open>Every failure is classified\<close>

text \<open>\<open>reasoned st k cause\<close>: the kind \<open>k\<close> of a failure at stage \<open>st\<close> is the one that belongs to
  its cause: either \<open>classify\<close> gives it, or the program names it for one of six reasons.\<close>

inductive reasoned :: "stage \<Rightarrow> kind \<Rightarrow> goerr \<Rightarrow> bool" where
  classified: "reasoned st (classify st (Some e)) e"
| tcp_closed: "\<not> as_net_timeout e \<Longrightarrow> reasoned StageHandshake KindClosed (ErrWrap ''connection closed after TCP probe: '' e)"
| tls_secret: "verifyServerHello C response secret sid random = Inl e \<Longrightarrow> reasoned StageHandshake KindSecretRejected e"
| socks_auth: "text \<in> {''SOCKS5 username or password is longer than 255 bytes'', ''SOCKS5 credentials rejected'',
      ''SOCKS5 server rejected all auth methods''} \<Longrightarrow> reasoned StageHandshake KindSocksAuth (ErrText text)"
| socks_rejected: "code \<noteq> 0 \<Longrightarrow> reasoned StageProtocol KindSocksRejected (ErrText (''SOCKS5 CONNECT rejected: '' @ socksReplyText code))"
| web_secret: "as_carrier e = Some (WebBridge, inner) \<Longrightarrow> contains (err_text inner) ''secret does not match'' \<Longrightarrow>
    reasoned StageHandshake KindSecretRejected e"
| web_session: "as_carrier e = Some (WebSession, inner) \<Longrightarrow> reasoned StageHandshake KindHandshake e"

text \<open>\<open>explained\<close> adds the summary of the loops over attempts, which has the kind of an attempt's
  failure whose text is one of the problems summed up.\<close>

definition explained :: "stage \<Rightarrow> kind \<Rightarrow> goerr \<Rightarrow> bool" where
  "explained st k e \<longleftrightarrow> reasoned st k e \<or>
     st = StageProtocol \<and> (\<exists>problems keep st' cause pre. e = ErrText (summarize problems keep) \<and> reasoned st' k cause \<and>
       pre @ '': '' @ err_text cause \<in> set problems)"

definition told :: "goerr \<Rightarrow> bool" where
  "told e \<longleftrightarrow> panics e \<or> (\<exists>st k cause. e = ErrProbe st k cause \<and> reasoned st k cause)"

definition told_all :: "goerr \<Rightarrow> bool" where
  "told_all e \<longleftrightarrow> panics e \<or> (\<exists>st k cause. e = ErrProbe st k cause \<and> explained st k cause)"

lemma reasoned_kind: "reasoned st k e \<Longrightarrow> k \<noteq> KindEmpty \<and> k \<noteq> KindOther"
proof (induction rule: reasoned.induct)
  case (classified st e)
  show ?case using classify_range [of st e] by (elim insertE emptyE) simp_all
qed simp_all

lemma explained_kind: "explained st k e \<Longrightarrow> k \<noteq> KindEmpty \<and> k \<noteq> KindOther"
  unfolding explained_def using reasoned_kind by blast

lemma told_all: "told e \<Longrightarrow> told_all e"
  by (auto simp: told_def told_all_def explained_def)

lemma told_fail: "told (fail st e)"
  unfolding told_def fail_def using classified by blast

lemma told_failAs: "reasoned st k e \<Longrightarrow> told (failAs st k e)"
  by (auto simp: told_def failAs_def)

lemma told_webProxyError: "told (webProxyError e)"
proof (cases "as_carrier e")
  case None
  then show ?thesis by (simp add: webProxyError_def told_fail)
next
  case (Some p)
  obtain st inner where p: "p = (st, inner)" by fastforce
  show ?thesis using Some unfolding p webProxyError_def
    by (cases st) (auto simp: isSecretRejection_def told_fail intro: told_failAs web_secret web_session)
qed

text \<open>\<open>io_errs Q m\<close>: every failure of \<open>m\<close> satisfies \<open>Q\<close>.\<close>

named_theorems errs_intros "computations whose failures satisfy a predicate"

definition io_errs :: "(goerr \<Rightarrow> bool) \<Rightarrow> ('w, 'a) io \<Rightarrow> bool" where
  "io_errs Q m \<longleftrightarrow> (\<forall>w e w'. m w = (Inl e, w') \<longrightarrow> Q e)"

lemma io_errsD: "io_errs Q m \<Longrightarrow> m w = (Inl e, w') \<Longrightarrow> Q e"
  unfolding io_errs_def by blast

lemma errs_mono: "io_errs P m \<Longrightarrow> (\<And>e. P e \<Longrightarrow> Q e) \<Longrightarrow> io_errs Q m"
  unfolding io_errs_def by blast

lemma errs_bind [errs_intros]: "io_errs Q m \<Longrightarrow> (\<And>x. io_errs Q (k x)) \<Longrightarrow> io_errs Q (io_bind m k)"
  unfolding io_errs_def io_bind_eq_Inl by blast

lemma errs_seq [errs_intros]: "io_errs Q m \<Longrightarrow> io_errs Q k \<Longrightarrow> io_errs Q (io_seq m k)"
  by (simp add: io_seq_def errs_bind)

lemma errs_basic [errs_intros]:
  "io_errs Q (io_return x)" "io_errs Q (io_gets f)" "io_errs Q (io_modify g)" "io_errs Q (io_try m)"
  by (simp_all add: io_errs_def)

lemma errs_time_now [errs_intros]: "io_errs Q time_now"
  unfolding io_errs_def by (metis Inl_Inr_False Pair_inject time_now_total)

lemma errs_fail [errs_intros]: "Q e \<Longrightarrow> io_errs Q (io_fail e)"
  by (simp add: io_errs_def)

lemma errs_map_fail [errs_intros]: "io_errs told (io_map_err (fail st) m)" "io_errs told (io_map_err (\<lambda>e. fail st (g e)) m)"
  by (auto simp: io_errs_def io_map_err_eq_Inl told_fail)

lemma errs_on_chan [errs_intros]: "io_errs Q m \<Longrightarrow> io_errs Q (on_chan m)"
  by (auto simp: io_errs_def on_chan_def split: prod.splits)

lemma errs_on_new [errs_intros]: "io_errs Q m \<Longrightarrow> io_errs Q (on_new c m)"
  by (auto simp: io_errs_def on_new_def split: prod.splits)

lemma errs_in_session [errs_intros]: "io_errs Q m \<Longrightarrow> io_errs Q (in_session s m)"
  by (auto simp: io_errs_def in_session_def split: prod.splits)

lemma errs_finally [errs_intros]: "io_errs Q m \<Longrightarrow> io_errs Q (io_finally m f)"
  by (auto simp: io_errs_def io_finally_def split: prod.splits)

lemma errs_option [errs_intros]: "io_errs told (io_option m)"
proof -
  have "io_errs told (io_catch m)" by (auto simp: io_errs_def io_catch_def told_def split: prod.splits sum.splits if_splits)
  then show ?thesis unfolding io_option_def by (intro errs_intros)
qed

lemma errs_if [errs_intros]: "io_errs Q m \<Longrightarrow> io_errs Q k \<Longrightarrow> io_errs Q (if b then m else k)"
  by simp

lemma errs_prod [errs_intros]: "(\<And>a b. io_errs Q (k a b)) \<Longrightarrow> io_errs Q (case p of (a, b) \<Rightarrow> k a b)"
  by (cases p) simp

lemma errs_case_option [errs_intros]: "io_errs Q m \<Longrightarrow> (\<And>a. io_errs Q (k a)) \<Longrightarrow> io_errs Q (case p of None \<Rightarrow> m | Some a \<Rightarrow> k a)"
  by (cases p) simp_all

lemma errs_case_sum [errs_intros]: "(\<And>e. io_errs Q (f e)) \<Longrightarrow> (\<And>a. io_errs Q (k a)) \<Longrightarrow> io_errs Q (case p of Inl e \<Rightarrow> f e | Inr a \<Rightarrow> k a)"
  by (cases p) simp_all

lemma errs_dialed [errs_intros]: "(\<And>a. io_errs Q (f a)) \<Longrightarrow> (\<And>b. io_errs Q (g b)) \<Longrightarrow>
    io_errs Q (case d of OverHTTPS a \<Rightarrow> f a | OverWebSocket b \<Rightarrow> g b)"
  by (cases d) simp_all

lemma errs_ctx_err [errs_intros]: "io_errs Q ctx_err"
  by (simp add: io_errs_def ctx_err_def split: list.splits)

text \<open>The stages of an attempt.\<close>

lemma dial_told [errs_intros]: "io_errs told (dial c)"
  unfolding dial_def by (intro errs_intros told_fail)

lemma hold_told [errs_intros]: "io_errs told (hold C duration interval perPing)"
proof -
  have p: "io_errs told (arm_ping perPing)" unfolding arm_ping_def setDeadline_def by (intro errs_intros)
  have "io_errs told (hold_loop n C i perPing deadline pings first latest)" for n i deadline pings first latest
  proof (induction n arbitrary: pings first latest)
    case 0
    have "told (ErrPanic ''fuel'')" by (simp add: told_def panics_def)
    then show ?case unfolding hold_loop.simps by (rule errs_fail)
  next
    case (Suc n)
    show ?case unfolding hold_loop.simps Let_def time_sleep_def by (intro errs_intros p Suc.IH)
  qed
  then show ?thesis unfolding hold_def Let_def by (intro errs_intros)
qed

lemma stages_told [errs_intros]: "io_errs told (stages P c dc)"
  unfolding stages_def fullHandshake_def quick_stage_def session_stages_def Let_def by (intro errs_intros)

lemma handshake_told [errs_intros]: "io_errs told (handshake P c l key cand)"
  unfolding handshake_def by (intro errs_intros)

lemma fakeTLS_told [errs_intros]: "io_errs told (fakeTLSHandshake C t)"
proof -
  have "io_errs told (io_map_err (failAs StageHandshake KindSecretRejected) (io_lift (verifyServerHello C r s i n)))" for r s i n
    unfolding io_errs_def io_map_err_eq_Inl by (auto simp: io_lift_def intro: told_failAs tls_secret)
  then show ?thesis unfolding fakeTLSHandshake_def by (intro errs_intros)
qed

lemma rejection_told:
  assumes "io_errs told m"
  shows "io_errs told (if code \<noteq> 0 then io_fail (failAs StageProtocol KindSocksRejected (ErrText (''SOCKS5 CONNECT rejected: '' @ socksReplyText code))) else m)"
  using assms told_failAs [OF socks_rejected, of code] by (cases "code = 0") (simp_all add: io_errs_def)

lemma socks5_told [errs_intros]: "io_errs told (socks5Connect username password dst)"
proof -
  have 1: "io_errs told (reply_address atyp)" for atyp unfolding reply_address_def by (intro errs_intros told_fail)
  have 2: "io_errs told (socks5Auth username password)"
    unfolding socks5Auth_def by (intro errs_intros told_failAs socks_auth) simp_all
  have 3: "io_errs told (choose_method username password m)" for m
    unfolding choose_method_def by (intro errs_intros 2 told_fail told_failAs socks_auth) simp
  have 4: "io_errs told socks5ReadReply"
    unfolding socks5ReadReply_def
    by (intro errs_bind errs_map_fail errs_if [of _ _ "if b then m else k" for b m k] rejection_told errs_fail told_fail 1 errs_seq errs_basic)
  show ?thesis unfolding socks5Connect_def by (intro errs_intros told_fail 3 4)
qed

lemma over_carrier_told [errs_intros]: "io_errs told (over_carrier P c t cand took deadline T cw)"
  unfolding over_carrier_def by (intro errs_intros)

lemma attempts_told:
  "io_errs told (attemptMTProto P c t tls cand)" "io_errs told (socks5Attempt P c t dc ct)" "io_errs told (attemptWebProxy Q c t cand)"
proof -
  show "io_errs told (attemptMTProto P c t tls cand)" unfolding attemptMTProto_def by (intro errs_intros)
  show "io_errs told (socks5Attempt P c t dc ct)" unfolding socks5Attempt_def directMTProto_def by (intro errs_intros)
  have "io_errs told (io_map_err webProxyError m)" for m :: "(('z) webnet_scheme, dialed) io"
    by (auto simp: io_errs_def io_map_err_eq_Inl told_webProxyError)
  then show "io_errs told (attemptWebProxy Q c t cand)"
    unfolding attemptWebProxy_def by (intro errs_intros)
qed

lemma probeTCP_told: "io_errs told (probeTCP c)"
proof -
  have "io_errs told (io_bind (io_try m) (\<lambda>r. if (case r of Inl err \<Rightarrow> as_net_timeout err | Inr _ \<Rightarrow> True) then io_return x
      else io_fail (failAs StageHandshake KindClosed (ErrWrap ''connection closed after TCP probe: '' (projl r)))))"
    for m :: "(conn world, bytes) io" and x :: probe_outcome
  proof (rule errs_bind [OF errs_basic(4)])
    show "io_errs told (if (case r of Inl err \<Rightarrow> as_net_timeout err | Inr _ \<Rightarrow> True) then io_return x
      else io_fail (failAs StageHandshake KindClosed (ErrWrap ''connection closed after TCP probe: '' (projl r))))" for r :: "goerr + bytes"
      using told_failAs [OF tcp_closed] by (cases r) (simp_all add: io_errs_def)
  qed
  note probe = this
  show ?thesis unfolding probeTCP_def
    by (rule errs_bind [OF dial_told], rule errs_prod, rule errs_on_new, rule errs_seq [OF errs_map_fail(1)],
        rule errs_bind [OF errs_time_now], rule errs_seq, rule errs_on_chan, rule errs_basic, rule probe)
qed

text \<open>A loop of attempts: what it returns is told by the attempt, or sums up what was noted.\<close>

definition noted :: "string list \<Rightarrow> goerr option \<Rightarrow> bool" where
  "noted problems lastErr \<longleftrightarrow> (\<exists>st k cause pre. lastErr = Some (ErrProbe st k cause) \<and> reasoned st k cause \<and>
     pre @ '': '' @ err_text cause \<in> set problems)"

lemma noted_give_up: "noted problems lastErr \<Longrightarrow> told_all (give_up problems keep lastErr)"
  unfolding noted_def told_all_def explained_def give_up_def failAs_def by (fastforce simp: KindOf_def as_probe_simps)

lemma errs_give_up: "noted problems lastErr \<Longrightarrow> io_errs told_all (io_fail (give_up problems keep lastErr))"
  by (intro errs_fail noted_give_up)

lemma noted_longer: "noted problems lastErr \<Longrightarrow> noted (problems @ others) lastErr"
  unfolding noted_def by fastforce

lemma noted_err: "told err \<Longrightarrow> \<not> panics err \<Longrightarrow> noted (problems @ [pre @ '': '' @ err_text err]) (Some err)"
  unfolding noted_def told_def by fastforce

lemma noted_candidate: "told err \<Longrightarrow> \<not> panics err \<Longrightarrow> noted (problems @ [candidate_problem cand err]) (Some err)"
  using noted_err [of err problems "''dc'' @ dec_int (fst cand) @ ''/'' @ tr_name (snd cand)"] by (simp add: candidate_problem_def)

lemma errs_attempt:
  assumes m: "io_errs told m" and k1: "\<And>x. io_errs told_all (k1 x)"
    and k2: "\<And>err. told err \<Longrightarrow> \<not> panics err \<Longrightarrow> io_errs told_all (k2 err)"
  shows "io_errs told_all (io_bind (io_catch m) (\<lambda>r. case r of Inr x \<Rightarrow> k1 x
     | Inl err \<Rightarrow> if S err then io_fail err else k2 err))"
  unfolding io_errs_def
proof (intro allI impI)
  fix w e w'
  assume b: "io_bind (io_catch m) (\<lambda>r. case r of Inr x \<Rightarrow> k1 x | Inl err \<Rightarrow> if S err then io_fail err else k2 err) w = (Inl e, w')"
  obtain r w1 where 1: "m w = (r, w1)" by fastforce
  show "told_all e"
  proof (cases r)
    case (Inr x)
    with 1 b have "k1 x w1 = (Inl e, w')" by (simp add: io_bind_def io_catch_def)
    then show ?thesis by (rule io_errsD [OF k1])
  next
    case (Inl err)
    have t: "told err" using io_errsD [OF m] 1 Inl by blast
    show ?thesis
    proof (cases "panics err \<or> S err")
      case True
      with 1 b Inl have "e = err" by (auto simp: io_bind_def io_catch_def split: if_splits)
      with told_all [OF t] show ?thesis by simp
    next
      case False
      with 1 b Inl have "k2 err w1 = (Inl e, w')" by (simp add: io_bind_def io_catch_def)
      with False show ?thesis using io_errsD [OF k2 [OF t]] by blast
    qed
  qed
qed

lemma told_all_fail: "told_all (fail st e)"
  by (rule told_all) (rule told_fail)

lemma try_candidates_told:
  fixes attempt :: "int \<times> transport \<Rightarrow> (('z) net_scheme, probe_outcome) io"
  assumes a: "\<And>cand. io_errs told (attempt cand)"
  shows "noted problems lastErr \<or> first \<and> cands \<noteq> [] \<Longrightarrow> io_errs told_all (try_candidates attempt deadline first cands problems lastErr)"
proof (induction cands arbitrary: first problems lastErr)
  case Nil
  then have "noted problems lastErr" by simp
  then show ?case unfolding try_candidates.simps by (rule errs_give_up)
next
  case (Cons cand cands)
  have loop: "io_errs told_all (io_bind (io_catch (attempt cand)) (\<lambda>r. case r of
       Inr outcome \<Rightarrow> io_return outcome
     | Inl err \<Rightarrow>
         if (case as_probe err of Some (st, _) \<Rightarrow> st \<noteq> StageProtocol | None \<Rightarrow> False) then io_fail err
         else io_bind ctx_err (\<lambda>done. case done of
             Some e \<Rightarrow> io_fail (fail StageDial e)
           | None \<Rightarrow> try_candidates attempt deadline False cands (problems @ [candidate_problem cand err]) (Some err))))"
    by (intro errs_attempt a errs_intros told_all_fail Cons.IH disjI1 noted_candidate)
  show ?case
  proof (cases first)
    case True
    have "io_bind (io_return False) f = f False" for f :: "bool \<Rightarrow> (('z) net_scheme, probe_outcome) io"
      by (simp add: io_bind_def fun_eq_iff)
    then show ?thesis unfolding try_candidates.simps using loop by (simp only: True if_True if_False)
  next
    case False
    with Cons.prems have n: "noted problems lastErr" by simp
    show ?thesis unfolding try_candidates.simps
      by (intro errs_bind errs_if errs_fail errs_basic errs_time_now loop noted_give_up noted_longer n)
  qed
qed

lemma try_dcs_told: "noted problems lastErr \<or> dcs \<noteq> [] \<Longrightarrow> io_errs told_all (try_dcs P c t dcs problems lastErr)"
proof (induction dcs arbitrary: problems lastErr)
  case Nil
  then have "noted problems lastErr" by simp
  then show ?case unfolding try_dcs.simps by (rule errs_give_up)
next
  case (Cons dc dcs)
  show ?case unfolding try_dcs.simps
    by (intro errs_bind errs_prod errs_mono [OF dial_told told_all] errs_attempt errs_on_new attempts_told errs_intros
        told_all_fail Cons.IH disjI1 noted_err)
qed

lemma try_webs_told:
  assumes a: "\<And>cand. io_errs told (attempt cand)"
  shows "noted problems lastErr \<or> trs \<noteq> [] \<Longrightarrow> io_errs told_all (try_webs attempt trs problems lastErr)"
proof (induction trs arbitrary: problems lastErr)
  case Nil
  then have "noted problems lastErr" by simp
  then show ?case unfolding try_webs.simps by (rule errs_give_up)
next
  case (Cons tr trs)
  show ?case unfolding try_webs.simps
    by (intro errs_attempt a errs_intros told_all_fail Cons.IH disjI1 noted_err)
qed

lemma probes_told: "io_errs told_all (probeMTProto P c t)" "io_errs told_all (probeSocks5 P c t)"
    "io_errs told_all (probeWebProxy Q c t)" "io_errs told_all (probeTCP c)"
proof -
  have "candidate_list c (Mode t) \<noteq> []" using candidate_list_first [of c "Mode t"] by auto
  then show "io_errs told_all (probeMTProto P c t)" unfolding probeMTProto_def
    by (intro errs_bind errs_time_now try_candidates_told attempts_told) simp
  show "io_errs told_all (probeSocks5 P c t)" unfolding probeSocks5_def
    by (intro try_dcs_told) (simp add: telegramDCs_def)
  show "io_errs told_all (probeWebProxy Q c t)" unfolding probeWebProxy_def
    by (intro try_webs_told attempts_told) (simp add: web_order_def)
  show "io_errs told_all (probeTCP c)" by (rule errs_mono [OF probeTCP_told told_all])
qed

lemma Probe_explained:
  assumes "Probe P c t w = (Inl e, w')" and "\<not> panics e"
  shows "\<exists>st k cause. e = ErrProbe st k cause \<and> explained st k cause"
proof -
  have "io_errs told_all (Probe P c t)" unfolding Probe_def by (cases "t_Kind t") (simp_all add: probes_told)
  from io_errsD [OF this assms(1)] assms(2) show ?thesis by (simp add: told_all_def)
qed

lemma try_webs_unfold:
  fixes attempt :: "int \<times> transport \<Rightarrow> (('z) webnet_scheme, probe_outcome) io"
  obtains q w2 d w3 where "attempt (2, tr) w = (q, w2)" "ctx_err w2 = (Inr d, w3)" "relays w3 = relays w2"
    "try_webs attempt (tr # trs) problems lastErr w =
      (case q of Inr outcome \<Rightarrow> (Inr outcome, w2)
         | Inl err \<Rightarrow> if panics err \<or> is_final err then (Inl err, w2)
            else (case d of Some e \<Rightarrow> (Inl (fail StageDial e), w3)
               | None \<Rightarrow> try_webs attempt trs (problems @ [tr_name tr @ '': '' @ err_text err]) (Some err) w3))"
proof -
  obtain q w2 where 2: "attempt (2, tr) w = (q, w2)" by fastforce
  obtain d w3 where 3: "ctx_err w2 = (Inr d, w3)" "relays w3 = relays w2" by (cases "ctxErrs w2") (simp_all add: ctx_err_def)
  show ?thesis
  proof (rule that [OF 2 3])
    show "try_webs attempt (tr # trs) problems lastErr w =
      (case q of Inr outcome \<Rightarrow> (Inr outcome, w2)
         | Inl err \<Rightarrow> if panics err \<or> is_final err then (Inl err, w2)
            else (case d of Some e \<Rightarrow> (Inl (fail StageDial e), w3)
               | None \<Rightarrow> try_webs attempt trs (problems @ [tr_name tr @ '': '' @ err_text err]) (Some err) w3))"
      using 2 3(1) by (cases q; cases d) (auto simp: dcOrder_def io_bind_Inr io_bind_def io_catch_def is_final_def split: option.splits)
  qed
qed

section \<open>Relay sessions\<close>

text \<open>Each attempt opens at most one relay, and a probe makes at most two attempts.\<close>

lemma relays_keeps [keeps_intros]: "io_keeps relays time_now" "io_keeps relays (on_new c m)"
proof -
  show "io_keeps relays time_now"
    unfolding io_keeps_def by (intro allI, rename_tac w, case_tac "ticks w") (simp_all add: time_now_def)
  show "io_keeps relays (on_new c m)" by (simp add: io_keeps_def on_new_def split: prod.splits)
qed

lemma Dial_relays: "Dial P h s tmo w = (r, w') \<Longrightarrow> relays w' = relays w \<or> relays w' = tl (relays w)"
proof -
  assume d: "Dial P h s tmo w = (r, w')"
  show ?thesis
  proof (cases "to_lower (trim_space h) = []")
    case True
    with d show ?thesis by (simp add: Dial_def)
  next
    case False
    with d show ?thesis by (cases "relays w") (auto simp: Dial_def Let_def)
  qed
qed

lemma attemptWebProxy_relays:
  fixes w :: "('z) webnet_scheme"
  assumes "attemptWebProxy P c t cand w = (r, w')"
  shows "relays w' = relays w \<or> relays w' = tl (relays w)"
proof -
  obtain t0 w1 where 1: "time_now w = (Inr t0, w1)" using time_now_total by blast
  have k1: "relays w1 = relays w" by (rule io_keepsD [OF relays_keeps(1) 1])
  define k :: "dialed \<Rightarrow> (('z) webnet_scheme, probe_outcome) io" where "k = (\<lambda>dialed. io_bind time_now (\<lambda>done.
     io_bind time_now (\<lambda>now. case dialed of
        OverHTTPS cw \<Rightarrow> over_carrier P c t cand (done - t0) (now + budget c) https_ops cw
      | OverWebSocket cw \<Rightarrow> over_carrier P c t cand (done - t0) (now + budget c) websocket_ops cw)))"
  have b: "io_bind (io_map_err webProxyError (Dial P (t_Host t) (t_secret t) (ck_Timeout c))) k w1 = (r, w')"
    using assms 1 by (simp add: attemptWebProxy_def io_bind_Inr k_def)
  obtain q w2 where 2: "Dial P (t_Host t) (t_secret t) (ck_Timeout c) w1 = (q, w2)" by fastforce
  note d = Dial_relays [OF 2]
  have "relays w' = relays w2"
  proof (cases q)
    case (Inl e)
    with b 2 show ?thesis by (simp add: io_bind_def io_map_err_def)
  next
    case (Inr x)
    with b 2 have kx: "k x w2 = (r, w')" by (simp add: io_bind_def io_map_err_def)
    have kk: "io_keeps relays (k x)"
      unfolding k_def over_carrier_def by (cases x; simp only: dialed.case; intro keeps_intros)
    show ?thesis by (rule io_keepsD [OF kk kx])
  qed
  with k1 d show ?thesis by auto
qed

lemma try_webs_relays:
  assumes "\<And>cand w r w'. attempt cand w = (r, w') \<Longrightarrow> relays w' = relays w \<or> relays w' = tl (relays w)"
  shows "try_webs attempt trs problems lastErr w = (r, w') \<Longrightarrow> \<exists>k \<le> length trs. relays w' = drop k (relays w)"
proof (induction trs arbitrary: problems lastErr w)
  case Nil
  then show ?case by simp
next
  case (Cons tr trs)
  obtain q w2 d w3 where 2: "attempt (2, tr) w = (q, w2)" "relays w3 = relays w2"
    and e: "try_webs attempt (tr # trs) problems lastErr w =
      (case q of Inr outcome \<Rightarrow> (Inr outcome, w2)
         | Inl err \<Rightarrow> if panics err \<or> is_final err then (Inl err, w2)
            else (case d of Some e \<Rightarrow> (Inl (fail StageDial e), w3)
               | None \<Rightarrow> try_webs attempt trs (problems @ [tr_name tr @ '': '' @ err_text err]) (Some err) w3))"
    by (rule try_webs_unfold)
  obtain j where j: "j \<le> 1" "relays w2 = drop j (relays w)"
    using assms [OF 2(1)] by (auto intro: that [of 0] that [of 1] simp: drop_Suc)
  consider "w' = w2" | "w' = w3" | problems' err where "try_webs attempt trs problems' (Some err) w3 = (r, w')"
    using Cons.prems unfolding e by (auto split: sum.splits if_splits option.splits)
  then show ?case
  proof cases
    case 3
    from Cons.IH [OF 3] obtain k where "k \<le> length trs" "relays w' = drop k (relays w3)" by blast
    with j 2(2) show ?thesis by (intro exI [of _ "k + j"]) (auto simp: drop_drop)
  qed (use j 2(2) in \<open>auto intro!: exI [of _ j]\<close>)
qed

lemma web_order_length: "length (web_order t) = 2"
  by (simp add: web_order_def)

lemma probeWebProxy_relays:
  assumes "probeWebProxy P c t w = (r, w')" shows "\<exists>k \<le> 2. relays w' = drop k (relays w)"
  using try_webs_relays [OF attemptWebProxy_relays assms [unfolded probeWebProxy_def]] by (simp add: web_order_length)

text \<open>A bridge page without a token: the secret is wrong, and no second relay is tried.\<close>

lemma fetchBridge_no_token:
  assumes "cl_answers (rl_client c) ''GET'' (rl_origin c @ ''/?bridge='' @ capability) = Inr rp # rest"
    and "url_parse (rl_origin c @ ''/?bridge='' @ capability) \<noteq> None"
    and "rp_StatusCode rp = 200" "read_body rp = Inr body" "find_match bootstrap_here (bytes_str body) = None"
  shows "\<exists>c'. fetchBridge capability c =
    (Inl (failure WebBridge (ErrText ''no bootstrap token in the page: the secret does not match this host'')), c')"
  using assms by (auto simp: fetchBridge_def io_bind_Inr new_request_def on_client_def client_do_def)

lemma rejected_text: "contains ''no bootstrap token in the page: the secret does not match this host'' ''secret does not match''"
  by simp

definition web_rejected :: goerr where
  "web_rejected = failAs StageHandshake KindSecretRejected
     (failure WebBridge (ErrText ''no bootstrap token in the page: the secret does not match this host''))"

lemma webProxyError_rejected:
  "webProxyError (failure WebBridge (ErrText ''no bootstrap token in the page: the secret does not match this host'')) = web_rejected"
  by (simp add: webProxyError_def as_carrier_def failure_def isSecretRejection_def rejected_text web_rejected_def)

lemma open_relay_no_token:
  assumes "cl_answers (rl_client c) ''GET'' (rl_origin c @ ''/?bridge='' @ Capability C (rl_host c) secret) = Inr rp # rest"
    and "url_parse (rl_origin c @ ''/?bridge='' @ Capability C (rl_host c) secret) \<noteq> None"
    and "rp_StatusCode rp = 200" "read_body rp = Inr body" "find_match bootstrap_here (bytes_str body) = None"
    and "chan w = c"
  shows "fst (open_relay C rr secret w) =
    Inl (failure WebBridge (ErrText ''no bootstrap token in the page: the secret does not match this host''))"
proof -
  from fetchBridge_no_token [OF assms(1-5)] obtain c' where
    "fetchBridge (Capability C (rl_host c) secret) c = (Inl (failure WebBridge (ErrText ''no bootstrap token in the page: the secret does not match this host'')), c')" by blast
  then show ?thesis using assms(6) by (simp add: open_relay_def io_bind_def on_chan_def)
qed

lemma try_webs_final:
  assumes "attempt (2, tr) w = (Inl e, w')" and "is_final e"
  shows "try_webs attempt (tr # trs) problems lastErr w = (Inl e, w')"
  by (rule try_webs_unfold [of attempt tr w trs problems lastErr]) (use assms in auto)

definition bridge_url :: "crypto \<Rightarrow> string \<Rightarrow> bytes \<Rightarrow> string" where
  "bridge_url C host secret = ''https://'' @ host @ ''/?bridge='' @ Capability C host secret"

lemma probe_rejected:
  fixes w :: "('z) webnet_scheme"
  assumes "relays w = rv # rs" and host: "host = to_lower (trim_space (t_Host t))" "host \<noteq> []"
    and "cl_answers (chan rv) ''GET'' (bridge_url (P_crypto P) host (t_secret t)) = Inr rp # rest"
    and "url_parse (bridge_url (P_crypto P) host (t_secret t)) \<noteq> None"
    and "rp_StatusCode rp = 200" "read_body rp = Inr body" "find_match bootstrap_here (bytes_str body) = None"
  shows "\<exists>w'. probeWebProxy P c t w = (Inl web_rejected, w') \<and> relays w' = rs"
proof -
  define msg where "msg = failure WebBridge (ErrText ''no bootstrap token in the page: the secret does not match this host'')"
  obtain t0 w1 where 1: "time_now w = (Inr t0, w1)" using time_now_total by blast
  have r1: "relays w1 = rv # rs" using io_keepsD [OF relays_keeps(1) 1] assms(1) by simp
  define tmo where "tmo = (if ck_Timeout c \<le> 0 then 10000000000 else ck_Timeout c)"
  have "fst (open_relay (P_crypto P) (P_readResponse P) (t_secret t) (with_chan rv (new_relay (chan rv) host tmo))) = Inl msg"
    unfolding msg_def by (rule open_relay_no_token [where c = "new_relay (chan rv) host tmo"])
      (use assms(4-8) in \<open>simp_all add: new_relay_def bridge_url_def\<close>)
  then have "Dial P (t_Host t) (t_secret t) (ck_Timeout c) w1 = (Inl msg, w1\<lparr>relays := rs\<rparr>)"
    using host r1 by (simp add: Dial_def tmo_def Let_def)
  moreover have "webProxyError msg = web_rejected" unfolding msg_def by (rule webProxyError_rejected)
  ultimately have a: "attemptWebProxy P c t cand w = (Inl web_rejected, w1\<lparr>relays := rs\<rparr>)" for cand
    using 1 by (simp add: attemptWebProxy_def io_bind_Inr io_bind_def io_map_err_def)
  obtain tr trs where "web_order t = tr # trs" using web_order_length [of t] by (cases "web_order t") auto
  moreover have "try_webs (attemptWebProxy P c t) (tr # trs) [] None w = (Inl web_rejected, w1\<lparr>relays := rs\<rparr>)"
    by (rule try_webs_final [where attempt = "attemptWebProxy P c t" and tr = tr and e = web_rejected, OF a [of "(2, tr)"]]) (simp add: is_final_def web_rejected_def)
  ultimately show ?thesis by (auto simp: probeWebProxy_def)
qed

section \<open>The capability\<close>

text \<open>It is a token of 43 characters of the URL alphabet.\<close>

lemma b64_small:
  assumes "x < (256 :: nat)"
  shows "x div 4 < 64" "x div 16 < 16" "x div 64 < 4" "x mod 4 < 4" "x mod 16 < 16" "x mod 64 < 64"
  using assms by (simp_all add: less_mult_imp_div_less)

lemma b64_digit_bounds:
  assumes "x < (256 :: nat)" "y < 256" "z < 256"
  shows "x div 4 < 64" "x mod 4 * 16 < 64" "x mod 4 * 16 + y div 16 < 64" "y mod 16 * 4 < 64" "y mod 16 * 4 + z div 64 < 64" "z mod 64 < 64"
  using b64_small [OF assms(1)] b64_small [OF assms(2)] b64_small [OF assms(3)] by linarith+

lemma b64_values_bound: "v \<in> set (b64_values bs) \<Longrightarrow> v < 64"
  by (induction bs rule: b64_values.induct)
    (use b64_digit_bounds [OF unat_byte_lt unat_byte_lt unat_byte_lt] in \<open>auto\<close>)

lemma b64_values_length: "length (b64_values bs) = (8 * length bs + 5) div 6"
  by (induction bs rule: b64_values.induct) simp_all

lemma b64_regroup:
  assumes "x < (256 :: nat)" "y < 256" "z < 256"
  shows "4 * (x div 4) + (x mod 4 * 16 + y div 16) div 16 = x" "4 * (x div 4) + (x mod 4 * 16) div 16 = x"
    "16 * (x mod 4 * 16 + y div 16) + (y mod 16 * 4 + z div 64) div 4 = 256 * (x mod 4) + y"
    "16 * (x mod 4 * 16 + y div 16) + (y mod 16 * 4) div 4 = 256 * (x mod 4) + y"
    "64 * (y mod 16 * 4 + z div 64) + z mod 64 = 256 * (y mod 16) + z"
proof -
  have d: "(p * k + q) div k = p" if "q < k" for p q k :: nat using that by simp
  have 1: "(x mod 4 * 16 + y div 16) div 16 = x mod 4" by (rule d) (rule b64_small(2) [OF assms(2)])
  have 2: "(y mod 16 * 4 + z div 64) div 4 = y mod 16" by (rule d) (rule b64_small(3) [OF assms(3)])
  have 3: "(x mod 4 * 16) div 16 = x mod 4" "(y mod 16 * 4) div 4 = y mod 16" by simp_all
  have e: "4 * (x div 4) + x mod 4 = x" "16 * (y div 16) + y mod 16 = y" "64 * (z div 64) + z mod 64 = z" by simp_all
  have g1: "16 * (p * 16 + q) + r = 256 * p + s" if "16 * q + r = s" for p q r s :: nat using that by simp
  have g2: "64 * (p * 4 + q) + r = 256 * p + s" if "64 * q + r = s" for p q r s :: nat using that by simp
  show "4 * (x div 4) + (x mod 4 * 16 + y div 16) div 16 = x" "4 * (x div 4) + (x mod 4 * 16) div 16 = x"
    "16 * (x mod 4 * 16 + y div 16) + (y mod 16 * 4 + z div 64) div 4 = 256 * (x mod 4) + y"
    "16 * (x mod 4 * 16 + y div 16) + (y mod 16 * 4) div 4 = 256 * (x mod 4) + y"
    "64 * (y mod 16 * 4 + z div 64) + z mod 64 = 256 * (y mod 16) + z"
    unfolding 1 2 3 using e(1) g1 [OF e(2)] g2 [OF e(3)] by simp_all
qed

lemma byte_of_shifted: "(word_of_nat (256 * k + unat (b :: byte)) :: byte) = b"
  by (simp only: word_unat_eq_iff unat_of_nat) simp

lemma byte_of_self: "(word_of_nat (unat (b :: byte)) :: byte) = b"
  by simp

lemma b64_groups_values: "b64_groups (b64_values bs) = Some bs"
  by (induction bs rule: b64_values.induct)
    (simp_all only: b64_values.simps b64_groups.simps b64_regroup [OF unat_byte_lt unat_byte_lt unat_byte_lt]
      byte_of_shifted option.map byte_of_self)

lemma b64_char_cases:
  fixes n :: nat
  assumes "n < 64"
  obtains "n < 26" "b64_char url n = char_of (n + 65)" | "26 \<le> n" "n < 52" "b64_char url n = char_of (n + 71)"
  | "52 \<le> n" "n < 62" "b64_char url n = char_of (n - 4)" | "n = 62" "b64_char url n = (if url then CHR ''-'' else CHR ''+'')"
  | "n = 63" "b64_char url n = (if url then CHR ''_'' else CHR ''/'')"
proof -
  have "n < 26 \<or> 26 \<le> n \<and> n < 52 \<or> 52 \<le> n \<and> n < 62 \<or> n = 62 \<or> n = 63" using assms by linarith
  then show ?thesis using that by (auto simp: b64_char_def)
qed

lemma of_char_code: "n < 256 \<Longrightarrow> (of_char (char_of (n :: nat) :: char) :: nat) = n"
  by simp

lemma b64_code:
  assumes "n < 64"
  shows "(of_char (b64_char url n) :: nat) =
     (if n < 26 then n + 65 else if n < 52 then n + 71 else if n < 62 then n - 4
      else if n = 62 then (if url then 45 else 43) else (if url then 95 else 47))"
  by (rule b64_char_cases [OF assms, of url]) (auto simp: of_char_code)

lemma char_eq_code: "c = d \<longleftrightarrow> (of_char c :: nat) = of_char d"
  by (metis char_of_char)

lemma b64_digit_char: "n < 64 \<Longrightarrow> b64_digit url (b64_char url n) = Some n"
  by (cases url) (simp_all add: b64_digit_def char_eq_code Let_def b64_code, presburger+)

lemma b64_char_token: "n < 64 \<Longrightarrow> token_char (b64_char True n)"
  by (simp add: token_char_def is_alpha_def is_digit_def char_eq_code Let_def b64_code) presburger

lemma b64_char_visible: "n < 64 \<Longrightarrow> (of_char (b64_char url n) :: nat) \<noteq> 10 \<and> (of_char (b64_char url n) :: nat) \<noteq> 13"
  by (simp add: b64_code) presburger

lemma b64_raw_roundtrip: "b64_raw_decode url (b64_raw_encode url bs) = Some bs"
proof -
  let ?s = "b64_raw_encode url bs"
  have "filter (\<lambda>ch. (of_char ch :: nat) \<noteq> 10 \<and> (of_char ch :: nat) \<noteq> 13) ?s = ?s"
    by (rule filter_True) (auto simp: b64_raw_encode_def dest: b64_values_bound b64_char_visible [of _ url])
  moreover have "map (b64_digit url) ?s = map Some (b64_values bs)"
    by (auto simp: b64_raw_encode_def dest: b64_values_bound intro: b64_digit_char)
  ultimately show ?thesis by (simp add: b64_raw_decode_def Let_def b64_groups_values)
qed

lemma Capability_token:
  assumes "crypto_ok C"
  shows "length (Capability C host secret) = 43 \<and> list_all token_char (Capability C host secret)"
  using assms by (auto simp: Capability_def b64_raw_encode_def b64_values_length length_hmacSHA256 list_all_iff
    dest: b64_values_bound intro: b64_char_token)

end
