(* ===== verification/Audits.thy ===== *)
theory Audits
  imports Webproxy
begin

text \<open>
  \<open>internal/mtproto/audit.go\<close> without \<open>hold\<close>: what a FakeTLS proxy shows an ordinary TLS
  client, whether a proxy lets a wrong secret in, and how many clients it serves at once.
  TLS handshakes of \<open>crypto/tls\<close> have their outcomes in the environment, and each of the
  parallel probes of \<open>CheckConnLimit\<close> runs in a world of its own: the probes share only
  the settings, which none of them writes.
\<close>

section \<open>Masking\<close>

record certificate =
  ct_Subject :: string
  ct_Issuer :: string
  ct_DNSNames :: "string list"
  ct_matches :: "string \<Rightarrow> bool"

record tls_state =
  ts_Version :: u16
  ts_PeerCertificates :: "certificate list"

record maskingResult =
  mk_Domain :: string
  mk_Answered :: bool
  mk_Version :: string
  mk_Issuer :: string
  mk_Subject :: string
  mk_NameMatch :: bool
  mk_Verdict :: string
  mk_Error :: string
  mk_SANs :: "string list"

record connLimit =
  cn_Requested :: int
  cn_Accepted :: int

record audit =
  au_Masking :: "maskingResult option"
  au_AcceptsAnySecret :: "bool option"
  au_ConnLimit :: "connLimit option"

record auditnet = webnet +
  tlsHandshakes :: "(goerr + tls_state) list"
  peers :: "webnet list"

definition next_handshake :: "(('z) auditnet_scheme, tls_state) io" where
  "next_handshake = (\<lambda>w. case tlsHandshakes w of
       [] \<Rightarrow> (Inl ErrEOF, w)
     | h # hs \<Rightarrow> (h, w\<lparr>tlsHandshakes := hs\<rparr>))"

definition tlsVersionName :: "u16 \<Rightarrow> string" where
  "tlsVersionName version =
     (if version = 0x0304 then ''1.3'' else if version = 0x0303 then ''1.2''
      else if version = 0x0302 then ''1.1'' else if version = 0x0301 then ''1.0''
      else ''0x'' @ concat (map hex_byte (be_bytes 2 (unat version))))"

definition maskingBlank :: "string \<Rightarrow> maskingResult" where
  "maskingBlank domain = \<lparr>mk_Domain = domain, mk_Answered = False, mk_Version = [], mk_Issuer = [], mk_Subject = [],
     mk_NameMatch = False, mk_Verdict = [], mk_Error = [], mk_SANs = []\<rparr>"

definition mask_verdict :: "maskingResult \<Rightarrow> string" where
  "mask_verdict r = (if mk_NameMatch r then ''good''
     else if mk_Subject r \<noteq> [] then ''certificate for another domain'' else ''answered without a certificate'')"

definition CheckMasking :: "checker \<Rightarrow> target \<Rightarrow> (('z) auditnet_scheme, maskingResult) io" where
  "CheckMasking c t =
     (let domain = SNI t; result = maskingBlank domain in
      if Mode t \<noteq> ModeFakeTLS then io_return (result\<lparr>mk_Verdict := ''not applicable''\<rparr>)
      else io_bind (io_try (dial c)) (\<lambda>dialed. case dialed of
        Inl err \<Rightarrow> io_return (result\<lparr>mk_Error := err_text err, mk_Verdict := ''unreachable''\<rparr>)
      | Inr _ \<Rightarrow> io_bind time_now (\<lambda>now.
          io_bind (io_try next_handshake) (\<lambda>shaken. case shaken of
            Inl err \<Rightarrow> io_return (result\<lparr>mk_Error := err_text err, mk_Verdict := ''no cover traffic''\<rparr>)
          | Inr state \<Rightarrow>
              let result = result\<lparr>mk_Answered := True, mk_Version := tlsVersionName (ts_Version state)\<rparr>;
                  result = (case ts_PeerCertificates state of
                      [] \<Rightarrow> result
                    | leaf # _ \<Rightarrow> result\<lparr>mk_Subject := ct_Subject leaf, mk_Issuer := ct_Issuer leaf,
                        mk_SANs := ct_DNSNames leaf, mk_NameMatch := ct_matches leaf domain\<rparr>)
              in io_return (result\<lparr>mk_Verdict := mask_verdict result\<rparr>)))))"

section \<open>A wrong secret\<close>

definition hexString :: "bytes \<Rightarrow> string" where
  "hexString b = concat (map (\<lambda>c. [hex_digit (unat (drop_bit 4 c)), hex_digit (unat (c AND 0x0F))]) b)"

definition decoyTarget :: "target \<Rightarrow> (('z) env_scheme, target) io" where
  "decoyTarget t =
     io_bind (randomBytes 16) (\<lambda>key.
     let secret = (case Mode t of
           ModeFakeTLS \<Rightarrow> ''ee'' @ hexString key @ hexString (str_bytes (SNI t))
         | ModeSecure \<Rightarrow> ''dd'' @ hexString key
         | _ \<Rightarrow> hexString key)
     in io_lift (Parse (''tg://proxy?server='' @ t_Host t @ ''&port='' @ dec_int (t_Port t) @ ''&secret='' @ secret)))"

definition CheckOpenSecret :: "web_params \<Rightarrow> checker \<Rightarrow> target \<Rightarrow> (('z) webnet_scheme, bool) io" where
  "CheckOpenSecret P c t =
     (if t_Kind t \<noteq> KindMTProto then io_fail (ErrText ''only MTProto proxies have a secret'')
      else io_bind (decoyTarget t) (\<lambda>decoy.
        io_bind (io_catch (probeMTProto (params.truncate P) (c\<lparr>ck_Depth := DepthQuick, ck_MaxCandidates := 2\<rparr>) decoy)) (\<lambda>r. case r of
          Inl err \<Rightarrow> io_return False
        | Inr _ \<Rightarrow> io_return True)))"

section \<open>Parallel connections\<close>

text \<open>The probe of one goroutine, in the next world of \<open>peers\<close>; a world that is missing has no
  network.\<close>

definition no_peer :: webnet where
  "no_peer = \<lparr>entropy = [], clk = 0, ticks = [], primeCache = [], dials = [], ctxErrs = [], relays = []\<rparr>"

fun probe_peers :: "web_params \<Rightarrow> checker \<Rightarrow> target \<Rightarrow> nat \<Rightarrow> webnet list \<Rightarrow> bool list \<times> webnet list" where
  "probe_peers P c t 0 ws = ([], ws)"
| "probe_peers P c t (Suc n) ws =
     (let (w, rest) = (case ws of [] \<Rightarrow> (no_peer, []) | w # rest \<Rightarrow> (w, rest));
          ok = (case fst (Probe P c t w) of Inl err \<Rightarrow> False | Inr outcome \<Rightarrow> True);
          (oks, rest) = probe_peers P c t n rest
      in (ok # oks, rest))"

definition CheckConnLimit :: "web_params \<Rightarrow> checker \<Rightarrow> target \<Rightarrow> int \<Rightarrow> (('z) auditnet_scheme, connLimit) io" where
  "CheckConnLimit P c t want0 =
     (let want = (if want0 < 2 then 2 else want0);
          quick = c\<lparr>ck_Depth := DepthQuick, ck_MaxCandidates := 1\<rparr> in
      (\<lambda>w. let (results, rest) = probe_peers P quick t (nat want) (peers w) in
        (Inr \<lparr>cn_Requested = want, cn_Accepted = int (length (filter id results))\<rparr>, w\<lparr>peers := rest\<rparr>)))"

definition describeAudit :: "audit option \<Rightarrow> string" where
  "describeAudit a = (case a of None \<Rightarrow> []
     | Some a \<Rightarrow> join '', ''
         ((case au_Masking a of None \<Rightarrow> [] | Some m \<Rightarrow> if mk_Verdict m \<noteq> ''not applicable'' then [''masking '' @ mk_Verdict m] else [])
          @ (case au_AcceptsAnySecret a of Some True \<Rightarrow> [''accepts any secret''] | _ \<Rightarrow> [])
          @ (case au_ConnLimit a of None \<Rightarrow> []
             | Some l \<Rightarrow> [''parallel '' @ dec_int (cn_Accepted l) @ ''/'' @ dec_int (cn_Requested l)])))"

end
