(* ===== verification/Checker.thy ===== *)
theory Checker
  imports Audits "HOL-Library.Multiset"
begin

text \<open>
  \<open>internal/checker/checker.go\<close>: checking one proxy link with its retries, the rating of a live
  one, the audits, the worker pool over all links and the summary.  Latencies are in
  microseconds where the probe gives them so, and exact rationals of milliseconds in the
  result; the scores are computed with exact rationals instead of float64.
\<close>

section \<open>Options and results\<close>

datatype status = StatusNone | StatusLive | StatusDead | StatusInvalid

record options =
  op_Timeout :: int
  op_Concurrency :: int
  op_Attempts :: int
  op_MinSuccesses :: int
  op_Depth :: depth
  op_Pings :: int
  op_RetryDelay :: int
  op_APIID :: int
  op_Inspect :: bool
  op_Speedtest :: bool
  op_Hold :: int
  op_Masking :: bool
  op_OpenCheck :: bool
  op_MaxConns :: int
  op_Geo :: bool

definition Defaults :: "options \<Rightarrow> options" where
  "Defaults op =
     (let op = (if op_Timeout op \<le> 0 then op\<lparr>op_Timeout := 10000000000\<rparr> else op);
          op = (if op_Concurrency op \<le> 0 then op\<lparr>op_Concurrency := 16\<rparr> else op);
          op = (if op_Attempts op \<le> 0 then op\<lparr>op_Attempts := 2\<rparr> else op);
          op = (if op_MinSuccesses op \<le> 0 then op\<lparr>op_MinSuccesses := 1\<rparr> else op);
          op = (if op_MinSuccesses op > op_Attempts op then op\<lparr>op_MinSuccesses := op_Attempts op\<rparr> else op)
      in if op_RetryDelay op \<le> 0 then op\<lparr>op_RetryDelay := 250000000\<rparr> else op)"

record secretInfo =
  si_Mode :: secret_mode
  si_Domain :: string
  si_KeyHex :: string
  si_Length :: nat

record geo_info =
  ge_Host :: string
  ge_IP :: string
  ge_Country :: string
  ge_Code :: string
  ge_City :: string
  ge_ASN :: int
  ge_Org :: string
  ge_ISP :: string
  ge_Lat :: rat
  ge_Lon :: rat
  ge_Error :: string

record result =
  rs_Input :: string
  rs_Canonical :: string
  rs_Host :: string
  rs_Port :: int
  rs_Kind :: "proxy_kind option"
  rs_Title :: string
  rs_Status :: status
  rs_LatencyMS :: rat
  rs_Route :: "route option"
  rs_Attempts :: int
  rs_Successes :: int
  rs_Error :: string
  rs_ErrorKind :: kind
  rs_Timings :: "(timings \<times> rat) option"
  rs_Ping :: "pingStats option"
  rs_Nearest :: "nearestDC option"
  rs_Config :: "configInfo option"
  rs_Speed :: "speedStats option"
  rs_Stability :: "stabilityStats option"
  rs_Audit :: "audit option"
  rs_Score :: int
  rs_Grade :: string
  rs_Secret :: "secretInfo option"
  rs_Geo :: "geo_info option"

definition no_result :: result where
  "no_result = \<lparr>rs_Input = [], rs_Canonical = [], rs_Host = [], rs_Port = 0, rs_Kind = None, rs_Title = [],
     rs_Status = StatusNone, rs_LatencyMS = 0, rs_Route = None, rs_Attempts = 0, rs_Successes = 0, rs_Error = [],
     rs_ErrorKind = KindEmpty, rs_Timings = None, rs_Ping = None, rs_Nearest = None, rs_Config = None, rs_Speed = None,
     rs_Stability = None, rs_Audit = None, rs_Score = 0, rs_Grade = [], rs_Secret = None, rs_Geo = None\<rparr>"

definition Live :: "result \<Rightarrow> bool" where "Live r \<longleftrightarrow> rs_Status r = StatusLive"

section \<open>The world of a check\<close>

text \<open>\<open>jitters\<close> are the draws of \<open>rand.Int64N\<close>, reduced to its bound; \<open>timers\<close> tells for each
  pause whether the timer or the context ends it; \<open>geoLookup\<close> is the answer of the geo
  client for a host.\<close>

record checknet = auditnet +
  jitters :: "int list"
  timers :: "bool list"
  geoLookup :: "string \<Rightarrow> geo_info"

definition int64N :: "int \<Rightarrow> (('z) checknet_scheme, int) io" where
  "int64N n = (\<lambda>w. case jitters w of
       [] \<Rightarrow> (Inr 0, w)
     | j # js \<Rightarrow> (Inr (j mod n), w\<lparr>jitters := js\<rparr>))"

definition timer_or_done :: "int \<Rightarrow> (('z) checknet_scheme, bool) io" where
  "timer_or_done delay = (\<lambda>w. case timers w of
       [] \<Rightarrow> (Inr True, snd (time_sleep delay w))
     | b # bs \<Rightarrow> (Inr b, (if b then snd (time_sleep delay (w\<lparr>timers := bs\<rparr>)) else w\<lparr>timers := bs\<rparr>)))"

section \<open>Retries\<close>

definition maxRetryDelay :: int where "maxRetryDelay = 2000000000"

text \<open>\<open>base << shift\<close> on a 64-bit \<open>time.Duration\<close> wraps around.\<close>

definition backoffDelay :: "int \<Rightarrow> int \<Rightarrow> int" where
  "backoffDelay base attempt =
     (let shift = attempt - 2;
          delay = (if 0 \<le> shift \<and> shift < 32
             then let scaled = sint (push_bit (nat shift) (word_of_int base :: u64))
                  in if scaled > 0 \<and> scaled < maxRetryDelay then scaled else maxRetryDelay
             else maxRetryDelay)
      in if delay \<le> 0 then 1000000 else delay)"

definition sleepBackoff :: "int \<Rightarrow> int \<Rightarrow> (('z) checknet_scheme, bool) io" where
  "sleepBackoff base attempt =
     (let delay = backoffDelay base attempt in
      io_bind (int64N (delay div 2 + 1)) (\<lambda>extra. timer_or_done (delay + extra)))"

section \<open>Rating\<close>

text \<open>Milliseconds of a duration, as \<open>float64(d.Microseconds()) / 1000\<close>.\<close>

definition us_to_ms :: "int \<Rightarrow> rat" where "us_to_ms us = of_int us / 1000"

definition LossPercent :: "pingStats \<Rightarrow> rat" where
  "LossPercent p = (if ps_Sent p = 0 then 0 else of_int (int (ps_Sent p) - int (ps_Received p)) / of_nat (ps_Sent p) * 100)"

definition representativeLatency :: "result \<Rightarrow> int \<Rightarrow> rat" where
  "representativeLatency r best =
     (case rs_Ping r of
        Some p \<Rightarrow> if ps_MedianMS p > 0 then round1 (us_to_ms (ps_MedianMS p))
          else (case rs_Timings r of
              Some (t, _) \<Rightarrow> if tm_RespQMS t > 0 then round1 (us_to_ms (tm_RespQMS t)) else round1 (us_to_ms (ms best))
            | None \<Rightarrow> round1 (us_to_ms (ms best)))
      | None \<Rightarrow> (case rs_Timings r of
              Some (t, _) \<Rightarrow> if tm_RespQMS t > 0 then round1 (us_to_ms (tm_RespQMS t)) else round1 (us_to_ms (ms best))
            | None \<Rightarrow> round1 (us_to_ms (ms best))))"

definition rated_latency :: "result \<Rightarrow> rat" where
  "rated_latency r =
     (let fallback = (case rs_Timings r of
            Some (t, _) \<Rightarrow> if tm_RespQMS t > 0 then us_to_ms (tm_RespQMS t) else rs_LatencyMS r
          | None \<Rightarrow> rs_LatencyMS r)
      in case rs_Ping r of
           Some p \<Rightarrow> if ps_MedianMS p > 0 then us_to_ms (ps_MedianMS p) else fallback
         | None \<Rightarrow> fallback)"

definition latency_score :: "rat \<Rightarrow> rat" where
  "latency_score latency =
     (if latency \<le> 100 then 100 else if latency \<ge> 1000 then 10 else 100 - (latency - 100) / 900 * 90)"

text \<open>\<open>math.Round\<close>: half away from zero.\<close>

definition math_Round :: "rat \<Rightarrow> int" where
  "math_Round v = (if 0 \<le> v then \<lfloor>v + 1 / 2\<rfloor> else \<lceil>v - 1 / 2\<rceil>)"

definition rate :: "result \<Rightarrow> int \<times> string" where
  "rate r =
     (let s0 = latency_score (rated_latency r);
          s1 = (case rs_Ping r of Some p \<Rightarrow> s0 - us_to_ms (ps_JitterMS p) / 5 - LossPercent p * (3 / 2) | None \<Rightarrow> s0);
          s2 = (if rs_Attempts r > 1 then s1 - of_int (rs_Attempts r - rs_Successes r) / of_int (rs_Attempts r) * 20 else s1);
          score = math_Round (max 0 (min 100 s2))
      in (score, if score \<ge> 85 then ''A'' else if score \<ge> 70 then ''B'' else if score \<ge> 50 then ''C'' else ''D''))"

definition errorText :: "goerr option \<Rightarrow> options \<Rightarrow> string" where
  "errorText err op = (case err of
       Some e \<Rightarrow> err_text e
     | None \<Rightarrow> if op_MinSuccesses op > 1 then ''not enough successful attempts'' else ''no valid Telegram response'')"

definition errorKind :: "goerr option \<Rightarrow> kind" where
  "errorKind err = (case err of
       None \<Rightarrow> KindOther
     | Some e \<Rightarrow> if errors_is e ErrCanceled then KindCanceled else KindOf (Some e))"

section \<open>Checking one link\<close>

text \<open>The attempts so far: the best round, the last error, and the result they are written to.\<close>

definition record_success :: "probe_outcome \<Rightarrow> int \<Rightarrow> int \<Rightarrow> result \<Rightarrow> result" where
  "record_success outcome elapsed best r =
     (let r = r\<lparr>rs_Successes := rs_Successes r + 1\<rparr> in
      if best = 0 \<or> elapsed < best then
        r\<lparr>rs_Route := Some (oc_Route outcome),
          rs_Timings := Some (oc_Timings outcome, round1 (us_to_ms (ms elapsed))),
          rs_Ping := sr_ping (oc_Stages outcome), rs_Nearest := sr_nearest (oc_Stages outcome),
          rs_Config := sr_config (oc_Stages outcome), rs_Speed := sr_speed (oc_Stages outcome),
          rs_Stability := sr_stability (oc_Stages outcome)\<rparr>
      else r)"

fun attempts_loop ::
  "nat \<Rightarrow> int \<Rightarrow> (('z) checknet_scheme, probe_outcome) io \<Rightarrow> options \<Rightarrow> result \<Rightarrow> int \<Rightarrow> goerr option \<Rightarrow>
   (('z) checknet_scheme, result \<times> int \<times> goerr option) io" where
  "attempts_loop 0 attempt probe op r best lastErr = io_return (r, best, lastErr)"
| "attempts_loop (Suc left) attempt probe op r best lastErr =
     io_bind (if attempt > 1 then sleepBackoff (op_RetryDelay op) attempt else io_return True) (\<lambda>slept.
     if \<not> slept then io_return (r, best, lastErr)
     else io_bind ctx_err (\<lambda>done. case done of
       Some e \<Rightarrow> io_return (r, best, Some e)
     | None \<Rightarrow>
       let r = r\<lparr>rs_Attempts := attempt\<rparr> in
       io_bind time_now (\<lambda>started.
       io_bind (io_catch probe) (\<lambda>out.
       io_bind time_now (\<lambda>now. let elapsed = now - started in
       case out of
         Inl err \<Rightarrow>
           if (case as_probe err of Some (st, _) \<Rightarrow> st = StageDial | None \<Rightarrow> False) then io_return (r, best, Some err)
           else attempts_loop left (attempt + 1) probe op r best (Some err)
       | Inr outcome \<Rightarrow>
           let r = record_success outcome elapsed best r; best = (if best = 0 \<or> elapsed < best then elapsed else best) in
           if rs_Successes r \<ge> op_MinSuccesses op then io_return (r, best, lastErr)
           else attempts_loop left (attempt + 1) probe op r best lastErr)))))"

definition secret_info :: "target \<Rightarrow> secretInfo" where
  "secret_info t = \<lparr>si_Mode = Mode t, si_Domain = (if Mode t = ModeFakeTLS then SNI t else []),
     si_KeyHex = hexString (SecretKey t), si_Length = length (t_secret t)\<rparr>"

definition first_result :: "string \<Rightarrow> target \<Rightarrow> result" where
  "first_result input t = no_result\<lparr>rs_Input := input, rs_Canonical := Canonical t, rs_Host := t_Host t, rs_Port := t_Port t,
     rs_Kind := Some (t_Kind t), rs_Title := t_Title t,
     rs_Secret := (if t_Kind t = KindMTProto then Some (secret_info t) else None)\<rparr>"

definition probe_settings :: "options \<Rightarrow> checker" where
  "probe_settings op = (let c = (New (op_Timeout op))\<lparr>ck_Depth := op_Depth op, ck_APIID := op_APIID op, ck_Inspect := op_Inspect op,
      ck_Speedtest := op_Speedtest op, ck_Hold := op_Hold op\<rparr>
     in if op_Pings op > 0 then c\<lparr>ck_Pings := op_Pings op\<rparr> else c)"

definition verdict :: "options \<Rightarrow> result \<times> int \<times> goerr option \<Rightarrow> result" where
  "verdict op = (\<lambda>(r, best, lastErr).
     if rs_Successes r \<ge> op_MinSuccesses op then
       let r = r\<lparr>rs_Status := StatusLive\<rparr>; r = r\<lparr>rs_LatencyMS := representativeLatency r best\<rparr>
       in r\<lparr>rs_Score := fst (rate r), rs_Grade := snd (rate r)\<rparr>
     else r\<lparr>rs_Status := StatusDead, rs_Error := errorText lastErr op, rs_ErrorKind := errorKind lastErr\<rparr>)"

definition runAudit :: "web_params \<Rightarrow> checker \<Rightarrow> target \<Rightarrow> options \<Rightarrow> result \<Rightarrow> (('z) checknet_scheme, audit option) io" where
  "runAudit P c t op r =
     (if \<not> Live r \<or> \<not> op_Masking op \<and> \<not> op_OpenCheck op \<and> op_MaxConns op \<le> 0 then io_return None
      else io_bind (if op_Masking op \<and> Mode t = ModeFakeTLS then io_bind (CheckMasking c t) (\<lambda>m. io_return (Some m)) else io_return None) (\<lambda>masking.
        io_bind (if op_OpenCheck op \<and> t_Kind t = KindMTProto then io_option (CheckOpenSecret P c t) else io_return None) (\<lambda>open.
        io_bind (if op_MaxConns op > 0 then io_bind (CheckConnLimit P c t (op_MaxConns op)) (\<lambda>l. io_return (Some l)) else io_return None) (\<lambda>limit.
        io_return (Some \<lparr>au_Masking = masking, au_AcceptsAnySecret = open, au_ConnLimit = limit\<rparr>)))))"

definition check :: "web_params \<Rightarrow> options \<Rightarrow> string \<Rightarrow> (('z) checknet_scheme, result) io" where
  "check P op input = (case Parse input of
       Inl err \<Rightarrow> io_return (no_result\<lparr>rs_Input := input, rs_Status := StatusInvalid, rs_Error := err_text err\<rparr>)
     | Inr t \<Rightarrow>
         let c = probe_settings op in
         io_bind (attempts_loop (nat (op_Attempts op)) 1 (Probe P c t) op (first_result input t) 0 None) (\<lambda>done.
         let r = verdict op done in
         io_bind (if op_Geo op then io_gets (\<lambda>w. Some (geoLookup w (t_Host t))) else io_return None) (\<lambda>geo.
         let r = r\<lparr>rs_Geo := geo\<rparr> in
         io_bind (runAudit P c t op r) (\<lambda>audit.
         io_return (case audit of Some a \<Rightarrow> r\<lparr>rs_Audit := Some a\<rparr> | None \<Rightarrow> r)))))"

section \<open>Sorting and summing up\<close>

definition before :: "result \<Rightarrow> result \<Rightarrow> bool" where
  "before a b = (if Live a \<noteq> Live b then Live a else if \<not> Live a then False else rs_LatencyMS a < rs_LatencyMS b)"

text \<open>\<open>sort.SliceStable\<close> with the comparison above, as a stable insertion sort.\<close>

fun insert_stable :: "('a \<Rightarrow> 'a \<Rightarrow> bool) \<Rightarrow> 'a \<Rightarrow> 'a list \<Rightarrow> 'a list" where
  "insert_stable lt x [] = [x]"
| "insert_stable lt x (y # ys) = (if lt y x then y # insert_stable lt x ys else x # y # ys)"

definition sort_stable :: "('a \<Rightarrow> 'a \<Rightarrow> bool) \<Rightarrow> 'a list \<Rightarrow> 'a list" where
  "sort_stable lt xs = foldr (insert_stable lt) xs []"

definition SortByLatency :: "result list \<Rightarrow> result list" where
  "SortByLatency results = sort_stable before results"

record summary =
  su_Total :: nat
  su_Live :: nat
  su_Dead :: nat
  su_Invalid :: nat

definition Summarize :: "result list \<Rightarrow> summary" where
  "Summarize results = foldl (\<lambda>s r. case rs_Status r of
        StatusLive \<Rightarrow> s\<lparr>su_Live := su_Live s + 1\<rparr>
      | StatusDead \<Rightarrow> s\<lparr>su_Dead := su_Dead s + 1\<rparr>
      | _ \<Rightarrow> s\<lparr>su_Invalid := su_Invalid s + 1\<rparr>)
     \<lparr>su_Total = length results, su_Live = 0, su_Dead = 0, su_Invalid = 0\<rparr> results"

section \<open>Options\<close>

definition options_ok :: "options \<Rightarrow> bool" where
  "options_ok op \<longleftrightarrow> 0 < op_Timeout op \<and> 1 \<le> op_Concurrency op \<and> 1 \<le> op_MinSuccesses op
     \<and> op_MinSuccesses op \<le> op_Attempts op \<and> 0 < op_RetryDelay op"

lemma Defaults_ok: "options_ok (Defaults op)"
  by (simp add: options_ok_def Defaults_def Let_def)

lemma Defaults_id: "options_ok op \<Longrightarrow> Defaults op = op"
  by (simp add: options_ok_def Defaults_def Let_def)

section \<open>The pause between attempts\<close>

lemma backoffDelay_range: "0 < backoffDelay base attempt \<and> backoffDelay base attempt \<le> maxRetryDelay"
  by (simp add: backoffDelay_def maxRetryDelay_def Let_def)

lemma sint_shift:
  assumes "0 < base" "base * 2 ^ k < maxRetryDelay"
  shows "sint (push_bit k (word_of_int base :: u64)) = base * 2 ^ k"
proof -
  have "push_bit k (word_of_int base :: u64) = word_of_int (base * 2 ^ k)"
    by (simp add: push_bit_eq_mult of_int_mult)
  moreover have "sint (word_of_int x :: u64) = x" if "0 < x" "x < maxRetryDelay" for x
    using that by (simp add: signed_of_int signed_take_bit_int_eq_self maxRetryDelay_def)
  from this [of "base * 2 ^ k"] assms have "sint (word_of_int (base * 2 ^ k) :: u64) = base * 2 ^ k"
    by (simp only: zero_less_mult_iff zero_less_power zero_less_numeral) blast
  ultimately show ?thesis by (simp only:)
qed

lemma backoffDelay_doubles:
  assumes "0 < base" "base * 2 ^ k < maxRetryDelay" "k < 32"
  shows "backoffDelay base (2 + int k) = base * 2 ^ k"
  using assms sint_shift [OF assms(1,2)] by (simp add: backoffDelay_def Let_def zero_less_mult_iff not_le)

section \<open>Scores\<close>

lemma latency_score_range: "10 \<le> latency_score x \<and> latency_score x \<le> 100"
proof (cases "x \<le> 100 \<or> 1000 \<le> x")
  case True
  then show ?thesis by (auto simp: latency_score_def)
next
  case False
  then have "(x - 100) / 900 * 90 \<le> 90" "0 \<le> (x - 100) / 900 * 90" by simp_all
  with False show ?thesis by (simp add: latency_score_def)
qed

lemma latency_score_antimono: "x \<le> y \<Longrightarrow> latency_score y \<le> latency_score x"
proof -
  assume a: "x \<le> y"
  show ?thesis
  proof (cases "x \<le> 100 \<or> 1000 \<le> y")
    case True
    then show ?thesis using latency_score_range [of x] latency_score_range [of y] a by (auto simp: latency_score_def)
  next
    case False
    then have "latency_score x = 100 - (x - 100) / 900 * 90" "latency_score y = 100 - (y - 100) / 900 * 90"
      using a by (auto simp: latency_score_def)
    with a show ?thesis by simp
  qed
qed

lemma math_Round_range: "0 \<le> v \<Longrightarrow> v \<le> of_int n \<Longrightarrow> 0 \<le> math_Round v \<and> math_Round v \<le> n"
proof -
  assume a: "0 \<le> v" "v \<le> of_int n"
  then have "0 \<le> \<lfloor>v + 1 / 2\<rfloor>" by simp
  moreover have "\<lfloor>v + 1 / 2\<rfloor> < n + 1" unfolding floor_less_iff of_int_add of_int_1 using a(2) by linarith
  ultimately show ?thesis using a(1) by (simp add: math_Round_def)
qed

lemma rate_range: "rate r = (score, grade) \<Longrightarrow> 0 \<le> score \<and> score \<le> 100"
proof -
  assume r: "rate r = (score, grade)"
  then obtain s where s: "score = math_Round (max 0 (min 100 s))" by (auto simp: rate_def Let_def)
  have "0 \<le> max 0 (min 100 s)" "max 0 (min 100 s) \<le> of_int 100" by simp_all
  from math_Round_range [OF this] s show ?thesis by simp
qed

lemma rate_grade: "rate r = (score, grade) \<Longrightarrow>
    grade = (if score \<ge> 85 then ''A'' else if score \<ge> 70 then ''B'' else if score \<ge> 50 then ''C'' else ''D'')"
  by (auto simp: rate_def Let_def)

section \<open>The attempts\<close>

text \<open>What every round of the loop starts from.\<close>

definition round_ok :: "options \<Rightarrow> int \<Rightarrow> result \<Rightarrow> int \<Rightarrow> bool" where
  "round_ok op attempt r best \<longleftrightarrow> 1 \<le> attempt \<and> rs_Attempts r = attempt - 1 \<and> 0 \<le> rs_Successes r \<and> rs_Successes r \<le> attempt - 1
     \<and> rs_Successes r < op_MinSuccesses op \<and> (best \<noteq> 0 \<longrightarrow> rs_Route r \<noteq> None) \<and> (0 < rs_Successes r \<longrightarrow> rs_Route r \<noteq> None)"

text \<open>What the loop leaves.\<close>

definition loop_ok :: "options \<Rightarrow> int \<Rightarrow> result \<Rightarrow> bool" where
  "loop_ok op bound r \<longleftrightarrow> 0 \<le> rs_Successes r \<and> rs_Successes r \<le> rs_Attempts r \<and> rs_Attempts r \<le> bound
     \<and> rs_Successes r \<le> op_MinSuccesses op \<and> (0 < rs_Successes r \<longrightarrow> rs_Route r \<noteq> None)"

text \<open>The fields that name the link are not touched.\<close>

definition same_link :: "result \<Rightarrow> result \<Rightarrow> bool" where
  "same_link r r' \<longleftrightarrow> rs_Input r' = rs_Input r \<and> rs_Canonical r' = rs_Canonical r \<and> rs_Host r' = rs_Host r
     \<and> rs_Port r' = rs_Port r \<and> rs_Kind r' = rs_Kind r \<and> rs_Secret r' = rs_Secret r \<and> rs_Title r' = rs_Title r"

lemma same_link_trans: "same_link a b \<Longrightarrow> same_link b c \<Longrightarrow> same_link a c"
  by (simp add: same_link_def)

lemma record_success_fields:
  "rs_Successes (record_success out el best r) = rs_Successes r + 1" "rs_Attempts (record_success out el best r) = rs_Attempts r"
  "same_link r (record_success out el best r)"
  "rs_Route r \<noteq> None \<or> best = 0 \<Longrightarrow> rs_Route (record_success out el best r) \<noteq> None"
  by (auto simp: record_success_def Let_def same_link_def)

lemma sleepBackoff_total: "\<exists>b w'. sleepBackoff base attempt w = (Inr b, w')"
proof -
  have "\<exists>e w'. int64N n w = (Inr e, w')" for n and w :: "('a) checknet_scheme"
    by (cases "jitters w") (simp_all add: int64N_def)
  moreover have "\<exists>b w'. timer_or_done d w = (Inr b, w')" for d and w :: "('a) checknet_scheme"
    by (cases "timers w") (auto simp: timer_or_done_def)
  ultimately show ?thesis by (metis io_bind_Inr sleepBackoff_def)
qed

lemma attempts_loop_cases:
  assumes "attempts_loop (Suc left) attempt probe op r best lastErr w = (Inr (r', best', err'), w')"
  obtains "r' = r" "best' = best"
  | e where "r' = r\<lparr>rs_Attempts := attempt\<rparr>" "best' = best" "err' = Some e" "\<exists>k. as_probe e = Some (StageDial, k)"
  | w1 e where "attempts_loop left (attempt + 1) probe op (r\<lparr>rs_Attempts := attempt\<rparr>) best (Some e) w1 = (Inr (r', best', err'), w')"
  | out el where "r' = record_success out el best (r\<lparr>rs_Attempts := attempt\<rparr>)" "best' = (if best = 0 \<or> el < best then el else best)"
      "op_MinSuccesses op \<le> rs_Successes r'"
  | w1 out el where "attempts_loop left (attempt + 1) probe op (record_success out el best (r\<lparr>rs_Attempts := attempt\<rparr>))
        (if best = 0 \<or> el < best then el else best) lastErr w1 = (Inr (r', best', err'), w')"
      "rs_Successes r + 1 < op_MinSuccesses op"
proof -
  obtain slept w1 where 1: "(if attempt > 1 then sleepBackoff (op_RetryDelay op) attempt else io_return True) w = (Inr slept, w1)"
    using sleepBackoff_total [of "op_RetryDelay op" attempt w] by (cases "attempt > 1") auto
  obtain d w2 where 2: "ctx_err w1 = (Inr d, w2)" by (cases "ctxErrs w1") (simp_all add: ctx_err_def)
  show ?thesis
  proof (cases "slept \<and> d = None")
    case False
    with assms 1 2 that(1) show ?thesis by (auto simp: io_bind_Inr split: option.splits if_splits)
  next
    case True
    obtain t0 w3 where 3: "time_now w2 = (Inr t0, w3)" using time_now_total by blast
    obtain q w4 where 4: "probe w3 = (q, w4)" by fastforce
    obtain t1 w5 where 5: "time_now w4 = (Inr t1, w5)" using time_now_total by blast
    show ?thesis
    proof (cases q)
      case (Inl e)
      show ?thesis
      proof (cases "panics e")
        case True
        with assms 1 2 3 4 Inl \<open>slept \<and> d = None\<close> show ?thesis by (simp add: io_bind_Inr io_bind_def io_catch_def Let_def)
      next
        case False
        with assms 1 2 3 4 5 Inl \<open>slept \<and> d = None\<close> have
          "(if (case as_probe e of Some (st, _) \<Rightarrow> st = StageDial | None \<Rightarrow> False) then io_return (r\<lparr>rs_Attempts := attempt\<rparr>, best, Some e)
           else attempts_loop left (attempt + 1) probe op (r\<lparr>rs_Attempts := attempt\<rparr>) best (Some e)) w5 = (Inr (r', best', err'), w')"
          by (simp add: io_bind_Inr io_catch_def Let_def)
        then show ?thesis using that(2) that(3) by (cases "as_probe e") (auto split: if_splits)
      qed
    next
      case (Inr out)
      with assms 1 2 3 4 5 \<open>slept \<and> d = None\<close> have
        "(let r2 = record_success out (t1 - t0) best (r\<lparr>rs_Attempts := attempt\<rparr>); best2 = (if best = 0 \<or> t1 - t0 < best then t1 - t0 else best) in
          if rs_Successes r2 \<ge> op_MinSuccesses op then io_return (r2, best2, lastErr)
          else attempts_loop left (attempt + 1) probe op r2 best2 lastErr) w5 = (Inr (r', best', err'), w')"
        by (simp add: io_bind_Inr io_catch_def Let_def)
      then show ?thesis
        by (cases "op_MinSuccesses op \<le> rs_Successes (record_success out (t1 - t0) best (r\<lparr>rs_Attempts := attempt\<rparr>))")
          (auto simp: Let_def record_success_fields(1) intro: that(4) that(5))
    qed
  qed
qed

lemma attempts_loop_ok:
  "attempts_loop left attempt probe op r best lastErr w = (Inr (r', best', err'), w') \<Longrightarrow> round_ok op attempt r best \<Longrightarrow>
     loop_ok op (attempt - 1 + int left) r' \<and> same_link r r'"
proof (induction left arbitrary: attempt r best lastErr w)
  case 0
  then show ?case by (auto simp: round_ok_def loop_ok_def same_link_def)
next
  case (Suc left)
  note i = Suc.prems(2) [unfolded round_ok_def]
  note f = record_success_fields
  from Suc.prems(1) show ?case
  proof (rule attempts_loop_cases)
    assume "r' = r" "best' = best"
    with i show ?thesis by (auto simp: loop_ok_def same_link_def)
  next
    fix e assume "r' = r\<lparr>rs_Attempts := attempt\<rparr>"
    with i show ?thesis by (auto simp: loop_ok_def same_link_def)
  next
    fix w1 e assume a: "attempts_loop left (attempt + 1) probe op (r\<lparr>rs_Attempts := attempt\<rparr>) best (Some e) w1 = (Inr (r', best', err'), w')"
    have "round_ok op (attempt + 1) (r\<lparr>rs_Attempts := attempt\<rparr>) best" using i by (simp add: round_ok_def)
    from Suc.IH [OF a this] show ?thesis by (simp add: same_link_def algebra_simps)
  next
    fix out el assume "r' = record_success out el best (r\<lparr>rs_Attempts := attempt\<rparr>)"
    with i f(1,2) [of out el best "r\<lparr>rs_Attempts := attempt\<rparr>"] f(3) [of "r\<lparr>rs_Attempts := attempt\<rparr>" out el best]
      f(4) [of "r\<lparr>rs_Attempts := attempt\<rparr>" best out el]
    show ?thesis by (cases "best = 0") (auto simp: loop_ok_def same_link_def)
  next
    fix w1 out el
    let ?r2 = "record_success out el best (r\<lparr>rs_Attempts := attempt\<rparr>)"
    assume a: "attempts_loop left (attempt + 1) probe op ?r2 (if best = 0 \<or> el < best then el else best) lastErr w1 = (Inr (r', best', err'), w')"
      and m: "rs_Successes r + 1 < op_MinSuccesses op"
    have "rs_Route ?r2 \<noteq> None" using f(4) [of "r\<lparr>rs_Attempts := attempt\<rparr>" best out el] i by (cases "best = 0") auto
    then have "round_ok op (attempt + 1) ?r2 (if best = 0 \<or> el < best then el else best)"
      using i m f(1,2) [of out el best "r\<lparr>rs_Attempts := attempt\<rparr>"] by (simp add: round_ok_def)
    from Suc.IH [OF a this] f(3) [of "r\<lparr>rs_Attempts := attempt\<rparr>" out el best] show ?thesis
      by (simp add: same_link_def algebra_simps)
  qed
qed

section \<open>The result of a check\<close>

lemma first_round: "options_ok op \<Longrightarrow> round_ok op 1 (first_result input t) 0"
  by (simp add: round_ok_def first_result_def no_result_def options_ok_def)

lemma loop_result:
  assumes "options_ok op" "attempts_loop (nat (op_Attempts op)) 1 probe op (first_result input t) 0 None w = (Inr (r, best, err), w')"
  shows "loop_ok op (op_Attempts op) r \<and> same_link (first_result input t) r"
  using attempts_loop_ok [OF assms(2) first_round [OF assms(1)]] assms(1) by (simp add: options_ok_def)

text \<open>What a check reports for a link that parses.\<close>

definition report_ok :: "options \<Rightarrow> string \<Rightarrow> target \<Rightarrow> result \<Rightarrow> bool" where
  "report_ok op input t r \<longleftrightarrow> same_link (first_result input t) r
     \<and> (rs_Status r = StatusLive \<or> rs_Status r = StatusDead)
     \<and> (Live r \<longleftrightarrow> op_MinSuccesses op \<le> rs_Successes r)
     \<and> rs_Successes r \<le> rs_Attempts r \<and> rs_Attempts r \<le> op_Attempts op
     \<and> (Live r \<longrightarrow> rs_Route r \<noteq> None \<and> rs_Successes r = op_MinSuccesses op)
     \<and> (if Live r then rate r = (rs_Score r, rs_Grade r) else rs_Score r = 0 \<and> rs_Grade r = [] \<and> rs_Audit r = None)"

lemma rate_cong:
  "rs_Ping r' = rs_Ping r \<Longrightarrow> rs_Timings r' = rs_Timings r \<Longrightarrow> rs_LatencyMS r' = rs_LatencyMS r \<Longrightarrow>
   rs_Attempts r' = rs_Attempts r \<Longrightarrow> rs_Successes r' = rs_Successes r \<Longrightarrow> rate r' = rate r"
  unfolding rate_def rated_latency_def by (simp only:)

lemma attempts_loop_unrated:
  "attempts_loop left attempt probe op r best lastErr w = (Inr (r', best', err'), w') \<Longrightarrow>
     rs_Score r' = rs_Score r \<and> rs_Grade r' = rs_Grade r \<and> rs_Audit r' = rs_Audit r"
proof (induction left arbitrary: attempt r best lastErr w)
  case 0
  then show ?case by simp
next
  case (Suc left)
  have f: "rs_Score (record_success out el b r) = rs_Score r \<and> rs_Grade (record_success out el b r) = rs_Grade r
      \<and> rs_Audit (record_success out el b r) = rs_Audit r" for out el b r
    by (simp add: record_success_def Let_def)
  from Suc.prems show ?case
    by (rule attempts_loop_cases) (use f in \<open>auto dest!: Suc.IH\<close>)
qed

lemma verdict_ok:
  assumes "options_ok op" "attempts_loop (nat (op_Attempts op)) 1 probe op (first_result input t) 0 None w = (Inr d, w')"
  shows "report_ok op input t (verdict op d)"
proof -
  obtain r best err where d: "d = (r, best, err)" by (cases d)
  have l: "loop_ok op (op_Attempts op) r" "same_link (first_result input t) r" using loop_result assms d by blast+
  have u: "rs_Score r = 0" "rs_Grade r = []" "rs_Audit r = None"
    using attempts_loop_unrated [OF assms(2) [unfolded d]] by (simp_all add: first_result_def no_result_def)
  have m: "1 \<le> op_MinSuccesses op" using assms(1) by (simp add: options_ok_def)
  show ?thesis
  proof (cases "op_MinSuccesses op \<le> rs_Successes r")
    case True
    let ?r1 = "r\<lparr>rs_Status := StatusLive, rs_LatencyMS := representativeLatency (r\<lparr>rs_Status := StatusLive\<rparr>) best\<rparr>"
    have v: "verdict op d = ?r1\<lparr>rs_Score := fst (rate ?r1), rs_Grade := snd (rate ?r1)\<rparr>"
      using True by (simp add: verdict_def d Let_def)
    have "rate (?r1\<lparr>rs_Score := fst (rate ?r1), rs_Grade := snd (rate ?r1)\<rparr>) = rate ?r1" by (rule rate_cong) simp_all
    with v l m True show ?thesis by (simp add: report_ok_def Live_def loop_ok_def same_link_def)
  next
    case False
    then have "verdict op d = r\<lparr>rs_Status := StatusDead, rs_Error := errorText err op, rs_ErrorKind := errorKind err\<rparr>"
      by (simp add: verdict_def d)
    with l u False show ?thesis by (simp add: report_ok_def Live_def loop_ok_def same_link_def)
  qed
qed

lemma report_ok_frame:
  assumes "report_ok op input t r" "g = None \<or> Live r"
  shows "report_ok op input t (case g of Some a \<Rightarrow> r\<lparr>rs_Geo := geo, rs_Audit := Some a\<rparr> | None \<Rightarrow> r\<lparr>rs_Geo := geo\<rparr>)"
proof -
  have "rate (r\<lparr>rs_Geo := geo\<rparr>) = rate r" "rate (r\<lparr>rs_Geo := geo, rs_Audit := x\<rparr>) = rate r" for x
    by (rule rate_cong; simp)+
  with assms show ?thesis by (cases g) (auto simp: report_ok_def Live_def same_link_def)
qed

lemma runAudit_dead: "\<not> Live r \<Longrightarrow> runAudit P c t op r w = (Inr None, w)"
  by (simp add: runAudit_def)

lemma check_invalid: "Parse input = Inl e \<Longrightarrow>
    check P op input w = (Inr (no_result\<lparr>rs_Input := input, rs_Status := StatusInvalid, rs_Error := err_text e\<rparr>), w)"
  by (simp add: check_def)

lemma check_valid:
  fixes w :: "('z) checknet_scheme"
  assumes "options_ok op" "Parse input = Inr t" "check P op input w = (Inr r, w')"
  shows "report_ok op input t r"
proof -
  obtain d w1 where 1: "attempts_loop (nat (op_Attempts op)) 1 (Probe P (probe_settings op) t) op (first_result input t) 0 None w = (Inr d, w1)"
    and rest: "(let r = verdict op d in
         io_bind (if op_Geo op then io_gets (\<lambda>w. Some (geoLookup w (t_Host t))) else io_return None) (\<lambda>geo.
         let r = r\<lparr>rs_Geo := geo\<rparr> in
         io_bind (runAudit P (probe_settings op) t op r) (\<lambda>audit.
         io_return (case audit of Some a \<Rightarrow> r\<lparr>rs_Audit := Some a\<rparr> | None \<Rightarrow> r)))) w1 = (Inr r, w')"
    using assms(2,3) by (auto simp: check_def Let_def io_bind_eq_Inr)
  have v: "report_ok op input t (verdict op d)" by (rule verdict_ok [OF assms(1) 1])
  obtain geo w2 a where "(if op_Geo op then io_gets (\<lambda>w. Some (geoLookup w (t_Host t))) else io_return None) w1 = (Inr geo, w2)"
    and a: "runAudit P (probe_settings op) t op ((verdict op d)\<lparr>rs_Geo := geo\<rparr>) w2 = (Inr a, w')"
    and r: "r = (case a of Some x \<Rightarrow> (verdict op d)\<lparr>rs_Geo := geo, rs_Audit := Some x\<rparr> | None \<Rightarrow> (verdict op d)\<lparr>rs_Geo := geo\<rparr>)"
    using rest unfolding Let_def io_bind_eq_Inr io_return_app prod.inject sum.inject by (elim exE conjE) (rule that, auto)
  have "a = None \<or> Live (verdict op d)"
    using a runAudit_dead [of "(verdict op d)\<lparr>rs_Geo := geo\<rparr>" P "probe_settings op" t op w2] by (auto simp: Live_def)
  from report_ok_frame [OF v this] show ?thesis unfolding r .
qed

text \<open>A refused dial ends the check at its first attempt.\<close>

lemma check_refused:
  fixes w :: "('z) checknet_scheme"
  assumes "options_ok op" "Parse input = Inr t" "t_Kind t = KindMTProto" "dials w = Inl e # ds" "ctxErrs w = []" "\<not> panics e"
  shows "\<exists>r w'. check P op input w = (Inr r, w') \<and> rs_Status r = StatusDead \<and> rs_Attempts r = 1 \<and> rs_Successes r = 0"
proof -
  let ?probe = "Probe P (probe_settings op) t :: (('z) checknet_scheme, probe_outcome) io"
  let ?r0 = "first_result input t"
  have ctx: "ctx_err w = (Inr None, w)" using assms(5) by (simp add: ctx_err_def)
  obtain t0 w1 where 1: "time_now w = (Inr t0, w1)" using time_now_total by blast
  have "dials w1 = Inl e # ds" using io_keepsD [OF time_now_dials 1] assms(4) by simp
  from probeMTProto_refused [OF this] assms(3) obtain w2 where 2: "?probe w1 = (Inl (fail StageDial e), w2)"
    unfolding Probe_def by fastforce
  have c: "io_catch ?probe w1 = (Inr (Inl (fail StageDial e)), w2)" using 2 assms(6) by (simp add: io_catch_def panics_def fail_def)
  obtain t1 w3 where 3: "time_now w2 = (Inr t1, w3)" using time_now_total by blast
  obtain n where n: "nat (op_Attempts op) = Suc n" using assms(1) by (cases "nat (op_Attempts op)") (auto simp: options_ok_def)
  have l: "attempts_loop (nat (op_Attempts op)) 1 ?probe op ?r0 0 None w = (Inr (?r0\<lparr>rs_Attempts := 1\<rparr>, 0, Some (fail StageDial e)), w3)"
    using ctx 1 c 3 unfolding n by (simp add: io_bind_Inr Let_def)
  have s: "rs_Successes (?r0\<lparr>rs_Attempts := 1\<rparr>) < op_MinSuccesses op"
    using assms(1) by (simp add: options_ok_def first_result_def no_result_def)
  let ?v = "verdict op (?r0\<lparr>rs_Attempts := 1\<rparr>, 0, Some (fail StageDial e))"
  have v: "rs_Status ?v = StatusDead" "rs_Attempts ?v = 1" "rs_Successes ?v = 0"
    using s by (simp_all add: verdict_def first_result_def no_result_def)
  have a: "runAudit P (probe_settings op) t op (?v\<lparr>rs_Geo := g\<rparr>) w3 = (Inr None, w3)" for g
    by (rule runAudit_dead) (simp add: Live_def v)
  show ?thesis using l a v assms(2) by (cases "op_Geo op") (simp_all add: check_def io_bind_Inr Let_def)
qed

section \<open>Order and summary\<close>

text \<open>The rank of a result: live ones by latency, in front of all others.\<close>

datatype rank = Answered rat | Unanswered

instantiation rank :: linorder
begin

definition less_eq_rank :: "rank \<Rightarrow> rank \<Rightarrow> bool" where
  "less_eq_rank a b = (case (a, b) of (_, Unanswered) \<Rightarrow> True | (Unanswered, Answered _) \<Rightarrow> False | (Answered x, Answered y) \<Rightarrow> x \<le> y)"

definition less_rank :: "rank \<Rightarrow> rank \<Rightarrow> bool" where
  "less_rank a b = (a \<le> b \<and> \<not> b \<le> (a :: rank))"

instance
  by standard (auto simp: less_eq_rank_def less_rank_def split: rank.splits)

end

definition rank_of :: "result \<Rightarrow> rank" where
  "rank_of r = (if Live r then Answered (rs_LatencyMS r) else Unanswered)"

lemma before_rank: "before a b \<longleftrightarrow> rank_of a < rank_of b"
  by (auto simp: before_def rank_of_def less_rank_def less_eq_rank_def)

lemma insert_stable_insort: "insert_stable before x ys = insort_key rank_of x ys"
  by (induction ys) (auto simp: before_rank not_less)

text \<open>The sort is the library's stable sort by rank.\<close>

lemma SortByLatency_sort_key: "SortByLatency rs = sort_key rank_of rs"
  by (simp add: SortByLatency_def sort_stable_def sort_key_def insert_stable_insort cong: foldr_cong)

lemma Summarize_counts:
  "Summarize rs = \<lparr>su_Total = length rs, su_Live = length (filter Live rs),
     su_Dead = length (filter (\<lambda>r. rs_Status r = StatusDead) rs),
     su_Invalid = length (filter (\<lambda>r. rs_Status r \<noteq> StatusLive \<and> rs_Status r \<noteq> StatusDead) rs)\<rparr>"
proof -
  have "foldl (\<lambda>s r. case rs_Status r of
        StatusLive \<Rightarrow> s\<lparr>su_Live := su_Live s + 1\<rparr>
      | StatusDead \<Rightarrow> s\<lparr>su_Dead := su_Dead s + 1\<rparr>
      | _ \<Rightarrow> s\<lparr>su_Invalid := su_Invalid s + 1\<rparr>) \<lparr>su_Total = n, su_Live = a, su_Dead = b, su_Invalid = c\<rparr> rs
    = \<lparr>su_Total = n, su_Live = a + length (filter Live rs), su_Dead = b + length (filter (\<lambda>r. rs_Status r = StatusDead) rs),
       su_Invalid = c + length (filter (\<lambda>r. rs_Status r \<noteq> StatusLive \<and> rs_Status r \<noteq> StatusDead) rs)\<rparr>" for n a b c
    by (induction rs arbitrary: a b c) (auto simp: Live_def split: status.splits)
  then show ?thesis by (simp add: Summarize_def)
qed

lemma Summarize_total: "su_Total (Summarize rs) = su_Live (Summarize rs) + su_Dead (Summarize rs) + su_Invalid (Summarize rs)"
  unfolding Summarize_counts by (induction rs) (auto simp: Live_def)

end
