(* ===== verification/Geo.thy ===== *)
theory Geo
  imports Checker
begin

text \<open>
  \<open>internal/geo/geo.go\<close>: where a proxy is, from the service ipwho.is, with a cache per host.
  The resolver and the HTTP server are the environment, as the answers they will still give;
  the JSON decoder of the library is the parameter \<open>unjson\<close>, which reads a payload off a body.
  The lemmas show that the cache never changes an entry, that a host is asked for at most
  once, and when an entry has a flag.
\<close>

section \<open>What is shown of a location\<close>

text \<open>The regional indicator of a letter, U+1F1E6 and on, in UTF-8.\<close>

definition indicator :: "char \<Rightarrow> string" where
  "indicator ch = [CHR 0xF0, CHR 0x9F, CHR 0x87, char_of ((of_char ch :: nat) + 101)]"

definition is_upper :: "char \<Rightarrow> bool" where
  "is_upper ch \<longleftrightarrow> 65 \<le> (of_char ch :: nat) \<and> (of_char ch :: nat) \<le> 90"

definition Flag :: "geo_info option \<Rightarrow> string" where
  "Flag i = (case i of None \<Rightarrow> []
     | Some g \<Rightarrow> if length (ge_Code g) \<noteq> 2 then []
         else if list_ex (\<lambda>ch. \<not> is_upper ch) (ge_Code g) then []
         else concat (map indicator (ge_Code g)))"

definition Short :: "geo_info option \<Rightarrow> string" where
  "Short i = (case i of None \<Rightarrow> []
     | Some g \<Rightarrow> if ge_Error g \<noteq> [] then ge_Error g
         else let org = firstNonEmpty [ge_Org g, ge_ISP g]
           in ge_Code g @ (if ge_City g \<noteq> [] then '', '' @ ge_City g else [])
             @ (if ge_ASN g \<noteq> 0 then '' AS'' @ dec_int (ge_ASN g) else [])
             @ (if org \<noteq> [] then '' '' @ org else []))"

section \<open>\<open>net.IP.String\<close>\<close>

definition ip_groups :: "bytes \<Rightarrow> nat list" where
  "ip_groups ip = map (\<lambda>i. unat (ip ! (2 * i)) * 256 + unat (ip ! (2 * i + 1))) [0..<8]"

text \<open>The first of the longest runs of at least two zero groups, as start and end.\<close>

definition zero_run :: "nat list \<Rightarrow> nat \<Rightarrow> nat" where
  "zero_run gs i = length (takeWhile (\<lambda>g. g = 0) (drop i gs))"

definition zero_gap :: "nat list \<Rightarrow> nat \<times> nat" where
  "zero_gap gs = foldl (\<lambda>(a, b) i. let l = zero_run gs i in if l \<ge> 2 \<and> l > b - a then (i, i + l) else (a, b)) (255, 255) [0..<8]"

definition ipv6_text :: "bytes \<Rightarrow> string" where
  "ipv6_text ip =
     (let gs = ip_groups ip; gap = zero_gap gs in
      if fst gap < 8 then join '':'' (map hex_nat (take (fst gap) gs)) @ ''::'' @ join '':'' (map hex_nat (drop (snd gap) gs))
      else join '':'' (map hex_nat gs))"

definition ip_text :: "bytes \<Rightarrow> string" where
  "ip_text ip =
     (if ip = [] then ''<nil>''
      else if length ip = 4 then join ''.'' (map (\<lambda>b. dec_nat (unat b)) ip)
      else if length ip \<noteq> 16 then ''?'' @ hexString ip
      else case ip_To4 ip of
          Some v4 \<Rightarrow> join ''.'' (map (\<lambda>b. dec_nat (unat b)) v4)
        | None \<Rightarrow> ipv6_text ip)"

section \<open>Looking up a host\<close>

record payload =
  gp_Success :: "bool option"
  gp_Message :: string
  gp_Country :: string
  gp_Code :: string
  gp_City :: string
  gp_Latitude :: rat
  gp_Longitude :: rat
  gp_ASN :: int
  gp_Org :: string
  gp_ISP :: string

type_synonym decoder = "bytes \<times> goerr option \<Rightarrow> payload option"

record geo_client =
  gc_HTTP :: client
  gc_answers :: "string \<Rightarrow> (goerr + bytes list) list"
  gc_cache :: "string \<rightharpoonup> geo_info"

definition NewClient :: "client \<Rightarrow> (string \<Rightarrow> (goerr + bytes list) list) \<Rightarrow> geo_client" where
  "NewClient http answers = \<lparr>gc_HTTP = http, gc_answers = answers, gc_cache = Map.empty\<rparr>"

definition blank_info :: "string \<Rightarrow> geo_info" where
  "blank_info host = \<lparr>ge_Host = host, ge_IP = [], ge_Country = [], ge_Code = [], ge_City = [], ge_ASN = 0, ge_Org = [],
     ge_ISP = [], ge_Lat = 0, ge_Lon = 0, ge_Error = []\<rparr>"

definition resolve :: "string \<Rightarrow> geo_client \<Rightarrow> (goerr + bytes list) \<times> geo_client" where
  "resolve host c = (case gc_answers c host of
       [] \<Rightarrow> (Inl (ErrDNS False (''lookup '' @ host @ '': no such host'')), c)
     | a # later \<Rightarrow> (a, c\<lparr>gc_answers := (gc_answers c)(host := later)\<rparr>))"

definition host_ip :: "string \<Rightarrow> geo_client \<Rightarrow> bytes option \<times> geo_client" where
  "host_ip host c = (case ParseIP host of
       Some ip \<Rightarrow> (Some ip, c)
     | None \<Rightarrow> (case resolve host c of
           (Inr (ip # _), c') \<Rightarrow> (Some ip, c')
         | (_, c') \<Rightarrow> (None, c')))"

definition ipwho :: string where "ipwho = ''https://ipwho.is/''"

definition fill_info :: "geo_info \<Rightarrow> payload \<Rightarrow> geo_info" where
  "fill_info info p = info\<lparr>ge_Country := gp_Country p, ge_Code := gp_Code p, ge_City := gp_City p, ge_Lat := gp_Latitude p,
     ge_Lon := gp_Longitude p, ge_ASN := gp_ASN p, ge_Org := gp_Org p, ge_ISP := gp_ISP p\<rparr>"

definition ask_service :: "decoder \<Rightarrow> geo_info \<Rightarrow> geo_client \<Rightarrow> geo_info \<times> geo_client" where
  "ask_service unjson info c =
     (case new_request ''GET'' (ipwho @ ge_IP info) None of
        Inl e \<Rightarrow> (info\<lparr>ge_Error := err_text e\<rparr>, c)
      | Inr req \<Rightarrow> (case client_do req (gc_HTTP c) of
            (Inl e, http) \<Rightarrow> (info\<lparr>ge_Error := ''ipwho.is: '' @ err_text e\<rparr>, c\<lparr>gc_HTTP := http\<rparr>)
          | (Inr resp, http) \<Rightarrow>
              (case unjson (rp_Body resp) of
                 None \<Rightarrow> info\<lparr>ge_Error := ''ipwho.is: malformed response''\<rparr>
               | Some p \<Rightarrow> if gp_Success p = Some False
                   then info\<lparr>ge_Error := ''ipwho.is: '' @ firstNonEmpty [gp_Message p, ''lookup failed'']\<rparr>
                   else fill_info info p, c\<lparr>gc_HTTP := http\<rparr>)))"

definition geo_lookup :: "decoder \<Rightarrow> string \<Rightarrow> geo_client \<Rightarrow> geo_info \<times> geo_client" where
  "geo_lookup unjson host c = (case host_ip host c of
       (None, c') \<Rightarrow> ((blank_info host)\<lparr>ge_Error := ''cannot resolve '' @ host\<rparr>, c')
     | (Some ip, c') \<Rightarrow> ask_service unjson ((blank_info host)\<lparr>ge_IP := ip_text ip\<rparr>) c')"

definition Lookup :: "decoder \<Rightarrow> string \<Rightarrow> geo_client \<Rightarrow> geo_info \<times> geo_client" where
  "Lookup unjson host c = (case gc_cache c host of
       Some info \<Rightarrow> (info, c)
     | None \<Rightarrow> (case geo_lookup unjson host c of (info, c') \<Rightarrow> (info, c'\<lparr>gc_cache := (gc_cache c')(host \<mapsto> info)\<rparr>)))"

text \<open>The lookups of a run, in the order the checks make them.\<close>

fun lookups :: "decoder \<Rightarrow> string list \<Rightarrow> geo_client \<Rightarrow> geo_info list \<times> geo_client" where
  "lookups unjson [] c = ([], c)"
| "lookups unjson (host # hosts) c = (case Lookup unjson host c of
      (info, c1) \<Rightarrow> (case lookups unjson hosts c1 of (infos, c2) \<Rightarrow> (info # infos, c2)))"

section \<open>Flags\<close>

lemma Flag_Some_iff: "Flag (Some g) \<noteq> [] \<longleftrightarrow> length (ge_Code g) = 2 \<and> list_all is_upper (ge_Code g)"
proof (cases "ge_Code g")
  case Nil
  then show ?thesis by (simp add: Flag_def)
next
  case (Cons a list)
  then show ?thesis by (auto simp: Flag_def indicator_def list_ex_iff list_all_iff)
qed

lemma indicator_inject: "is_upper a \<Longrightarrow> is_upper b \<Longrightarrow> indicator a = indicator b \<Longrightarrow> a = b"
proof -
  assume up: "is_upper a" "is_upper b" and eq: "indicator a = indicator b"
  have "(of_char (char_of ((of_char ch :: nat) + 101) :: char) :: nat) = of_char ch + 101" if "is_upper ch" for ch
    using that by (simp add: is_upper_def)
  from this [OF up(1)] this [OF up(2)] eq have "(of_char a :: nat) = of_char b" by (simp add: indicator_def)
  then show "a = b" by simp
qed

lemma Flag_inject:
  assumes "Flag (Some g) = Flag (Some h)" "Flag (Some g) \<noteq> []"
  shows "ge_Code g = ge_Code h"
proof -
  from assms Flag_Some_iff [of g] Flag_Some_iff [of h]
  have up: "length (ge_Code g) = 2" "list_all is_upper (ge_Code g)" "length (ge_Code h) = 2" "list_all is_upper (ge_Code h)"
    by simp_all
  then obtain a b c d where code: "ge_Code g = [a, b]" "ge_Code h = [c, d]"
    by (auto simp: length_Suc_conv numeral_2_eq_2)
  with assms(1) up have "indicator a @ indicator b = indicator c @ indicator d" by (simp add: Flag_def)
  then have "indicator a = indicator c" "indicator b = indicator d" by (simp_all add: indicator_def)
  with up code show ?thesis by (simp add: indicator_inject)
qed

section \<open>The cache\<close>

lemma resolve_cache: "resolve host c = (r, c') \<Longrightarrow> gc_cache c' = gc_cache c \<and> gc_HTTP c' = gc_HTTP c"
  by (auto simp: resolve_def split: list.splits)

lemma host_ip_cache: "host_ip host c = (r, c') \<Longrightarrow> gc_cache c' = gc_cache c \<and> gc_HTTP c' = gc_HTTP c"
  by (auto simp: host_ip_def split: option.splits prod.splits sum.splits list.splits dest: resolve_cache)

lemma client_do_log: "client_do req c = (r, c') \<Longrightarrow> length (cl_log c') \<le> Suc (length (cl_log c))"
  by (auto simp: client_do_def split: list.splits)

lemma ask_service_keeps:
  assumes "ask_service unjson info c = (info', c')"
  shows "gc_cache c' = gc_cache c" "ge_Host info' = ge_Host info" "length (cl_log (gc_HTTP c')) \<le> Suc (length (cl_log (gc_HTTP c)))"
  using assms by (auto simp: ask_service_def fill_info_def split: sum.splits prod.splits option.splits if_splits dest: client_do_log)

lemma geo_lookup_keeps:
  assumes "geo_lookup unjson host c = (info, c')"
  shows "gc_cache c' = gc_cache c" "ge_Host info = host" "length (cl_log (gc_HTTP c')) \<le> Suc (length (cl_log (gc_HTTP c)))"
proof -
  obtain r c1 where h: "host_ip host c = (r, c1)" by (cases "host_ip host c")
  have "gc_cache c' = gc_cache c1 \<and> ge_Host info = host \<and> length (cl_log (gc_HTTP c')) \<le> Suc (length (cl_log (gc_HTTP c1)))"
  proof (cases r)
    case None
    with h assms show ?thesis by (auto simp: geo_lookup_def blank_info_def)
  next
    case (Some ip)
    with h assms have "ask_service unjson ((blank_info host)\<lparr>ge_IP := ip_text ip\<rparr>) c1 = (info, c')" by (simp add: geo_lookup_def)
    from ask_service_keeps [OF this] show ?thesis by (simp add: blank_info_def)
  qed
  with host_ip_cache [OF h] show "gc_cache c' = gc_cache c" "ge_Host info = host"
    "length (cl_log (gc_HTTP c')) \<le> Suc (length (cl_log (gc_HTTP c)))" by simp_all
qed

definition cache_ok :: "geo_client \<Rightarrow> bool" where
  "cache_ok c \<longleftrightarrow> (\<forall>host info. gc_cache c host = Some info \<longrightarrow> ge_Host info = host)"

lemma Lookup_keeps:
  assumes "Lookup unjson host c = (info, c')"
  shows "gc_cache c' = (gc_cache c)(host \<mapsto> info)" "cache_ok c \<Longrightarrow> cache_ok c' \<and> ge_Host info = host"
    "length (cl_log (gc_HTTP c')) \<le> length (cl_log (gc_HTTP c)) + (if host \<in> dom (gc_cache c) then 0 else 1)"
proof -
  have "gc_cache c' = (gc_cache c)(host \<mapsto> info) \<and> (cache_ok c \<longrightarrow> ge_Host info = host)
     \<and> length (cl_log (gc_HTTP c')) \<le> length (cl_log (gc_HTTP c)) + (if host \<in> dom (gc_cache c) then 0 else 1)"
  proof (cases "gc_cache c host")
    case (Some i)
    with assms show ?thesis by (auto simp: Lookup_def cache_ok_def)
  next
    case None
    with assms obtain c1 where "geo_lookup unjson host c = (info, c1)" "c' = c1\<lparr>gc_cache := (gc_cache c1)(host \<mapsto> info)\<rparr>"
      by (auto simp: Lookup_def split: prod.splits)
    with geo_lookup_keeps [OF this(1)] None show ?thesis by auto
  qed
  then show "gc_cache c' = (gc_cache c)(host \<mapsto> info)" "cache_ok c \<Longrightarrow> cache_ok c' \<and> ge_Host info = host"
    "length (cl_log (gc_HTTP c')) \<le> length (cl_log (gc_HTTP c)) + (if host \<in> dom (gc_cache c) then 0 else 1)"
    by (auto simp: cache_ok_def)
qed

lemma lookups_keeps:
  assumes "lookups unjson hosts c = (infos, c')"
  shows "gc_cache c \<subseteq>\<^sub>m gc_cache c' \<and> dom (gc_cache c') = dom (gc_cache c) \<union> set hosts
     \<and> infos = map (\<lambda>host. the (gc_cache c' host)) hosts
     \<and> length (cl_log (gc_HTTP c')) \<le> length (cl_log (gc_HTTP c)) + card (set hosts - dom (gc_cache c))"
  using assms
proof (induction hosts arbitrary: c infos c')
  case Nil
  then show ?case by simp
next
  case (Cons host hosts)
  obtain info c1 where l: "Lookup unjson host c = (info, c1)" by (cases "Lookup unjson host c")
  obtain later c2 where ls: "lookups unjson hosts c1 = (later, c2)" by (cases "lookups unjson hosts c1")
  from Cons.prems l ls have eq: "infos = info # later" "c' = c2" by simp_all
  note one = Lookup_keeps [OF l] and rest = Cons.IH [OF ls]
  have before: "gc_cache c \<subseteq>\<^sub>m gc_cache c1"
  proof (cases "gc_cache c host")
    case None
    then show ?thesis unfolding one(1) by (auto simp: map_le_def)
  next
    case (Some i)
    with l have "i = info" by (simp add: Lookup_def)
    with Some show ?thesis unfolding one(1) by (auto simp: map_le_def)
  qed
  have at: "gc_cache c1 host = Some info" unfolding one(1) by simp
  have "gc_cache c2 host = Some info" using rest at by (metis domI map_le_def)
  moreover have "card (set hosts - dom (gc_cache c1)) + (if host \<in> dom (gc_cache c) then 0 else 1) \<le> card (set (host # hosts) - dom (gc_cache c))"
  proof (cases "host \<in> dom (gc_cache c)")
    case True
    then have "set hosts - dom (gc_cache c1) = set (host # hosts) - dom (gc_cache c)" unfolding one(1) by auto
    with True show ?thesis by simp
  next
    case False
    then have "insert host (set hosts - dom (gc_cache c1)) = set (host # hosts) - dom (gc_cache c)" "host \<notin> set hosts - dom (gc_cache c1)"
      unfolding one(1) by auto
    then have "card (set (host # hosts) - dom (gc_cache c)) = Suc (card (set hosts - dom (gc_cache c1)))"
      by (metis List.finite_set card_insert_disjoint finite_Diff)
    with False show ?thesis by simp
  qed
  ultimately have fewer: "gc_cache c2 host = Some info"
    "card (set hosts - dom (gc_cache c1)) + (if host \<in> dom (gc_cache c) then 0 else 1) \<le> card (set (host # hosts) - dom (gc_cache c))"
    by blast+
  have "gc_cache c \<subseteq>\<^sub>m gc_cache c2" using before rest by (blast intro: map_le_trans)
  moreover have "dom (gc_cache c2) = dom (gc_cache c) \<union> set (host # hosts)"
    using rest one(1) by auto
  moreover have "infos = map (\<lambda>host. the (gc_cache c2 host)) (host # hosts)" using rest fewer(1) eq by simp
  moreover have "length (cl_log (gc_HTTP c2)) \<le> length (cl_log (gc_HTTP c)) + card (set (host # hosts) - dom (gc_cache c))"
    using rest one(3) fewer(2) by linarith
  ultimately show ?case unfolding eq(2) by blast
qed

end
