(* ===== verification/Report.thy ===== *)
theory Report
  imports Geo
begin

text \<open>
  \<open>internal/report/report.go\<close>: what is printed and saved.  The writers produce text; numbers
  are formatted from exact values.  \<open>sort.Slice\<close>, which need not be stable, is the parameter
  \<open>sortSlice\<close> with the documented law \<open>sorts\<close>; the JSON encoder is a parameter.  The lemmas
  show that the best result is the best, that the groups count every labelled result once,
  and that the CSV text reads back as the rows it was written from.
\<close>

section \<open>Formatting\<close>

definition rat_round_even :: "rat \<Rightarrow> int" where
  "rat_round_even v =
     (let low = \<lfloor>v\<rfloor>; part = v - of_int low in
      if part < 1 / 2 \<or> part = 1 / 2 \<and> even low then low else low + 1)"

definition zero_pad :: "nat \<Rightarrow> string \<Rightarrow> string" where
  "zero_pad n s = replicate (n - length s) (CHR ''0'') @ s"

text \<open>\<open>%.df\<close> and \<open>strconv.FormatFloat(v, 'f', d, 64)\<close>.\<close>

definition fixed_abs :: "nat \<Rightarrow> rat \<Rightarrow> string" where
  "fixed_abs d v =
     (let n = nat (rat_round_even (\<bar>v\<bar> * 10 ^ d)) in
      dec_nat (n div 10 ^ d) @ (if d = 0 then [] else CHR ''.'' # zero_pad d (dec_nat (n mod 10 ^ d))))"

definition fixed :: "nat \<Rightarrow> rat \<Rightarrow> string" where
  "fixed d v = (if v < 0 then ''-'' else []) @ fixed_abs d v"

definition fixed_signed :: "nat \<Rightarrow> rat \<Rightarrow> string" where
  "fixed_signed d v = (if v < 0 then ''-'' else ''+'') @ fixed_abs d v"

text \<open>\<open>time.Duration\<close>: \<open>Round\<close> and \<open>String\<close>, of a duration that is not negative.\<close>

definition round_duration :: "int \<Rightarrow> int \<Rightarrow> int" where
  "round_duration d m = (let r = d mod m in if r + r < m then d - r else d + m - r)"

definition fraction :: "nat \<Rightarrow> nat \<Rightarrow> string" where
  "fraction v prec =
     (let digits = trim_right (\<lambda>ch. ch = CHR ''0'') (zero_pad prec (dec_nat (v mod 10 ^ prec))) in
      dec_nat (v div 10 ^ prec) @ (if digits = [] then [] else CHR ''.'' # digits))"

definition duration_text :: "int \<Rightarrow> string" where
  "duration_text d =
     (let u = nat d; s = u div 1000000000 in
      if u = 0 then ''0s''
      else if u < 1000 then dec_nat u @ ''ns''
      else if u < 1000000 then fraction u 3 @ [CHR 0xC2, CHR 0xB5, CHR ''s'']
      else if u < 1000000000 then fraction u 6 @ ''ms''
      else (if s \<ge> 3600 then dec_nat (s div 3600) @ ''h'' else []) @ (if s \<ge> 60 then dec_nat (s div 60 mod 60) @ ''m'' else [])
        @ fraction (u mod 60000000000) 9 @ ''s'')"

section \<open>Colours\<close>

record style =
  sy_Color :: bool
  sy_Verbose :: bool

definition esc :: "string \<Rightarrow> string" where "esc code = CHR 0x1B # ''['' @ code @ ''m''"

definition reset_c :: string where "reset_c = esc ''0''"
definition green :: string where "green = esc ''32''"
definition red :: string where "red = esc ''31''"
definition yellow :: string where "yellow = esc ''33''"
definition cyan :: string where "cyan = esc ''36''"
definition dim :: string where "dim = esc ''2''"

definition paint :: "style \<Rightarrow> string \<Rightarrow> string \<Rightarrow> string" where
  "paint s color text = (if \<not> sy_Color s then text else color @ text @ reset_c)"

definition newline :: string where "newline = [CHR 0x0A]"
definition middot :: string where "middot = [CHR '' '', CHR 0xC2, CHR 0xB7, CHR '' '']"

section \<open>One line per result\<close>

definition route_base :: "route \<Rightarrow> string" where
  "route_base r =
     (if rt_Via r \<noteq> [] then rt_Protocol r @ '' -> '' @ rt_Via r
      else if rt_DC r \<noteq> 0 then rt_Protocol r @ '' dc'' @ dec_int (rt_DC r) @ ''/'' @ rt_Transport r
      else rt_Protocol r)"

definition route_text :: "route \<Rightarrow> string" where
  "route_text r = route_base r @ (if rt_Depth r = Some DepthFull then '' +authkey'' else [])"

definition grade :: "result \<Rightarrow> string" where
  "grade r = (if rs_Grade r = [] then '' '' else rs_Grade r)"

definition gradeColor :: "string \<Rightarrow> string" where
  "gradeColor g = (if g = ''A'' then green else if g = ''B'' then cyan else if g = ''C'' then yellow else red)"

definition hostPort :: "result \<Rightarrow> string" where
  "hostPort r = (if rs_Host r = [] then rs_Input r else rs_Host r @ '':'' @ dec_int (rs_Port r))"

definition attemptSuffix :: "result \<Rightarrow> string" where
  "attemptSuffix r = (if rs_Attempts r \<le> 1 then [] else '' ('' @ dec_int (rs_Successes r) @ ''/'' @ dec_int (rs_Attempts r) @ '')'')"

definition formatLatency :: "rat \<Rightarrow> string" where
  "formatLatency v = (if v \<le> 0 then [] else fixed 1 v @ '' ms'')"

definition detail_timings :: "result \<Rightarrow> string list" where
  "detail_timings r = (case rs_Timings r of
       Some (t, _) \<Rightarrow> if tm_ConnectMS t > 0 \<or> tm_RespQMS t > 0
         then [''phases: connect '' @ fixed 1 (us_to_ms (tm_ConnectMS t))
           @ (if tm_HandshakeMS t > 0 then middot @ ''handshake '' @ fixed 1 (us_to_ms (tm_HandshakeMS t)) else [])
           @ (if tm_RespQMS t > 0 then middot @ ''resPQ '' @ fixed 1 (us_to_ms (tm_RespQMS t)) else []) @ '' ms'']
         else []
     | None \<Rightarrow> [])"

definition detail_ping :: "result \<Rightarrow> string list" where
  "detail_ping r = (case rs_Ping r of
       Some p \<Rightarrow> if ps_Sent p > 0
         then [''ping:   '' @ dec_nat (ps_Received p) @ ''/'' @ dec_nat (ps_Sent p) @ '', median '' @ fixed 1 (us_to_ms (ps_MedianMS p))
           @ '' ms, jitter '' @ fixed 1 (us_to_ms (ps_JitterMS p)) @ '' ms''
           @ (if LossPercent p > 0 then '', loss '' @ fixed 0 (LossPercent p) @ ''%'' else [])]
         else []
     | None \<Rightarrow> [])"

definition detail_secret :: "result \<Rightarrow> string list" where
  "detail_secret r = (case rs_Secret r of
       Some s \<Rightarrow> [''secret: '' @ secret_mode_text (si_Mode s) @ (if si_Domain s \<noteq> [] then '', sni='' @ si_Domain s else [])]
     | None \<Rightarrow> [])"

definition detail_geo :: "result \<Rightarrow> string list" where
  "detail_geo r = (case rs_Geo r of
       Some g \<Rightarrow> [''geo:    '' @ ge_IP g @ '' '' @ Flag (Some g) @ '' '' @ Short (Some g)]
     | None \<Rightarrow> [])"

definition detail_exit :: "result \<Rightarrow> string list" where
  "detail_exit r = (case rs_Nearest r of
       Some n \<Rightarrow> [''exit:   '' @ nd_Country n @ '', Telegram put us on dc'' @ dec_int (nd_ThisDC n)
         @ (case rs_Geo r of
              Some g \<Rightarrow> if ge_Code g \<noteq> [] \<and> to_lower (ge_Code g) \<noteq> to_lower (nd_Country n)
                then ''  (host is in '' @ ge_Code g @ '')'' else []
            | None \<Rightarrow> [])]
     | None \<Rightarrow> [])"

definition detail_config :: "result \<Rightarrow> string list" where
  "detail_config r = (case rs_Config r of
       Some cfg \<Rightarrow> if cf_Parsed cfg
         then [''config: '' @ dec_nat (length (cf_Options cfg)) @ '' datacenters''
           @ (if cf_Unexpected cfg \<noteq> [] then '', foreign addresses: '' @ join '', '' (cf_Unexpected cfg) else '', all official'')]
         else []
     | None \<Rightarrow> [])"

definition detail_speed :: "result \<Rightarrow> string list" where
  "detail_speed r = (case rs_Speed r of
       Some sp \<Rightarrow> if sp_Bytes sp > 0
         then [''speed:  '' @ fixed 0 (sp_KBPerSec sp) @ '' KB/s ('' @ dec_nat (sp_Bytes sp div 1024) @ '' KB in ''
           @ fixed 2 (sp_Seconds sp) @ ''s)'']
         else []
     | None \<Rightarrow> [])"

definition detail_hold :: "result \<Rightarrow> string list" where
  "detail_hold r = (case rs_Stability r of
       Some st \<Rightarrow> [''hold:   '' @ (if sb_Survived st then ''held'' else ''dropped'') @ '' '' @ fixed 0 (sb_Seconds st) @ ''s, ''
         @ dec_nat (sb_Pings st) @ '' pings, '' @ dec_nat (sb_Lost st) @ '' lost, drift '' @ fixed_signed 1 (sb_DriftMS st) @ '' ms'']
     | None \<Rightarrow> [])"

definition detail_masking :: "maskingResult \<Rightarrow> string" where
  "detail_masking m = ''mask:   '' @ mk_Verdict m
     @ (if mk_Subject m \<noteq> [] then '' ('' @ mk_Subject m @ '', issued by '' @ mk_Issuer m @ '')''
        else if mk_Error m \<noteq> [] then '' ('' @ mk_Error m @ '')'' else [])"

definition detail_audit :: "result \<Rightarrow> string list" where
  "detail_audit r = (case rs_Audit r of
       Some a \<Rightarrow>
         (case au_Masking a of Some m \<Rightarrow> if mk_Verdict m \<noteq> ''not applicable'' then [detail_masking m] else [] | None \<Rightarrow> [])
         @ (case au_AcceptsAnySecret a of
              Some b \<Rightarrow> [''secret: '' @ (if b then ''ACCEPTS ANY SECRET'' else ''rejects a wrong secret'')] | None \<Rightarrow> [])
         @ (case au_ConnLimit a of
              Some l \<Rightarrow> [''limit:  '' @ dec_int (cn_Accepted l) @ '' of '' @ dec_int (cn_Requested l) @ '' parallel connections served'']
            | None \<Rightarrow> [])
     | None \<Rightarrow> [])"

definition details :: "result \<Rightarrow> string list" where
  "details r = (if rs_Title r \<noteq> [] then [''title:  '' @ rs_Title r] else []) @ detail_timings r @ detail_ping r @ detail_secret r
     @ detail_geo r @ detail_exit r @ detail_config r @ detail_speed r @ detail_hold r @ detail_audit r"

definition detail_lines :: "style \<Rightarrow> result \<Rightarrow> string" where
  "detail_lines s r = (if \<not> sy_Verbose s then [] else concat (map (\<lambda>line. paint s dim (''           '' @ line) @ newline) (details r)))"

definition result_text :: "style \<Rightarrow> result \<Rightarrow> string" where
  "result_text s r = (case rs_Status r of
       StatusLive \<Rightarrow> paint s green ''[LIVE]'' @ '' '' @ paint s (gradeColor (rs_Grade r)) (grade r) @ '' '' @ hostPort r @ ''  ''
         @ formatLatency (rs_LatencyMS r)
         @ paint s dim (case rs_Route r of Some rt \<Rightarrow> '' via '' @ route_text rt | None \<Rightarrow> []) @ paint s dim (attemptSuffix r) @ newline
         @ detail_lines s r
     | StatusInvalid \<Rightarrow> paint s yellow ''[INVALID]'' @ '' '' @ rs_Input r @ '' ('' @ rs_Error r @ '')'' @ newline
     | _ \<Rightarrow> paint s red ''[DEAD]'' @ '' '' @ hostPort r @ '' ('' @ rs_Error r @ '')'' @ paint s dim (attemptSuffix r) @ newline
         @ detail_lines s r)"

definition Text :: "style \<Rightarrow> result list \<Rightarrow> string" where
  "Text s results = concat (map (result_text s) results)"

section \<open>The best result and the groups\<close>

definition better :: "result \<Rightarrow> result \<Rightarrow> bool" where
  "better r best \<longleftrightarrow> rs_Score r > rs_Score best \<or> rs_Score r = rs_Score best \<and> rs_LatencyMS r < rs_LatencyMS best"

definition BestOf :: "result list \<Rightarrow> result option" where
  "BestOf results = foldl (\<lambda>best r. if \<not> Live r then best
       else case best of None \<Rightarrow> Some r | Some b \<Rightarrow> if better r b then Some r else best) None results"

definition Best :: "style \<Rightarrow> result list \<Rightarrow> string" where
  "Best s results = (case BestOf results of
       None \<Rightarrow> []
     | Some best \<Rightarrow> paint s dim ''best:'' @ '' '' @ hostPort best
         @ (case rs_Geo best of Some g \<Rightarrow> if ge_Code g \<noteq> [] then '' '' @ Flag (Some g) @ '' '' @ ge_Code g else [] | None \<Rightarrow> [])
         @ ''  '' @ formatLatency (rs_LatencyMS best) @ ''  grade '' @ grade best @ newline
         @ paint s dim (''      '' @ rs_Canonical best) @ newline)"

record group =
  gr_Label :: string
  gr_Live :: nat
  gr_Total :: nat

text \<open>The map of the groups, in the order of their first results.\<close>

fun count_in :: "string \<Rightarrow> bool \<Rightarrow> group list \<Rightarrow> group list" where
  "count_in label live [] = [\<lparr>gr_Label = label, gr_Live = (if live then 1 else 0), gr_Total = 1\<rparr>]"
| "count_in label live (g # gs) =
     (if gr_Label g = label then g\<lparr>gr_Total := gr_Total g + 1, gr_Live := (if live then gr_Live g + 1 else gr_Live g)\<rparr> # gs
      else g # count_in label live gs)"

definition groups_of :: "(result \<Rightarrow> string) \<Rightarrow> result list \<Rightarrow> group list" where
  "groups_of key results = foldl (\<lambda>gs r. if key r = [] then gs else count_in (key r) (Live r) gs) [] results"

definition group_before :: "group \<Rightarrow> group \<Rightarrow> bool" where
  "group_before a b = (if gr_Live a \<noteq> gr_Live b then gr_Live a > gr_Live b else gr_Total a > gr_Total b)"

type_synonym slice_sort = "(group \<Rightarrow> group \<Rightarrow> bool) \<Rightarrow> group list \<Rightarrow> group list"

definition GroupBy :: "slice_sort \<Rightarrow> result list \<Rightarrow> (result \<Rightarrow> string) \<Rightarrow> group list" where
  "GroupBy sortSlice results key = sortSlice group_before (groups_of key results)"

definition ByCountry :: "result \<Rightarrow> string" where
  "ByCountry r = (case rs_Geo r of None \<Rightarrow> []
     | Some g \<Rightarrow> if ge_Code g = [] then [] else trim_space (Flag (Some g) @ '' '' @ ge_Code g))"

definition ByASN :: "result \<Rightarrow> string" where
  "ByASN r = (case rs_Geo r of None \<Rightarrow> []
     | Some g \<Rightarrow> if ge_ASN g = 0 then []
         else trim_space (''AS'' @ dec_int (ge_ASN g) @ '' '' @ (if ge_Org g = [] then ge_ISP g else ge_Org g)))"

definition ByErrorKind :: "result \<Rightarrow> string" where
  "ByErrorKind r = (if Live r \<or> rs_ErrorKind r = KindEmpty then [] else kind_text (rs_ErrorKind r))"

definition pad_right :: "nat \<Rightarrow> string \<Rightarrow> string" where
  "pad_right n s = s @ replicate (n - length s) (CHR '' '')"

definition breakdown_section :: "slice_sort \<Rightarrow> style \<Rightarrow> result list \<Rightarrow> int \<Rightarrow> string \<times> (result \<Rightarrow> string) \<times> bool \<Rightarrow> string" where
  "breakdown_section sortSlice s results limit = (\<lambda>(title, key, live).
     let groups = GroupBy sortSlice results key;
         groups = (if int (length groups) > limit \<and> limit > 0 then take (nat limit) groups else groups)
     in if groups = [] then []
        else paint s dim (pad_right 11 (title @ '':'')) @ '' ''
          @ join middot (map (\<lambda>g. if live then gr_Label g @ '' '' @ dec_nat (gr_Live g) @ ''/'' @ dec_nat (gr_Total g)
                             else gr_Label g @ '' '' @ dec_nat (gr_Total g)) groups) @ newline)"

definition Breakdown :: "slice_sort \<Rightarrow> style \<Rightarrow> result list \<Rightarrow> int \<Rightarrow> string" where
  "Breakdown sortSlice s results limit =
     concat (map (breakdown_section sortSlice s results limit)
       [(''by country'', ByCountry, True), (''by ASN'', ByASN, True), (''failures'', ByErrorKind, False)])"

definition Summary_text :: "style \<Rightarrow> result list \<Rightarrow> int \<Rightarrow> string" where
  "Summary_text s results elapsed =
     (let su = Summarize results in
      newline @ paint s dim ''summary:'' @ '' '' @ dec_nat (su_Live su) @ '' live, '' @ dec_nat (su_Dead su) @ '' dead, ''
        @ dec_nat (su_Invalid su) @ '' invalid of '' @ dec_nat (su_Total su) @ '' in ''
        @ duration_text (round_duration elapsed 10000000) @ newline)"

section \<open>Machine-readable output\<close>

record json_payload =
  jp_GeneratedAt :: int
  jp_Summary :: summary
  jp_Results :: "result list"

definition JSON :: "(json_payload \<Rightarrow> goerr + string) \<Rightarrow> int \<Rightarrow> result list \<Rightarrow> goerr + string" where
  "JSON encodeJSON now results =
     encodeJSON \<lparr>jp_GeneratedAt = now, jp_Summary = Summarize results, jp_Results = results\<rparr>"

text \<open>\<open>csv.Writer\<close>: when a field is quoted, and how.\<close>

definition needs_quotes :: "string \<Rightarrow> bool" where
  "needs_quotes f \<longleftrightarrow> f \<noteq> [] \<and> (f = [CHR 0x5C, CHR ''.''] \<or> list_ex (\<lambda>ch. ch \<in> {CHR '','', CHR 0x22, CHR 0x0D, CHR 0x0A}) f \<or> is_space (hd f))"

definition csv_char :: "char \<Rightarrow> string" where
  "csv_char ch = (if ch = CHR 0x22 then [CHR 0x22, CHR 0x22] else [ch])"

definition csv_field :: "string \<Rightarrow> string" where
  "csv_field f = (if needs_quotes f then [CHR 0x22] @ concat (map csv_char f) @ [CHR 0x22] else f)"

definition csv_line :: "string list \<Rightarrow> string" where
  "csv_line row = join '','' (map csv_field row) @ newline"

definition csv_header :: "string list" where
  "csv_header = [''status'', ''grade'', ''score'', ''host'', ''port'', ''kind'', ''latency_ms'',
     ''connect_ms'', ''handshake_ms'', ''respq_ms'', ''ping_median_ms'', ''ping_jitter_ms'', ''ping_loss_pct'',
     ''route'', ''secret_mode'', ''sni'', ''country'', ''asn'', ''org'',
     ''exit_country'', ''speed_kb_s'', ''error_kind'', ''error'', ''link'']"

definition status_text :: "status \<Rightarrow> string" where
  "status_text st = (case st of StatusNone \<Rightarrow> [] | StatusLive \<Rightarrow> ''live'' | StatusDead \<Rightarrow> ''dead'' | StatusInvalid \<Rightarrow> ''invalid'')"

definition phase :: "result \<Rightarrow> (timings \<Rightarrow> int) \<Rightarrow> string" where
  "phase r pick = (case rs_Timings r of None \<Rightarrow> []
     | Some (t, _) \<Rightarrow> if pick t = 0 then [] else fixed 1 (us_to_ms (pick t)))"

definition pingField :: "result \<Rightarrow> (pingStats \<Rightarrow> rat) \<Rightarrow> string" where
  "pingField r pick = (case rs_Ping r of None \<Rightarrow> [] | Some p \<Rightarrow> if ps_Sent p = 0 then [] else fixed 1 (pick p))"

definition routeString :: "result \<Rightarrow> string" where
  "routeString r = (case rs_Route r of None \<Rightarrow> [] | Some rt \<Rightarrow> route_text rt)"

definition csv_secretMode :: "result \<Rightarrow> string" where
  "csv_secretMode r = (case rs_Secret r of None \<Rightarrow> [] | Some s \<Rightarrow> secret_mode_text (si_Mode s))"

definition secretDomain :: "result \<Rightarrow> string" where
  "secretDomain r = (case rs_Secret r of None \<Rightarrow> [] | Some s \<Rightarrow> si_Domain s)"

definition exitCountry :: "result \<Rightarrow> string" where
  "exitCountry r = (case rs_Nearest r of None \<Rightarrow> [] | Some n \<Rightarrow> nd_Country n)"

definition speedField :: "result \<Rightarrow> string" where
  "speedField r = (case rs_Speed r of None \<Rightarrow> [] | Some sp \<Rightarrow> if sp_KBPerSec sp = 0 then [] else fixed 1 (sp_KBPerSec sp))"

definition geoField :: "result \<Rightarrow> (geo_info \<Rightarrow> string) \<Rightarrow> string" where
  "geoField r pick = (case rs_Geo r of None \<Rightarrow> [] | Some g \<Rightarrow> pick g)"

definition csv_row :: "result \<Rightarrow> string list" where
  "csv_row r = [status_text (rs_Status r), rs_Grade r, dec_int (rs_Score r), rs_Host r, dec_int (rs_Port r),
     (case rs_Kind r of None \<Rightarrow> [] | Some k \<Rightarrow> proxy_kind_text k), formatLatency (rs_LatencyMS r),
     phase r tm_ConnectMS, phase r tm_HandshakeMS, phase r tm_RespQMS,
     pingField r (\<lambda>p. us_to_ms (ps_MedianMS p)), pingField r (\<lambda>p. us_to_ms (ps_JitterMS p)), pingField r LossPercent,
     routeString r, csv_secretMode r, secretDomain r, geoField r ge_Code,
     geoField r (\<lambda>g. if ge_ASN g \<noteq> 0 then dec_int (ge_ASN g) else []), geoField r (\<lambda>g. if ge_Org g = [] then ge_ISP g else ge_Org g),
     exitCountry r, speedField r, kind_text (rs_ErrorKind r), rs_Error r, rs_Canonical r]"

definition CSV :: "result list \<Rightarrow> goerr + string" where
  "CSV results = Inr (concat (map csv_line (csv_header # map csv_row results)))"

definition report_Links :: "result list \<Rightarrow> goerr + string" where
  "report_Links results = Inr (concat (map (\<lambda>r. if rs_Canonical r = [] then [] else rs_Canonical r @ newline) results))"

definition Filter_results :: "result list \<Rightarrow> (result \<Rightarrow> bool) \<Rightarrow> result list" where
  "Filter_results results keep = filter keep results"

section \<open>Saving\<close>

text \<open>The terminal and the file system: what was printed and saved so far, the errors that making
  a directory, creating and syncing a file will give, and how many bytes a file (or the
  standard output) still takes before writing fails.\<close>

record console =
  co_out :: string
  co_err :: string
  co_files :: "string \<rightharpoonup> string"
  co_mkdir :: "string \<Rightarrow> goerr option"
  co_create :: "string \<Rightarrow> goerr option"
  co_room :: "string \<Rightarrow> (nat \<times> goerr) option"
  co_sync :: "string \<Rightarrow> goerr option"
  co_outroom :: "(nat \<times> goerr) option"

definition os_call :: "('w \<Rightarrow> goerr option) \<Rightarrow> ('w, unit) io" where
  "os_call f = (\<lambda>w. case f w of None \<Rightarrow> (Inr (), w) | Some e \<Rightarrow> (Inl e, w))"

definition write_file :: "string \<Rightarrow> string \<Rightarrow> ('z console_scheme, unit) io" where
  "write_file path text = (\<lambda>w. case co_room w path of
       None \<Rightarrow> (Inr (), w\<lparr>co_files := (co_files w)(path \<mapsto> text)\<rparr>)
     | Some (n, e) \<Rightarrow> if length text \<le> n then (Inr (), w\<lparr>co_files := (co_files w)(path \<mapsto> text)\<rparr>)
         else (Inl e, w\<lparr>co_files := (co_files w)(path \<mapsto> take n text)\<rparr>))"

definition print_out :: "string \<Rightarrow> ('z console_scheme, unit) io" where
  "print_out text = (\<lambda>w. case co_outroom w of
       None \<Rightarrow> (Inr (), w\<lparr>co_out := co_out w @ text\<rparr>)
     | Some (n, e) \<Rightarrow> if length text \<le> n then (Inr (), w\<lparr>co_out := co_out w @ text, co_outroom := Some (n - length text, e)\<rparr>)
         else (Inl e, w\<lparr>co_out := co_out w @ take n text, co_outroom := Some (0, e)\<rparr>))"

definition print_err :: "string \<Rightarrow> ('z console_scheme, unit) io" where
  "print_err text = io_modify (\<lambda>w. w\<lparr>co_err := co_err w @ text\<rparr>)"

text \<open>\<open>filepath.Dir\<close>: the cleaned path up to the final slash.\<close>

fun clean_parts :: "bool \<Rightarrow> string list \<Rightarrow> string list \<Rightarrow> string list" where
  "clean_parts rooted acc [] = rev acc"
| "clean_parts rooted acc (p # ps) =
     (if p = [] \<or> p = ''.'' then clean_parts rooted acc ps
      else if p = ''..'' then
        (if acc \<noteq> [] \<and> acc ! 0 \<noteq> ''..'' then clean_parts rooted (drop 1 acc) ps
         else if rooted then clean_parts rooted acc ps else clean_parts rooted (''..'' # acc) ps)
      else clean_parts rooted (p # acc) ps)"

definition path_clean :: "string \<Rightarrow> string" where
  "path_clean p =
     (let rooted = has_prefix p ''/''; text = (if rooted then ''/'' else []) @ join ''/'' (clean_parts rooted [] (split_on CHR ''/'' p))
      in if text = [] then ''.'' else text)"

definition path_dir :: "string \<Rightarrow> string" where
  "path_dir p = path_clean (trim_right (\<lambda>ch. ch \<noteq> CHR ''/'') p)"

type_synonym writer = "result list \<Rightarrow> goerr + string"

definition ToFile :: "string \<Rightarrow> result list \<Rightarrow> writer \<Rightarrow> ('z console_scheme, unit) io" where
  "ToFile path results write =
     (let dir = path_dir path in
      io_seq (if dir \<noteq> [] \<and> dir \<noteq> ''.'' then os_call (\<lambda>w. co_mkdir w dir) else io_return ())
      (io_seq (os_call (\<lambda>w. co_create w path))
      (io_seq (io_modify (\<lambda>w. w\<lparr>co_files := (co_files w)(path \<mapsto> [])\<rparr>))
      (io_bind (io_lift (write results)) (\<lambda>text.
       io_seq (write_file path text) (os_call (\<lambda>w. co_sync w path)))))))"

section \<open>The best result\<close>

lemma better_cut: "better r b \<Longrightarrow> better r x \<or> better x b"
  by (auto simp: better_def)

lemma better_irrefl: "\<not> better r r"
  by (simp add: better_def)

lemma better_trans: "better x r \<Longrightarrow> better r b \<Longrightarrow> better x b"
  by (auto simp: better_def)

lemma BestOf_snoc: "BestOf (rs @ [r]) = (if \<not> Live r then BestOf rs
    else case BestOf rs of None \<Rightarrow> Some r | Some b \<Rightarrow> if better r b then Some r else BestOf rs)"
  unfolding BestOf_def foldl_append by (simp split: option.split)

lemma BestOf_None: "BestOf rs = None \<longleftrightarrow> (\<forall>r \<in> set rs. \<not> Live r)"
proof (induction rs rule: rev_induct)
  case Nil
  show ?case by (simp add: BestOf_def)
next
  case (snoc r rs)
  then show ?case by (auto simp: BestOf_snoc split: option.splits)
qed

lemma BestOf_Some:
  assumes "BestOf rs = Some b"
  shows "\<exists>pre post. rs = pre @ b # post \<and> Live b \<and> (\<forall>r \<in> set pre. Live r \<longrightarrow> better b r) \<and> (\<forall>r \<in> set post. Live r \<longrightarrow> \<not> better r b)"
  using assms
proof (induction rs arbitrary: b rule: rev_induct)
  case Nil
  then show ?case by (simp add: BestOf_def)
next
  case (snoc r rs)
  show ?case
  proof (cases "Live r \<and> BestOf rs = None")
    case True
    with snoc.prems have "b = r" by (simp add: BestOf_snoc)
    moreover have "\<forall>x \<in> set rs. Live x \<longrightarrow> better b x" using True by (simp add: BestOf_None)
    ultimately show ?thesis using True by (intro exI [of _ rs] exI [of _ "[]"]) simp
  next
    case old: False
    then obtain c where c: "BestOf rs = Some c" using snoc.prems by (cases "BestOf rs") (auto simp: BestOf_snoc)
    from snoc.IH [OF c] obtain pre post where ih: "rs = pre @ c # post" "Live c" "\<forall>x \<in> set pre. Live x \<longrightarrow> better c x"
      "\<forall>x \<in> set post. Live x \<longrightarrow> \<not> better x c" by blast
    show ?thesis
    proof (cases "Live r \<and> better r c")
      case True
      with c snoc.prems have "b = r" by (simp add: BestOf_snoc)
      moreover have "\<forall>x \<in> set rs. Live x \<longrightarrow> better r x" using ih True better_trans [of r c] better_cut [of r c] by auto
      ultimately show ?thesis using True by (intro exI [of _ rs] exI [of _ "[]"]) simp
    next
      case False
      with c snoc.prems have "b = c" by (auto simp: BestOf_snoc split: if_splits)
      with ih False show ?thesis by (intro exI [of _ pre] exI [of _ "post @ [r]"]) auto
    qed
  qed
qed

section \<open>The groups\<close>

definition tally :: "group list \<Rightarrow> string \<rightharpoonup> nat \<times> nat" where
  "tally gs = map_of (map (\<lambda>g. (gr_Label g, (gr_Live g, gr_Total g))) gs)"

lemma tally_simps [simp]: "tally [] = Map.empty" "tally (g # gs) = (tally gs)(gr_Label g \<mapsto> (gr_Live g, gr_Total g))"
  by (simp_all add: tally_def)

lemma count_in_labels: "map gr_Label (count_in label v gs) = map gr_Label gs @ (if label \<in> gr_Label ` set gs then [] else [label])"
  by (induction label v gs rule: count_in.induct) auto

lemma count_in_tally:
  "tally (count_in label v gs) = (tally gs)(label \<mapsto> (case tally gs label of None \<Rightarrow> (of_bool v, 1)
      | Some (a, b) \<Rightarrow> (a + of_bool v, b + 1)))"
  by (induction label v gs rule: count_in.induct) (auto simp: fun_upd_twist)

lemma count_in_total: "sum_list (map gr_Total (count_in label v gs)) = Suc (sum_list (map gr_Total gs))"
  by (induction label v gs rule: count_in.induct) auto

lemma groups_of_snoc: "groups_of key (rs @ [r]) = (if key r = [] then groups_of key rs else count_in (key r) (Live r) (groups_of key rs))"
  by (simp add: groups_of_def)

lemma groups_of_labels: "distinct (map gr_Label (groups_of key rs)) \<and> gr_Label ` set (groups_of key rs) = key ` set rs - {[]}"
proof (induction rs rule: rev_induct)
  case Nil
  show ?case by (simp add: groups_of_def)
next
  case (snoc r rs)
  let ?gs = "groups_of key rs"
  have labels: "gr_Label ` set (count_in (key r) (Live r) ?gs) = insert (key r) (gr_Label ` set ?gs)"
    using arg_cong [OF count_in_labels [of "key r" "Live r" ?gs], of set] by auto
  have "distinct (map gr_Label (count_in (key r) (Live r) ?gs))" using snoc by (simp add: count_in_labels)
  with labels snoc show ?case by (auto simp: groups_of_snoc)
qed

lemma groups_of_tally:
  "tally (groups_of key rs) label = (if label \<noteq> [] \<and> label \<in> key ` set rs
     then Some (length (filter (\<lambda>r. key r = label \<and> Live r) rs), length (filter (\<lambda>r. key r = label) rs)) else None)"
proof (induction rs rule: rev_induct)
  case Nil
  show ?case by (simp add: groups_of_def)
next
  case (snoc r rs)
  have none: "filter (\<lambda>r. key r = label \<and> Live r) rs = []" "filter (\<lambda>r. key r = label) rs = []" if "label \<notin> key ` set rs"
    using that by (auto simp: filter_empty_conv)
  show ?case
  proof (cases "key r = []")
    case True
    with snoc show ?thesis by (auto simp: groups_of_snoc)
  next
    case False
    with snoc none show ?thesis by (auto simp: groups_of_snoc count_in_tally)
  qed
qed

lemma groups_of_total: "sum_list (map gr_Total (groups_of key rs)) = length (filter (\<lambda>r. key r \<noteq> []) rs)"
proof (induction rs rule: rev_induct)
  case Nil
  show ?case by (simp add: groups_of_def)
next
  case (snoc r rs)
  then show ?case by (simp add: groups_of_snoc count_in_total)
qed

lemma groups_of_member:
  assumes "g \<in> set (groups_of key rs)"
  shows "gr_Label g \<noteq> []" "gr_Total g = length (filter (\<lambda>r. key r = gr_Label g) rs)"
    "gr_Live g = length (filter (\<lambda>r. key r = gr_Label g \<and> Live r) rs)"
proof -
  have "tally (groups_of key rs) (gr_Label g) = Some (gr_Live g, gr_Total g)"
    using assms groups_of_labels [of key rs] unfolding tally_def by (intro map_of_is_SomeI) (auto simp: comp_def)
  then show "gr_Label g \<noteq> []" "gr_Total g = length (filter (\<lambda>r. key r = gr_Label g) rs)"
    "gr_Live g = length (filter (\<lambda>r. key r = gr_Label g \<and> Live r) rs)"
    by (auto simp: groups_of_tally split: if_splits)
qed

text \<open>The law of \<open>sort.Slice\<close>.\<close>

definition sorts :: "slice_sort \<Rightarrow> bool" where
  "sorts f \<longleftrightarrow> (\<forall>gs. mset (f group_before gs) = mset gs \<and> sorted_wrt (\<lambda>a b. \<not> group_before b a) (f group_before gs))"

lemma GroupBy_spec:
  assumes "sorts f"
  shows "mset (GroupBy f rs key) = mset (groups_of key rs)" "sorted_wrt (\<lambda>a b. \<not> group_before b a) (GroupBy f rs key)"
    "set (GroupBy f rs key) = set (groups_of key rs)" "sum_list (map gr_Total (GroupBy f rs key)) = length (filter (\<lambda>r. key r \<noteq> []) rs)"
proof -
  show m: "mset (GroupBy f rs key) = mset (groups_of key rs)" and "sorted_wrt (\<lambda>a b. \<not> group_before b a) (GroupBy f rs key)"
    using assms by (simp_all add: GroupBy_def sorts_def)
  show "set (GroupBy f rs key) = set (groups_of key rs)" using m by (rule mset_eq_setD)
  have "mset (map gr_Total (GroupBy f rs key)) = mset (map gr_Total (groups_of key rs))" using m by simp
  then have "sum_list (map gr_Total (GroupBy f rs key)) = sum_list (map gr_Total (groups_of key rs))" by (metis sum_mset_sum_list)
  then show "sum_list (map gr_Total (GroupBy f rs key)) = length (filter (\<lambda>r. key r \<noteq> []) rs)" by (simp only: groups_of_total)
qed

section \<open>Reading CSV back\<close>

text \<open>RFC 4180: a field that starts with a quote runs to the next single quote.\<close>

fun read_quoted :: "string \<Rightarrow> (string \<times> string) option" where
  "read_quoted [] = None"
| "read_quoted [c] = (if c = CHR 0x22 then Some ([], []) else None)"
| "read_quoted (c # d # t) =
     (if c = CHR 0x22 then if d = CHR 0x22 then map_option (apfst ((#) c)) (read_quoted t) else Some ([], d # t)
      else map_option (apfst ((#) c)) (read_quoted (d # t)))"

definition csv_plain :: "char \<Rightarrow> bool" where "csv_plain ch \<longleftrightarrow> ch \<noteq> CHR '','' \<and> ch \<noteq> CHR 0x0A"

definition read_field :: "string \<Rightarrow> (string \<times> string) option" where
  "read_field s = (if take 1 s = [CHR 0x22] then read_quoted (drop 1 s) else Some (takeWhile csv_plain s, dropWhile csv_plain s))"

lemma read_quoted_length: "read_quoted s = Some (f, rest) \<Longrightarrow> length rest \<le> length s"
  by (induction s arbitrary: f rule: read_quoted.induct) (auto split: if_splits)

lemma read_field_length: "read_field s = Some (f, rest) \<Longrightarrow> length rest \<le> length s"
  by (auto simp: read_field_def length_dropWhile_le split: if_splits dest!: read_quoted_length)

function read_row :: "string \<Rightarrow> (string list \<times> string) option" where
  "read_row s = (case read_field s of
      None \<Rightarrow> None
    | Some (f, []) \<Rightarrow> None
    | Some (f, c # rest) \<Rightarrow>
        if c = CHR 0x0A then Some ([f], rest)
        else if c = CHR '','' then map_option (apfst ((#) f)) (read_row rest) else None)"
  by pat_completeness auto
termination by (relation "measure length") (auto dest: read_field_length)

declare read_row.simps [simp del]

lemma read_row_length: "read_row s = Some (fs, rest) \<Longrightarrow> length rest < length s"
proof (induction s arbitrary: fs rule: read_row.induct)
  case (1 s)
  obtain f c t where f: "read_field s = Some (f, c # t)" using 1(2) by (subst (asm) read_row.simps) (auto split: option.splits list.splits)
  note l = read_field_length [OF f]
  show ?case
  proof (cases "c = CHR 0x0A")
    case True
    with f 1(2) l show ?thesis by (simp add: read_row.simps [of s])
  next
    case False
    with f 1(2) obtain gs where "c = CHR '',''" "read_row t = Some (gs, rest)"
      by (auto simp: read_row.simps [of s] split: if_splits)
    from 1(1) [OF f refl refl False this] l show ?thesis by simp
  qed
qed

function read_csv :: "string \<Rightarrow> string list list option" where
  "read_csv s = (if s = [] then Some []
     else case read_row s of None \<Rightarrow> None | Some (row, rest) \<Rightarrow> map_option ((#) row) (read_csv rest))"
  by pat_completeness auto
termination by (relation "measure length") (auto dest: read_row_length)

declare read_csv.simps [simp del]

lemma read_quoted_written:
  "take 1 rest \<noteq> [CHR 0x22] \<Longrightarrow> read_quoted (concat (map csv_char f) @ CHR 0x22 # rest) = Some (f, rest)"
proof (induction f)
  case Nil
  then show ?case by (cases rest) simp_all
next
  case (Cons c f)
  obtain d t where d: "concat (map csv_char f) @ CHR 0x22 # rest = d # t" by (cases "concat (map csv_char f) @ CHR 0x22 # rest") auto
  with Cons.IH [OF Cons.prems] show ?case by (cases "c = CHR 0x22") (simp_all add: csv_char_def [of c] csv_char_def [of "CHR 0x22"])
qed

lemma takeWhile_plain: "list_all csv_plain f \<Longrightarrow> rest \<noteq> [] \<Longrightarrow> \<not> csv_plain (hd rest) \<Longrightarrow>
    takeWhile csv_plain (f @ rest) = f \<and> dropWhile csv_plain (f @ rest) = rest"
  by (cases rest) (auto simp: list_all_iff takeWhile_append dropWhile_append)

lemma read_field_written:
  assumes "rest \<noteq> []" "\<not> csv_plain (hd rest)"
  shows "read_field (csv_field f @ rest) = Some (f, rest)"
proof (cases "needs_quotes f")
  case True
  have "take 1 rest \<noteq> [CHR 0x22]" using assms by (cases rest) (auto simp: csv_plain_def)
  with True show ?thesis by (simp add: csv_field_def read_field_def read_quoted_written)
next
  case False
  have plain: "list_all csv_plain f" "CHR 0x22 \<notin> set f"
    using False by (cases "f = []"; auto simp: needs_quotes_def list_ex_iff list_all_iff csv_plain_def)+
  have "take 1 (f @ rest) \<noteq> [CHR 0x22]" using plain(2) assms by (cases f; cases rest) (auto simp: csv_plain_def)
  with False takeWhile_plain [OF plain(1) assms] show ?thesis by (simp add: csv_field_def read_field_def)
qed

lemma read_row_written: "row \<noteq> [] \<Longrightarrow> read_row (csv_line row @ rest) = Some (row, rest)"
proof (induction row)
  case Nil
  then show ?case by simp
next
  case (Cons f row)
  show ?case
  proof (cases row)
    case Nil
    have "read_field (csv_field f @ CHR 0x0A # rest) = Some (f, CHR 0x0A # rest)" by (rule read_field_written) (simp_all add: csv_plain_def)
    with Nil show ?thesis by (subst read_row.simps) (simp add: csv_line_def newline_def)
  next
    case (Cons g later)
    have "read_field (csv_field f @ CHR '','' # csv_line row @ rest) = Some (f, CHR '','' # csv_line row @ rest)"
      by (rule read_field_written) (simp_all add: csv_plain_def)
    moreover have "csv_line (f # row) @ rest = csv_field f @ CHR '','' # csv_line row @ rest" using Cons by (simp add: csv_line_def)
    ultimately show ?thesis using Cons.IH Cons by (subst read_row.simps) simp
  qed
qed

lemma read_csv_written: "list_all (\<lambda>row. row \<noteq> []) rows \<Longrightarrow> read_csv (concat (map csv_line rows)) = Some rows"
proof (induction rows)
  case Nil
  show ?case by (simp add: read_csv.simps)
next
  case (Cons row rows)
  have "csv_line row \<noteq> []" by (simp add: csv_line_def newline_def)
  with Cons show ?case by (subst read_csv.simps) (simp add: read_row_written)
qed

text \<open>The columns the report promises: each name with what its cell says of a result.  A figure
  that was not measured is an empty cell; the organisation falls back to the provider.\<close>

definition csv_columns :: "(string \<times> (result \<Rightarrow> string)) list" where
  "csv_columns =
    [(''status'', \<lambda>r. case rs_Status r of StatusLive \<Rightarrow> ''live'' | StatusDead \<Rightarrow> ''dead'' | StatusInvalid \<Rightarrow> ''invalid'' | StatusNone \<Rightarrow> []),
     (''grade'', \<lambda>r. rs_Grade r),
     (''score'', \<lambda>r. dec_int (rs_Score r)),
     (''host'', \<lambda>r. rs_Host r),
     (''port'', \<lambda>r. dec_int (rs_Port r)),
     (''kind'', \<lambda>r. case rs_Kind r of Some k \<Rightarrow> proxy_kind_text k | None \<Rightarrow> []),
     (''latency_ms'', \<lambda>r. if rs_LatencyMS r > 0 then fixed 1 (rs_LatencyMS r) @ '' ms'' else []),
     (''connect_ms'', \<lambda>r. case rs_Timings r of Some (t, _) \<Rightarrow> if tm_ConnectMS t = 0 then [] else fixed 1 (of_int (tm_ConnectMS t) / 1000) | None \<Rightarrow> []),
     (''handshake_ms'', \<lambda>r. case rs_Timings r of Some (t, _) \<Rightarrow> if tm_HandshakeMS t = 0 then [] else fixed 1 (of_int (tm_HandshakeMS t) / 1000) | None \<Rightarrow> []),
     (''respq_ms'', \<lambda>r. case rs_Timings r of Some (t, _) \<Rightarrow> if tm_RespQMS t = 0 then [] else fixed 1 (of_int (tm_RespQMS t) / 1000) | None \<Rightarrow> []),
     (''ping_median_ms'', \<lambda>r. case rs_Ping r of Some p \<Rightarrow> if ps_Sent p = 0 then [] else fixed 1 (of_int (ps_MedianMS p) / 1000) | None \<Rightarrow> []),
     (''ping_jitter_ms'', \<lambda>r. case rs_Ping r of Some p \<Rightarrow> if ps_Sent p = 0 then [] else fixed 1 (of_int (ps_JitterMS p) / 1000) | None \<Rightarrow> []),
     (''ping_loss_pct'', \<lambda>r. case rs_Ping r of Some p \<Rightarrow> if ps_Sent p = 0 then []
        else fixed 1 (of_int (int (ps_Sent p) - int (ps_Received p)) / of_nat (ps_Sent p) * 100) | None \<Rightarrow> []),
     (''route'', \<lambda>r. case rs_Route r of Some rt \<Rightarrow> route_text rt | None \<Rightarrow> []),
     (''secret_mode'', \<lambda>r. case rs_Secret r of Some s \<Rightarrow> secret_mode_text (si_Mode s) | None \<Rightarrow> []),
     (''sni'', \<lambda>r. case rs_Secret r of Some s \<Rightarrow> si_Domain s | None \<Rightarrow> []),
     (''country'', \<lambda>r. case rs_Geo r of Some g \<Rightarrow> ge_Code g | None \<Rightarrow> []),
     (''asn'', \<lambda>r. case rs_Geo r of Some g \<Rightarrow> if ge_ASN g = 0 then [] else dec_int (ge_ASN g) | None \<Rightarrow> []),
     (''org'', \<lambda>r. case rs_Geo r of Some g \<Rightarrow> if ge_Org g = [] then ge_ISP g else ge_Org g | None \<Rightarrow> []),
     (''exit_country'', \<lambda>r. case rs_Nearest r of Some n \<Rightarrow> nd_Country n | None \<Rightarrow> []),
     (''speed_kb_s'', \<lambda>r. case rs_Speed r of Some s \<Rightarrow> if sp_KBPerSec s = 0 then [] else fixed 1 (sp_KBPerSec s) | None \<Rightarrow> []),
     (''error_kind'', \<lambda>r. kind_text (rs_ErrorKind r)),
     (''error'', \<lambda>r. rs_Error r),
     (''link'', \<lambda>r. rs_Canonical r)]"

lemma csv_header_columns: "csv_header = map fst csv_columns"
  by (simp add: csv_header_def csv_columns_def)

lemma csv_row_columns: "csv_row r = map (\<lambda>(_, cell). cell r) csv_columns"
  unfolding csv_row_def csv_columns_def list.map prod.case list.inject
  by (simp add: status_text_def formatLatency_def phase_def pingField_def routeString_def csv_secretMode_def secretDomain_def
      geoField_def exitCountry_def speedField_def us_to_ms_def LossPercent_def not_less split: status.split option.split)

lemma CSV_columns: "\<exists>out. CSV rs = Inr out \<and> read_csv out = Some (map fst csv_columns # map (\<lambda>r. map (\<lambda>(_, cell). cell r) csv_columns) rs)"
proof -
  have "list_all (\<lambda>row. row \<noteq> []) (csv_header # map csv_row rs)" by (simp add: csv_header_def csv_row_def list_all_iff Let_def)
  from read_csv_written [OF this] show ?thesis
    by (simp add: CSV_def csv_header_columns csv_row_columns)
qed

end
