(* ===== verification/Selection.thy ===== *)
theory Selection
  imports Checker Input
begin

text \<open>
  \<open>internal/filter/filter.go\<close>: the selection of links before a run (\<open>Links\<close>: exclusions, ports,
  modes) and of results after it (\<open>Results\<close>: countries and autonomous systems).  The exclusion
  map only ever holds \<open>true\<close>, so it is the set of its keys.  The lemmas show that a selection
  is exactly a filter that keeps the order, that a link listed in an exclusion file is dropped
  in whatever spelling it is given, and that text without a link is never dropped.
\<close>

record spec =
  sp_Modes :: "string list"
  sp_Ports :: "int list"
  sp_Countries :: "string list"
  sp_ASNs :: "int list"
  sp_Exclude :: "string set"

definition NeedsGeo :: "spec \<Rightarrow> bool" where
  "NeedsGeo s \<longleftrightarrow> sp_Countries s \<noteq> [] \<or> sp_ASNs s \<noteq> []"

definition ParseList :: "string \<Rightarrow> string list" where
  "ParseList value = (if trim_space value = [] then []
     else filter (\<lambda>part. part \<noteq> []) (map (\<lambda>part. to_lower (trim_space part)) (split_on CHR '','' value)))"

definition trim_as :: "string \<Rightarrow> string" where
  "trim_as part = (if has_prefix part ''as'' then drop 2 part else part)"

fun parse_ints :: "string list \<Rightarrow> goerr + int list" where
  "parse_ints [] = Inr []"
| "parse_ints (part # parts) = (case atoi (trim_as part) of
      Inl e \<Rightarrow> Inl (ErrText (''not a number: '' @ quote (trim_as part)))
    | Inr number \<Rightarrow> res_bind (parse_ints parts) (\<lambda>out. Inr (number # out)))"

definition ParseInts :: "string \<Rightarrow> goerr + int list" where
  "ParseInts value = parse_ints (ParseList value)"

definition containsString :: "string list \<Rightarrow> string \<Rightarrow> bool" where
  "containsString list want = list_ex (\<lambda>item. item = want) list"

definition containsInt :: "int list \<Rightarrow> int \<Rightarrow> bool" where
  "containsInt list want = list_ex (\<lambda>item. item = want) list"

definition modeOf :: "target \<Rightarrow> string" where
  "modeOf t = (if t_Kind t = KindMTProto then secret_mode_text (Mode t) else proxy_kind_text (t_Kind t))"

fun links_from :: "spec \<Rightarrow> string list \<Rightarrow> string list" where
  "links_from s [] = []"
| "links_from s (link # links) = (case Parse link of
      Inl e \<Rightarrow> link # links_from s links
    | Inr t \<Rightarrow>
        if Key t \<in> sp_Exclude s \<or> to_lower (t_Host t) \<in> sp_Exclude s then links_from s links
        else if sp_Ports s \<noteq> [] \<and> \<not> containsInt (sp_Ports s) (t_Port t) then links_from s links
        else if sp_Modes s \<noteq> [] \<and> \<not> containsString (sp_Modes s) (modeOf t) then links_from s links
        else link # links_from s links)"

definition Links :: "spec \<Rightarrow> string list \<Rightarrow> string list" where
  "Links s links =
     (if sp_Modes s = [] \<and> sp_Ports s = [] \<and> sp_Exclude s = {} then links else links_from s links)"

fun results_from :: "spec \<Rightarrow> result list \<Rightarrow> result list" where
  "results_from s [] = []"
| "results_from s (r # rs) =
     (if sp_Countries s \<noteq> [] \<and> (case rs_Geo r of None \<Rightarrow> True | Some g \<Rightarrow> \<not> containsString (sp_Countries s) (to_lower (ge_Code g)))
      then results_from s rs
      else if sp_ASNs s \<noteq> [] \<and> (case rs_Geo r of None \<Rightarrow> True | Some g \<Rightarrow> \<not> containsInt (sp_ASNs s) (ge_ASN g))
      then results_from s rs
      else r # results_from s rs)"

definition Results :: "spec \<Rightarrow> result list \<Rightarrow> result list" where
  "Results s results = (if \<not> NeedsGeo s then results else results_from s results)"

definition exclude_line :: "string set \<Rightarrow> string \<Rightarrow> string set" where
  "exclude_line exclude raw =
     (let line = trim_space raw in
      if line = [] \<or> has_prefix line ''#'' then exclude
      else case Parse line of
        Inr t \<Rightarrow> insert (to_lower (t_Host t)) (insert (Key t) exclude)
      | Inl e \<Rightarrow> insert (to_lower line) exclude)"

definition LoadExclusions :: "string list \<Rightarrow> string set" where
  "LoadExclusions lines = foldl exclude_line {} lines"

section \<open>Selections are filters\<close>

definition link_kept :: "spec \<Rightarrow> string \<Rightarrow> bool" where
  "link_kept s link \<longleftrightarrow> (case Parse link of Inl e \<Rightarrow> True
     | Inr t \<Rightarrow> Key t \<notin> sp_Exclude s \<and> to_lower (t_Host t) \<notin> sp_Exclude s
         \<and> (sp_Ports s = [] \<or> t_Port t \<in> set (sp_Ports s)) \<and> (sp_Modes s = [] \<or> modeOf t \<in> set (sp_Modes s)))"

definition result_kept :: "spec \<Rightarrow> result \<Rightarrow> bool" where
  "result_kept s r \<longleftrightarrow>
     (sp_Countries s = [] \<or> (\<exists>g. rs_Geo r = Some g \<and> to_lower (ge_Code g) \<in> set (sp_Countries s)))
     \<and> (sp_ASNs s = [] \<or> (\<exists>g. rs_Geo r = Some g \<and> ge_ASN g \<in> set (sp_ASNs s)))"

lemma containsString_iff [simp]: "containsString xs x \<longleftrightarrow> x \<in> set xs"
  by (auto simp: containsString_def list_ex_iff)

lemma containsInt_iff [simp]: "containsInt xs x \<longleftrightarrow> x \<in> set xs"
  by (auto simp: containsInt_def list_ex_iff)

lemma links_from_filter: "links_from s links = filter (link_kept s) links"
  by (induction links) (auto simp: link_kept_def split: sum.split)

lemma Links_filter: "Links s links = filter (link_kept s) links"
proof (cases "sp_Modes s = [] \<and> sp_Ports s = [] \<and> sp_Exclude s = {}")
  case True
  then have "link_kept s link" for link by (simp add: link_kept_def split: sum.split)
  with True show ?thesis by (simp add: Links_def)
next
  case False
  then show ?thesis unfolding Links_def by (simp only: if_False links_from_filter)
qed

lemma results_from_filter: "results_from s rs = filter (result_kept s) rs"
  by (induction rs) (auto simp: result_kept_def split: option.split)

lemma Results_filter: "Results s rs = filter (result_kept s) rs"
proof (cases "NeedsGeo s")
  case True
  then show ?thesis by (simp add: Results_def results_from_filter)
next
  case False
  then have "result_kept s r" for r by (simp add: NeedsGeo_def result_kept_def)
  with False show ?thesis by (simp add: Results_def)
qed

section \<open>Exclusion files\<close>

lemma exclude_line_mono: "exclude \<subseteq> exclude_line exclude raw"
  by (auto simp: exclude_line_def Let_def split: sum.split)

lemma exclude_lines_mono: "exclude \<subseteq> foldl exclude_line exclude lines"
proof (induction lines arbitrary: exclude)
  case Nil
  show ?case by simp
next
  case (Cons line lines)
  have "exclude \<subseteq> exclude_line exclude line" by (rule exclude_line_mono)
  also have "\<dots> \<subseteq> foldl exclude_line (exclude_line exclude line) lines" by (rule Cons.IH)
  finally show ?case by simp
qed

lemma exclude_member: "raw \<in> set lines \<Longrightarrow> exclude_line {} raw \<subseteq> foldl exclude_line exclude lines"
proof (induction lines arbitrary: exclude)
  case Nil
  then show ?case by simp
next
  case (Cons line lines)
  have split: "exclude_line {} line \<subseteq> exclude_line exclude line"
    by (auto simp: exclude_line_def Let_def split: sum.split)
  show ?case
  proof (cases "raw = line")
    case True
    with split exclude_lines_mono [of "exclude_line exclude line" lines] show ?thesis by auto
  next
    case False
    with Cons.prems have "raw \<in> set lines" by simp
    from Cons.IH [OF this] show ?thesis by simp
  qed
qed

lemma excluded_target:
  assumes "raw \<in> set lines" "\<not> has_prefix (trim_space raw) ''#''" "Parse raw = Inr t"
  shows "Key t \<in> LoadExclusions lines" "to_lower (t_Host t) \<in> LoadExclusions lines"
proof -
  have "Parse (trim_space raw) = Inr t" using assms(3) by (simp add: Parse_def)
  moreover have "trim_space raw \<noteq> []"
  proof
    assume "trim_space raw = []"
    then have "Parse raw = Inl (ErrText ''empty proxy link'')" by (simp add: Parse_def)
    with assms(3) show False by simp
  qed
  ultimately have line: "trim_space raw \<noteq> []" "Parse (trim_space raw) = Inr t" by blast+
  from line assms(2) have "Key t \<in> exclude_line {} raw" "to_lower (t_Host t) \<in> exclude_line {} raw"
    by (simp_all add: exclude_line_def Let_def)
  with exclude_member [OF assms(1), of "{}"] show "Key t \<in> LoadExclusions lines" "to_lower (t_Host t) \<in> LoadExclusions lines"
    unfolding LoadExclusions_def by blast+
qed

text \<open>Every link to an excluded host is dropped, whatever its port, kind or secret.\<close>

lemma excluded_dropped:
  assumes "sp_Exclude s = LoadExclusions lines" "raw \<in> set lines" "\<not> has_prefix (trim_space raw) ''#''" "Parse raw = Inr t"
    and "link \<in> set (Links s links)" "Parse link = Inr u"
  shows "to_lower (t_Host u) \<noteq> to_lower (t_Host t) \<and> Key u \<noteq> Key t"
proof -
  have "link_kept s link" using assms(5) unfolding Links_filter by simp
  with assms(6) have "Key u \<notin> LoadExclusions lines" "to_lower (t_Host u) \<notin> LoadExclusions lines"
    unfolding link_kept_def assms(1) by simp_all
  then show ?thesis using excluded_target [OF assms(2-4)] by metis
qed

end
