(* ===== verification/Flags.thy ===== *)
theory Flags
  imports Report Selection
begin

text \<open>
  The configuration of \<open>cmd/mtproto-checker/main.go\<close> and how \<open>parseFlags\<close> reads it from the
  arguments, with the parts of the packages \<open>flag\<close>, \<open>strconv\<close> and \<open>time\<close> it uses: the scanning
  of flags, and the texts of booleans, integers and durations.  The usage text is left out;
  a fraction of a duration is computed exactly.  The lemmas show what an accepted
  configuration satisfies.
\<close>

record config =
  cg_files :: "string list"
  cg_urls :: "string list"
  cg_stdin :: bool
  cg_timeout :: int
  cg_concurrency :: int
  cg_attempts :: int
  cg_minSuccesses :: int
  cg_format :: string
  cg_out :: string
  cg_saveLive :: string
  cg_saveDead :: string
  cg_saveLinks :: string
  cg_aliveOnly :: bool
  cg_info :: bool
  cg_full :: bool
  cg_pings :: int
  cg_retryDelay :: int
  cg_apiID :: int
  cg_inspect :: bool
  cg_speedtest :: bool
  cg_hold :: int
  cg_masking :: bool
  cg_openCheck :: bool
  cg_maxConns :: int
  cg_excludes :: "string list"
  cg_modes :: string
  cg_ports :: string
  cg_countries :: string
  cg_asns :: string
  cg_sortLatency :: bool
  cg_top :: int
  cg_noColor :: bool
  cg_quiet :: bool
  cg_showVersion :: bool

definition config_defaults :: config where
  "config_defaults = \<lparr>cg_files = [], cg_urls = [], cg_stdin = False, cg_timeout = 8000000000, cg_concurrency = 32,
     cg_attempts = 2, cg_minSuccesses = 1, cg_format = ''text'', cg_out = [], cg_saveLive = [], cg_saveDead = [],
     cg_saveLinks = [], cg_aliveOnly = False, cg_info = False, cg_full = False, cg_pings = DefaultPings,
     cg_retryDelay = 250000000, cg_apiID = 0, cg_inspect = False, cg_speedtest = False, cg_hold = 0, cg_masking = False,
     cg_openCheck = False, cg_maxConns = 0, cg_excludes = [], cg_modes = [], cg_ports = [], cg_countries = [], cg_asns = [],
     cg_sortLatency = False, cg_top = 0, cg_noColor = False, cg_quiet = False, cg_showVersion = False\<rparr>"

section \<open>Texts of values\<close>

text \<open>\<open>strconv.ParseBool\<close>\<close>

definition parse_bool :: "string \<Rightarrow> bool option" where
  "parse_bool s = (if s \<in> set [''1'', ''t'', ''T'', ''true'', ''TRUE'', ''True''] then Some True
     else if s \<in> set [''0'', ''f'', ''F'', ''false'', ''FALSE'', ''False''] then Some False else None)"

text \<open>\<open>strconv.ParseInt(s, 0, 64)\<close>: a prefix selects the base, and underscores may separate digits.\<close>

definition digit_value :: "char \<Rightarrow> nat" where
  "digit_value ch = (if is_digit ch then of_char ch - 48 else if is_alpha ch then of_char (lower_char ch) - 87 else 255)"

fun underscores_ok :: "bool \<Rightarrow> char \<Rightarrow> string \<Rightarrow> bool" where
  "underscores_ok hex saw [] \<longleftrightarrow> saw \<noteq> CHR ''_''"
| "underscores_ok hex saw (c # s) \<longleftrightarrow>
     (if is_digit c \<or> hex \<and> is_alpha c \<and> digit_value c < 16 then underscores_ok hex (CHR ''0'') s
      else if c = CHR ''_'' then saw = CHR ''0'' \<and> underscores_ok hex c s
      else saw \<noteq> CHR ''_'' \<and> underscores_ok hex (CHR ''!'') s)"

definition based :: "string \<Rightarrow> char \<Rightarrow> bool" where
  "based s ch \<longleftrightarrow> take 1 s = ''0'' \<and> map lower_char (take 1 (drop 1 s)) = [ch]"

definition has_base :: "string \<Rightarrow> bool" where
  "has_base s \<longleftrightarrow> based s CHR ''b'' \<or> based s CHR ''o'' \<or> based s CHR ''x''"

definition underscoreOK :: "string \<Rightarrow> bool" where
  "underscoreOK s = (if has_base s then underscores_ok (based s CHR ''x'') (CHR ''0'') (drop 2 s)
     else underscores_ok False (CHR ''^'') s)"

definition split_base :: "string \<Rightarrow> nat \<times> string" where
  "split_base s =
     (if take 1 s \<noteq> ''0'' then (10, s)
      else if length s \<ge> 3 \<and> based s CHR ''b'' then (2, drop 2 s)
      else if length s \<ge> 3 \<and> based s CHR ''o'' then (8, drop 2 s)
      else if length s \<ge> 3 \<and> based s CHR ''x'' then (16, drop 2 s)
      else (8, drop 1 s))"

definition unsigned :: "string \<Rightarrow> nat option" where
  "unsigned s =
     (if s = [] then None
      else let (base, rest) = split_base s; digits = filter (\<lambda>ch. ch \<noteq> CHR ''_'') rest in
        if list_ex (\<lambda>ch. digit_value ch \<ge> base) digits then None
        else if CHR ''_'' \<in> set rest \<and> \<not> underscoreOK s then None
        else Some (foldl (\<lambda>n ch. base * n + digit_value ch) 0 digits))"

definition parse_int :: "string \<Rightarrow> goerr + int" where
  "parse_int s =
     (let neg = has_prefix s ''-''; body = (if neg \<or> has_prefix s ''+'' then drop 1 s else s) in
      case unsigned body of
        None \<Rightarrow> Inl (ErrText ''parse error'')
      | Some n \<Rightarrow> if (if neg then n \<le> 9223372036854775808 else n < 9223372036854775808)
          then Inr (if neg then - int n else int n) else Inl (ErrText ''value out of range''))"

text \<open>\<open>time.ParseDuration\<close>: decimal numbers with units.\<close>

definition unit_of :: "string \<Rightarrow> nat option" where
  "unit_of u = map_of [(''ns'', 1), (''us'', 1000), ([CHR 0xC2, CHR 0xB5, CHR ''s''], 1000), ([CHR 0xCE, CHR 0xBC, CHR ''s''], 1000),
     (''ms'', 1000000), (''s'', 1000000000), (''m'', 60000000000), (''h'', 3600000000000)] u"

text \<open>The fraction and its scale: digits that would overflow are ignored.\<close>

fun leading_fraction :: "nat \<Rightarrow> nat \<Rightarrow> bool \<Rightarrow> string \<Rightarrow> nat \<times> nat" where
  "leading_fraction x scale over [] = (x, scale)"
| "leading_fraction x scale over (c # s) =
     (let y = x * 10 + (of_char c - 48) in
      if over \<or> x > 922337203685477580 \<or> y > 9223372036854775808 then leading_fraction x scale True s
      else leading_fraction y (scale * 10) False s)"

function duration_sum :: "nat \<Rightarrow> string \<Rightarrow> nat option" where
  "duration_sum d s =
     (if s = [] then Some d
      else let whole = takeWhile is_digit s; s1 = drop (length whole) s; dotted = has_prefix s1 ''.'';
             part = (if dotted then takeWhile is_digit (drop 1 s1) else []);
             s2 = (if dotted then drop (1 + length part) s1 else s1);
             u = takeWhile (\<lambda>ch. ch \<noteq> CHR ''.'' \<and> \<not> is_digit ch) s2; s3 = drop (length u) s2;
             v = digits_nat whole; (f, scale) = leading_fraction 0 1 False part
        in if whole = [] \<and> part = [] \<or> v > 9223372036854775808 \<or> u = [] then None
           else case unit_of u of
             None \<Rightarrow> None
           | Some unit \<Rightarrow>
               let w = v * unit + f * unit div scale in
               if v > 9223372036854775808 div unit \<or> w > 9223372036854775808 \<or> d + w > 9223372036854775808 then None
               else duration_sum (d + w) s3)"
  by pat_completeness auto
termination
proof (relation "measure (\<lambda>(d, s). length s)", goal_cases)
  case 1
  show ?case by simp
next
  case (2 d s whole s1 dotted part s2 u s3 v p f scale unit w)
  have "length s2 \<le> length s" using 2(3,6) by simp
  moreover have "0 < length u" "length u \<le> length s2" using 2 by (simp_all add: length_takeWhile_le)
  ultimately have "length s2 - length u < length s" by linarith
  then show ?case using 2(8) by simp
qed

declare duration_sum.simps [simp del]

definition parse_duration :: "string \<Rightarrow> goerr + int" where
  "parse_duration text =
     (let neg = has_prefix text ''-''; s = (if neg \<or> has_prefix text ''+'' then drop 1 text else text) in
      if s = ''0'' then Inr 0
      else if s = [] then Inl (ErrText ''parse error'')
      else case duration_sum 0 s of
        None \<Rightarrow> Inl (ErrText ''parse error'')
      | Some d \<Rightarrow> if neg then Inr (- int d)
          else if d > 9223372036854775807 then Inl (ErrText ''parse error'') else Inr (int d))"

section \<open>Flags\<close>

datatype flag =
    FlagBool "bool \<Rightarrow> config \<Rightarrow> config"
  | FlagInt "int \<Rightarrow> config \<Rightarrow> config"
  | FlagDuration "int \<Rightarrow> config \<Rightarrow> config"
  | FlagText "string \<Rightarrow> config \<Rightarrow> config"

definition flag_set :: "(string \<times> flag) list" where
  "flag_set =
    [(''file'', FlagText (\<lambda>v c. c\<lparr>cg_files := cg_files c @ [v]\<rparr>)),
     (''url'', FlagText (\<lambda>v c. c\<lparr>cg_urls := cg_urls c @ [v]\<rparr>)),
     (''stdin'', FlagBool (\<lambda>v c. c\<lparr>cg_stdin := v\<rparr>)),
     (''timeout'', FlagDuration (\<lambda>v c. c\<lparr>cg_timeout := v\<rparr>)),
     (''concurrency'', FlagInt (\<lambda>v c. c\<lparr>cg_concurrency := v\<rparr>)),
     (''attempts'', FlagInt (\<lambda>v c. c\<lparr>cg_attempts := v\<rparr>)),
     (''min-successes'', FlagInt (\<lambda>v c. c\<lparr>cg_minSuccesses := v\<rparr>)),
     (''format'', FlagText (\<lambda>v c. c\<lparr>cg_format := v\<rparr>)),
     (''out'', FlagText (\<lambda>v c. c\<lparr>cg_out := v\<rparr>)),
     (''save-live'', FlagText (\<lambda>v c. c\<lparr>cg_saveLive := v\<rparr>)),
     (''save-dead'', FlagText (\<lambda>v c. c\<lparr>cg_saveDead := v\<rparr>)),
     (''save-links'', FlagText (\<lambda>v c. c\<lparr>cg_saveLinks := v\<rparr>)),
     (''alive-only'', FlagBool (\<lambda>v c. c\<lparr>cg_aliveOnly := v\<rparr>)),
     (''full'', FlagBool (\<lambda>v c. c\<lparr>cg_full := v\<rparr>)),
     (''api-id'', FlagInt (\<lambda>v c. c\<lparr>cg_apiID := v\<rparr>)),
     (''inspect'', FlagBool (\<lambda>v c. c\<lparr>cg_inspect := v\<rparr>)),
     (''speedtest'', FlagBool (\<lambda>v c. c\<lparr>cg_speedtest := v\<rparr>)),
     (''hold'', FlagDuration (\<lambda>v c. c\<lparr>cg_hold := v\<rparr>)),
     (''masking'', FlagBool (\<lambda>v c. c\<lparr>cg_masking := v\<rparr>)),
     (''check-open'', FlagBool (\<lambda>v c. c\<lparr>cg_openCheck := v\<rparr>)),
     (''max-conns'', FlagInt (\<lambda>v c. c\<lparr>cg_maxConns := v\<rparr>)),
     (''pings'', FlagInt (\<lambda>v c. c\<lparr>cg_pings := v\<rparr>)),
     (''retry-delay'', FlagDuration (\<lambda>v c. c\<lparr>cg_retryDelay := v\<rparr>)),
     (''exclude'', FlagText (\<lambda>v c. c\<lparr>cg_excludes := cg_excludes c @ [v]\<rparr>)),
     (''mode'', FlagText (\<lambda>v c. c\<lparr>cg_modes := v\<rparr>)),
     (''port'', FlagText (\<lambda>v c. c\<lparr>cg_ports := v\<rparr>)),
     (''country'', FlagText (\<lambda>v c. c\<lparr>cg_countries := v\<rparr>)),
     (''asn'', FlagText (\<lambda>v c. c\<lparr>cg_asns := v\<rparr>)),
     (''info'', FlagBool (\<lambda>v c. c\<lparr>cg_info := v\<rparr>)),
     (''sort'', FlagBool (\<lambda>v c. c\<lparr>cg_sortLatency := v\<rparr>)),
     (''top'', FlagInt (\<lambda>v c. c\<lparr>cg_top := v\<rparr>)),
     (''no-color'', FlagBool (\<lambda>v c. c\<lparr>cg_noColor := v\<rparr>)),
     (''quiet'', FlagBool (\<lambda>v c. c\<lparr>cg_quiet := v\<rparr>)),
     (''version'', FlagBool (\<lambda>v c. c\<lparr>cg_showVersion := v\<rparr>))]"

definition invalid_value :: "string \<Rightarrow> string \<Rightarrow> goerr \<Rightarrow> goerr" where
  "invalid_value name value e = ErrText (''invalid value '' @ quote value @ '' for flag -'' @ name @ '': '' @ err_text e)"

definition set_value :: "string \<Rightarrow> flag \<Rightarrow> string \<Rightarrow> config \<Rightarrow> goerr + config" where
  "set_value name fl value cfg = (case fl of
       FlagBool f \<Rightarrow> (case parse_bool value of
           Some b \<Rightarrow> Inr (f b cfg)
         | None \<Rightarrow> Inl (ErrText (''invalid boolean value '' @ quote value @ '' for -'' @ name @ '': parse error'')))
     | FlagInt f \<Rightarrow> (case parse_int value of Inr v \<Rightarrow> Inr (f v cfg) | Inl e \<Rightarrow> Inl (invalid_value name value e))
     | FlagDuration f \<Rightarrow> (case parse_duration value of Inr v \<Rightarrow> Inr (f v cfg) | Inl e \<Rightarrow> Inl (invalid_value name value e))
     | FlagText f \<Rightarrow> Inr (f value cfg))"

definition is_bool_flag :: "flag \<Rightarrow> bool" where
  "is_bool_flag fl = (case fl of FlagBool f \<Rightarrow> True | _ \<Rightarrow> False)"

text \<open>The name of a flag and the value behind \<open>=\<close>, which may not be its first character.\<close>

definition split_value :: "string \<Rightarrow> string \<times> string option" where
  "split_value name = (case first_index CHR ''='' (drop 1 name) of
       None \<Rightarrow> (name, None) | Some i \<Rightarrow> (take (Suc i) name, Some (drop (i + 2) name)))"

definition errHelp :: goerr where "errHelp = ErrText ''flag: help requested''"

text \<open>\<open>FlagSet.Parse\<close>: the configuration and the arguments behind the flags.\<close>

fun parse_args :: "string list \<Rightarrow> config \<Rightarrow> goerr + config \<times> string list" where
  "parse_args [] cfg = Inr (cfg, [])"
| "parse_args (s # rest) cfg =
     (if length s < 2 \<or> \<not> has_prefix s ''-'' then Inr (cfg, s # rest)
      else if s = ''--'' then Inr (cfg, rest)
      else let body = (if has_prefix s ''--'' then drop 2 s else drop 1 s) in
      if body = [] \<or> has_prefix body ''-'' \<or> has_prefix body ''='' then Inl (ErrText (''bad flag syntax: '' @ s))
      else case split_value body of (name, given) \<Rightarrow>
        (case map_of flag_set name of
           None \<Rightarrow> Inl (if name = ''help'' \<or> name = ''h'' then errHelp else ErrText (''flag provided but not defined: -'' @ name))
         | Some fl \<Rightarrow>
             (case given of
                Some value \<Rightarrow> res_bind (set_value name fl value cfg) (parse_args rest)
              | None \<Rightarrow>
                  if is_bool_flag fl then res_bind (set_value name fl ''true'' cfg) (parse_args rest)
                  else (case rest of
                      [] \<Rightarrow> Inl (ErrText (''flag needs an argument: -'' @ name))
                    | value # later \<Rightarrow> res_bind (set_value name fl value cfg) (parse_args later)))))"

definition check_config :: "config \<Rightarrow> goerr + unit" where
  "check_config cfg =
     (if cg_attempts cfg < 1 then Inl (ErrText ''--attempts must be at least 1'')
      else if cg_minSuccesses cfg > cg_attempts cfg then Inl (ErrText ''--min-successes cannot exceed --attempts'')
      else if (cg_inspect cfg \<or> cg_speedtest cfg) \<and> cg_apiID cfg = 0
        then Inl (ErrText ''--inspect and --speedtest need --api-id: get one at https://my.telegram.org'')
      else Inr ())"

definition parseFlags :: "string list \<Rightarrow> goerr + config \<times> string list" where
  "parseFlags argv =
     res_bind (parse_args argv config_defaults) (\<lambda>(cfg, args). res_bind (check_config cfg) (\<lambda>_. Inr (cfg, args)))"

definition config_ok :: "config \<Rightarrow> bool" where
  "config_ok cfg \<longleftrightarrow> 1 \<le> cg_attempts cfg \<and> cg_minSuccesses cfg \<le> cg_attempts cfg
     \<and> (cg_inspect cfg \<or> cg_speedtest cfg \<longrightarrow> cg_apiID cfg \<noteq> 0)"

lemma parseFlags_ok: "parseFlags argv = Inr (cfg, args) \<Longrightarrow> config_ok cfg"
  by (auto simp: parseFlags_def check_config_def config_ok_def res_bind_eq_Inr split: if_splits)

end
