(* ===== verification/Pool.thy ===== *)
theory Pool
  imports Checker
begin

text \<open>
  \<open>Run\<close> of \<open>internal/checker/checker.go\<close>: a producer hands the indices of the inputs over an
  unbuffered channel to the workers, each of which checks an input and writes its slot of
  the results.  The goroutines are a step relation; the environment of a check is fixed per
  input, so that its result does not depend on the schedule.  The lemmas show the invariant
  of the pool, that every schedule ends within a bound and gets stuck only when it is done,
  and that a run which is not cancelled is the sequential map of \<open>check\<close> over the inputs.
\<close>

datatype worker = Waiting | Checking nat | Done

record pool =
  pl_next :: nat
  pl_closed :: bool
  pl_workers :: "worker list"
  pl_results :: "result list"
  pl_reported :: "nat list"

text \<open>A run: its parameters, options, inputs and the world each input is checked in.\<close>

record run =
  rn_params :: web_params
  rn_options :: options
  rn_inputs :: "string list"
  rn_worlds :: "nat \<Rightarrow> checknet"

definition checked :: "run \<Rightarrow> nat \<Rightarrow> goerr + result" where
  "checked R i = fst (check (rn_params R) (Defaults (rn_options R)) (rn_inputs R ! i) (rn_worlds R i))"

definition start_pool :: "run \<Rightarrow> pool" where
  "start_pool R = \<lparr>pl_next = 0, pl_closed = False,
     pl_workers = replicate (nat (op_Concurrency (Defaults (rn_options R)))) Waiting,
     pl_results = replicate (length (rn_inputs R)) no_result, pl_reported = []\<rparr>"

text \<open>The steps: handing over an index, finishing a check (with the call of \<open>OnResult\<close>), the
  context being done while an index waits, closing the channel behind the last index, and a
  worker leaving the closed channel.\<close>

inductive pool_step :: "run \<Rightarrow> pool \<Rightarrow> pool \<Rightarrow> bool" for R :: run where
  Hand: "\<not> pl_closed s \<Longrightarrow> pl_next s < length (rn_inputs R) \<Longrightarrow> k < length (pl_workers s) \<Longrightarrow> pl_workers s ! k = Waiting \<Longrightarrow>
     pool_step R s (s\<lparr>pl_next := Suc (pl_next s), pl_workers := (pl_workers s)[k := Checking (pl_next s)]\<rparr>)"
| Finish: "k < length (pl_workers s) \<Longrightarrow> pl_workers s ! k = Checking i \<Longrightarrow> checked R i = Inr r \<Longrightarrow>
     pool_step R s (s\<lparr>pl_workers := (pl_workers s)[k := Waiting], pl_results := (pl_results s)[i := r],
        pl_reported := pl_reported s @ [i]\<rparr>)"
| Cancel: "\<not> pl_closed s \<Longrightarrow> pl_next s < length (rn_inputs R) \<Longrightarrow> pool_step R s (s\<lparr>pl_closed := True\<rparr>)"
| Close: "\<not> pl_closed s \<Longrightarrow> pl_next s = length (rn_inputs R) \<Longrightarrow> pool_step R s (s\<lparr>pl_closed := True\<rparr>)"
| Leave: "pl_closed s \<Longrightarrow> k < length (pl_workers s) \<Longrightarrow> pl_workers s ! k = Waiting \<Longrightarrow>
     pool_step R s (s\<lparr>pl_workers := (pl_workers s)[k := Done]\<rparr>)"

inductive_cases pool_stepE: "pool_step R s t"

inductive pool_reach :: "run \<Rightarrow> pool \<Rightarrow> bool" for R :: run where
  Start: "pool_reach R (start_pool R)"
| Step: "pool_reach R s \<Longrightarrow> pool_step R s t \<Longrightarrow> pool_reach R t"

text \<open>\<open>wg.Wait()\<close> returns: the channel is closed and every worker has left.\<close>

definition drained :: "pool \<Rightarrow> bool" where
  "drained s \<longleftrightarrow> pl_closed s \<and> list_all (\<lambda>w. w = Done) (pl_workers s)"

section \<open>The invariant\<close>

definition busy :: "pool \<Rightarrow> nat \<Rightarrow> bool" where
  "busy s i \<longleftrightarrow> Checking i \<in> set (pl_workers s)"

text \<open>Every index that was handed over is with exactly one worker or reported exactly once, with
  its result in its slot; the slots of the others are blank.\<close>

definition pool_ok :: "run \<Rightarrow> pool \<Rightarrow> bool" where
  "pool_ok R s \<longleftrightarrow> length (pl_results s) = length (rn_inputs R) \<and> pl_next s \<le> length (rn_inputs R)
     \<and> length (pl_workers s) = nat (op_Concurrency (Defaults (rn_options R)))
     \<and> distinct (pl_reported s)
     \<and> (\<forall>j k i. j < length (pl_workers s) \<and> k < length (pl_workers s) \<and> pl_workers s ! j = Checking i \<and> pl_workers s ! k = Checking i \<longrightarrow> j = k)
     \<and> (\<forall>i. busy s i \<longrightarrow> i < pl_next s \<and> i \<notin> set (pl_reported s))
     \<and> (\<forall>i < pl_next s. busy s i \<or> i \<in> set (pl_reported s))
     \<and> (\<forall>i \<in> set (pl_reported s). i < pl_next s \<and> checked R i = Inr (pl_results s ! i))
     \<and> (\<forall>i < length (rn_inputs R). i \<notin> set (pl_reported s) \<longrightarrow> pl_results s ! i = no_result)
     \<and> (list_ex (\<lambda>w. w = Done) (pl_workers s) \<longrightarrow> pl_closed s)"

lemma busy_nth: "busy s i \<longleftrightarrow> (\<exists>k < length (pl_workers s). pl_workers s ! k = Checking i)"
  by (auto simp: busy_def in_set_conv_nth)

definition lone :: "worker list \<Rightarrow> bool" where
  "lone ws \<longleftrightarrow> (\<forall>j k i. j < length ws \<and> k < length ws \<and> ws ! j = Checking i \<and> ws ! k = Checking i \<longrightarrow> j = k)"

lemma checking_replace:
  assumes "k < length ws" "ws ! k = Waiting"
  shows "Checking i \<in> set (ws[k := Checking n]) \<longleftrightarrow> i = n \<or> Checking i \<in> set ws"
    "Checking i \<in> set (ws[k := Done]) \<longleftrightarrow> Checking i \<in> set ws"
  using assms by (auto simp: in_set_conv_nth nth_list_update split: if_splits) (metis worker.distinct(1))+

lemma checking_release:
  assumes "lone ws" "k < length ws" "ws ! k = Checking i"
  shows "Checking j \<in> set (ws[k := Waiting]) \<longleftrightarrow> Checking j \<in> set ws \<and> j \<noteq> i"
proof
  assume "Checking j \<in> set (ws[k := Waiting])"
  then obtain m where m: "m < length ws" "m \<noteq> k" "ws ! m = Checking j"
    using assms(2) by (auto simp: in_set_conv_nth nth_list_update split: if_splits)
  then have "j \<noteq> i" using assms unfolding lone_def by blast
  with m show "Checking j \<in> set ws \<and> j \<noteq> i" by (auto simp: in_set_conv_nth)
next
  assume a: "Checking j \<in> set ws \<and> j \<noteq> i"
  then obtain m where m: "m < length ws" "ws ! m = Checking j" by (auto simp: in_set_conv_nth)
  with a assms(3) have "m \<noteq> k" by auto
  with m show "Checking j \<in> set (ws[k := Waiting])"
    by (auto simp: in_set_conv_nth nth_list_update intro!: exI [of _ m])
qed

lemma lone_update:
  "lone ws \<Longrightarrow> (\<And>i. w = Checking i \<Longrightarrow> Checking i \<notin> set ws) \<Longrightarrow> lone (ws[k := w])"
  unfolding lone_def
proof (intro allI impI, elim conjE)
  fix j m i
  assume l: "\<forall>j k i. j < length ws \<and> k < length ws \<and> ws ! j = Checking i \<and> ws ! k = Checking i \<longrightarrow> j = k"
    and n: "\<And>i. w = Checking i \<Longrightarrow> Checking i \<notin> set ws"
    and a: "j < length (ws[k := w])" "m < length (ws[k := w])" "ws[k := w] ! j = Checking i" "ws[k := w] ! m = Checking i"
  show "j = m"
  proof (cases "j = k \<or> m = k")
    case True
    then have "w = Checking i" using a by (auto simp: nth_list_update)
    with n have "Checking i \<notin> set ws" .
    then have "ws ! x \<noteq> Checking i" if "x < length ws" for x using that by (auto simp: in_set_conv_nth)
    then have "j = k" "m = k" using a by (metis length_list_update nth_list_update_neq)+
    then show ?thesis by simp
  next
    case False
    with a have "ws ! j = Checking i" "ws ! m = Checking i" by (auto simp: nth_list_update)
    with l a show ?thesis by auto
  qed
qed

lemma done_update:
  "list_ex (\<lambda>w. w = Done) (ws[k := w]) \<Longrightarrow> w \<noteq> Done \<Longrightarrow> list_ex (\<lambda>w. w = Done) ws"
  by (auto simp: list_ex_iff dest!: set_update_subset_insert [THEN subsetD])

lemma pool_okD:
  assumes "pool_ok R s"
  shows "length (pl_results s) = length (rn_inputs R)" "pl_next s \<le> length (rn_inputs R)"
    "length (pl_workers s) = nat (op_Concurrency (Defaults (rn_options R)))" "distinct (pl_reported s)" "lone (pl_workers s)"
    "busy s i \<Longrightarrow> i < pl_next s \<and> i \<notin> set (pl_reported s)"
    "i < pl_next s \<Longrightarrow> busy s i \<or> i \<in> set (pl_reported s)"
    "i \<in> set (pl_reported s) \<Longrightarrow> i < pl_next s \<and> checked R i = Inr (pl_results s ! i)"
    "i < length (rn_inputs R) \<Longrightarrow> i \<notin> set (pl_reported s) \<Longrightarrow> pl_results s ! i = no_result"
    "list_ex (\<lambda>w. w = Done) (pl_workers s) \<Longrightarrow> pl_closed s"
  using assms unfolding pool_ok_def lone_def by blast+

lemma pool_okI:
  assumes "length (pl_results s) = length (rn_inputs R)" "pl_next s \<le> length (rn_inputs R)"
    "length (pl_workers s) = nat (op_Concurrency (Defaults (rn_options R)))" "distinct (pl_reported s)" "lone (pl_workers s)"
    "\<And>i. busy s i \<Longrightarrow> i < pl_next s \<and> i \<notin> set (pl_reported s)"
    "\<And>i. i < pl_next s \<Longrightarrow> busy s i \<or> i \<in> set (pl_reported s)"
    "\<And>i. i \<in> set (pl_reported s) \<Longrightarrow> i < pl_next s \<and> checked R i = Inr (pl_results s ! i)"
    "\<And>i. i < length (rn_inputs R) \<Longrightarrow> i \<notin> set (pl_reported s) \<Longrightarrow> pl_results s ! i = no_result"
    "list_ex (\<lambda>w. w = Done) (pl_workers s) \<Longrightarrow> pl_closed s"
  shows "pool_ok R s"
  unfolding pool_ok_def using assms unfolding lone_def by blast

lemma start_ok: "pool_ok R (start_pool R)"
  by (rule pool_okI) (auto simp: start_pool_def busy_def lone_def list_ex_iff)

lemma step_ok:
  assumes "pool_ok R s" "pool_step R s t"
  shows "pool_ok R t"
  using assms(2)
proof cases
  case (Hand k)
  note d = pool_okD [OF assms(1)]
  have fresh: "\<not> busy s (pl_next s)" "pl_next s \<notin> set (pl_reported s)" using d(6,8) by blast+
  have b: "busy t i \<longleftrightarrow> i = pl_next s \<or> busy s i" for i
    using checking_replace(1) [OF Hand(4,5)] by (simp add: busy_def Hand(1))
  show ?thesis
  proof (rule pool_okI)
    show "lone (pl_workers t)" using d(5) fresh(1) by (auto simp: Hand(1) busy_def intro: lone_update)
    show "list_ex (\<lambda>w. w = Done) (pl_workers t) \<Longrightarrow> pl_closed t" using d(10) done_update by (fastforce simp: Hand(1))
    show "busy t i \<Longrightarrow> i < pl_next t \<and> i \<notin> set (pl_reported t)" for i
      using d(6) [of i] fresh by (auto simp: b) (auto simp: Hand(1))
    show "i < pl_next t \<Longrightarrow> busy t i \<or> i \<in> set (pl_reported t)" for i
      using d(7) [of i] by (auto simp: b) (auto simp: Hand(1) less_Suc_eq)
    show "i \<in> set (pl_reported t) \<Longrightarrow> i < pl_next t \<and> checked R i = Inr (pl_results t ! i)" for i
      using d(8) [of i] by (auto simp: Hand(1))
  qed (use d Hand(3) in \<open>auto simp: Hand(1)\<close>)
next
  case (Finish k i r)
  note d = pool_okD [OF assms(1)]
  have bi: "busy s i" using Finish(2,3) by (auto simp: busy_nth)
  note fi = d(6) [OF bi]
  have b: "busy t j \<longleftrightarrow> busy s j \<and> j \<noteq> i" for j
    using checking_release [OF d(5) Finish(2,3)] by (simp add: busy_def Finish(1))
  show ?thesis
  proof (rule pool_okI)
    show "lone (pl_workers t)" using d(5) by (auto simp: Finish(1) intro: lone_update)
    show "list_ex (\<lambda>w. w = Done) (pl_workers t) \<Longrightarrow> pl_closed t" using d(10) done_update by (fastforce simp: Finish(1))
    show "busy t j \<Longrightarrow> j < pl_next t \<and> j \<notin> set (pl_reported t)" for j
      using d(6) [of j] by (auto simp: b) (auto simp: Finish(1))
    show "j < pl_next t \<Longrightarrow> busy t j \<or> j \<in> set (pl_reported t)" for j
      using d(7) [of j] by (auto simp: b) (auto simp: Finish(1))
    show "j \<in> set (pl_reported t) \<Longrightarrow> j < pl_next t \<and> checked R j = Inr (pl_results t ! j)" for j
      using d(8) [of j] fi d(1,2) Finish(4) by (auto simp: Finish(1) nth_list_update)
    show "j < length (rn_inputs R) \<Longrightarrow> j \<notin> set (pl_reported t) \<Longrightarrow> pl_results t ! j = no_result" for j
      using d(9) [of j] by (auto simp: Finish(1))
  qed (use d fi in \<open>auto simp: Finish(1)\<close>)
next
  case Cancel
  note d = pool_okD [OF assms(1)]
  have b: "busy t i \<longleftrightarrow> busy s i" for i by (simp add: busy_def Cancel(1))
  show ?thesis by (rule pool_okI) (use d b in \<open>auto simp: Cancel(1)\<close>)
next
  case Close
  note d = pool_okD [OF assms(1)]
  have b: "busy t i \<longleftrightarrow> busy s i" for i by (simp add: busy_def Close(1))
  show ?thesis by (rule pool_okI) (use d b in \<open>auto simp: Close(1)\<close>)
next
  case (Leave k)
  note d = pool_okD [OF assms(1)]
  have b: "busy t i \<longleftrightarrow> busy s i" for i
    using checking_replace(2) [OF Leave(3,4)] by (simp add: busy_def Leave(1))
  have "lone (pl_workers t)" using d(5) by (auto simp: Leave(1) intro: lone_update)
  then show ?thesis by (intro pool_okI) (use d b Leave(2) in \<open>auto simp: Leave(1)\<close>)
qed

lemma reach_ok: "pool_reach R s \<Longrightarrow> pool_ok R s"
  by (induction rule: pool_reach.induct) (auto intro: start_ok step_ok)

section \<open>What a run returns\<close>

lemma drained_idle: "drained s \<Longrightarrow> \<not> busy s i"
  by (auto simp: drained_def busy_def list_all_iff)

lemma drained_results:
  assumes "pool_reach R s" "drained s"
  shows "i < pl_next s \<Longrightarrow> checked R i = Inr (pl_results s ! i)"
    and "pl_next s \<le> i \<Longrightarrow> i < length (rn_inputs R) \<Longrightarrow> pl_results s ! i = no_result"
proof -
  note d = pool_okD [OF reach_ok [OF assms(1)]]
  show "checked R i = Inr (pl_results s ! i)" if "i < pl_next s"
    using d(7) [OF that] d(8) [of i] drained_idle [OF assms(2)] by auto
  show "pl_results s ! i = no_result" if "pl_next s \<le> i" "i < length (rn_inputs R)"
    using d(8,9) [of i] that by auto
qed

text \<open>The specification: the inputs checked one after the other.\<close>

definition sequential :: "run \<Rightarrow> (goerr + result) list" where
  "sequential R = map (checked R) [0..<length (rn_inputs R)]"

lemma run_sequential:
  assumes "pool_reach R s" "drained s"
  shows "map Inr (take (pl_next s) (pl_results s)) = take (pl_next s) (sequential R)"
    "drop (pl_next s) (pl_results s) = replicate (length (rn_inputs R) - pl_next s) no_result"
proof -
  note d = pool_okD [OF reach_ok [OF assms(1)]]
  show "map Inr (take (pl_next s) (pl_results s)) = take (pl_next s) (sequential R)"
    using d(1,2) drained_results(1) [OF assms] by (intro nth_equalityI) (auto simp: sequential_def)
  show "drop (pl_next s) (pl_results s) = replicate (length (rn_inputs R) - pl_next s) no_result"
    using d(1,2) drained_results(2) [OF assms] by (intro nth_equalityI) auto
qed

lemma run_reported:
  assumes "pool_reach R s" "drained s"
  shows "set (pl_reported s) = {..<pl_next s} \<and> distinct (pl_reported s)"
  using pool_okD [OF reach_ok [OF assms(1)]] drained_idle [OF assms(2)] by auto

section \<open>Every schedule ends\<close>

fun weight :: "worker \<Rightarrow> nat" where
  "weight Waiting = 1" | "weight (Checking i) = 3" | "weight Done = 0"

definition todo :: "run \<Rightarrow> pool \<Rightarrow> nat" where
  "todo R s = 4 * (length (rn_inputs R) - pl_next s) + sum_list (map weight (pl_workers s)) + (if pl_closed s then 0 else 1)"

lemma sum_list_update:
  "k < length xs \<Longrightarrow> sum_list (map f (xs[k := x])) + f (xs ! k) = sum_list (map f xs) + (f x :: nat)"
proof (induction xs arbitrary: k)
  case (Cons y ys)
  then show ?case by (cases k) auto
qed simp

lemma step_todo: "pool_step R s t \<Longrightarrow> todo R t < todo R s"
proof (induction rule: pool_step.induct)
  case (Hand s k)
  from sum_list_update [OF Hand(3), of weight "Checking (pl_next s)"] Hand show ?case by (simp add: todo_def)
next
  case (Finish k s i r)
  from sum_list_update [OF Finish(1), of weight Waiting] Finish show ?case by (simp add: todo_def)
next
  case (Leave s k)
  from sum_list_update [OF Leave(2), of weight Done] Leave show ?case by (simp add: todo_def)
qed (simp_all add: todo_def)

lemma steps_todo: "(pool_step R ^^ m) s t \<Longrightarrow> m + todo R t \<le> todo R s"
proof (induction m arbitrary: t)
  case (Suc m)
  then obtain u where "(pool_step R ^^ m) s u" "pool_step R u t" by auto
  with Suc.IH [of u] step_todo [of R u t] show ?case by simp
qed simp

lemma start_todo: "todo R (start_pool R) = 4 * length (rn_inputs R) + nat (op_Concurrency (Defaults (rn_options R))) + 1"
  by (simp add: todo_def start_pool_def sum_list_replicate)

text \<open>A pool that is not finished can move, without the help of the context.\<close>

lemma pool_moves:
  assumes "pool_reach R s" "\<not> drained s" and checks: "\<And>i. i < length (rn_inputs R) \<Longrightarrow> \<exists>r. checked R i = Inr r"
  shows "\<exists>t. pool_step R s t \<and> (pl_next s < length (rn_inputs R) \<longrightarrow> pl_closed t = pl_closed s)"
proof -
  note d = pool_okD [OF reach_ok [OF assms(1)]]
  have pos: "0 < length (pl_workers s)" using d(3) Defaults_ok [of "rn_options R"] by (simp add: options_ok_def)
  show ?thesis
  proof (cases "\<exists>k i. k < length (pl_workers s) \<and> pl_workers s ! k = Checking i")
    case True
    then obtain k i where k: "k < length (pl_workers s)" "pl_workers s ! k = Checking i" by blast
    then have "busy s i" by (auto simp: busy_nth)
    with d(2,6) have "i < length (rn_inputs R)" by fastforce
    then obtain r where "checked R i = Inr r" using checks by blast
    from pool_step.Finish [OF k this] show ?thesis by fastforce
  next
    case nobody: False
    show ?thesis
    proof (cases "pl_closed s")
      case True
      with assms(2) obtain k where k: "k < length (pl_workers s)" "pl_workers s ! k \<noteq> Done"
        by (auto simp: drained_def list_all_length)
      with nobody have "pl_workers s ! k = Waiting" by (cases "pl_workers s ! k") auto
      from pool_step.Leave [OF True k(1) this] show ?thesis by fastforce
    next
      case False
      with d(10) nobody pos have w: "pl_workers s ! 0 = Waiting"
        by (cases "pl_workers s ! 0") (auto simp: list_ex_length)
      show ?thesis
      proof (cases "pl_next s < length (rn_inputs R)")
        case True
        from pool_step.Hand [OF False True pos w] show ?thesis by fastforce
      next
        case no: False
        with d(2) have "pl_next s = length (rn_inputs R)" by simp
        from pool_step.Close [OF False this] no show ?thesis by blast
      qed
    qed
  qed
qed

text \<open>From every state some schedule without the context's help finishes the run, all inputs
  checked if the channel was still open.\<close>

lemma pool_finishes:
  assumes checks: "\<And>i. i < length (rn_inputs R) \<Longrightarrow> \<exists>r. checked R i = Inr r"
  shows "pool_reach R s \<Longrightarrow> (pl_closed s \<longrightarrow> pl_next s = length (rn_inputs R)) \<Longrightarrow>
     \<exists>t. (pool_step R)\<^sup>*\<^sup>* s t \<and> pool_reach R t \<and> drained t \<and> pl_next t = length (rn_inputs R)"
proof (induction "todo R s" arbitrary: s rule: less_induct)
  case less
  show ?case
  proof (cases "drained s")
    case True
    with less.prems show ?thesis by (auto simp: drained_def)
  next
    case False
    from pool_moves [OF less.prems(1) this checks] obtain u where
      u: "pool_step R s u" "pl_next s < length (rn_inputs R) \<Longrightarrow> pl_closed u = pl_closed s" by blast
    have r: "pool_reach R u" by (rule pool_reach.Step [OF less.prems(1) u(1)])
    have "pl_closed u \<longrightarrow> pl_next u = length (rn_inputs R)"
      using u less.prems(2) pool_okD(2) [OF reach_ok [OF less.prems(1)]] by (auto elim!: pool_stepE)
    from less.hyps [OF step_todo [OF u(1)] r this] u(1) show ?thesis
      by (meson converse_rtranclp_into_rtranclp)
  qed
qed

text \<open>Also a pool whose channel was closed early comes to an end.\<close>

lemma pool_drains:
  assumes checks: "\<And>i. i < length (rn_inputs R) \<Longrightarrow> \<exists>r. checked R i = Inr r"
  shows "pool_reach R s \<Longrightarrow> \<exists>t. (pool_step R)\<^sup>*\<^sup>* s t \<and> pool_reach R t \<and> drained t"
proof (induction "todo R s" arbitrary: s rule: less_induct)
  case less
  show ?case
  proof (cases "drained s")
    case True
    with less.prems show ?thesis by blast
  next
    case False
    from pool_moves [OF less.prems this checks] obtain u where u: "pool_step R s u" by blast
    from less.hyps [OF step_todo [OF u] pool_reach.Step [OF less.prems u]] u show ?thesis
      by (meson converse_rtranclp_into_rtranclp)
  qed
qed

lemma steps_reach: "(pool_step R ^^ m) (start_pool R) s \<Longrightarrow> pool_reach R s"
  by (induction m arbitrary: s) (auto intro: pool_reach.intros)

end
