(* ===== verification/Cli.thy ===== *)
theory Cli
  imports Flags Pool
begin

text \<open>
  The rest of \<open>cmd/mtproto-checker/main.go\<close>, and \<open>Collect\<close> of \<open>internal/input/input.go\<close>: the
  links are gathered from arguments, files, standard input and subscriptions, filtered,
  checked by the pool, sorted, selected, printed and saved; the exit code says whether any
  was live.  The world is the console of the report with the files that can be read, the
  standard input, the HTTP server and the clock.  The outcome of \<open>checker.Run\<close> and
  the time it took are the argument \<open>runner\<close>, which the lemmas tie to the pool.
\<close>

record cli = console +
  mn_readable :: "string \<Rightarrow> goerr + (string \<times> goerr option)"
  mn_stdin :: "string \<times> goerr option"
  mn_http :: client
  mn_outTTY :: bool
  mn_errTTY :: bool
  mn_now :: int

section \<open>Collecting links\<close>

definition maxToken :: nat where "maxToken = 4194304"

definition drop_cr :: "string \<Rightarrow> string" where
  "drop_cr line = (if line \<noteq> [] \<and> last line = CHR 0x0D then butlast line else line)"

text \<open>\<open>scan\<close>: the lines of a reader, which yields a text and then its end or an error.\<close>

definition text_lines :: "string \<Rightarrow> string list" where
  "text_lines text = (let ls = split_on (CHR 0x0A) text in if last ls = [] then butlast ls else ls)"

definition scan :: "string \<times> goerr option \<Rightarrow> goerr + string list" where
  "scan src = (case src of (text, err) \<Rightarrow>
     if list_ex (\<lambda>line. length line \<ge> maxToken) (text_lines text) then Inl (ErrText ''bufio.Scanner: token too long'')
     else case err of Some e \<Rightarrow> Inl e | None \<Rightarrow> Inr (map drop_cr (text_lines text)))"

record sources =
  so_Args :: "string list"
  so_Files :: "string list"
  so_URLs :: "string list"
  so_Stdin :: bool

definition named_error :: "string \<Rightarrow> goerr \<Rightarrow> goerr" where
  "named_error place e = ErrWrap (place @ '': '') e"

fun read_files :: "string list \<Rightarrow> ('z cli_scheme, string list) io" where
  "read_files [] = io_return []"
| "read_files (path # paths) =
     io_bind (io_gets (\<lambda>w. mn_readable w path)) (\<lambda>opened.
     io_bind (io_lift opened) (\<lambda>file.
     io_bind (io_map_err (named_error path) (io_lift (scan file))) (\<lambda>ls.
     io_bind (read_files paths) (\<lambda>rest. io_return (ls @ rest)))))"

text \<open>\<open>io.LimitReader\<close>: nothing behind the limit is seen, nor the error there.\<close>

definition limit_reader :: "nat \<Rightarrow> bytes \<times> goerr option \<Rightarrow> string \<times> goerr option" where
  "limit_reader n src = (case src of (body, err) \<Rightarrow> (bytes_str (take n body), if length body < n then err else None))"

definition on_http :: "(client, 'a) io \<Rightarrow> ('z cli_scheme, 'a) io" where
  "on_http m = (\<lambda>w. case m (mn_http w) of (r, c) \<Rightarrow> (r, w\<lparr>mn_http := c\<rparr>))"

definition fetch :: "string \<Rightarrow> ('z cli_scheme, string list) io" where
  "fetch url =
     io_bind (io_lift (new_request ''GET'' url None)) (\<lambda>req.
     io_bind (on_http (client_do req)) (\<lambda>resp.
     if rp_StatusCode resp \<noteq> 200 then io_fail (ErrText (''unexpected status '' @ rp_Status resp))
     else io_lift (scan (limit_reader 8388608 (rp_Body resp)))))"

fun fetch_all :: "string list \<Rightarrow> ('z cli_scheme, string list) io" where
  "fetch_all [] = io_return []"
| "fetch_all (url # urls) =
     io_bind (io_map_err (named_error url) (fetch url)) (\<lambda>ls.
     io_bind (fetch_all urls) (\<lambda>rest. io_return (ls @ rest)))"

definition Collect_links :: "sources \<Rightarrow> ('z cli_scheme, string list) io" where
  "Collect_links s =
     io_bind (read_files (so_Files s)) (\<lambda>a.
     io_bind (if so_Stdin s then io_bind (io_gets mn_stdin) (\<lambda>src. io_map_err (named_error ''stdin'') (io_lift (scan src))) else io_return []) (\<lambda>b.
     io_bind (fetch_all (so_URLs s)) (\<lambda>c.
     io_return (collect (so_Args s) (a @ b @ c)))))"

section \<open>Filters\<close>

fun read_excludes :: "string list \<Rightarrow> ('z cli_scheme, string list) io" where
  "read_excludes [] = io_return []"
| "read_excludes (path # paths) =
     io_bind (io_gets (\<lambda>w. mn_readable w path)) (\<lambda>opened.
     io_bind (io_lift opened) (\<lambda>(content, err).
     case err of Some e \<Rightarrow> io_fail e
     | None \<Rightarrow> io_bind (read_excludes paths) (\<lambda>rest. io_return (split_on (CHR 0x0A) content @ rest))))"

definition buildFilter :: "config \<Rightarrow> ('z cli_scheme, spec) io" where
  "buildFilter cfg =
     io_bind (io_map_err (named_error ''--port'') (io_lift (ParseInts (cg_ports cfg)))) (\<lambda>ports.
     io_bind (io_map_err (named_error ''--asn'') (io_lift (ParseInts (cg_asns cfg)))) (\<lambda>asns.
     io_bind (read_excludes (cg_excludes cfg)) (\<lambda>ls.
     io_return \<lparr>sp_Modes = ParseList (cg_modes cfg), sp_Ports = ports, sp_Countries = ParseList (cg_countries cfg), sp_ASNs = asns,
       sp_Exclude = (if ls \<noteq> [] then LoadExclusions ls else {})\<rparr>)))"

section \<open>Options and selection\<close>

definition run_options :: "config \<Rightarrow> spec \<Rightarrow> options" where
  "run_options cfg spec =
     \<lparr>op_Timeout = cg_timeout cfg, op_Concurrency = cg_concurrency cfg, op_Attempts = cg_attempts cfg,
      op_MinSuccesses = cg_minSuccesses cfg,
      op_Depth = (if cg_full cfg \<or> cg_inspect cfg \<or> cg_speedtest cfg \<or> cg_hold cfg > 0 then DepthFull else DepthQuick),
      op_Pings = cg_pings cfg, op_RetryDelay = cg_retryDelay cfg, op_APIID = cg_apiID cfg, op_Inspect = cg_inspect cfg,
      op_Speedtest = cg_speedtest cfg, op_Hold = cg_hold cfg, op_Masking = cg_masking cfg, op_OpenCheck = cg_openCheck cfg,
      op_MaxConns = cg_maxConns cfg, op_Geo = cg_info cfg \<or> NeedsGeo spec\<rparr>"

definition run_style :: "config \<Rightarrow> bool \<Rightarrow> style" where
  "run_style cfg tty = \<lparr>sy_Color = \<not> cg_noColor cfg \<and> tty,
     sy_Verbose = cg_info cfg \<or> cg_inspect cfg \<or> cg_speedtest cfg \<or> cg_masking cfg \<or> cg_openCheck cfg \<or> cg_hold cfg > 0 \<or> cg_maxConns cfg > 0\<rparr>"

definition kept_results :: "config \<Rightarrow> spec \<Rightarrow> result list \<Rightarrow> result list" where
  "kept_results cfg spec results = Results spec (if cg_sortLatency cfg then SortByLatency results else results)"

definition shown_results :: "config \<Rightarrow> result list \<Rightarrow> result list" where
  "shown_results cfg results =
     (let shown = (if cg_aliveOnly cfg then Filter_results results Live else results)
      in if cg_top cfg > 0 \<and> int (length shown) > cg_top cfg then take (nat (cg_top cfg)) shown else shown)"

section \<open>Progress\<close>

definition shows_progress :: "config \<Rightarrow> nat \<Rightarrow> bool \<Rightarrow> bool" where
  "shows_progress cfg n tty \<longleftrightarrow> \<not> (cg_quiet cfg \<or> cg_format cfg \<noteq> ''text'' \<or> \<not> tty \<or> n < 2)"

definition erase_line :: string where "erase_line = [CHR 0x1B] @ ''[K''"

fun progress_from :: "nat \<Rightarrow> nat \<Rightarrow> nat \<Rightarrow> result list \<Rightarrow> string" where
  "progress_from n live amount [] = []"
| "progress_from n live amount (r # rs) =
     (let live = (if Live r then live + 1 else live) in
      [CHR 0x0D] @ ''checking '' @ dec_nat (n + 1) @ ''/'' @ dec_nat amount @ '' ('' @ dec_nat live @ '' live)'' @ erase_line
        @ progress_from (n + 1) live amount rs)"

definition clearProgress :: "config \<Rightarrow> bool \<Rightarrow> string" where
  "clearProgress cfg tty = (if cg_quiet cfg \<or> cg_format cfg \<noteq> ''text'' \<or> \<not> tty then [] else [CHR 0x0D] @ erase_line)"

section \<open>Output\<close>

record program =
  pg_version :: string
  pg_sortSlice :: slice_sort
  pg_encodeJSON :: "json_payload \<Rightarrow> goerr + string"

definition json_writer :: "program \<Rightarrow> int \<Rightarrow> writer" where
  "json_writer G now = JSON (pg_encodeJSON G) now"

definition has_suffix :: "string \<Rightarrow> string \<Rightarrow> bool" where
  "has_suffix s suffix \<longleftrightarrow> has_prefix (rev s) (rev suffix)"

definition writerFor :: "program \<Rightarrow> int \<Rightarrow> string \<Rightarrow> writer" where
  "writerFor G now path = (if has_suffix path ''.csv'' then CSV else if has_suffix path ''.txt'' then report_Links else json_writer G now)"

definition emit_format :: "program \<Rightarrow> config \<Rightarrow> style \<Rightarrow> result list \<Rightarrow> result list \<Rightarrow> int \<Rightarrow> ('z cli_scheme, unit) io" where
  "emit_format G cfg style shown every elapsed =
     (if cg_format cfg = ''text'' then
        (if cg_quiet cfg then io_return ()
         else io_bind (io_try (print_out (Text style shown @ Summary_text style every elapsed
           @ Breakdown (pg_sortSlice G) style every 6 @ Best style every))) (\<lambda>_. io_return ()))
      else if cg_format cfg = ''json'' then
        io_bind (io_gets mn_now) (\<lambda>now. io_bind (io_lift (json_writer G now shown)) print_out)
      else if cg_format cfg = ''csv'' then io_bind (io_lift (CSV shown)) print_out
      else if cg_format cfg = ''links'' then io_bind (io_lift (report_Links shown)) print_out
      else io_fail (ErrText (''unknown --format '' @ quote (cg_format cfg) @ '' (want text, json, csv or links)'')))"

definition save_one :: "config \<Rightarrow> string \<times> result list \<times> writer \<Rightarrow> ('z cli_scheme, unit) io" where
  "save_one cfg = (\<lambda>(path, results, write).
     if path = [] then io_return ()
     else io_seq (io_map_err (\<lambda>e. ErrWrap (''saving '' @ path @ '': '') e) (ToFile path results write))
       (if cg_format cfg = ''text'' \<and> \<not> cg_quiet cfg
        then print_err (''saved '' @ dec_nat (length results) @ '' results to '' @ path @ newline) else io_return ()))"

fun save_all :: "config \<Rightarrow> (string \<times> result list \<times> writer) list \<Rightarrow> ('z cli_scheme, unit) io" where
  "save_all cfg [] = io_return ()"
| "save_all cfg (save # saves) = io_seq (save_one cfg save) (save_all cfg saves)"

definition emit :: "program \<Rightarrow> config \<Rightarrow> style \<Rightarrow> result list \<Rightarrow> result list \<Rightarrow> int \<Rightarrow> ('z cli_scheme, unit) io" where
  "emit G cfg style shown every elapsed =
     io_seq (emit_format G cfg style shown every elapsed)
     (io_bind (io_gets mn_now) (\<lambda>now.
      let live = Filter_results every Live; dead = Filter_results every (\<lambda>r. \<not> Live r) in
      save_all cfg [(cg_out cfg, shown, writerFor G now (cg_out cfg)), (cg_saveLive cfg, live, json_writer G now),
        (cg_saveDead cfg, dead, json_writer G now), (cg_saveLinks cfg, live, report_Links)]))"

section \<open>The program\<close>

text \<open>\<open>runner\<close> gives the results of \<open>checker.Run\<close>, the indices in the order they were reported
  and the elapsed time.  \<open>run\<close> returns whether any result was live.\<close>

type_synonym runner = "options \<Rightarrow> string list \<Rightarrow> result list \<times> nat list \<times> int"

definition run_links :: "program \<Rightarrow> runner \<Rightarrow> config \<Rightarrow> spec \<Rightarrow> string list \<Rightarrow> ('z cli_scheme, bool) io" where
  "run_links G runner cfg spec links =
     io_bind (io_gets mn_outTTY) (\<lambda>outTTY.
     io_bind (io_gets mn_errTTY) (\<lambda>errTTY.
     case runner (run_options cfg spec) links of (results, reported, elapsed) \<Rightarrow>
     io_seq (print_err ((if shows_progress cfg (length links) errTTY
         then progress_from 0 0 (length links) (map ((!) results) reported) else []) @ clearProgress cfg errTTY))
     (let every = kept_results cfg spec results in
      io_seq (emit G cfg (run_style cfg outTTY) (shown_results cfg every) every elapsed)
        (io_return (su_Live (Summarize every) \<noteq> 0)))))"

definition run_program :: "program \<Rightarrow> runner \<Rightarrow> string list \<Rightarrow> ('z cli_scheme, bool) io" where
  "run_program G runner argv =
     io_bind (io_lift (parseFlags argv)) (\<lambda>(cfg, args).
     if cg_showVersion cfg
     then io_bind (io_try (print_out (''mtproto-checker '' @ pg_version G @ newline))) (\<lambda>_. io_return True)
     else io_bind (Collect_links \<lparr>so_Args = args, so_Files = cg_files cfg, so_URLs = cg_urls cfg, so_Stdin = cg_stdin cfg\<rparr>) (\<lambda>links.
       if links = [] then io_fail (ErrText ''nothing to check: pass links, --file, --url or --stdin'')
       else io_bind (buildFilter cfg) (\<lambda>spec.
         let links = Links spec links in
         if links = [] then io_fail (ErrText ''every link was filtered out'')
         else run_links G runner cfg spec links)))"

text \<open>\<open>main\<close>: the exit code.\<close>

definition main_exit :: "program \<Rightarrow> runner \<Rightarrow> string list \<Rightarrow> 'z cli_scheme \<Rightarrow> int \<times> 'z cli_scheme" where
  "main_exit G runner argv w = (case run_program G runner argv w of
       (Inr live, w') \<Rightarrow> (if live then 0 else 1, w')
     | (Inl e, w') \<Rightarrow> (2, snd (print_err (''error: '' @ err_text e @ newline) w')))"

section \<open>The exit code\<close>

text \<open>The live results of a run of the pool are those of the checks it made.\<close>

lemma live_results:
  assumes "pool_reach R s" "drained s"
  shows "(\<exists>r \<in> set (pl_results s). Live r \<and> Q r) \<longleftrightarrow> (\<exists>i < pl_next s. \<exists>r. checked R i = Inr r \<and> Live r \<and> Q r)"
    (is "?l = ?r")
proof
  note d = pool_okD(1,2) [OF reach_ok [OF assms(1)]]
  assume ?l
  then obtain i where i: "i < length (pl_results s)" "Live (pl_results s ! i)" "Q (pl_results s ! i)" by (auto simp: in_set_conv_nth)
  have "i < pl_next s"
  proof (rule ccontr)
    assume "\<not> i < pl_next s"
    with drained_results(2) [OF assms, of i] i(1) d have "pl_results s ! i = no_result" by simp
    with i(2) show False by (simp add: Live_def no_result_def)
  qed
  with drained_results(1) [OF assms] i show ?r by blast
next
  note d = pool_okD(1,2) [OF reach_ok [OF assms(1)]]
  assume ?r
  then obtain i r where "i < pl_next s" "checked R i = Inr r" "Live r" "Q r" by blast
  moreover from this drained_results(1) [OF assms, of i] have "pl_results s ! i = r" by simp
  ultimately show ?l using d by (intro bexI [of _ r]) (auto simp: in_set_conv_nth intro!: exI [of _ i])
qed

lemma kept_live:
  "0 < su_Live (Summarize (kept_results cfg spec results)) \<longleftrightarrow> (\<exists>r \<in> set results. Live r \<and> result_kept spec r)"
proof -
  have "set (SortByLatency results) = set results"
    by (simp add: SortByLatency_sort_key)
  then have "set (kept_results cfg spec results) = {r \<in> set results. result_kept spec r}"
    by (auto simp: kept_results_def Results_filter)
  then show ?thesis by (auto simp: Summarize_counts filter_empty_conv)
qed

lemma run_links_live:
  assumes "run_links G runner cfg spec links w = (Inr live, w')"
  shows "live \<longleftrightarrow> (\<exists>r \<in> set (fst (runner (run_options cfg spec) links)). Live r \<and> result_kept spec r)"
proof -
  obtain results reported elapsed where "runner (run_options cfg spec) links = (results, reported, elapsed)"
    by (metis prod_cases3)
  moreover from this assms have "live \<longleftrightarrow> 0 < su_Live (Summarize (kept_results cfg spec results))"
    by (auto simp: run_links_def io_seq_def io_bind_eq_Inr Let_def)
  ultimately show ?thesis by (simp only: kept_live fst_conv)
qed

lemma run_program_cases:
  assumes "run_program G runner argv w = (Inr live, w')"
  obtains (Version) cfg args where "parseFlags argv = Inr (cfg, args)" "cg_showVersion cfg" "live"
  | (Checked) cfg args links wc spec wf ws where
      "parseFlags argv = Inr (cfg, args)" "\<not> cg_showVersion cfg"
      "Collect_links \<lparr>so_Args = args, so_Files = cg_files cfg, so_URLs = cg_urls cfg, so_Stdin = cg_stdin cfg\<rparr> w = (Inr links, wc)"
      "buildFilter cfg wc = (Inr spec, wf)" "Links spec links \<noteq> []"
      "run_links G runner cfg spec (Links spec links) wf = (Inr live, w')"
proof -
  from assms obtain cfg args where flags: "parseFlags argv = Inr (cfg, args)"
    by (cases "parseFlags argv") (auto simp: run_program_def io_bind_eq_Inr)
  show ?thesis
  proof (cases "cg_showVersion cfg")
    case True
    from assms flags True have live by (auto simp: run_program_def io_bind_eq_Inr)
    with flags True show ?thesis by (rule Version)
  next
    case False
    from assms flags False obtain links wc where c: "Collect_links \<lparr>so_Args = args, so_Files = cg_files cfg, so_URLs = cg_urls cfg,
        so_Stdin = cg_stdin cfg\<rparr> w = (Inr links, wc)"
      and rest: "(if links = [] then io_fail (ErrText ''nothing to check: pass links, --file, --url or --stdin'')
       else io_bind (buildFilter cfg) (\<lambda>spec.
         let links = Links spec links in
         if links = [] then io_fail (ErrText ''every link was filtered out'')
         else run_links G runner cfg spec links)) wc = (Inr live, w')"
      by (auto simp: run_program_def io_bind_eq_Inr)
    have "links \<noteq> []" using rest by auto
    with rest obtain spec wf where f: "buildFilter cfg wc = (Inr spec, wf)"
      and run: "(if Links spec links = [] then io_fail (ErrText ''every link was filtered out'')
         else run_links G runner cfg spec (Links spec links)) wf = (Inr live, w')"
      by (auto simp: io_bind_eq_Inr Let_def)
    have ne: "Links spec links \<noteq> []" using run by auto
    with run have "run_links G runner cfg spec (Links spec links) wf = (Inr live, w')" by simp
    with flags False c f ne show ?thesis by (rule Checked)
  qed
qed

lemma main_exit_program:
  "main_exit G runner argv w = (0, w') \<longleftrightarrow> run_program G runner argv w = (Inr True, w')"
  "main_exit G runner argv w = (1, w') \<longleftrightarrow> run_program G runner argv w = (Inr False, w')"
  by (auto simp: main_exit_def split: prod.splits sum.splits)

section \<open>What is saved\<close>

lemma print_err_files: "print_err t w = (r, w') \<Longrightarrow> co_files w' = co_files w"
  by (auto simp: print_err_def)

lemma ToFile_saves:
  assumes "ToFile path results write w = (Inr (), w')"
  shows "\<exists>text. write results = Inr text \<and> co_files w' path = Some text"
proof -
  from assms obtain out w1 w2 where "write results = Inr out" "write_file path out w1 = (Inr (), w2)"
    "os_call (\<lambda>w. co_sync w path) w2 = (Inr (), w')"
    by (auto simp: ToFile_def Let_def io_seq_def io_bind_eq_Inr)
  then show ?thesis by (auto simp: write_file_def os_call_def split: option.splits if_splits)
qed

lemma save_one_saves:
  assumes "save_one cfg (path, results, write) w = (Inr (), w')" "path \<noteq> []"
  shows "\<exists>text. write results = Inr text \<and> co_files w' path = Some text"
proof -
  from assms obtain w1 where t: "ToFile path results write w = (Inr (), w1)"
    and p: "(if cg_format cfg = ''text'' \<and> \<not> cg_quiet cfg
        then print_err (''saved '' @ dec_nat (length results) @ '' results to '' @ path @ newline) else io_return ()) w1 = (Inr (), w')"
    by (auto simp: save_one_def io_seq_def io_bind_eq_Inr io_map_err_def split: prod.splits sum.splits)
  have "co_files w' = co_files w1" using p print_err_files [of _ w1 "Inr ()" w'] by (auto split: if_splits)
  with ToFile_saves [OF t] show ?thesis by simp
qed

text \<open>The links of the live results, one per line, are the last thing written.\<close>

lemma emit_saves_links:
  assumes "emit G cfg style shown every elapsed w = (Inr (), w')" "cg_saveLinks cfg \<noteq> []"
  shows "co_files w' (cg_saveLinks cfg) =
     Some (concat (map (\<lambda>r. rs_Canonical r @ newline) (filter (\<lambda>r. Live r \<and> rs_Canonical r \<noteq> []) every)))"
proof -
  from assms(1) obtain w1 where "save_one cfg (cg_saveLinks cfg, Filter_results every Live, report_Links) w1 = (Inr (), w')"
    by (auto simp: emit_def io_seq_def io_bind_eq_Inr Let_def)
  from save_one_saves [OF this assms(2)] have "co_files w' (cg_saveLinks cfg) = Some (concat (map
      (\<lambda>r. if rs_Canonical r = [] then [] else rs_Canonical r @ newline) (filter Live every)))"
    by (auto simp: report_Links_def Filter_results_def)
  moreover have "concat (map (\<lambda>r. if rs_Canonical r = [] then [] else rs_Canonical r @ newline) (filter Live every)) =
      concat (map (\<lambda>r. rs_Canonical r @ newline) (filter (\<lambda>r. Live r \<and> rs_Canonical r \<noteq> []) every))"
    by (induction every) auto
  ultimately show ?thesis by simp
qed

lemma shown_results_set: "set (shown_results cfg every) \<subseteq> set every"
  by (auto simp: shown_results_def Let_def Filter_results_def dest: in_set_takeD)

end
