(* ===== verification/Samples.thy ===== *)
theory Samples
  imports Examples Cli
begin

text \<open>
  Concrete inputs for the properties of the relay, the checker and the command line.
\<close>

section \<open>A relay that answers one upload and one download\<close>

definition ok_reply :: "int \<Rightarrow> bytes \<Rightarrow> reply" where
  "ok_reply code body = \<lparr>rp_StatusCode = code, rp_Status = [], rp_Header = [], rp_Body = (body, None)\<rparr>"

definition demo_relay_world :: hworld where
  "demo_relay_world = \<lparr>entropy = [], clk = 0, ticks = [], primeCache = [],
     chan = \<lparr>rl_client = \<lparr>cl_answers = (\<lambda>verb url. if verb = ''POST'' \<and> url = ''https://relay/api/v1/up'' then [Inr (ok_reply 204 [])]
           else if verb = ''POST'' \<and> url = ''https://relay/api/v1/down'' then [Inr (ok_reply 200 (encodeFrame frameData streamID [7, 8, 9]))]
           else []), cl_log = [], cl_sockets = []\<rparr>,
       rl_origin = ''https://relay'', rl_host = ''relay'', rl_session = ''s'', rl_mode = ''https'', rl_timeout = 5000000000,
       cr_lanes = False, cr_deadline = None, cr_opened = False, cr_closed = False, cr_readBuf = [], cr_eof = False,
       cr_windowDebt = 0, cr_transport = newHTTPCarrier\<rparr>\<rparr>"

lemma demo_relay_urls: "url_parse ''https://relay/api/v1/up'' \<noteq> None" "url_parse ''https://relay/api/v1/down'' \<noteq> None"
  by code_simp+

lemma demo_relay_ready: "http_ready (chan demo_relay_world)" "\<not> cr_closed (chan demo_relay_world)"
  using demo_relay_urls by (simp_all add: demo_relay_world_def http_ready_def down_answers_def answers_well_def ok_reply_def read_body_def)

lemma demo_relay_inbox: "http_inbox (chan demo_relay_world) = [(encodeFrame frameData streamID [7, 8, 9], False)]"
  by (simp add: demo_relay_world_def http_inbox_def down_answers_def ok_reply_def read_body_def lane_closed_def header_get_def
     maxBodyBytes_def encodeFrame_def)

lemmas send_attempts_four = send_attempts.simps(2) [of 3, simplified]

lemma demo_relay_write: "\<exists>w'. carrier_Write https_ops [1, 2] demo_relay_world = (Inr (), w')"
  using demo_relay_urls(1)
  by (auto simp: carrier_Write_def demo_relay_world_def takeWindowGrant_def requestContext_def time_now_def io_bind_Inr https_ops_def
     http_send_def upd_h_def up_request_def newAPIRequest_def new_request_def res_bind_def on_chan_def on_client_def client_do_def
     ok_reply_def encodeFrame_def io_seq_def send_attempts_four Let_def newHTTPCarrier_def)

section \<open>A run of the checker\<close>

definition demo_options :: options where
  "demo_options = Defaults \<lparr>op_Timeout = 0, op_Concurrency = 2, op_Attempts = 0, op_MinSuccesses = 0, op_Depth = DepthQuick, op_Pings = 0,
     op_RetryDelay = 0, op_APIID = 0, op_Inspect = False, op_Speedtest = False, op_Hold = 0, op_Masking = False, op_OpenCheck = False,
     op_MaxConns = 0, op_Geo = False\<rparr>"

definition demo_web_params :: web_params where
  "demo_web_params = \<lparr>P_crypto = flat, P_prime = (\<lambda>_. True), P_gzip = demo_gzip, P_stack = 0,
     P_readResponse = io_return (ok_reply 101 [])\<rparr>"

text \<open>A world in which nothing answers.\<close>

definition silent_net :: checknet where
  "silent_net = \<lparr>entropy = [], clk = 0, ticks = [], primeCache = [], dials = [Inl ErrEOF], ctxErrs = [], relays = [],
     tlsHandshakes = [], peers = [], jitters = [], timers = [],
     geoLookup = (\<lambda>h. \<lparr>ge_Host = h, ge_IP = [], ge_Country = [], ge_Code = [], ge_City = [], ge_ASN = 0, ge_Org = [], ge_ISP = [], ge_Lat = 0, ge_Lon = 0, ge_Error = []\<rparr>)\<rparr>"

definition demo_link :: string where
  "demo_link = ''tg://proxy?server=a.b&port=443&secret=00112233445566778899aabbccddeeff''"

lemma demo_link_parses: "\<exists>t. Parse demo_link = Inr t \<and> t_Kind t = KindMTProto"
proof -
  have "case Parse demo_link of Inr t \<Rightarrow> t_Kind t = KindMTProto | Inl e \<Rightarrow> False" by code_simp
  then show ?thesis by (auto split: sum.splits)
qed

lemma demo_options_ok: "options_ok demo_options" "Defaults demo_options = demo_options"
  unfolding demo_options_def by (rule Defaults_ok, rule Defaults_id, rule Defaults_ok)

lemma demo_check: "\<exists>r w'. check demo_web_params demo_options demo_link silent_net = (Inr r, w') \<and> rs_Status r = StatusDead
    \<and> rs_Attempts r = 1 \<and> rs_Successes r = 0"
proof -
  obtain t where t: "Parse demo_link = Inr t" "t_Kind t = KindMTProto" using demo_link_parses by blast
  have "\<not> panics ErrEOF" by code_simp
  then show ?thesis
    by (intro check_refused [OF demo_options_ok(1) t, of silent_net ErrEOF "[]"]) (simp_all add: silent_net_def)
qed

definition demo_run :: run where
  "demo_run = \<lparr>rn_params = demo_web_params, rn_options = demo_options, rn_inputs = [demo_link, ''proxies.txt''], rn_worlds = (\<lambda>_. silent_net)\<rparr>"

lemma proxies_txt_invalid: "Parse ''proxies.txt'' = Inl (ErrText (''not a proxy link and not host:port: '' @ quote ''proxies.txt''))"
  by code_simp

lemma demo_checked: "\<exists>r. checked demo_run 0 = Inr r \<and> rs_Status r = StatusDead" "\<exists>r. checked demo_run 1 = Inr r \<and> rs_Status r = StatusInvalid"
proof -
  show "\<exists>r. checked demo_run 0 = Inr r \<and> rs_Status r = StatusDead"
    using demo_check by (auto simp: checked_def demo_run_def demo_options_ok)
  from proxies_txt_invalid show "\<exists>r. checked demo_run 1 = Inr r \<and> rs_Status r = StatusInvalid"
    by (simp add: checked_def demo_run_def check_invalid)
qed

lemma demo_run_checks: "i < length (rn_inputs demo_run) \<Longrightarrow> \<exists>r. checked demo_run i = Inr r"
  using demo_checked by (cases i) (auto simp: demo_run_def)

lemma demo_run_drains: "\<exists>s. pool_reach demo_run s \<and> drained s \<and> pl_next s = 2"
  using pool_finishes [of demo_run "start_pool demo_run", OF demo_run_checks pool_reach.Start] by (auto simp: start_pool_def demo_run_def)

lemma silent_dials: "dials silent_net = [Inl ErrEOF]"
  by (simp add: silent_net_def)

section \<open>A call of the program\<close>

definition demo_argv :: "string list" where "demo_argv = [''--format'', ''links'', ''proxies.txt'', demo_link]"

definition demo_config :: config where "demo_config = config_defaults\<lparr>cg_format := ''links''\<rparr>"

definition demo_console :: cli where
  "demo_console = \<lparr>co_out = [], co_err = [], co_files = Map.empty, co_mkdir = (\<lambda>_. None), co_create = (\<lambda>_. None), co_room = (\<lambda>_. None),
     co_sync = (\<lambda>_. None), co_outroom = None, mn_readable = (\<lambda>_. Inl ErrEOF), mn_stdin = ([], None),
     mn_http = \<lparr>cl_answers = (\<lambda>_ _. []), cl_log = [], cl_sockets = []\<rparr>, mn_outTTY = False, mn_errTTY = False, mn_now = 0\<rparr>"

definition demo_spec :: spec where
  "demo_spec = \<lparr>sp_Modes = [], sp_Ports = [], sp_Countries = [], sp_ASNs = [], sp_Exclude = {}\<rparr>"

definition demo_program :: program where
  "demo_program = \<lparr>pg_version = ''dev'', pg_sortSlice = (\<lambda>lt gs. gs), pg_encodeJSON = (\<lambda>p. Inr [])\<rparr>"

lemma demo_flags: "parseFlags demo_argv = Inr (demo_config, [''proxies.txt'', demo_link])"
  by code_simp

lemma demo_collected: "Collect_links \<lparr>so_Args = [''proxies.txt'', demo_link], so_Files = [], so_URLs = [], so_Stdin = False\<rparr> demo_console
    = (Inr [''proxies.txt'', demo_link], demo_console)"
proof -
  have "collect [''proxies.txt'', demo_link] [] = [''proxies.txt'', demo_link]" by code_simp
  then show ?thesis by (simp add: Collect_links_def io_bind_def io_return_def)
qed

lemma demo_filter: "buildFilter demo_config demo_console = (Inr demo_spec, demo_console)"
proof -
  have "ParseInts [] = Inr []" "ParseList [] = []" by code_simp+
  then show ?thesis
    by (simp add: buildFilter_def demo_config_def config_defaults_def demo_spec_def io_bind_def io_return_def io_map_err_def io_lift_def)
qed

lemma demo_links: "Links demo_spec [''proxies.txt'', demo_link] = [''proxies.txt'', demo_link]"
  by (simp add: Links_def demo_spec_def)

lemma demo_runs: "\<exists>live w'. run_program demo_program (\<lambda>_ _. (results, [], 0)) demo_argv demo_console = (Inr live, w')"
proof -
  have "\<exists>live w'. run_links demo_program (\<lambda>_ _. (results, [], 0)) demo_config demo_spec [''proxies.txt'', demo_link] demo_console = (Inr live, w')"
    by (simp add: run_links_def io_bind_def io_gets_def io_modify_def io_lift_def io_return_def io_seq_def print_err_def shows_progress_def demo_config_def config_defaults_def emit_def
       emit_format_def report_Links_def print_out_def demo_console_def save_one_def Let_def clearProgress_def)
  then show ?thesis using demo_flags demo_collected demo_filter demo_links
    by (simp add: run_program_def io_bind_Inr demo_config_def config_defaults_def Let_def)
qed

definition demo_cli_run :: run where
  "demo_cli_run = \<lparr>rn_params = demo_web_params, rn_options = run_options demo_config demo_spec,
     rn_inputs = Links demo_spec [''proxies.txt'', demo_link], rn_worlds = (\<lambda>_. silent_net)\<rparr>"

lemma demo_cli_checks: "i < length (rn_inputs demo_cli_run) \<Longrightarrow> \<exists>r. checked demo_cli_run i = Inr r \<and> \<not> Live r"
proof -
  assume "i < length (rn_inputs demo_cli_run)"
  then consider "i = 0" | "i = 1" by (auto simp: demo_cli_run_def demo_links less_Suc_eq)
  then show ?thesis
  proof cases
    case 1
    then show ?thesis by (simp add: checked_def demo_cli_run_def demo_links check_invalid proxies_txt_invalid Live_def)
  next
    case 2
    obtain t where t: "Parse demo_link = Inr t" "t_Kind t = KindMTProto" using demo_link_parses by blast
    have "\<not> panics ErrEOF" by code_simp
    then obtain r w' where "check demo_web_params (Defaults (run_options demo_config demo_spec)) demo_link silent_net = (Inr r, w')"
      "rs_Status r = StatusDead"
      using check_refused [OF Defaults_ok t, of silent_net ErrEOF "[]" demo_web_params "run_options demo_config demo_spec"]
      by (auto simp: silent_net_def)
    with 2 show ?thesis by (simp add: checked_def demo_cli_run_def demo_links Live_def)
  qed
qed


text \<open>The last example of the README names a file without \<open>--file\<close> (here without the
  flags that need an application id): its argument is taken for a link, and is none.\<close>

lemma readme_example:
  "\<exists>cfg. parseFlags [''--masking'', ''--check-open'', ''proxies.txt'']
     = Inr (cfg, [''proxies.txt'']) \<and> cg_files cfg = [] \<and> collect [''proxies.txt''] [] = [''proxies.txt'']"
proof -
  define p where "p = parseFlags [''--masking'', ''--check-open'', ''proxies.txt'']"
  have "case p of Inr (cfg, args) \<Rightarrow> args = [''proxies.txt''] \<and> cg_files cfg = [] | Inl e \<Rightarrow> False" unfolding p_def by code_simp
  then have "\<exists>cfg. p = Inr (cfg, [''proxies.txt'']) \<and> cg_files cfg = []" by (cases p) auto
  moreover have "collect [''proxies.txt''] [] = [''proxies.txt'']" by code_simp
  ultimately show ?thesis unfolding p_def by simp
qed

text \<open>Two proxies with different base64 secrets share a key, and the second link is dropped.\<close>

definition upper_link :: string where "upper_link = ''tg://proxy?server=a.b&port=443&secret=QAAAAAAAAAAAAAAAAAAAAA''"
definition lower_link :: string where "lower_link = ''tg://proxy?server=a.b&port=443&secret=qAAAAAAAAAAAAAAAAAAAAA''"

lemma dedup_drops_distinct:
  "\<exists>t u. Parse upper_link = Inr t \<and> Parse lower_link = Inr u \<and> t_secret t \<noteq> t_secret u \<and> Dedup [upper_link, lower_link] = [upper_link]"
proof -
  have "case (Parse upper_link, Parse lower_link) of (Inr t, Inr u) \<Rightarrow> t_secret t \<noteq> t_secret u | _ \<Rightarrow> False" by code_simp
  moreover have "Dedup [upper_link, lower_link] = [upper_link]" by code_simp
  ultimately show ?thesis by (cases "Parse upper_link"; cases "Parse lower_link") auto
qed

lemma help_exits: "fst (main_exit G runner [''--help''] w) = 2"
proof -
  have "parseFlags [''--help''] = Inl errHelp" by code_simp
  then show ?thesis by (simp add: main_exit_def run_program_def io_bind_def io_lift_def split_beta)
qed

text \<open>The canonical link of a TCP target whose host has a slash is not read back.\<close>

lemma canonical_tcp_lost:
  "case Parse ''tg://proxy?server=t.me/x&port=443'' of
     Inr t \<Rightarrow> t_Kind t = KindTCP \<and> Canonical t = ''t.me/x:443'' \<and> Parse (Canonical t) = Inl (ErrText ''missing port'')
   | Inl _ \<Rightarrow> False"
  by code_simp

text \<open>A server may choose the method that was not offered: without credentials the client logs in
  with empty ones.\<close>

lemma socks5_method_not_offered:
  "case socks5Connect [] [] ''1.2.3.4:443'' \<lparr>incoming = [5, 2, 1, 0, 5, 0, 0, 1, 0, 0, 0, 0, 0, 0], ending = ErrEOF, outgoing = [], wleft = 3,
      werr = ErrEOF, deadlines = []\<rparr> of
     (Inr _, c) \<Rightarrow> outgoing c = [[5, 1, 0], [1, 0, 0], [5, 1, 0, 1, 1, 2, 3, 4, 1, 0xBB]]
   | (Inl _, _) \<Rightarrow> False"
  by code_simp

end
