(* ===== verification/Spec2Isabelle.thy ===== *)
theory Spec2Isabelle
  imports Samples
begin

text \<open>
  A model of \<^emph>\<open>mtproto-checker\<close>, a program that checks Telegram proxies: MTProto proxies
  (plain, secure and FakeTLS), SOCKS5 proxies, WEB proxies (relays spoken to over HTTPS or
  WebSocket) and plain TCP endpoints.  Links are collected and filtered, a pool of workers
  checks them, each check makes attempts, each attempt dials the proxy and speaks MTProto
  through it (the obfuscation layer or TLS disguise, a packet transport, the key exchange, an
  encrypted session, API calls), and the results are rated, sorted, printed and saved.

  \<^bold>\<open>The style of the model.\<close>  A Go function that can fail or has effects is a function of an
  explicit world, \<open>('w, 'a) io\<close>, which returns an error or a value together with the world it
  leaves behind (\<open>Effects\<close>).  Go errors are the values of \<open>goerr\<close> with their wrapping
  (\<open>Errors\<close>); a Go panic is the error \<open>ErrPanic\<close>, which no \<open>io_catch\<close> catches.  Bytes
  are \<open>8 word\<close>, fixed-width integers are words, \<open>int\<close> is used for Go's \<open>int\<close> where
  its width does not matter, \<open>nat\<close> for lengths.  What the program reads from outside is data
  of the world: the bytes a connection will deliver and how it ends, the writes it will take,
  the random source, the readings of the clock, the outcomes of dials, TLS handshakes and HTTP
  requests, the answers of \<open>ctx.Err()\<close>.  The theorems quantify over all of it.

  \<^bold>\<open>Theories and sources\<close> (paths under \<open>src/\<close>).
  \<^item> \<open>Prelude\<close>, \<open>Text\<close>, \<open>Url\<close>, \<open>Conn\<close>: byte orders, lists, \<open>strings\<close> and
    \<open>strconv\<close>, \<open>net/url\<close>, \<open>net\<close> addresses, connections.  \<open>Conn\<close> has the interfaces.
  \<^item> \<open>Errors\<close>, \<open>Effects\<close>: \<open>mtproto.Error\<close>, its stages and kinds (\<open>mtproto/probe.go\<close>),
    the carrier's errors, and the monad.
  \<^item> \<open>Tl\<close> (\<open>mtproto/tl.go\<close>), \<open>Transport\<close> (\<open>transport.go\<close>), \<open>Crypto\<close> (\<open>ige.go\<close>),
    \<open>Obfuscate\<close> (\<open>obfuscate.go\<close>), \<open>FakeTls\<close> (\<open>faketls.go\<close>), \<open>Stream\<close>
    (\<open>respq.go\<close> and the \<open>stream\<close> with unencrypted messages of \<open>auth.go\<close>),
    \<open>Factorize\<close>, \<open>Rsa\<close>, \<open>Auth\<close>, \<open>Session\<close>, \<open>Api\<close>, \<open>Socks5\<close>, \<open>Probe\<close>:
    the files of \<open>internal/mtproto\<close> with these names; \<open>Exchange\<close> describes what a run of the
    key exchange reads and writes (\<open>auth.go\<close>); \<open>Hold\<close> is \<open>hold\<close> of
    \<open>audit.go\<close>, \<open>Audits\<close> the rest of that file, \<open>Webproxy\<close> is \<open>webproxy.go\<close> with
    the dispatcher \<open>Probe\<close>.
  \<^item> \<open>Frame\<close>, \<open>Relay\<close>, \<open>Carrier\<close>, \<open>Https\<close>, \<open>Websocket\<close>:
    \<open>internal/webproxy\<close> (\<open>carrier.go\<close> is \<open>Relay\<close>, the session, and \<open>Carrier\<close>, the
    byte stream).
  \<^item> \<open>Target\<close> (\<open>proxy/target.go\<close>), \<open>Input\<close> (\<open>input/input.go\<close>), \<open>Selection\<close>
    (\<open>filter/filter.go\<close>), \<open>Geo\<close> (\<open>geo/geo.go\<close>), \<open>Checker\<close> and \<open>Pool\<close>
    (\<open>checker/checker.go\<close>), \<open>Report\<close> (\<open>report/report.go\<close>), \<open>Flags\<close> and \<open>Cli\<close>
    (\<open>cmd/mtproto-checker/main.go\<close>).
  \<^item> \<open>Examples\<close> and \<open>Samples\<close>: concrete worlds in which the hypotheses of the properties hold.

  \<^bold>\<open>Interfaces.\<close>  \<open>byte_reader\<close>, \<open>byte_source\<close>, \<open>byte_sink\<close> and \<open>duplex\<close>
  (\<open>Conn\<close>) are what the protocol code asks of a carrier: \<open>io.ReadFull\<close> splits what is
  pending, a source also delivers everything that is there, a write appends.  The lemmas of
  \<open>Transport\<close>, \<open>Stream\<close>, \<open>Auth\<close>, \<open>Session\<close> and \<open>Api\<close> are proved once inside
  them.  \<open>obf_source\<close>, \<open>obf_reader\<close>, \<open>obf_sink\<close> and \<open>obf_duplex\<close> (\<open>Obfuscate\<close>)
  show that an obfuscated carrier is a carrier again.  They are interpreted on TCP connections
  (\<open>conn_duplex\<close>, \<open>obf_conn\<close>), on the FakeTLS stream (\<open>tls_duplex\<close>, \<open>obf_tls\<close>) and
  on the relay carriers (\<open>obf_https\<close>, \<open>obf_wsc\<close>).  \<open>batch_transport\<close> and
  \<open>prompt_transport\<close> (\<open>Carrier\<close>) are what the byte stream of a relay asks of its
  transport; \<open>hc\<close> and \<open>prompt_https\<close> interpret them on the HTTPS transport, \<open>wsc\<close>
  on the WebSocket one.

  \<^bold>\<open>What the lemmas show.\<close>
  \<^item> Key exchange: against an honest server it completes with three messages the server can follow
    to the same key; a key it returns was confirmed by the messages that were read (C1--C5, C26);
    with IGE, RSA padding and the factorisation it rests on (C6--C9).
  \<^item> Carriers: obfuscation, transports and FakeTLS are understood by the other side and read
    back what was written, within their bounds (C10--C16); the relay carrier refines a byte
    stream, its frames and those of WebSocket round trip (C30--C32); C40 says exactly when the
    SOCKS5 handshake succeeds and what it writes, which on the server's side is wider than the
    RFCs.
  \<^item> Session and API: messages open on the other side, only authentic ones are accepted, the result
    of a call is the answer to it that was read, in time or not at all (C17--C22), ping series
    count correctly (C23, C24), configurations are read completely (C27--C29).
  \<^item> Checking: every failure of a probe has a kind that its cause explains and dials are bounded
    (C36), a check's report is well formed (C35), the pool refines the sequential map, whatever the schedule, and always comes
    to an end (C33, C34), results are ranked by a stable sort (C25).
  \<^item> Program: canonical links read back as the same proxy, CSV reports as their named columns (C37,
    C38) and the exit code says whether a link that was selected is live (C39).  Further lemmas outside this theory: filters are
    filters and an excluded host is dropped (\<open>Selection\<close>), the geo cache never changes an entry
    (\<open>Geo\<close>), groups count every result once (\<open>Report\<close>), flags satisfy the checks
    (\<open>Flags\<close>), files hold what their writer produced (\<open>Cli\<close>), duplicates (\<open>Input\<close>).

  \<^bold>\<open>Bounds and fuel.\<close>  Brent's outer loop doubles its stride and is given 22 rounds, more than
  the step limit of the code allows (C9).  \<open>stack\<close> is the depth of the call stack for nested
  gzip objects, which the code does not bound (C22).  \<open>fill_loop\<close>, the polling of a carrier,
  has the number of answers the transport has left; \<open>read_full_loop\<close> has the number of bytes
  asked for, as each read gives one; the message loop of WebSocket has the length of the
  input, as each frame shortens it; holding a session has the rounds its duration allows; the
  loops that draw random bytes have the length of the random source.  In each case a lemma shows
  that the fuel is not used up, or running out is a panic the theorems do not exclude.

  \<^bold>\<open>Parameters.\<close>  Code that is not in the repository is an argument: SHA-1, SHA-256 and the
  AES block (record \<open>crypto\<close>, with \<open>crypto_ok\<close> for output lengths and inversion),
  \<open>ProbablyPrime\<close>, gzip, \<open>http.ReadResponse\<close>, the JSON encoder and decoder,
  \<open>sort.Slice\<close> (law \<open>sorts\<close>).  The TLS handshake of audits and relays and the HTTP client
  are part of the environment.

  \<^bold>\<open>Not modelled, and simplifications.\<close>  The usage text, \<open>isTerminal\<close> (its answer is in
  the world) and the construction of HTTP clients and TLS configurations, which set fields of
  library types only.  Floating point numbers are exact rationals, so that only rounding errors
  are lost; durations are nanoseconds, and \<open>ms\<close> keeps microseconds.  Case folding and trimming
  are those of ASCII.  Each relay and each audited peer has a clock and a random source of its
  own.  In the pool, each input is checked in a world of its own, so that its result does not
  depend on the schedule; races on shared caches are not modelled.  A context appears as the
  answers it will give and as the step \<open>Cancel\<close> of the pool; the clock that dates a report is
  read as a constant.
\<close>

section \<open>The key exchange\<close>

text \<open>C1: against an honest server the key exchange completes, and the server can follow it.  Over an
  obfuscated connection that delivers the server's three messages (resPQ for a product the
  client can factor, the encrypted DH parameters for the server's exponent \<open>a\<close>, dh\_gen\_ok with the
  hash of the key the server computes), \<open>createAuthKey\<close> returns.  What it wrote through the cipher
  are three messages, byte by byte those of the protocol: req\_pq\_multi; req\_DH\_params, whose
  encrypted part opens under every private exponent of the offered key it names to the product,
  its factors, the nonces and the datacenter; set\_client\_DH\_params, whose encrypted part opens
  under the temporary key to \<open>g\_b\<close>.  The client's key is the power of that \<open>g\_b\<close> with the
  server's \<open>a\<close>.  Three writes must be possible, the padding that is drawn for RSA must fit the key
  (\<open>honest_pq\<close>), and 271 more random bytes must be there.\<close>

theorem key_exchange_completes:
  assumes C: "crypto_ok C"
    and pq: "honest_pq C dc nonce serverNonce newNonce padding tempKey pqBytes fps"
    and stream: "obf_stream C (encodeIntermediate (unencrypted_message i (resPQ_body nonce serverNonce pqBytes fps))
         @ encodeIntermediate (unencrypted_message j params) @ encodeIntermediate (unencrypted_message k genok) @ rest) n w"
    and writes: "3 \<le> n" "obf_in_step (s_carrier (chan w))"
    and random: "entropy w = nonce @ newNonce @ padding @ tempKey @ ent" "271 \<le> length ent"
    and dh: "honest_dh C nonce serverNonce newNonce g p a time b params genok" "b = be_nat (take 256 ent)"
    and server: "gA = modexp (unat g) a p" "2 \<le> unat g" "unat g \<le> 7" "bit_len p = 2048" "1 < gA" "gA < p - 1"
      "safe_prime_test pp p"
  shows "\<exists>ak w' f1 f2 f3 p' q' key pqB pB qB encrypted filler cipher gB pad. createAuthKey C pp dc w = (Inr ak, w') \<and>
     obf_outgoing C (s_carrier (chan w')) = obf_outgoing C (s_carrier (chan w)) @ lead (chan w) @ f1 @ f2 @ f3 \<and>
     said Intermediate (put32 0xBE7E8EF1 @ nonce) f1 \<and>
     factorize (word_of_nat (be_nat pqBytes)) = Inr (p', q') \<and> key \<in> set (telegramKeys C) \<and> pk_fingerprint key \<in> set fps \<and>
     be_nat pqB = be_nat pqBytes \<and> be_nat pB = unat p' \<and> be_nat qB = unat q' \<and>
     said Intermediate (put32 0xD712E4BE @ nonce @ serverNonce @ tl_bytes pB @ tl_bytes qB
        @ put64 (pk_fingerprint key) @ tl_bytes encrypted) f2 \<and>
     (\<forall>d. rsa_pair (pk_N key) (pk_E key) d \<longrightarrow> rsa_unpad C (pk_N key) d encrypted =
        Some (put32 0xA9F55F95 @ tl_bytes pqB @ tl_bytes pB @ tl_bytes qB @ nonce @ serverNonce @ newNonce
          @ put32 (word_of_int dc) @ filler)) \<and>
     said Intermediate (put32 0xF5045F1F @ nonce @ serverNonce @ tl_bytes cipher) f3 \<and>
     igeDecrypt C cipher (temp_key C newNonce serverNonce) (temp_iv C newNonce serverNonce) =
        Inr (let inner = put32 0x6643B654 @ nonce @ serverNonce @ put64 0 @ tl_bytes gB in sha1 C inner @ inner @ pad) \<and>
     be_nat gB = modexp (unat g) b p \<and> ak_key ak = be_bytes 256 (modexp (be_nat gB) a p)"
proof -
  obtain m where n: "n = Suc (Suc (Suc m))"
  proof
    show "n = Suc (Suc (Suc (n - 3)))" using writes by simp
  qed
  note v = obf_stream_view [OF stream, unfolded random(1) n]
  let ?base = "obf_base (s_carrier (chan w))"
  obtain ak w' r1 f1 f2 r2 r3 f3 used where t: "createAuthKey C pp dc w = (Inr ak, w')"
    "asked C dc Intermediate nonce serverNonce newNonce r1 (resPQ_body nonce serverNonce pqBytes fps) f1 f2"
    "agreed C Intermediate nonce serverNonce newNonce r2 params r3 genok f3 (unat g) p gA (take 256 ent) ak"
    "obf_conn.both.moves C ?base w (r1 @ r2 @ r3) (f1 @ f2 @ f3) used w'"
    using obf_conn.both.createAuthKey_dialogue [where base = ?base, OF C pq obf_stream_fits [OF stream] v random(2)
        dh(1) [unfolded dh(2)] server] by blast
  note s = asked_resPQ [OF t(2) pq] agreed_key [OF C t(3) server(1), folded dh(2)]
  have "f1 @ f2 @ f3 \<noteq> []" using s(1) said_nonempty by blast
  note o = conjunct1 [OF obf_moves_written [OF t(4) writes(2) this]]
  show ?thesis using s t(1) o by blast
qed

text \<open>The three flights of the example exchange: the server has the exponent 2, the client draws 0.\<close>

theorem key_exchange_completes_witness:
  "\<exists>ak w' f1 f2 f3 gB. createAuthKey flat (\<lambda>_. True) 2 demo_world = (Inr ak, w') \<and>
     obf_outgoing flat (s_carrier (chan w')) = obf_outgoing flat (s_carrier (chan demo_world)) @ f1 @ f2 @ f3 \<and>
     said Intermediate (put32 0xBE7E8EF1 @ zeros 16) f1 \<and> be_nat gB = modexp 2 0 demo_prime \<and>
     ak_key ak = be_bytes 256 (modexp (be_nat gB) 2 demo_prime)"
proof -
  have u2: "unat (2 :: u32) = 2" by simp
  have s: "safe_prime_test (\<lambda>_. True) demo_prime" by (simp add: safe_prime_test_def)
  have e: "271 \<le> length (zeros 271)" by simp
  show ?thesis
    using key_exchange_completes [OF flat_ok demo_honest_pq demo_obf_stream [unfolded demo_input_def] order_refl demo_in_step(1)
        demo_entropy e demo_honest_dh demo_b [symmetric] refl demo_range(4,5) demo_prime_bits demo_range(2,3) s]
    unfolding demo_in_step(2) append_Nil u2 by blast
qed

text \<open>C2: a key that \<open>createAuthKey\<close> returns was agreed on with whoever sent the three messages it
  read, and every check was made on them.  Over an obfuscated connection with any transport:
  the nonce, the new nonce and the exponent are drawn from the random source in this order; what
  arrived starts with three frames; the first holds a resPQ with the nonce, the second
  server\_DH\_params that repeat both nonces and decrypt under the temporary key to a hashed inner
  object with both nonces, \<open>g\<close>, \<open>p\<close> and \<open>g\_a\<close>, the third a dh\_gen\_ok with both nonces and the
  hash of the new nonce and the returned key.  \<open>g\<close> and \<open>g\_a\<close> are in range, \<open>p\<close> has 2048 bits and
  passed the primality tests, now or (by its SHA-256) in an earlier exchange, and the key is
  \<open>g\_a\<close> to the drawn exponent.\<close>

theorem key_exchange_sound:
  assumes C: "crypto_ok C" and cache: "prime_cache_ok C pp w" and l: "s_link (chan w) = obf_link C"
    and r: "createAuthKey C pp dc w = (Inr ak, w')"
  shows "\<exists>nonce newNonce bs gap1 gap2 gap3 r1 r2 r3 serverNonce tail1 params tail3 g p gA time q.
     entropy w = nonce @ gap1 @ newNonce @ gap2 @ bs @ gap3 @ entropy w' \<and>
     length nonce = 16 \<and> length newNonce = 32 \<and> length bs = 256 \<and> length serverNonce = 16 \<and>
     obf_incoming C (s_carrier (chan w)) = r1 @ r2 @ r3 @ obf_incoming C (s_carrier (chan w')) \<and>
     heard (s_tr (chan w)) r1 (put32 0x05162463 @ nonce @ serverNonce @ tail1) \<and>
     heard (s_tr (chan w)) r2 params \<and>
     dh_answer C nonce serverNonce (temp_key C newNonce serverNonce) (temp_iv C newNonce serverNonce) params g p gA time \<and>
     heard (s_tr (chan w)) r3 (put32 0x3BCBF734 @ nonce @ serverNonce @ key_hash C newNonce (ak_key ak) @ tail3) \<and>
     2 \<le> g \<and> g \<le> 7 \<and> bit_len p = 2048 \<and> 1 < gA \<and> gA < p - 1 \<and>
     sha256 C (big_bytes q) = sha256 C (big_bytes p) \<and> safe_prime_test pp q \<and>
     ak_key ak = be_bytes 256 (modexp gA (be_nat bs) p) \<and> ak_keyID ak = Prelude.slice 12 20 (sha1 C (ak_key ak)) \<and>
     ak_salt ak = xor_bytes (take 8 newNonce) (take 8 serverNonce)"
proof -
  let ?base = "obf_base (s_carrier (chan w))"
  obtain nonce serverNonce newNonce r1 resPQ f1 f2 gap1 gap2 r2 params r3 genok f3 g p gA bs gap3 q where
    t: "asked C dc (s_tr (chan w)) nonce serverNonce newNonce r1 resPQ f1 f2"
      "agreed C (s_tr (chan w)) nonce serverNonce newNonce r2 params r3 genok f3 g p gA bs ak"
      "obf_conn.both.moves C ?base w (r1 @ r2 @ r3) (f1 @ f2 @ f3) (nonce @ gap1 @ newNonce @ gap2 @ bs @ gap3) w'"
    and q: "sha256 C (big_bytes q) = sha256 C (big_bytes p)" "safe_prime_test pp q"
    using obf_conn.both.createAuthKey_trace [where base = ?base, OF C cache obf_linked [OF l] r] by blast
  note a = asked_heard [OF t(1)]
  note b = agreed_heard [OF C conjunct1 [OF a] conjunct1 [OF conjunct2 [OF a]] t(2)]
  note m = obf_moves_read [OF t(3), unfolded append_assoc]
  from a b m q show ?thesis by blast
qed

theorem key_exchange_sound_witness:
  "\<exists>ak w' r1 r2 r3 serverNonce tail. createAuthKey flat (\<lambda>_. True) 2 demo_world = (Inr ak, w') \<and>
     obf_incoming flat (s_carrier (chan demo_world)) = r1 @ r2 @ r3 @ obf_incoming flat (s_carrier (chan w')) \<and>
     heard Intermediate r1 (put32 0x05162463 @ zeros 16 @ serverNonce @ tail)"
proof -
  obtain ak w' where r: "createAuthKey flat (\<lambda>_. True) 2 demo_world = (Inr ak, w')" using demo_exchange by blast
  have c: "prime_cache_ok flat (\<lambda>_. True) demo_world" by (simp add: prime_cache_ok_def demo_world_def)
  have s: "s_link (chan demo_world) = obf_link flat" "s_tr (chan demo_world) = Intermediate"
    using demo_obf_stream by (simp_all add: obf_stream_def)
  obtain nonce rest r1 r2 r3 serverNonce tail where e: "entropy demo_world = nonce @ rest" "length nonce = 16"
    and i: "obf_incoming flat (s_carrier (chan demo_world)) = r1 @ r2 @ r3 @ obf_incoming flat (s_carrier (chan w'))"
    and h: "heard Intermediate r1 (put32 0x05162463 @ nonce @ serverNonce @ tail)"
    using key_exchange_sound [OF flat_ok c s(1) r, unfolded s(2)] by blast
  have "nonce = take 16 (entropy demo_world)" using e by simp
  then have "nonce = zeros 16" unfolding demo_entropy by simp
  with r i h show ?thesis by blast
qed

text \<open>C3: the process-wide cache only ever holds hashes of numbers that passed both primality
  tests; an exchange preserves that, whether it succeeds or fails.\<close>

theorem prime_cache_invariant:
  assumes "prime_cache_ok C pp w" and "createAuthKey C pp dc w = (r, w')"
  shows "prime_cache_ok C pp w'"
  using assms by (rule createAuthKey_cache_ok)

theorem prime_cache_invariant_witness:
  "\<exists>ak w'. createAuthKey flat (\<lambda>_. True) 2 demo_world = (Inr ak, w') \<and> prime_cache_ok flat (\<lambda>_. True) w'"
proof -
  obtain ak w' where r: "createAuthKey flat (\<lambda>_. True) 2 demo_world = (Inr ak, w')" using demo_exchange by blast
  have "prime_cache_ok flat (\<lambda>_. True) demo_world" by (simp add: prime_cache_ok_def demo_world_def)
  from prime_cache_invariant [OF this r] r show ?thesis by blast
qed

text \<open>C4: \<open>verifyDHGen\<close> accepts exactly the messages that start with dh\_gen\_ok, both nonces and
  the hash of the new nonce and the shared key.\<close>

theorem dh_gen_accepted_iff:
  assumes "crypto_ok C" "length nonce = 16" "length serverNonce = 16"
  shows "verifyDHGen C payload nonce serverNonce newNonce shared = Inr () \<longleftrightarrow>
     (\<exists>rest. payload = put32 ctorDHGenOK @ nonce @ serverNonce @ newNonceHash1 C newNonce shared @ rest)"
  unfolding verifyDHGen_iff [OF assms] by (simp add: dh_gen_ok_body_def)

theorem dh_gen_accepted_iff_witness:
  "verifyDHGen flat (put32 ctorDHGenOK @ zeros 16 @ zeros 16 @ newNonceHash1 flat [] [] @ [7]) (zeros 16) (zeros 16) [] [] = Inr ()
   \<and> verifyDHGen flat (put32 ctorDHGenOK @ zeros 16 @ zeros 15) (zeros 16) (zeros 16) [] [] \<noteq> Inr ()"
proof -
  note i = dh_gen_accepted_iff [OF flat_ok length_zeros length_zeros]
  have "length (newNonceHash1 flat [] []) = 16" by (rule newNonceHash1_length [OF flat_ok])
  then have "put32 ctorDHGenOK @ zeros 16 @ zeros 15 \<noteq> put32 ctorDHGenOK @ zeros 16 @ zeros 16 @ newNonceHash1 flat [] [] @ rest" for rest
    by (auto dest: arg_cong [where f = length])
  then show ?thesis unfolding i by auto
qed

text \<open>C5: \<open>parseServerDHParams\<close> accepts exactly the server\_DH\_params\_ok messages with both nonces
  whose encrypted answer decrypts under the given key to a hash, the inner object it is the hash
  of and padding, where the inner object repeats both nonces; and it returns what that object
  says.  The byte strings may have any of the encodings the parser takes (\<open>tl_field\<close>), bytes
  after the answer are ignored.\<close>

theorem dh_params_authenticated:
  assumes "crypto_ok C" and "length nonce = 16" and "length serverNonce = 16"
  shows "parseServerDHParams C payload nonce serverNonce key iv = Inr (g, p, gA, time) \<longleftrightarrow>
     (\<exists>answer enc tail inner padding g' pb encP gb encG.
        payload = put32 0xD0E8075C @ nonce @ serverNonce @ enc @ tail \<and> tl_field answer enc \<and>
        igeDecrypt C answer key iv = Inr (sha1 C inner @ inner @ padding) \<and>
        inner = put32 0xB5890DBA @ nonce @ serverNonce @ put32 g' @ encP @ encG @ put32 time \<and>
        tl_field pb encP \<and> tl_field gb encG \<and> g = unat g' \<and> p = be_nat pb \<and> gA = be_nat gb)"
  unfolding parseServerDHParams_iff [OF assms] dh_answer_def dh_inner_def by blast

theorem dh_params_authenticated_witness:
  "\<exists>key iv answer enc inner padding. igeDecrypt flat answer key iv = Inr (sha1 flat inner @ inner @ padding) \<and>
     tl_field answer enc \<and> (\<exists>tail. demo_params = put32 0xD0E8075C @ zeros 16 @ zeros 16 @ enc @ tail)"
proof -
  from demo_parsed obtain key iv g p gA time where
    r: "parseServerDHParams flat demo_params (zeros 16) (zeros 16) key iv = Inr (g, p, gA, time)" by blast
  have l: "length (zeros 16) = 16" by simp
  from r show ?thesis unfolding dh_params_authenticated [OF flat_ok l l] by blast
qed

section \<open>The ciphers\<close>

text \<open>C6: \<open>igeDecrypt\<close> and \<open>igeEncrypt\<close> are inverse to each other on whatever either accepts,
  and keep the length.\<close>

theorem ige_inverses:
  assumes "crypto_ok C"
  shows "igeEncrypt C data key iv = Inr out \<longleftrightarrow> igeDecrypt C out key iv = Inr data"
  using ige_inverse [OF assms] ige_inverse' [OF assms] by blast

theorem ige_inverses_witness:
  "\<exists>out. igeEncrypt flat (zeros 32) (zeros 32) (zeros 32) = Inr out \<and> igeDecrypt flat out (zeros 32) (zeros 32) = Inr (zeros 32)"
proof -
  obtain out where "igeEncrypt flat (zeros 32) (zeros 32) (zeros 32) = Inr out"
    by (auto simp: igeEncrypt_def ige_checks_def aes_key_ok_def)
  with ige_inverses [OF flat_ok] show ?thesis by blast
qed

text \<open>C7: RSA\_PAD: for a key pair with a modulus of at most 2048 bits, the owner of the private
  exponent recovers from the 256 bytes of \<open>rsaPad\<close> exactly the data and its random padding, and
  the hash check of the protocol holds.\<close>

theorem rsa_pad_recovered:
  assumes "crypto_ok C" and "rsa_pair (pk_N key) (pk_E key) d" "0 < pk_N key" "pk_N key \<le> 256 ^ 256"
    and "rsaPad C data key w = (Inr out, w')"
  shows "\<exists>padding. length (data @ padding) = 192 \<and> rsa_unpad C (pk_N key) d out = Some (data @ padding)"
  using rsaPad_recovered [OF assms(1,3,4,5)] assms(2) by blast

text \<open>A key pair with exponent 1.\<close>

theorem rsa_pad_recovered_witness:
  "\<exists>out w' padding. rsaPad flat [7] \<lparr>pk_N = 256 ^ 256, pk_E = 1, pk_fingerprint = 0\<rparr>
      \<lparr>entropy = zeros 191 @ zeros 32 @ [], clk = 0, ticks = [], primeCache = []\<rparr> = (Inr out, w') \<and>
     rsa_unpad flat (256 ^ 256) 1 out = Some ([7] @ padding)"
proof -
  let ?key = "\<lparr>pk_N = 256 ^ 256, pk_E = 1, pk_fingerprint = 0\<rparr>"
  let ?w = "\<lparr>entropy = zeros 191 @ zeros 32 @ [], clk = 0, ticks = [], primeCache = []\<rparr>"
  have "rsa_value flat (zeros 32) ([7] @ zeros 191) < 256 ^ 224" by (rule flat_rsa_value) simp
  moreover have "(256 :: nat) ^ 224 \<le> 256 ^ 256" by (rule power_increasing) simp_all
  ultimately have "rsa_value flat (zeros 32) ([7] @ zeros 191) < pk_N ?key" by simp
  then obtain out where o: "rsaPad flat [7] ?key ?w = (Inr out, ?w\<lparr>entropy := []\<rparr>)"
    using rsaPad_first_round [OF flat_ok, of "[7]" ?w "zeros 191" "zeros 32" "[]" ?key] by auto
  have "rsa_pair (pk_N ?key) (pk_E ?key) 1" by (simp add: rsa_pair_def)
  from rsa_pad_recovered [OF flat_ok this _ _ o] o show ?thesis by auto
qed

text \<open>C8: the factors \<open>factorize\<close> returns for a \<open>pq\<close> of at least 4 are proper, ordered and
  multiply to \<open>pq\<close> without wrap-around.\<close>

theorem factorize_sound:
  assumes "factorize pq = Inr (p, q)" and "4 \<le> pq"
  shows "unat p * unat q = unat pq \<and> 1 < unat p \<and> unat p \<le> unat q \<and> unat q < unat pq"
proof (cases "pq mod 2 = 0")
  case True
  with assms(1) have pq: "p = 2" "q = pq div 2" by (simp_all add: factorize_def)
  have u: "unat (2 :: u64) = 2" by simp
  have m: "unat pq mod 2 = 0" using arg_cong [OF True, of unat] by (simp only: unat_mod_distrib u) simp
  have d: "unat q = unat pq div 2" by (simp only: pq(2) unat_div_distrib u)
  have "4 \<le> unat pq" using assms(2) by (simp add: word_le_nat_alt)
  with m show ?thesis unfolding d pq(1) u by presburger
next
  case False
  with assms(1) factorize_attempts_sound [of pq "[0..<8]" p q] show ?thesis by (simp add: factorize_def)
qed

theorem factorize_sound_witness: "factorize 6 = Inr (2, 3) \<and> unat (2::u64) * unat (3::u64) = unat (6::u64)"
  using factorize_sound [OF factorize_six] factorize_six by simp

text \<open>C9: Brent's loop always returns within its step budget: the rounds it can make before the
  budget stops it are at most the fuel of the model, whatever \<open>n\<close> and the seed.\<close>

theorem brent_terminates: "brent n seed \<noteq> None"
  using brent_total [of n seed] by simp

section \<open>The obfuscated transport\<close>

text \<open>C10: \<open>newObfConn\<close> writes one header of 64 bytes that cannot be mistaken for another
  protocol; the proxy that knows the secret recovers the protocol tag and the datacenter from it
  and the key stream of everything that follows.\<close>

theorem obfuscation_header_understood:
  assumes "newObfConn C conn_write secret (tr_tag tr) dc w = (Inr (enc, dec), w')"
  shows "\<exists>wire. outgoing (chan w') = outgoing (chan w) @ [wire] \<and> length wire = 64 \<and>
     wire ! 0 \<noteq> 0xEF \<and> get32 (Prelude.slice 4 8 wire) \<noteq> 0 \<and> take 4 wire \<notin> set forbidden \<and>
     proxy_view C secret wire = (tr_tag tr, word_of_int dc) \<and>
     proxy_stream C secret wire = ctr_ks C (ctr_key enc) (ctr_iv enc) \<and> ctr_pos enc = 64 \<and> ctr_pos dec = 0"
  using assms length_tr_tag
proof (cases rule: newObfConn_Inr)
  case (1 h ent c')
  let ?wire = "take 56 h @ Prelude.slice 56 64 (xor_at (ctr_ks C (ctr_key enc) (ctr_iv enc)) 0 (stamp_header (tr_tag tr) dc h))"
  have ks: "ctr_ks C (ctr_key enc) (ctr_iv enc) = ctr_ks C (sha256 C (Prelude.slice 8 40 h @ secret)) (Prelude.slice 40 56 h)"
    by (simp add: 1(6))
  note p = proxy_recovers [OF 1(2) length_tr_tag, of ?wire C secret tr dc, OF arg_cong [OF ks, of "\<lambda>k. take 56 h @ Prelude.slice 56 64 (xor_at k 0 (stamp_header (tr_tag tr) dc h))"]]
  have pre: "?wire ! 0 = h ! 0" "Prelude.slice 4 8 ?wire = Prelude.slice 4 8 h" "take 4 ?wire = take 4 h"
    using 1(2) by (simp_all add: nth_append slice_take_append)
  have m: "matchesAny x ys \<longleftrightarrow> x \<in> set ys" for x ys by (induction ys) auto
  have "?wire ! 0 \<noteq> 0xEF" "get32 (Prelude.slice 4 8 ?wire) \<noteq> 0" "take 4 ?wire \<notin> set forbidden"
    unfolding pre using 1(3) by (simp_all only: header_accepted_def m de_Morgan_conj not_False_eq_True simp_thms)
  moreover have "outgoing (chan w') = outgoing (chan w) @ [?wire]"
    using 1(4) by (auto simp: 1(5) conn_write_def split: nat.splits)
  moreover have "ctr_pos enc = 64" by (simp add: 1(6))
  ultimately show ?thesis using p ks 1(7) by (intro exI [of _ ?wire]) (simp only: simp_thms)
qed

theorem obfuscation_header_understood_witness:
  "\<exists>wire. length wire = 64 \<and> proxy_view flat [] wire = (tr_tag Intermediate, 2)"
proof -
  obtain enc dec w' where "newObfConn flat conn_write [] (tr_tag Intermediate) 2 demo_header_world = (Inr (enc, dec), w')"
    using demo_newObfConn by blast
  from obfuscation_header_understood [OF this] show ?thesis by auto
qed

text \<open>C11: over an obfuscated connection every transport decodes what its peer encoded, packet by
  packet, and leaves the rest of the stream: the payload of any message the protocol sends comes
  out unchanged.\<close>

theorem transport_roundtrip:
  assumes "encode tr p w = (Inr pkt, w')" and "packet_ok p" and "obf_incoming C b = pkt @ rest"
  shows "\<exists>b'. decode tr (obf_ReadFull C conn_read_full) b = (Inr p, b') \<and> obf_incoming C b' = rest"
  using obf_conn_in.obf.decode_encode [OF assms(1,2)] assms(3) by (simp add: obf_incoming_def)

theorem transport_roundtrip_witness:
  "\<exists>b'. decode Abridged (obf_ReadFull flat conn_read_full)
      \<lparr>o_rw = demo_conn (xor_at (ctr_ks flat (zeros 32) (zeros 16)) 0 [1, 7, 7, 7, 7, 9]), o_enc = demo_ctr, o_dec = demo_ctr\<rparr>
     = (Inr [7, 7, 7, 7], b') \<and> obf_incoming flat b' = [9]"
proof (rule transport_roundtrip)
  show "encode Abridged [7, 7, 7, 7] \<lparr>entropy = [], clk = 0, ticks = [], primeCache = []\<rparr>
      = (Inr [1, 7, 7, 7, 7], \<lparr>entropy = [], clk = 0, ticks = [], primeCache = []\<rparr>)"
    by (simp add: encodeAbridged_def)
qed (simp_all add: packet_ok_def maxPacketLen_def obf_incoming_def demo_conn_def demo_ctr_def xor.assoc)

text \<open>C12: whatever arrives, a decoded packet is at most 1 MiB, on any of the three transports.\<close>

theorem transport_bounded:
  assumes "decode tr (obf_ReadFull C conn_read_full) b = (Inr p, b')"
  shows "length p \<le> 1048576"
  using obf_conn_in.obf.decode_bounds [OF assms] by (simp add: maxPacketLen_def)

theorem transport_bounded_witness:
  "\<exists>p b'. decode Abridged (obf_ReadFull flat conn_read_full)
      \<lparr>o_rw = demo_conn (xor_at (ctr_ks flat (zeros 32) (zeros 16)) 0 [1, 7, 7, 7, 7, 9]), o_enc = demo_ctr, o_dec = demo_ctr\<rparr>
     = (Inr p, b') \<and> length p \<le> 1048576"
proof -
  have e: "encode Abridged [7, 7, 7, 7] \<lparr>entropy = [], clk = 0, ticks = [], primeCache = []\<rparr>
      = (Inr [1, 7, 7, 7, 7], \<lparr>entropy = [], clk = 0, ticks = [], primeCache = []\<rparr>)"
    by (simp add: encodeAbridged_def)
  let ?b = "\<lparr>o_rw = demo_conn (xor_at (ctr_ks flat (zeros 32) (zeros 16)) 0 [1, 7, 7, 7, 7, 9]), o_enc = demo_ctr, o_dec = demo_ctr\<rparr>"
  obtain b' where "decode Abridged (obf_ReadFull flat conn_read_full) ?b = (Inr [7, 7, 7, 7], b')"
    using obf_conn_in.obf.decode_encode [OF e, where c = ?b and C = flat and rest = "[9]"]
    by (auto simp: packet_ok_def maxPacketLen_def demo_conn_def demo_ctr_def xor.assoc)
  with transport_bounded [OF this] show ?thesis by blast
qed

section \<open>FakeTLS\<close>

text \<open>C13: the ClientHello is a single well-formed TLS record, 517 bytes long unless a domain of
  229 bytes or more makes it longer; the proxy that knows the secret accepts the digest in its
  random and reads the client's clock from it.\<close>

theorem client_hello_well_formed:
  assumes "crypto_ok C" and "buildClientHello C sni secret w = (Inr h, w')" and "encodeSNI sni = Inr name"
  shows "length (ch_bytes h) = (if length name < 229 then 517 else 284 + length name) \<and>
    splitTLSRecords (ch_bytes h) = Inr [ch_bytes h] \<and> Prelude.slice 11 43 (ch_bytes h) = ch_random h \<and>
    proxy_hello C secret (ch_bytes h) = Some (word_of_int (clk w' div 1000000000))"
  using buildClientHello_ok [OF assms] by blast

theorem client_hello_well_formed_witness:
  "\<exists>h w'. buildClientHello flat ''ab'' [] demo_hello_world = (Inr h, w') \<and> length (ch_bytes h) = 517"
proof -
  obtain h w' where r: "buildClientHello flat ''ab'' [] demo_hello_world = (Inr h, w')" using demo_hello by blast
  from client_hello_well_formed [OF flat_ok this demo_sni] r show ?thesis by auto
qed

text \<open>C14: a ServerHello that \<open>verifyServerHello\<close> accepts has the digest under the secret over the
  client's random and itself, echoes the session, and is a handshake record followed by
  change-cipher-spec and application-data records, the last one of application data.\<close>

theorem server_hello_authenticated:
  assumes "verifyServerHello C response secret sid random = Inr ()"
  shows "Prelude.slice 11 43 response = hmacSHA256 C secret (random @ overwrite_at 11 (replicate 32 0) response) \<and>
     (\<exists>hello rest. splitTLSRecords response = Inr (hello # rest) \<and> rest \<noteq> [] \<and> last rest ! 0 = 0x17 \<and>
       list_all (\<lambda>r. r ! 0 = 0x14 \<or> r ! 0 = 0x17) rest \<and> take 3 hello = [0x16, 0x03, 0x03] \<and> hello ! 5 = 0x02 \<and>
       Prelude.slice 44 (44 + length sid) hello = sid \<and> unat (hello ! 43) = length sid)"
  using verifyServerHello_sound [OF assms] unfolding verify_digest_def list_all_iff by blast

theorem server_hello_authenticated_witness:
  "Prelude.slice 11 43 (server_answer flat [] [] (zeros 32) [] [])
     = hmacSHA256 flat [] ([] @ overwrite_at 11 (replicate 32 0) (server_answer flat [] [] (zeros 32) [] []))"
  using server_hello_authenticated [OF verifyServerHello_honest [OF flat_ok, of "zeros 32" "[]" "[]" "[]" "[]"]] by simp

text \<open>C15: an honest proxy's answer is read off the connection exactly, whatever follows it, and
  is accepted.\<close>

theorem server_hello_completes:
  assumes "crypto_ok C" "length sid = 32" "length tail < 1000" "length noise < 65536"
    and "incoming c = server_answer C secret random sid tail noise @ later"
  shows "\<exists>response c'. readServerHello c = (Inr response, c') \<and> incoming c' = later \<and>
     verifyServerHello C response secret sid random = Inr ()"
  using readServerHello_honest [OF assms] verifyServerHello_honest [OF assms(1-4)] by blast

theorem server_hello_completes_witness:
  "\<exists>response c'. readServerHello (demo_conn (server_answer flat [] [] (zeros 32) [] [1, 2] @ [9])) = (Inr response, c') \<and>
     incoming c' = [9] \<and> verifyServerHello flat response [] (zeros 32) [] = Inr ()"
  by (rule server_hello_completes [OF flat_ok]) (simp_all add: demo_conn_def)

text \<open>C16: what one side writes into its FakeTLS stream, in any two writes, the other side reads:
  the records unwrap to the bytes in order.\<close>

theorem tls_stream_roundtrip:
  assumes "io_seq (tls_Write p) (tls_Write q) (newTLSConn c) = (Inr (), t)"
    and "incoming d = drop (length (conn_sent c)) (conn_sent (tc_conn t))"
  shows "\<exists>d'. tls_ReadFull (length p + length q) (newTLSConn d) = (Inr (p @ q), d')"
proof -
  have "tls_sink_ok (length (conn_sent c)) (newTLSConn c)" "tls_sent (length (conn_sent c)) (newTLSConn c) = []"
    by (simp_all add: tls_sink_ok_def tls_sent_def newTLSConn_def tls_plain_short)
  from tls_out.wr_wr_sent [OF this(1) assms(1)] this(2) have "tls_sent (length (conn_sent c)) t = p @ q" by simp
  then have "tls_pend (newTLSConn d) = p @ q" using assms(2) by (simp add: tls_pend_def newTLSConn_def tls_sent_def)
  then show ?thesis using tls_in.rd_prefix [of "newTLSConn d" "p @ q" "[]" "length p + length q"] by auto
qed

theorem tls_stream_roundtrip_witness:
  "\<exists>t d'. io_seq (tls_Write [1, 2]) (tls_Write [3]) (newTLSConn (demo_conn [])) = (Inr (), t) \<and>
     tls_ReadFull (length [1 :: byte, 2] + length [3 :: byte]) (newTLSConn (demo_conn (conn_sent (tc_conn t)))) = (Inr ([1, 2] @ [3]), d')"
proof -
  obtain t where t: "io_seq (tls_Write [1, 2]) (tls_Write [3]) (newTLSConn (demo_conn [])) = (Inr (), t)"
    by (simp add: io_seq_def io_bind_def tls_Write_def newTLSConn_def conn_write_def demo_conn_def numeral_3_eq_3)
  from tls_stream_roundtrip [OF this, of "demo_conn (conn_sent (tc_conn t))"] t show ?thesis
    by (simp add: demo_conn_def conn_sent_def)
qed

section \<open>Encrypted sessions\<close>

text \<open>C17: what \<open>encrypt\<close> sends, the server opens under the same key: salt, session, message id,
  sequence number and body come back, behind 12 to 27 random bytes, and the sequence counter is
  one further.\<close>

theorem sealed_message_opens:
  assumes "crypto_ok C" and "encrypt C body w = (Inr (packet, msgID), w')" and "s = sess w"
    and "length (ak_keyID (ss_auth s)) = 8" "length (ss_id s) = 8" "length (ss_salt s) = 8"
    and "4 \<le> length body" "length body < 4294967296"
  shows "\<exists>filler. 12 \<le> length filler \<and> length filler \<le> 27 \<and>
     open_message C (ss_auth s) 0 packet = Inr (plain_header s msgID (ss_seqNo s * 2 + 1) body @ filler) \<and>
     open_body (plain_header s msgID (ss_seqNo s * 2 + 1) body @ filler) = Inr body \<and>
     sess w' = s\<lparr>ss_seqNo := ss_seqNo s + 1\<rparr>"
  using assms by (rule encrypt_opens)

theorem sealed_message_opens_witness:
  "\<exists>packet msgID w' filler. encrypt flat [1, 2, 3, 4] demo_session_world = (Inr (packet, msgID), w') \<and>
     open_message flat demo_auth 0 packet = Inr (plain_header demo_session msgID 1 [1, 2, 3, 4] @ filler)"
proof -
  have "27 \<le> length (entropy demo_session_world)" by (simp add: demo_session_world_def)
  then obtain packet msgID w' where e: "encrypt flat [1, 2, 3, 4] demo_session_world = (Inr (packet, msgID), w')"
    using encrypt_total [OF flat_ok] by blast
  have s: "demo_session = sess demo_session_world" by (simp add: demo_session_world_def)
  from sealed_message_opens [OF flat_ok e s] e show ?thesis
    by (auto simp: demo_session_def demo_auth_def)
qed

text \<open>C18: \<open>decrypt\<close> accepts exactly the packets somebody with the key sealed for the client (x = 8)
  around a well-formed message; everything else is an error.\<close>

theorem decrypt_accepts_iff:
  assumes "crypto_ok C" and "length (ak_keyID auth) = 8"
  shows "decrypt C auth packet = Inr body \<longleftrightarrow>
     (\<exists>plain. seal C auth 8 plain = Inr packet \<and> open_body plain = Inr body)"
  using assms by (rule decrypt_iff)

theorem decrypt_accepts_iff_witness: "decrypt flat demo_auth demo_reply = Inr demo_body"
proof -
  have "length (ak_keyID demo_auth) = 8" by (simp add: demo_auth_def)
  from decrypt_accepts_iff [OF flat_ok this] demo_sealed demo_opened show ?thesis by blast
qed

text \<open>C19: a result that \<open>invoke\<close> returns was sent by somebody with the session's key in answer to
  this call.  Over an obfuscated connection: the last frame that was read is a packet sealed for
  the client, whose message has, directly or nested in containers and gzip objects, an
  rpc\_result for the id of the last packet that was written, which is the query sealed under the
  session's key; the result is the content of that rpc\_result and no rpc\_error.  So a packet that
  does not authenticate, a reply to another call and an rpc\_error never become a result.\<close>

theorem api_answers_genuine:
  assumes C: "crypto_ok C" and l: "s_link (chan w) = obf_link C" "obf_in_step (s_carrier (chan w))"
    and id: "length (ak_keyID (ss_auth (sess w))) = 8"
    and r: "invoke C G stack query timeout w = (Inr result, w')"
  shows "\<exists>msgID sent asking packet salt sid seqNo filler got frame reply hdr body tail m rest.
     obf_outgoing C (s_carrier (chan w')) = obf_outgoing C (s_carrier (chan w)) @ lead (chan w) @ sent @ asking \<and>
     emits (s_tr (chan w)) packet asking \<and>
     seal C (ss_auth (sess w)) 0 (salt @ sid @ put64 msgID @ put32 seqNo @ put32 (word_of_nat (length query)) @ query @ filler) = Inr packet \<and>
     obf_incoming C (s_carrier (chan w)) = got @ frame @ obf_incoming C (s_carrier (chan w')) \<and>
     accepts (s_tr (chan w)) frame reply \<and>
     seal C (ss_auth (sess w)) 8 (hdr @ put32 (word_of_nat (length body)) @ body @ tail) = Inr reply \<and> length hdr = 28 \<and>
     nested G body m \<and> m = put32 0xF35C6D01 @ put64 msgID @ rest \<and> unwrap G rest = Inr result \<and>
     (length result < 4 \<or> get32 (take 4 result) \<noteq> 0x2144CA19)"
proof -
  let ?base = "obf_base (s_carrier (chan w))"
  obtain inb outb used msgID where t: "obf_conn.both.moves C ?base w inb outb used w'"
    "called C (session_auth w) (s_tr (chan w)) outb msgID query" "replied C G (session_auth w) (s_tr (chan w)) inb msgID result"
    using obf_conn.both.invoke_trace [where base = ?base, OF C r obf_linked [OF l(1)] id [folded session_auth_def]] by blast
  from t(2) have "outb \<noteq> []" using emits_nonempty by (auto simp: called_def)
  note o = conjunct1 [OF obf_moves_written [OF t(1) l(2) this]]
  note i = conjunct1 [OF obf_moves_read [OF t(1)]]
  from t(2) obtain sent asking packet salt sid seqNo filler where c: "outb = sent @ asking" "emits (s_tr (chan w)) packet asking"
    "seal C (session_auth w) 0 (salt @ sid @ put64 msgID @ put32 seqNo @ put32 (word_of_nat (length query)) @ query @ filler) = Inr packet"
    unfolding called_def by blast
  from t(3) obtain got frame reply hdr body tail m rest where d: "inb = got @ frame" "accepts (s_tr (chan w)) frame reply"
    "seal C (session_auth w) 8 (hdr @ put32 (word_of_nat (length body)) @ body @ tail) = Inr reply" "length hdr = 28"
    "nested G body m" "m = put32 0xF35C6D01 @ put64 msgID @ rest" "unwrap G rest = Inr result"
    "length result < 4 \<or> get32 (take 4 result) \<noteq> 0x2144CA19"
    unfolding replied_def no_rpc_error_def by blast
  show ?thesis using o i c(2,3) d(2-8) unfolding c(1) d(1) session_auth_def append_assoc by blast
qed

theorem api_answers_genuine_witness:
  "\<exists>w' got frame reply. invoke flat demo_gzip 9 [] 1000 demo_session_world = (Inr demo_result, w') \<and>
     obf_incoming flat (s_carrier (chan demo_session_world)) = got @ frame @ obf_incoming flat (s_carrier (chan w')) \<and>
     accepts Intermediate frame reply"
proof -
  obtain w' where i: "invoke flat demo_gzip 9 [] 1000 demo_session_world = (Inr demo_result, w')" using demo_invoke by blast
  have s: "s_link (chan demo_session_world) = obf_link flat" "s_tr (chan demo_session_world) = Intermediate"
    using demo_session_stream by (simp_all add: obf_stream_def)
  have st: "obf_in_step (s_carrier (chan demo_session_world))" "length (ak_keyID (ss_auth (sess demo_session_world))) = 8"
    by (simp_all add: obf_in_step_def demo_session_world_def demo_stream_def demo_ctr_def demo_session_def demo_auth_def)
  from api_answers_genuine [OF flat_ok s(1) st i] i show ?thesis unfolding s(2) by blast
qed

text \<open>C20: a call reads the clock when it starts (\<open>t0\<close>) and when it seals its message (\<open>t\<close>, which is
  the message's id); its deadline is \<open>t0 + timeout\<close>.  When no later reading is past the deadline,
  however the clock advances, and the first reply answers the call, \<open>invoke\<close> returns that answer,
  whatever the query and the depth of the stack.  When every later reading is past the deadline,
  it fails as timed out and has read nothing.  Both over an obfuscated connection that takes
  the query and a random source with 27 bytes left.\<close>

theorem api_call_completes:
  assumes C: "crypto_ok C" and auth: "ss_auth (sess w) = auth" "length (ak_keyID auth) = 8"
    and clock: "time_now w = (Inr t0, v)" "time_now v = (Inr t, u)"
    and stream: "obf_stream C input n w" "1 \<le> n" "27 \<le> length (entropy w)"
  shows "(by_then (t0 + timeout) u \<and> input = encodeIntermediate reply @ rest \<and> length reply \<le> maxPacketLen \<and>
       reply_of C G auth (messageID_at t) reply result \<longrightarrow> (\<exists>w'. invoke C G stack query timeout w = (Inr result, w'))) \<and>
     (past (t0 + timeout) u \<longrightarrow> (\<exists>w'. invoke C G stack query timeout w = (Inl (ErrText ''timed out waiting for rpc_result''), w') \<and>
        obf_incoming C (s_carrier (chan w')) = input))"
proof (intro conjI impI)
  have v: "obf_conn.both.view C w = (input, Suc (n - 1), entropy w, primeCache w)"
    using obf_stream_view [OF stream(1)] stream(2) by simp
  note f = obf_stream_fits [OF stream(1)]
  show "\<exists>w'. invoke C G stack query timeout w = (Inr result, w')"
    if "by_then (t0 + timeout) u \<and> input = encodeIntermediate reply @ rest \<and> length reply \<le> maxPacketLen \<and>
       reply_of C G auth (messageID_at t) reply result"
  proof -
    from that have b: "by_then (t0 + timeout) u" and i: "input = encodeIntermediate reply @ rest"
      and l: "length reply \<le> maxPacketLen" and r: "reply_of C G auth (messageID_at t) reply result" by simp_all
    show ?thesis by (rule obf_conn.both.invoke_complete [OF C auth clock b f v [unfolded i] stream(3) r l])
  qed
  show "\<exists>w'. invoke C G stack query timeout w = (Inl (ErrText ''timed out waiting for rpc_result''), w') \<and>
        obf_incoming C (s_carrier (chan w')) = input" if "past (t0 + timeout) u"
    using obf_conn.both.invoke_expires [OF C clock that f v stream(3)] unfolding obf_incoming_def by blast
qed

text \<open>The clock of the example advances from 5 to 9: an allowance of 1000 is enough, none is not.\<close>

theorem api_call_completes_witness:
  "(\<exists>w'. invoke flat demo_gzip 0 [5] 1000 demo_session_world = (Inr demo_result, w')) \<and>
   (\<exists>w'. invoke flat demo_gzip 0 [5] 0 demo_session_world = (Inl (ErrText ''timed out waiting for rpc_result''), w'))"
proof -
  have a: "ss_auth (sess demo_session_world) = demo_auth" "length (ak_keyID demo_auth) = 8" "27 \<le> length (entropy demo_session_world)"
    by (simp_all add: demo_session_world_def demo_session_def demo_auth_def)
  have one: "1 \<le> (3 :: nat)" by simp
  have b: "by_then (5 + 1000) (demo_session_world\<lparr>clk := 7, ticks := [8, 9]\<rparr>)" by (rule demo_times(3)) simp
  have p: "past (5 + 0) (demo_session_world\<lparr>clk := 7, ticks := [8, 9]\<rparr>)" by (simp add: past_def)
  have l: "length demo_reply \<le> maxPacketLen" by (simp add: demo_reply_length maxPacketLen_def)
  note c = api_call_completes [OF flat_ok a(1,2) demo_times(1,2) demo_session_stream one a(3)]
  show ?thesis using c b p l demo_reply_of by blast
qed

text \<open>C21: \<open>dispatch\<close> reports a retry only for a bad\_server\_salt nested in the message, whose 8 bytes
  become the session's salt, and a result only for an answer to this call; never both.\<close>

theorem dispatch_located_in_message:
  assumes "dispatch G msgID stack body salt = (Inr (result, retry, found), salt')" and "retry \<or> found"
  shows "\<exists>m. nested G body m \<and> (if found then answer_of G msgID m result \<and> \<not> retry else retry \<and> salt_of m salt')"
  using dispatch_located [OF assms] by (auto simp: located_def split: if_splits)

theorem dispatch_located_in_message_witness:
  "dispatch demo_gzip (messageID_at 7) 0 demo_body [] = (Inr (demo_result, False, True), []) \<and>
   (\<exists>m. nested demo_gzip demo_body m \<and> answer_of demo_gzip (messageID_at 7) m demo_result)"
proof -
  have d: "dispatch demo_gzip (messageID_at 7) 0 demo_body [] = (Inr (demo_result, False, True), [])"
    by (rule dispatch_answer [OF demo_answer_of]) (use demo_result_plain in simp)
  from dispatch_located_in_message [OF d] d show ?thesis by auto
qed

text \<open>C22: the recursion of \<open>dispatch\<close> through gzip objects has no bound of its own: on an object
  that unpacks to itself it overflows the call stack, however deep that is.\<close>

theorem dispatch_gzip_unbounded:
  assumes "4 \<le> length body" "ctor_of body = ctorGzipPacked" "unwrap G body = Inr body"
  shows "dispatch G msgID stack body salt = (Inl stack_overflow, salt)"
  using assms by (rule dispatch_gzip_loop)

theorem dispatch_gzip_unbounded_witness:
  "dispatch bomb_gzip 0 1000000 bomb_body [] = (Inl stack_overflow, [])"
  by (rule dispatch_gzip_unbounded [OF bomb])

text \<open>C23: a ping series that returns has received at least one pong, lost at most the last ping,
  sent no more than asked for (and at least one), and its minimum, median and maximum are ordered.\<close>

theorem ping_series_counts:
  assumes "pingSeries C howMany perPing w = (Inr st, w')"
  shows "1 \<le> ps_Received st \<and> ps_Received st \<le> ps_Sent st \<and> ps_Sent st \<le> ps_Received st + 1 \<and>
     int (ps_Sent st) \<le> max 1 howMany \<and> ps_MinMS st \<le> ps_MedianMS st \<and> ps_MedianMS st \<le> ps_MaxMS st"
  using pingSeries_sound [OF assms] by blast

theorem ping_series_counts_witness:
  "\<exists>st w'. pingSeries flat 1 0 demo_ping_world = (Inr st, w') \<and> ps_Received st = 1 \<and> ps_Sent st = 1"
proof -
  obtain st w' where s: "pingSeries flat 1 0 demo_ping_world = (Inr st, w')" using demo_series by blast
  from ping_series_counts [OF this] have "ps_Received st = 1" "ps_Sent st = 1" by linarith+
  with s show ?thesis by blast
qed

text \<open>C24: a container holds the pong exactly when one of its messages does; errors inside the
  other messages do not hide it.\<close>

theorem container_pong_iff:
  assumes "length es \<le> 64" and "list_all (\<lambda>e. length (snd (snd e)) < 4294967296) es"
  shows "containsPong pingID (container_body es @ rest) = Inr (list_ex (\<lambda>e. containsPong pingID (snd (snd e)) = Inr True) es)"
  using containsPong_container [of es pingID rest] assms by (simp add: list_all_iff list_ex_iff)

theorem container_pong_iff_witness:
  "containsPong (zeros 8) (container_body [(1, 0, [7]), (2, 0, demo_pong)] @ []) = Inr True"
proof -
  have "containsPong (zeros 8) (container_body [(1, 0, [7]), (2, 0, demo_pong)] @ [])
      = Inr (list_ex (\<lambda>e. containsPong (zeros 8) (snd (snd e)) = Inr True) [(1 :: u64, 0 :: u32, [7]), (2, 0, demo_pong)])"
    by (rule container_pong_iff) (simp_all add: demo_pong_length)
  then show ?thesis by (simp add: demo_pong_found)
qed

section \<open>Messages in the clear\<close>

text \<open>C25: \<open>SortByLatency\<close> is the library's stable sort by a linear order of ranks, in which the live
  results come first, by increasing latency, and all others are equal: its result is a sorted
  permutation, and results of equal rank keep their order.\<close>

theorem sort_by_latency_stable:
  "SortByLatency rs = sort_key rank_of rs \<and> mset (SortByLatency rs) = mset rs \<and>
   sorted_wrt (\<lambda>a b. \<not> before b a) (SortByLatency rs) \<and>
   filter (\<lambda>r. rank_of r = x) (SortByLatency rs) = filter (\<lambda>r. rank_of r = x) rs"
proof (intro conjI)
  show sk: "SortByLatency rs = sort_key rank_of rs" by (rule SortByLatency_sort_key)
  show "mset (SortByLatency rs) = mset rs" unfolding sk by simp
  have "sorted (map rank_of (SortByLatency rs))" unfolding sk by simp
  then show "sorted_wrt (\<lambda>a b. \<not> before b a) (SortByLatency rs)" by (simp add: sorted_map before_rank not_less)
  show "filter (\<lambda>r. rank_of r = x) (SortByLatency rs) = filter (\<lambda>r. rank_of r = x) rs"
    unfolding sk using sort_key_stable [of rank_of x rs] by (simp add: eq_commute)
qed

text \<open>Message identifiers never decrease while the clock does not go back.\<close>

theorem message_ids_ordered:
  assumes "0 \<le> t1" and "t1 \<le> t2" and "t2 div 1000000000 < 4294967296"
  shows "messageID_at t1 \<le> messageID_at t2"
  using assms by (rule messageID_mono)

theorem message_ids_ordered_witness: "messageID_at 5000 \<le> messageID_at 1700000000000000000"
  by (rule message_ids_ordered) simp_all

text \<open>C26: \<open>recvUnencrypted\<close> accepts exactly the messages with a zero key id and a declared body of
  at least 4 bytes that fits, and returns that body.\<close>

theorem unencrypted_accepted_iff:
  "open_unencrypted packet = Inr body \<longleftrightarrow>
     (\<exists>msgID rest. length msgID = 8 \<and> 4 \<le> length body \<and> length body < 4294967296 \<and>
        packet = replicate 8 0 @ msgID @ put32 (word_of_nat (length body)) @ body @ rest)"
  by (rule open_unencrypted_iff)

text \<open>C27: the TL encoding of a byte string is padded to whole words and is read back exactly, from
  any aligned position.\<close>

theorem tl_bytes_roundtrip:
  assumes "length p < 16777216" and "length b mod 4 = 0"
  shows "\<exists>enc. buf_bytes p b = b @ enc \<and> length enc mod 4 = 0 \<and>
     cursor_bytes (cur b (enc @ rest)) = (p, cur (b @ enc) rest)"
  by (intro exI [of _ "tl_bytes p"] conjI buf_bytes_append [OF assms(2)] tl_bytes_aligned cursor_bytes_cur [OF assms])

theorem tl_bytes_roundtrip_witness:
  "\<exists>enc. buf_bytes [1, 2, 3, 4] (zeros 4) = zeros 4 @ enc \<and> cursor_bytes (cur (zeros 4) (enc @ [9])) = ([1, 2, 3, 4], cur (zeros 4 @ enc) [9])"
  using tl_bytes_roundtrip [of "[1, 2, 3, 4]" "zeros 4" "[9]"] by auto

text \<open>C28: the addresses reported as unexpected are, each once, exactly the hosts of the options that
  match none of Telegram's prefixes.\<close>

theorem unexpected_addresses_spec:
  "set (unexpectedAddresses options) = {h. h \<in> set (map (addr_host \<circ> do_Addr) options) \<and> \<not> isTelegramAddress h} \<and>
   distinct (unexpectedAddresses options)"
  using unexpected_from_spec [of "[]" options] by (auto simp: unexpectedAddresses_def)

text \<open>C29: a configuration of up to 256 options is read completely and correctly, with or without
  proxy secrets, whatever follows the options.\<close>

theorem config_read_completely:
  assumes "length vs \<le> 256" and "list_all wire_ok vs"
  shows "parseConfig (config_body flags date expires test dc vs @ rest) =
     \<lparr>cf_ThisDC = sint dc, cf_TestMode = (test = ctorBoolTrue), cf_Options = map option_of vs,
      cf_Unexpected = unexpectedAddresses (map option_of vs), cf_Parsed = True\<rparr>"
  using parseConfig_honest [of vs] assms by (simp add: list_all_iff)

theorem config_read_completely_witness:
  "cf_Parsed (parseConfig (config_body 0 0 0 0 2 [\<lparr>wo_flags = 1024, wo_id = 2, wo_addr = str_bytes ''1.2.3.4'', wo_port = 443, wo_secret = [1]\<rparr>] @ []))"
  by (subst config_read_completely) (simp_all add: wire_ok_def)

section \<open>Relays\<close>

text \<open>C30: a carrier over HTTPS is a byte stream: a write that succeeds has put its bytes, in
  order, into the frames the relay took, and, while the relay answers, any number of bytes up
  to what its batches hold for the stream is read, in order, by \<open>io.ReadFull\<close>.\<close>

theorem https_carrier_streams:
  assumes "carrier_Write https_ops p w0 = (Inr (), w1)"
    and "http_ready (chan w)" "\<not> cr_closed (chan w)" "n \<le> length (relay_pending http_inbox w)"
  shows "relay_sent http_uploads w1 = relay_sent http_uploads w0 @ p \<and>
    (\<exists>w'. carrier_ReadFull https_ops n w = (Inr (take n (relay_pending http_inbox w)), w') \<and>
      relay_pending http_inbox w' = drop n (relay_pending http_inbox w))"
proof
  show "relay_sent http_uploads w1 = relay_sent http_uploads w0 @ p"
    using hc.carrier_Write_sent [OF assms(1)] unfolding https_stream .
  have "prompt_https.open_ready w" using assms(2,3) by (simp add: prompt_https.open_ready_def)
  from prompt_https.carrier_ReadFull_ready [OF this, unfolded https_stream, OF assms(4)]
  show "\<exists>w'. carrier_ReadFull https_ops n w = (Inr (take n (relay_pending http_inbox w)), w') \<and>
      relay_pending http_inbox w' = drop n (relay_pending http_inbox w)" by blast
qed

theorem https_carrier_streams_witness:
  "\<exists>w1. carrier_Write https_ops [1, 2] demo_relay_world = (Inr (), w1) \<and> relay_sent http_uploads w1 = [1, 2] \<and>
     (\<exists>w'. carrier_ReadFull https_ops 3 demo_relay_world = (Inr [7, 8, 9], w'))"
proof -
  obtain w1 where w1: "carrier_Write https_ops [1, 2] demo_relay_world = (Inr (), w1)" using demo_relay_write by blast
  have f: "frame_ok \<lparr>fr_kind = frameData, fr_stream = streamID, fr_payload = [7, 8, 9]\<rparr>"
    by (simp add: frame_ok_def streamID_def maxPayload_def)
  have "decodeFrames (encodeFrame frameData streamID [7, 8, 9]) = Inr [\<lparr>fr_kind = frameData, fr_stream = streamID, fr_payload = [7, 8, 9]\<rparr>]"
    using decode_encoded [of "[\<lparr>fr_kind = frameData, fr_stream = streamID, fr_payload = [7, 8, 9]\<rparr>]"] f by (simp add: frame_bytes_def)
  then have p: "relay_pending http_inbox demo_relay_world = [7, 8, 9]"
    by (simp add: relay_pending_def demo_relay_inbox) (simp add: demo_relay_world_def)
  have s: "relay_sent http_uploads demo_relay_world = []" by (simp add: relay_sent_def http_uploads_def demo_relay_world_def)
  from https_carrier_streams [OF w1 demo_relay_ready, of 3] w1 p s show ?thesis by auto
qed

text \<open>C31: a WebSocket frame that either side writes is read as it was written, masked or not, in each
  of the three length formats, whatever follows it.\<close>

theorem websocket_frame_roundtrip:
  assumes "incoming c = ws_wire final opcode key p @ rest" and "unat opcode < 16" "length p \<le> maxBodyBytes"
    and "\<And>k. key = Some k \<Longrightarrow> length k = 4"
  shows "readFrame c = (Inr (opcode, p, final), c\<lparr>incoming := rest\<rparr>)"
  using assms by (rule readFrame_wire)

theorem websocket_frame_roundtrip_witness:
  "fst (readFrame (demo_conn (ws_header opPong 2 @ [1, 2, 3, 4] @ ws_mask [1, 2, 3, 4] [5, 6] @ [9]))) = Inr (opPong, [5, 6], True)"
proof -
  have "length ([5, 6] :: bytes) = 2" by simp
  from writeMessage_wire [of opPong "[5, 6]" "[1, 2, 3, 4]", unfolded this]
  have "incoming (demo_conn (ws_header opPong 2 @ [1, 2, 3, 4] @ ws_mask [1, 2, 3, 4] [5, 6] @ [9])) = ws_wire True opPong (Some [1, 2, 3, 4]) [5, 6] @ [9]"
    by (simp add: demo_conn_def)
  from websocket_frame_roundtrip [OF this] show ?thesis by (simp add: maxBodyBytes_def opcodes_small)
qed

text \<open>C32: \<open>decodeFrames\<close> accepts exactly the concatenations of frames with a 24-bit stream and a
  payload of at most 1 MiB, and returns those frames: the encoding is unambiguous and nothing
  else is accepted.\<close>

theorem frames_decoded_iff:
  "decodeFrames body = Inr frames \<longleftrightarrow>
     list_all frame_ok frames \<and> body = concat (map (\<lambda>f. encodeFrame (fr_kind f) (fr_stream f) (fr_payload f)) frames)"
  unfolding frame_bytes_def [symmetric] by (rule decodeFrames_iff)

section \<open>The worker pool\<close>

text \<open>C33: whatever the schedule, a run that has ended holds, for the inputs that were handed out,
  exactly the results of checking them one after the other, in the order of the inputs, and
  blank results for those a cancelled context kept back; each result was reported once.\<close>

theorem pool_runs_sequentially:
  assumes "pool_reach R s" "drained s"
  shows "map Inr (take (pl_next s) (pl_results s)) = take (pl_next s) (sequential R) \<and>
    drop (pl_next s) (pl_results s) = replicate (length (rn_inputs R) - pl_next s) no_result \<and>
    distinct (pl_reported s) \<and> set (pl_reported s) = {..<pl_next s}"
  using run_sequential [OF assms] run_reported [OF assms] by simp_all

theorem pool_runs_sequentially_witness:
  "\<exists>s. pool_reach demo_run s \<and> drained s \<and> map rs_Status (pl_results s) = [StatusDead, StatusInvalid]"
proof -
  obtain s where s: "pool_reach demo_run s" "drained s" "pl_next s = 2" using demo_run_drains by blast
  obtain a b where ab: "checked demo_run 0 = Inr a" "rs_Status a = StatusDead" "checked demo_run 1 = Inr b" "rs_Status b = StatusInvalid"
    using demo_checked by blast
  have n: "length (rn_inputs demo_run) = 2" by (simp add: demo_run_def)
  have q: "sequential demo_run = [Inr a, Inr b]" using ab by (simp add: sequential_def n upt_rec)
  note p = pool_runs_sequentially [OF s(1,2), unfolded s(3) n q]
  have "map Inr (take 2 (pl_results s)) = [Inr a, Inr b :: goerr + result]" using conjunct1 [OF p] by simp
  moreover have "drop 2 (pl_results s) = []" using conjunct1 [OF conjunct2 [OF p]] by simp
  ultimately have "pl_results s = [a, b]" using append_take_drop_id [of 2 "pl_results s"] by auto
  with s ab show ?thesis by auto
qed

text \<open>C34: no schedule of the pool is longer than four steps for each input, one for each worker and
  one for closing the channel, and from every state it can reach, cancelled or not, the pool
  comes to an end: no goroutine is left behind.\<close>

theorem pool_terminates:
  assumes "(pool_step R ^^ m) (start_pool R) s" and "\<And>i. i < length (rn_inputs R) \<Longrightarrow> \<exists>r. checked R i = Inr r"
  shows "m \<le> 4 * length (rn_inputs R) + nat (op_Concurrency (Defaults (rn_options R))) + 1 \<and>
    (\<exists>t. (pool_step R)\<^sup>*\<^sup>* s t \<and> drained t)"
  using steps_todo [OF assms(1)] start_todo [of R] pool_drains [OF assms(2) steps_reach [OF assms(1)]] by auto

theorem pool_terminates_witness: "\<exists>t. (pool_step demo_run)\<^sup>*\<^sup>* (start_pool demo_run) t \<and> drained t"
  using pool_terminates [of 0 demo_run "start_pool demo_run", OF _ demo_run_checks] by simp

section \<open>The checker\<close>

text \<open>C35: the result of a check is well formed: a link that does not parse is reported as invalid
  with the parser's error; any other is reported live or dead under its own canonical link,
  live exactly when enough of at most \<open>Attempts\<close> attempts succeeded, with a route then and
  the rating its measurements give, and without rating and audit otherwise.\<close>

theorem check_reports:
  assumes "check P (Defaults op) input w = (Inr r, w')"
  shows "case Parse input of
      Inl e \<Rightarrow> r = no_result\<lparr>rs_Input := input, rs_Status := StatusInvalid, rs_Error := err_text e\<rparr>
    | Inr t \<Rightarrow> report_ok (Defaults op) input t r"
  using assms check_valid [OF Defaults_ok] by (cases "Parse input") (auto simp: check_invalid)

theorem check_reports_witness:
  "\<exists>r w' t. check demo_web_params (Defaults demo_options) demo_link silent_net = (Inr r, w') \<and> Parse demo_link = Inr t \<and>
     report_ok (Defaults demo_options) demo_link t r"
proof -
  obtain r w' where c: "check demo_web_params (Defaults demo_options) demo_link silent_net = (Inr r, w')"
    using demo_check unfolding demo_options_ok(2) by blast
  obtain t where "Parse demo_link = Inr t" using demo_link_parses by blast
  with check_reports [OF c] c show ?thesis by auto
qed



section \<open>Links and reports\<close>

text \<open>C37: the canonical link of a target that was parsed is a link for the same proxy: it parses to
  the same kind, host and secret bytes; to the same port, except that a WEB proxy's link carries no
  port and comes back with 443; a SOCKS5 link to the same credentials, an MTProto or WEB link to
  the same secret.  The host must have no space at its ends.  The link of a plain TCP endpoint is
  just its address, and there the host must have no slash and no brackets either: with them
  the address can be unreadable (\<open>canonical_tcp_lost\<close> of \<open>Samples\<close>).\<close>

theorem canonical_link_roundtrip:
  assumes "Parse raw = Inr t" "trim_space (t_Host t) = t_Host t"
    and "t_Kind t = KindTCP \<longrightarrow> set (t_Host t) \<inter> {CHR ''/'', CHR ''['', CHR '']''} = {}"
  shows "\<exists>u. Parse (Canonical t) = Inr u \<and> t_Kind u = t_Kind t \<and> t_Host u = t_Host t \<and>
     t_Port u = (if t_Kind t = KindWebProxy then 443 else t_Port t) \<and> t_secret u = t_secret t \<and>
     (case t_Kind t of
        KindSocks5 \<Rightarrow> t_Username u = t_Username t \<and> t_Password u = t_Password t
      | KindTCP \<Rightarrow> True
      | _ \<Rightarrow> t_Secret u = t_Secret t)"
proof -
  note ok = Parse_ok [OF assms(1)]
  show ?thesis
  proof (cases "t_Kind t")
    case KindMTProto
    from canonical_mtproto [OF ok this assms(2)] KindMTProto show ?thesis by auto
  next
    case KindWebProxy
    from canonical_webproxy [OF ok this assms(2)] KindWebProxy show ?thesis by auto
  next
    case KindSocks5
    have e: "t_secret t = []" using ok KindSocks5 by (simp add: target_ok_def)
    obtain u where u: "Parse (Canonical t) = Inr u" "t_Kind u = KindSocks5" "t_Host u = t_Host t" "t_Port u = t_Port t"
      "t_Username u = t_Username t" "t_Password u = t_Password t"
      using canonical_socks [OF ok KindSocks5 assms(2)] by blast
    have "t_secret u = []" using Parse_ok [OF u(1)] u(2) by (simp add: target_ok_def)
    with u e KindSocks5 show ?thesis by auto
  next
    case KindTCP
    have e: "t_secret t = []" using ok KindTCP by (simp add: target_ok_def)
    obtain u where u: "Parse (Canonical t) = Inr u" "t_Kind u = KindTCP" "t_Host u = t_Host t" "t_Port u = t_Port t"
      using canonical_tcp [OF ok KindTCP assms(2)] assms(3) KindTCP by blast
    have "t_secret u = []" using Parse_ok [OF u(1)] u(2) by (simp add: target_ok_def)
    with u e KindTCP show ?thesis by auto
  qed
qed

theorem canonical_link_roundtrip_witness:
  "(\<exists>t u. Parse demo_link = Inr t \<and> Parse (Canonical t) = Inr u \<and> t_Host u = ''a.b'' \<and> t_Port u = 443) \<and>
   (\<exists>t u. Parse ''[::1]:80'' = Inr t \<and> Parse (Canonical t) = Inr u \<and> t_Host u = ''::1'' \<and> t_Port u = 80)"
proof
  have "case Parse demo_link of Inr t \<Rightarrow> t_Kind t = KindMTProto \<and> t_Host t = ''a.b'' \<and> t_Port t = 443 \<and> trim_space ''a.b'' = ''a.b''
    | Inl e \<Rightarrow> False" by code_simp
  then obtain t where t: "Parse demo_link = Inr t" "t_Kind t = KindMTProto" "t_Host t = ''a.b''" "t_Port t = 443" "trim_space ''a.b'' = ''a.b''"
    by (auto split: sum.splits)
  from canonical_link_roundtrip [OF t(1)] t
  show "\<exists>t u. Parse demo_link = Inr t \<and> Parse (Canonical t) = Inr u \<and> t_Host u = ''a.b'' \<and> t_Port u = 443" by auto
  have "case Parse ''[::1]:80'' of Inr t \<Rightarrow> t_Kind t = KindTCP \<and> t_Host t = ''::1'' \<and> t_Port t = 80 \<and> trim_space ''::1'' = ''::1''
    | Inl e \<Rightarrow> False" by code_simp
  then obtain t where t: "Parse ''[::1]:80'' = Inr t" "t_Kind t = KindTCP" "t_Host t = ''::1''" "t_Port t = 80" "trim_space ''::1'' = ''::1''"
    by (auto split: sum.splits)
  have h: "trim_space (t_Host t) = t_Host t" "t_Kind t = KindTCP \<longrightarrow> set (t_Host t) \<inter> {CHR ''/'', CHR ''['', CHR '']''} = {}"
    using t(3,5) by simp_all
  obtain u where "Parse (Canonical t) = Inr u" "t_Host u = t_Host t" "t_Port u = (if t_Kind t = KindWebProxy then 443 else t_Port t)"
    using canonical_link_roundtrip [OF t(1) h] by blast
  with t show "\<exists>t u. Parse ''[::1]:80'' = Inr t \<and> Parse (Canonical t) = Inr u \<and> t_Host u = ''::1'' \<and> t_Port u = 80" by auto
qed

text \<open>C38: the CSV report, read by the quoting rules of RFC 4180 with the LF line ends that
  \<open>encoding/csv\<close> writes, is a line with the names of \<open>csv_columns\<close> and then, for each result in
  order, a line with what each of these columns says of the result, whatever the links, errors
  and titles contain.\<close>

theorem csv_reads_back:
  "\<exists>out. CSV rs = Inr out \<and> read_csv out = Some (map fst csv_columns # map (\<lambda>r. map (\<lambda>(_, cell). cell r) csv_columns) rs)"
  by (rule CSV_columns)

section \<open>The program\<close>



section \<open>SOCKS5\<close>

text \<open>C40: when \<open>socks5Connect\<close> succeeds.  The address must split into a host and a decimal port.  The
  server's side must be: version 5 and a method, which is "none" or, with credentials of at most
  255 bytes, "username/password" followed by its success; then a CONNECT reply with success and
  a bound address of any of the three types.  The client then has written, in this order, a
  greeting that offers one method (username/password when it has credentials, none otherwise),
  the credentials when the server chose that method, and a CONNECT request for the host as an IPv4
  address, an IPv6 address or a name, with the port in big-endian order; and it has read exactly
  the server's side.  This is wider than RFC 1928 and RFC 1929 on the server's side: the method
  need not be the one that was offered, so that a login can be skipped, or made with empty
  credentials; the reserved byte is not looked at.  A greeting that must be written, and all other
  messages, need a connection that takes them.\<close>

theorem socks5_handshake_iff:
  "socks5Connect username password dst c = (Inr (), c') \<longleftrightarrow>
     (\<exists>m rsv addr host portText port rest.
        (m = 0x00 \<or> m = 0x02 \<and> length username \<le> 255 \<and> length password \<le> 255) \<and>
        ((\<exists>a. addr = 0x01 # a \<and> length a = 4 + 2) \<or> (\<exists>a. addr = 0x04 # a \<and> length a = 16 + 2) \<or>
         (\<exists>n a. addr = 0x03 # n # a \<and> length a = unat n + 2)) \<and>
        SplitHostPort dst = Inr (host, portText) \<and> atoi portText = Inr port \<and>
        incoming c = [0x05, m] @ (if m = 0x02 then [0x01, 0x00] else []) @ [0x05, 0x00, rsv] @ addr @ rest \<and>
        (let sent = [[0x05, 0x01, if username = [] \<and> password = [] then 0x00 else 0x02]]
           @ (if m = 0x02 then [[0x01, word_of_nat (length username)] @ str_bytes username
                @ [word_of_nat (length password)] @ str_bytes password] else [])
           @ [[0x05, 0x01, 0x00]
               @ (case ParseIP host of
                    None \<Rightarrow> [0x03, word_of_nat (length host)] @ str_bytes host
                  | Some ip \<Rightarrow> (case ip_To4 ip of Some v4 \<Rightarrow> [0x01] @ v4 | None \<Rightarrow> [0x04] @ ip))
               @ [word_of_int (port div 256), word_of_int port]]
         in length sent \<le> wleft c \<and>
            c' = c\<lparr>incoming := rest, wleft := wleft c - length sent, outgoing := outgoing c @ sent\<rparr>))"
proof -
  have b: "bound_address addr \<longleftrightarrow> (\<exists>a. addr = 0x01 # a \<and> length a = 4 + 2) \<or> (\<exists>a. addr = 0x04 # a \<and> length a = 16 + 2) \<or>
         (\<exists>n a. addr = 0x03 # n # a \<and> length a = unat n + 2)" for addr
    by (auto simp: bound_address.simps)
  have q: "socks5ConnectRequest dst = Inr request \<longleftrightarrow> (\<exists>host portText port. SplitHostPort dst = Inr (host, portText) \<and> atoi portText = Inr port \<and>
     request = [0x05, 0x01, 0x00]
       @ (case ParseIP host of
            None \<Rightarrow> [0x03, word_of_nat (length host)] @ str_bytes host
          | Some ip \<Rightarrow> (case ip_To4 ip of Some v4 \<Rightarrow> [0x01] @ v4 | None \<Rightarrow> [0x04] @ ip))
       @ [word_of_int (port div 256), word_of_int port])" for request
    by (auto simp: socks5ConnectRequest_def res_bind_eq_Inr)
  have g: "client_writes m username password request = [[0x05, 0x01, if username = [] \<and> password = [] then 0x00 else 0x02]]
       @ (if m = 0x02 then [[0x01, word_of_nat (length username)] @ str_bytes username
            @ [word_of_nat (length password)] @ str_bytes password] else []) @ [request]" for m request
    by (simp add: client_writes_def greeting_def auth_request_def)
  have t: "server_transcript m rsv addr @ rest = [0x05, m] @ (if m = 0x02 then [0x01, 0x00] else []) @ [0x05, 0x00, rsv] @ addr @ rest"
    for m rsv addr rest by (simp add: server_transcript_def auth_answer_def)
  have x: "(\<exists>m rsv addr request rest. A m \<and> B addr \<and> (\<exists>h pt p. S h pt \<and> T pt p \<and> request = R h p) \<and>
        I m rsv addr rest \<and> W m request \<and> F m request rest) \<longleftrightarrow>
      (\<exists>m rsv addr h pt p rest. A m \<and> B addr \<and> S h pt \<and> T pt p \<and> I m rsv addr rest \<and> W m (R h p) \<and> F m (R h p) rest)"
    for A B S T R I W F by blast
  show ?thesis unfolding socks5Connect_iff b q g t Let_def by (rule x)
qed

end
